(* ===== verification/Prelude.thy ===== *)
theory Prelude
  imports Main "HOL-Library.Word"
begin

text \<open>
  Shared vocabulary of the development: byte and word types, runs of deterministic
  machines, and the interfaces (locales) that the components provide and rely on:
  machines with an invariant, simulations between machines, keyed stores, byte codecs and
  bounded queues. The lemmas of a locale are proved here once; every component
  interprets them on its own operations.
\<close>

type_synonym byte = "8 word"
type_synonym bytes = "byte list"
type_synonym u16 = "16 word"
type_synonym u32 = "32 word"
type_synonym u64 = "64 word"

named_theorems machine_defs "definitions of the operations of a state machine"
named_theorems store_laws "lookup after an update of a keyed store"

subsection \<open>Runs of deterministic machines\<close>

fun run :: "('s \<Rightarrow> 'e \<Rightarrow> 's) \<Rightarrow> 's \<Rightarrow> 'e list \<Rightarrow> 's" where
  "run f s [] = s"
| "run f s (e # es) = run f (f s e) es"

lemma run_append [simp]: "run f s (xs @ ys) = run f (run f s xs) ys"
  by (induction xs arbitrary: s) auto

locale invariant_machine =
  fixes step :: "'s \<Rightarrow> 'e \<Rightarrow> 's"
    and inv :: "'s \<Rightarrow> bool"
  assumes step_inv: "inv s \<Longrightarrow> inv (step s e)"
begin

lemma run_inv: "inv s \<Longrightarrow> inv (run step s es)"
  by (induction es arbitrary: s) (auto intro: step_inv)

end

locale simulation = invariant_machine step inv
  for step :: "'s \<Rightarrow> 'e \<Rightarrow> 's" and inv :: "'s \<Rightarrow> bool" +
  fixes astep :: "'a \<Rightarrow> 'e \<Rightarrow> 'a"
    and abs :: "'s \<Rightarrow> 'a"
  assumes step_refines: "inv s \<Longrightarrow> abs (step s e) = astep (abs s) e"
begin

lemma run_refines: "inv s \<Longrightarrow> abs (run step s es) = run astep (abs s) es"
  by (induction es arbitrary: s) (auto simp: step_refines step_inv)

end

subsection \<open>Keyed stores\<close>

datatype ('k, 'v) store_op = Put 'k 'v | Del 'k

fun map_op :: "('k \<Rightarrow> 'v option) \<Rightarrow> ('k, 'v) store_op \<Rightarrow> ('k \<Rightarrow> 'v option)" where
  "map_op m (Put k v) = m(k := Some v)"
| "map_op m (Del k) = m(k := None)"

locale keyed_store =
  fixes lookup :: "'s \<Rightarrow> 'k \<Rightarrow> 'v option"
    and insert :: "'s \<Rightarrow> 'k \<Rightarrow> 'v \<Rightarrow> 's"
    and delete :: "'s \<Rightarrow> 'k \<Rightarrow> 's"
    and empty :: 's
    and inv :: "'s \<Rightarrow> bool"
  assumes lookup_empty: "lookup empty k = None"
    and lookup_insert: "inv s \<Longrightarrow> lookup (insert s k v) = (lookup s)(k := Some v)"
    and lookup_delete: "inv s \<Longrightarrow> lookup (delete s k) = (lookup s)(k := None)"
    and inv_empty: "inv empty"
    and inv_insert: "inv s \<Longrightarrow> inv (insert s k v)"
    and inv_delete: "inv s \<Longrightarrow> inv (delete s k)"
begin

fun do_op :: "'s \<Rightarrow> ('k, 'v) store_op \<Rightarrow> 's" where
  "do_op s (Put k v) = insert s k v"
| "do_op s (Del k) = delete s k"

lemma inv_do_op: "inv s \<Longrightarrow> inv (do_op s e)"
  by (cases e) (auto simp: inv_insert inv_delete)

lemma lookup_do_op: "inv s \<Longrightarrow> lookup (do_op s e) = map_op (lookup s) e"
  by (cases e) (auto simp: lookup_insert lookup_delete)

sublocale ops: simulation do_op inv map_op lookup
  by unfold_locales (auto simp: inv_do_op lookup_do_op)

lemma lookup_run: "lookup (run do_op empty es) = run map_op Map.empty es"
proof -
  have "lookup empty = Map.empty"
    by (rule ext) (simp add: lookup_empty)
  then show ?thesis
    using ops.run_refines [OF inv_empty] by simp
qed

lemma frame: "inv s \<Longrightarrow> k \<noteq> k' \<Longrightarrow> lookup (insert s k v) k' = lookup s k'"
  by (simp add: lookup_insert)

end

subsection \<open>Byte codecs\<close>

text \<open>
  A reader returns the value and the bytes after it, or nothing when the input is too
  short or malformed.
\<close>

fun read_seq :: "(byte list \<Rightarrow> ('a \<times> byte list) option) \<Rightarrow> nat \<Rightarrow> byte list \<Rightarrow> ('a list \<times> byte list) option" where
  "read_seq r 0 bs = Some ([], bs)"
| "read_seq r (Suc n) bs =
     (case r bs of None \<Rightarrow> None
      | Some (x, rest) \<Rightarrow> map_option (\<lambda>(xs, z). (x # xs, z)) (read_seq r n rest))"

locale codec =
  fixes enc :: "'a \<Rightarrow> byte list"
    and dec :: "byte list \<Rightarrow> ('a \<times> byte list) option"
    and ok :: "'a \<Rightarrow> bool"
  assumes dec_enc: "ok x \<Longrightarrow> dec (enc x @ rest) = Some (x, rest)"
begin

lemma dec_enc_nil: "ok x \<Longrightarrow> dec (enc x) = Some (x, [])"
  using dec_enc [of x "[]"] by simp

lemma enc_inj: "ok x \<Longrightarrow> ok y \<Longrightarrow> enc x = enc y \<Longrightarrow> x = y"
  by (metis dec_enc_nil fst_conv option.inject)

lemma enc_prefix_free: "ok x \<Longrightarrow> ok y \<Longrightarrow> enc x @ r = enc y @ r' \<Longrightarrow> x = y \<and> r = r'"
  by (metis dec_enc option.inject prod.inject)

lemma read_seq_enc:
  "\<forall>x\<in>set xs. ok x \<Longrightarrow> read_seq dec (length xs) (concat (map enc xs) @ rest) = Some (xs, rest)"
  by (induction xs) (auto simp: dec_enc)

end

subsection \<open>Bounded queues\<close>

datatype 'a queue_op = Offer 'a | Take

locale bounded_fifo =
  fixes contents :: "'s \<Rightarrow> 'a list"
    and offer :: "'s \<Rightarrow> 'a \<Rightarrow> bool \<times> 's"
    and take_one :: "'s \<Rightarrow> 'a option \<times> 's"
    and bound :: nat
    and inv :: "'s \<Rightarrow> bool"
  assumes offer_ok: "inv s \<Longrightarrow> length (contents s) < bound \<Longrightarrow>
             fst (offer s x) \<and> contents (snd (offer s x)) = contents s @ [x]"
    and offer_full: "inv s \<Longrightarrow> length (contents s) \<ge> bound \<Longrightarrow> offer s x = (False, s)"
    and take_some: "inv s \<Longrightarrow> contents s = x # xs \<Longrightarrow>
             fst (take_one s) = Some x \<and> contents (snd (take_one s)) = xs"
    and take_empty: "inv s \<Longrightarrow> contents s = [] \<Longrightarrow> take_one s = (None, s)"
    and inv_offer: "inv s \<Longrightarrow> inv (snd (offer s x))"
    and inv_take: "inv s \<Longrightarrow> inv (snd (take_one s))"
begin

text \<open>A session records what was accepted and what was delivered, in order.\<close>

fun session :: "'s \<times> 'a list \<times> 'a list \<Rightarrow> 'a queue_op \<Rightarrow> 's \<times> 'a list \<times> 'a list" where
  "session (s, acc, out) (Offer x) =
     (let (b, t) = offer s x in (t, if b then acc @ [x] else acc, out))"
| "session (s, acc, out) Take =
     (let (r, t) = take_one s in (t, acc, case r of None \<Rightarrow> out | Some x \<Rightarrow> out @ [x]))"

definition sound :: "'s \<times> 'a list \<times> 'a list \<Rightarrow> bool" where
  "sound c = (case c of (s, acc, out) \<Rightarrow>
     inv s \<and> acc = out @ contents s \<and> length (contents s) \<le> bound)"

lemma sound_offer: "sound (s, acc, out) \<Longrightarrow> sound (session (s, acc, out) (Offer x))"
proof (cases "length (contents s) < bound")
  case True
  assume "sound (s, acc, out)"
  with True offer_ok [of s x] inv_offer [of s x] show ?thesis
    by (auto simp: sound_def split: prod.splits)
next
  case False
  assume "sound (s, acc, out)"
  with False offer_full [of s x] show ?thesis
    by (auto simp: sound_def)
qed

lemma sound_take: "sound (s, acc, out) \<Longrightarrow> sound (session (s, acc, out) Take)"
proof (cases "contents s")
  case Nil
  assume "sound (s, acc, out)"
  with Nil take_empty [of s] show ?thesis
    by (auto simp: sound_def)
next
  case (Cons y ys)
  assume "sound (s, acc, out)"
  with Cons take_some [of s y ys] inv_take [of s] show ?thesis
    by (auto simp: sound_def split: prod.splits)
qed

lemma sound_session: "sound c \<Longrightarrow> sound (session c e)"
  by (cases c; cases e) (simp_all only: sound_offer sound_take)

sublocale hist: invariant_machine session sound
  by unfold_locales (rule sound_session)

lemma fifo_order:
  assumes "inv s" and "contents s = []" and "run session (s, [], []) es = (t, acc, out)"
  shows "acc = out @ contents t \<and> length (contents t) \<le> bound"
proof -
  have "sound (s, [], [])"
    using assms(1,2) by (simp add: sound_def)
  from hist.run_inv [OF this, of es] assms(3) show ?thesis
    by (simp add: sound_def)
qed

end

end
