(* ===== verification/Tables.thy ===== *)
theory Tables
  imports Prelude "HOL-Library.AList"
begin

text \<open>
  \<open>std::unordered_map\<close> and \<open>std::map\<close> as association lists with distinct keys: lookup is
  \<open>map_of\<close>, \<open>m[k] = v\<close> replaces or appends, \<open>erase\<close> deletes, \<open>size\<close> is the length.
  The laws are those of the keyed-store interface.
\<close>

type_synonym ('k, 'v) table = "('k \<times> 'v) list"

definition tbl_set :: "('k, 'v) table \<Rightarrow> 'k \<Rightarrow> 'v \<Rightarrow> ('k, 'v) table" where
  "tbl_set t k v = AList.update k v t"

definition tbl_del :: "('k, 'v) table \<Rightarrow> 'k \<Rightarrow> ('k, 'v) table" where
  "tbl_del t k = AList.delete k t"

text \<open>\<open>auto it = m.find(k); if (it != m.end()) it->second = f(it->second)\<close>\<close>

definition tbl_adjust :: "('k, 'v) table \<Rightarrow> 'k \<Rightarrow> ('v \<Rightarrow> 'v) \<Rightarrow> ('k, 'v) table" where
  "tbl_adjust t k f = (case map_of t k of None \<Rightarrow> t | Some v \<Rightarrow> tbl_set t k (f v))"

definition tbl_ok :: "('k, 'v) table \<Rightarrow> bool" where
  "tbl_ok t \<longleftrightarrow> distinct (map fst t)"

lemma map_of_tbl_set [simp]: "map_of (tbl_set t k v) = (map_of t)(k := Some v)"
  by (simp add: tbl_set_def update_conv')

lemma map_of_tbl_del [simp]: "map_of (tbl_del t k) = (map_of t)(k := None)"
  by (simp add: tbl_del_def delete_conv')

lemma map_of_tbl_adjust [simp]:
  "map_of (tbl_adjust t k f) = (map_of t)(k := map_option f (map_of t k))"
  by (auto simp: tbl_adjust_def fun_eq_iff split: option.splits)

lemma tbl_ok_nil [simp]: "tbl_ok []"
  by (simp add: tbl_ok_def)

lemma tbl_ok_set [simp]: "tbl_ok t \<Longrightarrow> tbl_ok (tbl_set t k v)"
  by (simp add: tbl_ok_def tbl_set_def distinct_update)

lemma tbl_ok_del [simp]: "tbl_ok t \<Longrightarrow> tbl_ok (tbl_del t k)"
  by (simp add: tbl_ok_def tbl_del_def distinct_delete)

lemma tbl_ok_adjust [simp]: "tbl_ok t \<Longrightarrow> tbl_ok (tbl_adjust t k f)"
  by (simp add: tbl_adjust_def split: option.splits)

lemma length_tbl: "tbl_ok t \<Longrightarrow> length t = card (dom (map_of t))"
  by (metis distinct_card length_map dom_map_of_conv_image_fst list.set_map tbl_ok_def)

interpretation tbl: keyed_store map_of tbl_set tbl_del "[]" tbl_ok
  by unfold_locales auto

end
