(* ===== verification/Byte_Order.thy ===== *)
theory Byte_Order
  imports Prelude
begin

text \<open>
  Splitting machine words into bytes and joining them again, in the two orders the
  programs use: least significant byte first (\<open>buf.push_back(v); buf.push_back(v >> 8)\<close>,
  the frame lengths and the 4G TLV) and most significant byte first (PFCP, GTP, Diameter,
  pcap headers).
\<close>

unbundle bit_operations_syntax

definition byte_at :: "nat \<Rightarrow> 'a::len word \<Rightarrow> byte" where
  "byte_at k w = ucast (drop_bit (8 * k) w)"

definition le16 :: "u16 \<Rightarrow> bytes" where
  "le16 w = [byte_at 0 w, byte_at 1 w]"

definition le32 :: "u32 \<Rightarrow> bytes" where
  "le32 w = [byte_at 0 w, byte_at 1 w, byte_at 2 w, byte_at 3 w]"

definition be16 :: "u16 \<Rightarrow> bytes" where
  "be16 w = [byte_at 1 w, byte_at 0 w]"

definition be32 :: "u32 \<Rightarrow> bytes" where
  "be32 w = [byte_at 3 w, byte_at 2 w, byte_at 1 w, byte_at 0 w]"

definition be64 :: "u64 \<Rightarrow> bytes" where
  "be64 w = [byte_at 7 w, byte_at 6 w, byte_at 5 w, byte_at 4 w,
             byte_at 3 w, byte_at 2 w, byte_at 1 w, byte_at 0 w]"

definition join16 :: "byte \<Rightarrow> byte \<Rightarrow> u16" where
  "join16 lo hi = ucast lo OR push_bit 8 (ucast hi)"

definition join32 :: "byte \<Rightarrow> byte \<Rightarrow> byte \<Rightarrow> byte \<Rightarrow> u32" where
  "join32 b0 b1 b2 b3 =
     ucast b0 OR push_bit 8 (ucast b1) OR push_bit 16 (ucast b2) OR push_bit 24 (ucast b3)"

lemma join16_byte_at: "join16 (byte_at 0 w) (byte_at 1 w) = w"
  unfolding join16_def byte_at_def
  by (rule bit_word_eqI) (auto simp: bit_simps)

lemma join32_byte_at: "join32 (byte_at 0 w) (byte_at 1 w) (byte_at 2 w) (byte_at 3 w) = w"
proof (rule bit_word_eqI)
  fix n
  assume "n < LENGTH(32)"
  then consider "n < 8" | "8 \<le> n" "n < 16" | "16 \<le> n" "n < 24" | "24 \<le> n" "n < 32"
    by fastforce
  then show "bit (join32 (byte_at 0 w) (byte_at 1 w) (byte_at 2 w) (byte_at 3 w)) n = bit w n"
    by cases (auto simp: join32_def byte_at_def bit_simps)
qed

lemma byte_bit_bound: "bit (b :: byte) n \<Longrightarrow> n < 8"
  using bit_imp_le_length [of b n] by simp

lemma byte_at_join32 [simp]:
  shows "byte_at 0 (join32 b0 b1 b2 b3) = b0" and "byte_at (Suc 0) (join32 b0 b1 b2 b3) = b1"
    and "byte_at 2 (join32 b0 b1 b2 b3) = b2" and "byte_at 3 (join32 b0 b1 b2 b3) = b3"
  unfolding join32_def byte_at_def
  by (rule bit_word_eqI; auto simp: bit_simps dest: byte_bit_bound)+

end
