(* ===== verification/Json_Wire.thy ===== *)
theory Json_Wire
  imports Byte_Order
begin

text \<open>
  The text layer shared by the CBRS and 5G programs: the flat JSON builder and the naive
  getter of \<open>common/wire.h\<close>, decimal printing and \<open>std::stoi\<close>, and the 4-byte
  little-endian length frames of \<open>makeFrame\<close> / \<open>n2Frame\<close> and \<open>Socket::recvFrame\<close>.
  A \<open>std::string\<close> is a list of 8-bit characters. The two getters differ only in what an
  unterminated quoted value yields, so they are one definition with that case as argument.
\<close>

abbreviation dq :: char where "dq \<equiv> CHR 0x22"
abbreviation colon :: char where "colon \<equiv> CHR 0x3A"
abbreviation comma :: char where "comma \<equiv> CHR 0x2C"
abbreviation lbrace :: char where "lbrace \<equiv> CHR 0x7B"
abbreviation rbrace :: char where "rbrace \<equiv> CHR 0x7D"

subsection \<open>Searching a string\<close>

fun starts_with :: "string \<Rightarrow> string \<Rightarrow> bool" where
  "starts_with [] s = True"
| "starts_with (p # ps) [] = False"
| "starts_with (p # ps) (c # cs) = (p = c \<and> starts_with ps cs)"

fun find_sub :: "string \<Rightarrow> string \<Rightarrow> nat option" where
  "find_sub needle [] = (if needle = [] then Some 0 else None)"
| "find_sub needle (c # cs) =
     (if starts_with needle (c # cs) then Some 0 else map_option Suc (find_sub needle cs))"

lemma starts_with_append [simp]: "starts_with p (p @ s)"
  by (induction p) auto

lemma starts_with_iff: "starts_with p s \<longleftrightarrow> (\<exists>r. s = p @ r)"
  by (induction p s rule: starts_with.induct) auto

lemma find_sub_prefix: "find_sub p (p @ s) = Some 0"
  using starts_with_append [of p s] by (cases "p @ s") auto

lemma find_sub_sound: "find_sub p s = Some i \<Longrightarrow> \<exists>a b. s = a @ p @ b \<and> length a = i"
proof (induction p s arbitrary: i rule: find_sub.induct)
  case (1 needle)
  then show ?case by (auto split: if_splits)
next
  case (2 needle c cs)
  show ?case
  proof (cases "starts_with needle (c # cs)")
    case True
    with 2 show ?thesis by (auto simp: starts_with_iff)
  next
    case False
    with "2.prems" obtain j where j: "find_sub needle cs = Some j" "i = Suc j" by auto
    from "2.IH" [OF False j(1)] obtain a b where "cs = a @ needle @ b" "length a = j" by blast
    with j(2) have "c # cs = (c # a) @ needle @ b \<and> length (c # a) = i" by simp
    then show ?thesis by blast
  qed
qed

subsection \<open>The JSON builder and getter\<close>

definition json_str :: "string \<Rightarrow> string" where
  "json_str s = [dq] @ s @ [dq]"

fun json_fields :: "(string \<times> string) list \<Rightarrow> string" where
  "json_fields [] = []"
| "json_fields [(k, v)] = [dq] @ k @ [dq, colon] @ v"
| "json_fields ((k, v) # kv # kvs) = [dq] @ k @ [dq, colon] @ v @ [comma] @ json_fields (kv # kvs)"

definition json_obj :: "(string \<times> string) list \<Rightarrow> string" where
  "json_obj kvs = [lbrace] @ json_fields kvs @ [rbrace]"

definition json_needle :: "string \<Rightarrow> string" where
  "json_needle key = [dq] @ key @ [dq, colon]"

definition json_value :: "(string \<Rightarrow> string) \<Rightarrow> string \<Rightarrow> string" where
  "json_value unterminated s =
     (case s of [] \<Rightarrow> []
      | c # t \<Rightarrow>
          if c = dq then (if dq \<in> set t then takeWhile (\<lambda>x. x \<noteq> dq) t else unterminated t)
          else takeWhile (\<lambda>x. x \<noteq> comma \<and> x \<noteq> rbrace) s)"

definition json_get_with :: "(string \<Rightarrow> string) \<Rightarrow> string \<Rightarrow> string \<Rightarrow> string" where
  "json_get_with unterminated text key =
     (case find_sub (json_needle key) text of
        None \<Rightarrow> []
      | Some p \<Rightarrow> json_value unterminated (drop (p + length (json_needle key)) text))"

definition cbrs_get :: "string \<Rightarrow> string \<Rightarrow> string" where
  "cbrs_get = json_get_with (\<lambda>_. [])"

definition core_get :: "string \<Rightarrow> string \<Rightarrow> string" where
  "core_get = json_get_with (\<lambda>t. t)"

subsection \<open>Reading back what the builder wrote\<close>

definition quotefree :: "string \<Rightarrow> bool" where
  "quotefree s \<longleftrightarrow> dq \<notin> set s"

text \<open>A key of the fixed schemas: not empty, and none of the characters JSON gives a meaning.\<close>

definition ident :: "string \<Rightarrow> bool" where
  "ident k \<longleftrightarrow> k \<noteq> [] \<and> dq \<notin> set k \<and> colon \<notin> set k \<and> comma \<notin> set k \<and> rbrace \<notin> set k"

text \<open>A bare token ends at the next comma or brace.\<close>

definition token :: "string \<Rightarrow> bool" where
  "token v \<longleftrightarrow> dq \<notin> set v \<and> comma \<notin> set v \<and> rbrace \<notin> set v"

lemma quotefree_simps [simp]:
  "quotefree []" "quotefree (c # s) \<longleftrightarrow> c \<noteq> dq \<and> quotefree s"
  "quotefree (a @ b) \<longleftrightarrow> quotefree a \<and> quotefree b"
  by (auto simp: quotefree_def)

lemma token_quotefree: "token v \<Longrightarrow> quotefree v"
  by (simp add: token_def quotefree_def)

lemma ident_quotefree: "ident k \<Longrightarrow> quotefree k"
  by (simp add: ident_def quotefree_def)

lemma json_get_nil [simp]: "json_get_with u [] k = []"
  by (simp add: json_get_with_def json_needle_def)

lemma json_get_step:
  "\<not> starts_with (json_needle k) (c # cs) \<Longrightarrow> json_get_with u (c # cs) k = json_get_with u cs k"
  by (cases "find_sub (json_needle k) cs") (auto simp: json_get_with_def)

lemma json_get_at: "json_get_with u (json_needle k @ r) k = json_value u r"
  by (simp add: json_get_with_def find_sub_prefix)

lemma json_get_char: "c \<noteq> dq \<Longrightarrow> json_get_with u (c # cs) k = json_get_with u cs k"
  by (rule json_get_step) (simp add: json_needle_def)

lemma json_get_quotefree: "quotefree v \<Longrightarrow> json_get_with u (v @ r) k = json_get_with u r k"
  by (induction v) (auto simp: quotefree_def json_get_char)

lemma quoted_eq:
  assumes "quotefree a" and "quotefree b" and "a @ dq # r = b @ dq # s"
  shows "a = b \<and> r = s"
  using assms
proof (induction a arbitrary: b)
  case Nil
  then show ?case by (cases b) (auto simp: quotefree_def)
next
  case (Cons x xs)
  then show ?case by (cases b) (auto simp: quotefree_def)
qed

lemma json_get_open:
  assumes "quotefree k" and "quotefree a" and "a \<noteq> k \<or> c \<noteq> colon"
  shows "json_get_with u (dq # a @ dq # c # r) k = json_get_with u (dq # c # r) k"
proof -
  have "\<not> starts_with (json_needle k) (dq # a @ dq # c # r)"
    using assms quoted_eq [of a k "c # r"]
    by (auto simp: starts_with_iff json_needle_def)
  then have "json_get_with u (dq # a @ dq # c # r) k = json_get_with u (a @ dq # c # r) k"
    by (rule json_get_step)
  then show ?thesis
    using assms(2) by (simp add: json_get_quotefree)
qed

lemma json_get_close:
  assumes "ident k" and "c \<notin> set k" and "c \<noteq> dq"
  shows "json_get_with u (dq # c # r) k = json_get_with u (c # r) k"
proof (rule json_get_step)
  from assms show "\<not> starts_with (json_needle k) (dq # c # r)"
    by (cases k) (auto simp: ident_def json_needle_def)
qed

lemma json_get_other_key:
  assumes "ident k" and "quotefree k'" and "k' \<noteq> k"
  shows "json_get_with u (dq # k' @ dq # colon # r) k = json_get_with u r k"
  using assms json_get_open [of k k' colon u r]
  by (simp add: ident_quotefree json_get_close ident_def json_get_char)

definition transparent :: "(string \<Rightarrow> string) \<Rightarrow> string \<Rightarrow> string \<Rightarrow> bool" where
  "transparent u k v \<longleftrightarrow>
     (\<forall>c r. (c = comma \<or> c = rbrace) \<longrightarrow> json_get_with u (v @ c # r) k = json_get_with u (c # r) k)"

lemma transparent_str: "ident k \<Longrightarrow> quotefree v \<Longrightarrow> transparent u k (json_str v)"
  using json_get_open [of k v]
  by (auto simp: transparent_def json_str_def ident_quotefree json_get_close ident_def)

lemma transparent_quotefree: "quotefree v \<Longrightarrow> transparent u k v"
  by (simp add: transparent_def json_get_quotefree)

lemma transparent_at:
  "transparent u k v \<Longrightarrow> c = comma \<or> c = rbrace \<Longrightarrow>
   json_get_with u (v @ c # r) k = json_get_with u r k"
  by (auto simp: transparent_def json_get_char)

lemma fields_skip:
  assumes "ident k" and "quotefree k'" and "k' \<noteq> k" and "transparent u k v"
  shows "json_get_with u (json_obj [(k', v)] @ r) k = json_get_with u r k"
    and "kvs \<noteq> [] \<Longrightarrow>
      json_get_with u (json_obj ((k', v) # kvs) @ r) k = json_get_with u (json_obj kvs @ r) k"
proof -
  note go = assms json_get_other_key [OF assms(1-3)] transparent_at [OF assms(4)] json_get_char
  show "json_get_with u (json_obj [(k', v)] @ r) k = json_get_with u r k"
    by (simp add: json_obj_def go)
  show "json_get_with u (json_obj ((k', v) # kvs) @ r) k = json_get_with u (json_obj kvs @ r) k"
    if "kvs \<noteq> []"
    using that by (cases kvs) (auto simp: json_obj_def go)
qed

lemma fields_hit_str:
  assumes "quotefree v"
  shows "json_get_with u (json_obj ((k, json_str v) # kvs) @ r) k = v"
proof -
  have tw: "takeWhile (\<lambda>x. x \<noteq> dq) (v @ dq # s) = v" for s
    using assms by (subst takeWhile_append2) (auto simp: quotefree_def)
  have "json_obj ((k, json_str v) # kvs) @ r =
      lbrace # json_needle k @ dq # v @ dq #
        (if kvs = [] then rbrace # r else comma # json_fields kvs @ rbrace # r)"
    by (cases kvs) (auto simp: json_obj_def json_str_def json_needle_def)
  then show ?thesis
    by (simp add: json_get_char json_get_at json_value_def tw)
qed

lemma fields_hit_token:
  assumes "token v"
  shows "json_get_with u (json_obj ((k, v) # kvs) @ r) k = v"
proof -
  let ?P = "\<lambda>x. x \<noteq> comma \<and> x \<noteq> rbrace"
  have tw: "takeWhile ?P (v @ c # s) = v" if "c = comma \<or> c = rbrace" for c s
    using assms that by (subst takeWhile_append2) (auto simp: token_def)
  have hd: "v = [] \<or> hd v \<noteq> dq"
    using assms by (cases v) (auto simp: token_def)
  obtain c s where cs: "c = comma \<or> c = rbrace"
    and eq: "json_obj ((k, v) # kvs) @ r = lbrace # json_needle k @ v @ c # s"
    by (cases kvs) (auto simp: json_obj_def json_needle_def)
  from hd cs have "json_value u (v @ c # s) = v"
    using tw [OF cs, of s] by (cases v) (auto simp: json_value_def)
  with eq show ?thesis
    by (simp add: json_get_char json_get_at)
qed

lemma fields_nested:
  assumes "ident k" and "quotefree k'" and "k' \<noteq> k"
  shows "json_get_with u (json_obj [(k', json_obj kvs)] @ r) k =
         json_get_with u (json_obj kvs @ rbrace # r) k"
  using json_get_other_key [OF assms]
  by (simp add: json_obj_def json_get_char)

lemmas json_get_rules = fields_skip fields_hit_str fields_hit_token fields_nested

lemma json_get_obj_rules:
  shows "quotefree v \<Longrightarrow> json_get_with u (json_obj ((k, json_str v) # kvs)) k = v"
    and "token w \<Longrightarrow> json_get_with u (json_obj ((k, w) # kvs)) k = w"
    and "ident k \<Longrightarrow> quotefree k' \<Longrightarrow> k' \<noteq> k \<Longrightarrow> transparent u k v' \<Longrightarrow> kvs \<noteq> [] \<Longrightarrow>
      json_get_with u (json_obj ((k', v') # kvs)) k = json_get_with u (json_obj kvs) k"
    and "ident k \<Longrightarrow> quotefree k' \<Longrightarrow> k' \<noteq> k \<Longrightarrow> transparent u k v' \<Longrightarrow>
      json_get_with u (json_obj [(k', v')]) k = []"
    and "ident k \<Longrightarrow> quotefree k' \<Longrightarrow> k' \<noteq> k \<Longrightarrow>
      json_get_with u (json_obj [(k', json_obj kvs)]) k = json_get_with u (json_obj kvs @ [rbrace]) k"
  using fields_hit_str [of v u k kvs "[]"] fields_hit_token [of w u k kvs "[]"]
    fields_skip(2) [of k k' u v' kvs "[]"] fields_skip(1) [of k k' u v' "[]"]
    fields_nested [of k k' u kvs "[]"]
  by simp_all

text \<open>An object of quoted fields behaves as the association list it was built from.\<close>

definition str_fields :: "(string \<times> string) list \<Rightarrow> (string \<times> string) list" where
  "str_fields kvs = map (\<lambda>(k, v). (k, json_str v)) kvs"

lemma json_get_str_fields:
  assumes "ident k" and "\<forall>(k', v)\<in>set kvs. quotefree k' \<and> quotefree v" and "kvs \<noteq> []"
  shows "json_get_with u (json_obj (str_fields kvs)) k = (case map_of kvs k of None \<Rightarrow> [] | Some v \<Rightarrow> v)"
  using assms(2,3)
proof (induction kvs)
  case Nil
  then show ?case by simp
next
  case (Cons kv kvs)
  obtain k' v where kv: "kv = (k', v)" by fastforce
  with Cons.prems have q: "quotefree k'" "quotefree v" by auto
  note t = transparent_str [OF assms(1) q(2), of u]
  show ?case
  proof (cases "k' = k")
    case True
    with kv q show ?thesis by (simp add: str_fields_def json_get_obj_rules)
  next
    case False
    note skip = json_get_obj_rules(3,4) [OF assms(1) q(1) False t]
    show ?thesis
    proof (cases "kvs = []")
      case True
      with kv False skip(2) show ?thesis by (simp add: str_fields_def)
    next
      case nn: False
      with Cons have "json_get_with u (json_obj (str_fields kvs)) k
          = (case map_of kvs k of None \<Rightarrow> [] | Some v \<Rightarrow> v)" by simp
      with nn kv False skip(1) [of "str_fields kvs"] show ?thesis by (simp add: str_fields_def)
    qed
  qed
qed

end
