(* ===== verification/Text_Frames.thy ===== *)
theory Text_Frames
  imports Json_Wire
begin

text \<open>
  Decimal printing (\<open>std::to_string\<close>), \<open>std::stoi\<close> with its two exceptions, and the frames
  \<open>[4-byte little-endian length][text]\<close> that \<open>makeFrame\<close> / \<open>n2Frame\<close> build and
  \<open>Socket::recvFrame\<close> reads. \<open>recvFrame\<close> reads the length into a \<open>uint32_t\<close> as it lies in
  memory, so the model assumes a little-endian host, as the program does.
\<close>

subsection \<open>Line ends\<close>

abbreviation CR :: char where "CR \<equiv> CHR 0x0D"
abbreviation LF :: char where "LF \<equiv> CHR 0x0A"

text \<open>\<open>std::toupper\<close> on ASCII.\<close>

definition upper_char :: "char \<Rightarrow> char" where
  "upper_char c = (if 97 \<le> (of_char c :: nat) \<and> (of_char c :: nat) \<le> 122 then char_of ((of_char c :: nat) - 32) else c)"

subsection \<open>Decimal numbers\<close>

definition digit_char :: "nat \<Rightarrow> char" where
  "digit_char d = char_of (48 + d)"

definition is_digit :: "char \<Rightarrow> bool" where
  "is_digit c \<longleftrightarrow> 48 \<le> (of_char c :: nat) \<and> (of_char c :: nat) \<le> 57"

definition digit_val :: "char \<Rightarrow> nat" where
  "digit_val c = of_char c - 48"

fun nat_dec :: "nat \<Rightarrow> string" where
  "nat_dec n = (if n < 10 then [digit_char n] else nat_dec (n div 10) @ [digit_char (n mod 10)])"

declare nat_dec.simps [simp del]

definition json_num :: "int \<Rightarrow> string" where
  "json_num n = (if n < 0 then CHR ''-'' # nat_dec (nat (- n)) else nat_dec (nat n))"

definition dec_value :: "string \<Rightarrow> nat" where
  "dec_value s = foldl (\<lambda>a c. 10 * a + digit_val c) 0 s"

lemma digit_char_simps [simp]:
  assumes "d < 10"
  shows "digit_val (digit_char d) = d" and "is_digit (digit_char d)"
  using assms by (auto simp: digit_val_def digit_char_def is_digit_def)

lemma dec_value_snoc [simp]: "dec_value (s @ [c]) = 10 * dec_value s + digit_val c"
  by (simp add: dec_value_def)

lemma dec_value_nat_dec [simp]: "dec_value (nat_dec n) = n"
proof (induction n rule: nat_dec.induct)
  case (1 n)
  show ?case
  proof (cases "n < 10")
    case True
    then show ?thesis by (simp add: nat_dec.simps [of n] dec_value_def)
  next
    case False
    with "1.IH" show ?thesis by (subst nat_dec.simps) simp
  qed
qed

lemma nat_dec_digits: "c \<in> set (nat_dec n) \<Longrightarrow> is_digit c"
proof (induction n rule: nat_dec.induct)
  case (1 n)
  show ?case
  proof (cases "n < 10")
    case True
    with "1.prems" show ?thesis by (simp add: nat_dec.simps [of n])
  next
    case False
    with "1.prems" have "c \<in> set (nat_dec (n div 10)) \<or> c = digit_char (n mod 10)"
      by (subst (asm) nat_dec.simps) auto
    with "1.IH" False show ?thesis by auto
  qed
qed

lemma nat_dec_length: "n < 10 ^ Suc k \<Longrightarrow> length (nat_dec n) \<le> Suc k"
proof (induction k arbitrary: n)
  case 0
  then show ?case by (simp add: nat_dec.simps [of n])
next
  case (Suc k)
  then have "n div 10 < 10 ^ Suc k" by (simp add: less_mult_imp_div_less mult.commute)
  with Suc.IH show ?case by (subst nat_dec.simps) simp
qed

lemma nat_dec_not_nil [simp]: "nat_dec n \<noteq> []"
  by (subst nat_dec.simps) auto

lemma nat_dec_inj: "nat_dec m = nat_dec n \<Longrightarrow> m = n"
  by (metis dec_value_nat_dec)

lemma digit_not_special: "is_digit c \<Longrightarrow> c \<noteq> dq \<and> c \<noteq> comma \<and> c \<noteq> rbrace \<and> c \<noteq> colon \<and> c \<noteq> CHR ''-''"
  by (auto simp: is_digit_def)

lemma token_json_num [simp]: "token (json_num n)"
  using nat_dec_digits digit_not_special by (fastforce simp: token_def json_num_def)

subsection \<open>std::stoi\<close>

datatype cpp_exn = InvalidArgument | OutOfRange | RuntimeError

definition is_space :: "char \<Rightarrow> bool" where
  "is_space c \<longleftrightarrow> c = CHR '' '' \<or> (9 \<le> (of_char c :: nat) \<and> (of_char c :: nat) \<le> 13)"

text \<open>The next word of a stream, \<open>iss >> w\<close>, and what is left.\<close>

definition iss_word :: "string \<Rightarrow> string \<times> string" where
  "iss_word s = (let r = dropWhile is_space s
     in (takeWhile (\<lambda>c. \<not> is_space c) r, dropWhile (\<lambda>c. \<not> is_space c) r))"

definition stoi_signed :: "string \<Rightarrow> cpp_exn + int" where
  "stoi_signed s =
     (let (neg, t) = (case s of [] \<Rightarrow> (False, [])
                      | c # cs \<Rightarrow> if c = CHR ''-'' then (True, cs)
                                  else if c = CHR ''+'' then (False, cs) else (False, s));
          ds = takeWhile is_digit t;
          v = (if neg then - int (dec_value ds) else int (dec_value ds))
      in if ds = [] then Inl InvalidArgument
         else if v < - (2 ^ 31) \<or> v \<ge> 2 ^ 31 then Inl OutOfRange else Inr v)"

definition stoi :: "string \<Rightarrow> cpp_exn + int" where
  "stoi s = stoi_signed (dropWhile is_space s)"

lemma stoi_empty [simp]: "stoi [] = Inl InvalidArgument"
  by (simp add: stoi_def stoi_signed_def)

lemma is_digit_space: "is_digit c \<Longrightarrow> \<not> is_space c"
  by (auto simp: is_digit_def is_space_def)

lemma nat_dec_hd: "\<exists>c cs. nat_dec n = c # cs \<and> is_digit c"
  by (metis list.exhaust nat_dec_digits nat_dec_not_nil list.set_intros(1))

lemma takeWhile_nat_dec [simp]: "takeWhile is_digit (nat_dec n) = nat_dec n"
  by (simp add: takeWhile_eq_all_conv nat_dec_digits)

lemma stoi_json_num:
  assumes "- (2 ^ 31) \<le> n" and "n < 2 ^ 31"
  shows "stoi (json_num n) = Inr n"
proof (cases "n < 0")
  case True
  have "\<not> is_space CHR ''-''" by (simp add: is_space_def)
  with True assms show ?thesis
    by (simp add: stoi_def stoi_signed_def json_num_def)
next
  case False
  obtain c cs where c: "nat_dec (nat n) = c # cs" "is_digit c"
    using nat_dec_hd by blast
  have "dropWhile is_space (nat_dec (nat n)) = nat_dec (nat n)"
    using c by (simp add: is_digit_space)
  moreover have "c \<noteq> CHR ''-'' \<and> c \<noteq> CHR ''+''"
    using c(2) by (auto simp: is_digit_def)
  moreover have "takeWhile is_digit (c # cs) = c # cs" "dec_value (c # cs) = nat n"
    using c(1) takeWhile_nat_dec [of "nat n"] dec_value_nat_dec [of "nat n"] by simp_all
  ultimately show ?thesis
    using False assms c(1) by (simp add: stoi_def stoi_signed_def json_num_def)
qed

text \<open>Both directions computed on integers, for evaluation.\<close>

function int_dec :: "int \<Rightarrow> string" where
  "int_dec n = (if n < 10 then [digit_char (nat n)] else int_dec (n div 10) @ [digit_char (nat (n mod 10))])"
  by auto
termination by (relation "measure nat") auto

declare int_dec.simps [simp del]

lemma int_dec_nat_dec: "int_dec (int n) = nat_dec n"
proof (induction n rule: nat_dec.induct)
  case (1 n)
  show ?case
  proof (cases "n < 10")
    case True
    then show ?thesis by (simp add: nat_dec.simps [of n] int_dec.simps [of "int n"])
  next
    case False
    have "int n div 10 = int (n div 10)" "nat (int n mod 10) = n mod 10"
      by (simp_all add: zdiv_int nat_mod_distrib)
    with 1 False show ?thesis
      by (subst nat_dec.simps, subst int_dec.simps) simp
  qed
qed

lemma json_num_inj: "json_num m = json_num n \<Longrightarrow> m = n"
proof -
  assume eq: "json_num m = json_num n"
  obtain c cs where c: "nat_dec (nat m) = c # cs" "is_digit c" using nat_dec_hd by blast
  obtain d ds where d: "nat_dec (nat n) = d # ds" "is_digit d" using nat_dec_hd by blast
  from eq c d digit_not_special [of c] digit_not_special [of d]
  have "(m < 0) = (n < 0)"
    by (auto simp: json_num_def split: if_splits)
  with eq show "m = n"
    by (auto simp: json_num_def split: if_splits dest!: nat_dec_inj)
qed

lemma json_num_code [code]: "json_num n = (if n < 0 then CHR ''-'' # int_dec (- n) else int_dec n)"
  using int_dec_nat_dec [of "nat n"] int_dec_nat_dec [of "nat (- n)"]
  by (cases "n < 0") (simp_all add: json_num_def)

definition dec_int :: "string \<Rightarrow> int" where
  "dec_int s = foldl (\<lambda>a c. 10 * a + int (digit_val c)) 0 s"

lemma dec_int_value: "int (dec_value s) = dec_int s"
  by (induction s rule: rev_induct) (simp_all add: dec_int_def dec_value_def)

lemma stoi_signed_code [code]: "stoi_signed s =
     (let (neg, t) = (case s of [] \<Rightarrow> (False, [])
                      | c # cs \<Rightarrow> if c = CHR ''-'' then (True, cs)
                                  else if c = CHR ''+'' then (False, cs) else (False, s));
          ds = takeWhile is_digit t;
          v = (if neg then - dec_int ds else dec_int ds)
      in if ds = [] then Inl InvalidArgument
         else if v < - 2147483648 \<or> v \<ge> 2147483648 then Inl OutOfRange else Inr v)"
  by (cases s) (simp_all add: stoi_signed_def dec_int_value Let_def)

lemma json_num_chars: "c \<in> set (json_num n) \<Longrightarrow> is_digit c \<or> c = CHR ''-''"
  by (auto simp: json_num_def split: if_splits dest: nat_dec_digits)

lemma json_num_0: "json_num 0 = ''0''"
  by code_simp

subsection \<open>Length-prefixed frames\<close>

definition char_byte :: "char \<Rightarrow> byte" where
  "char_byte c = of_char c"

definition byte_char :: "byte \<Rightarrow> char" where
  "byte_char b = char_of (unat b)"

lemma byte_char_byte [simp]: "byte_char (char_byte c) = c"
proof -
  have "unat (of_nat (of_char c) :: byte) = of_char c"
    using nat_of_char_less_256 [of c] by (simp add: unat_of_nat take_bit_nat_eq_self)
  then have "unat (of_char c :: byte) = of_char c"
    by (metis of_nat_of_char)
  then show ?thesis
    by (simp add: byte_char_def char_byte_def)
qed

lemma map_byte_char [simp]: "map (byte_char \<circ> char_byte) s = s"
  by (induction s) auto

definition make_frame :: "string \<Rightarrow> bytes" where
  "make_frame text = le32 (word_of_nat (length text)) @ map char_byte text"

definition frame_to_text :: "bytes \<Rightarrow> string" where
  "frame_to_text payload = map byte_char payload"

fun recv_frame :: "bytes \<Rightarrow> (bytes \<times> bytes) option" where
  "recv_frame (b0 # b1 # b2 # b3 # s) =
     (let plen = join32 b0 b1 b2 b3
      in if plen = 0 \<or> plen > 65536 then None
         else if unat plen \<le> length s then Some (take (unat plen) s, drop (unat plen) s)
         else None)"
| "recv_frame _ = None"

definition recv_msg :: "bytes \<Rightarrow> (string \<times> bytes) option" where
  "recv_msg stream = map_option (\<lambda>(p, r). (frame_to_text p, r)) (recv_frame stream)"

definition frame_ok :: "string \<Rightarrow> bool" where
  "frame_ok text \<longleftrightarrow> 0 < length text \<and> length text \<le> 65536"

text \<open>The check computed on integers, for evaluation.\<close>

fun len_int :: "'a list \<Rightarrow> int" where
  "len_int [] = 0"
| "len_int (x # xs) = 1 + len_int xs"

lemma len_int_length: "len_int xs = int (length xs)"
  by (induction xs) auto

lemma frame_ok_code [code]: "frame_ok t \<longleftrightarrow> 0 < len_int t \<and> len_int t \<le> 65536"
  by (auto simp: frame_ok_def len_int_length)

lemma recv_frame_le32:
  "recv_frame (le32 w @ s) =
     (if w = 0 \<or> w > 65536 then None
      else if unat w \<le> length s then Some (take (unat w) s, drop (unat w) s) else None)"
  using join32_byte_at [of w] by (simp add: le32_def)

lemma recv_make_frame:
  assumes "frame_ok text"
  shows "recv_msg (make_frame text @ rest) = Some (text, rest)"
proof -
  let ?w = "word_of_nat (length text) :: u32"
  have u: "unat ?w = length text"
    using assms by (simp add: frame_ok_def unat_of_nat take_bit_nat_eq_self)
  have "?w \<noteq> 0" "\<not> ?w > 65536"
    using assms u by (auto simp: frame_ok_def word_less_nat_alt)
  then show ?thesis
    by (simp add: recv_msg_def make_frame_def recv_frame_le32 u frame_to_text_def)
qed

interpretation frames: codec make_frame recv_msg frame_ok
  by unfold_locales (rule recv_make_frame)

lemma recv_frame_rejects:
  assumes "length text < 2 ^ 32" and "\<not> frame_ok text"
  shows "recv_msg (make_frame text @ rest) = None"
proof -
  let ?w = "word_of_nat (length text) :: u32"
  have u: "unat ?w = length text"
    using assms(1) by (simp add: unat_of_nat take_bit_nat_eq_self)
  have "?w = 0 \<or> ?w > 65536"
    using assms(2) u by (auto simp: frame_ok_def word_less_nat_alt)
  then show ?thesis
    by (simp add: recv_msg_def make_frame_def recv_frame_le32)
qed

section \<open>Numbers on a command line\<close>

text \<open>
  Numbers on a command line: \<open>std::atoi\<close> skips blanks, reads a sign and digits and gives 0 when there are
  none; a number outside the range of \<open>int\<close> is undefined (\<open>None\<close>).
\<close>

definition atoi :: "string \<Rightarrow> int option" where
  "atoi s = (case stoi s of Inr v \<Rightarrow> Some v | Inl e \<Rightarrow> if e = OutOfRange then None else Some 0)"

lemma atoi_num: "- (2 ^ 31) \<le> k \<Longrightarrow> k < 2 ^ 31 \<Longrightarrow> atoi (json_num k) = Some k"
  by (simp add: atoi_def stoi_json_num)

end
