(* ===== verification/Cbrs_Registry.thy ===== *)
theory Cbrs_Registry
  imports Tables Text_Frames
begin

text \<open>
  \<open>cbrs-domain-proxy/src/proxy/spectrum_state.h\<close> and \<open>cbsd_registry.h\<close>: the spectrum
  allocation states and the store of CBSDs a Domain Proxy knows. Every method of the class
  holds its mutex for its whole body, so each is one atomic operation on the table. Numbers
  of type \<open>double\<close> are a type parameter with a zero (the \<open>{}\<close> initialisers).
\<close>

datatype SpectrumState = UNREGISTERED | REGISTERED | GRANTED | AUTHORIZED

fun stateToString :: "SpectrumState \<Rightarrow> string" where
  "stateToString UNREGISTERED = ''UNREGISTERED''"
| "stateToString REGISTERED = ''REGISTERED''"
| "stateToString GRANTED = ''GRANTED''"
| "stateToString AUTHORIZED = ''AUTHORIZED''"

record 'd CbsdInfo =
  cbsdId :: string
  fccId :: string
  callSign :: string
  category :: string
  latitude :: 'd
  longitude :: 'd
  heightMeters :: 'd
  antennaGainDbi :: 'd
  state :: SpectrumState
  grantId :: string
  grantFreqMHz :: 'd
  grantBwMHz :: 'd
  maxEirp :: 'd

definition fresh_info :: "'d::zero CbsdInfo" where
  "fresh_info = \<lparr> cbsdId = [], fccId = [], callSign = [], category = [],
     latitude = 0, longitude = 0, heightMeters = 0, antennaGainDbi = 0,
     state = UNREGISTERED, grantId = [], grantFreqMHz = 0, grantBwMHz = 0, maxEirp = 0 \<rparr>"

type_synonym 'd registry = "(string, 'd CbsdInfo) table"

definition reg_upsert :: "'d registry \<Rightarrow> 'd CbsdInfo \<Rightarrow> 'd registry" where
  "reg_upsert r info = tbl_set r (cbsdId info) info"

definition reg_get :: "'d registry \<Rightarrow> string \<Rightarrow> 'd CbsdInfo option" where
  "reg_get r i = map_of r i"

definition reg_setState :: "'d registry \<Rightarrow> string \<Rightarrow> SpectrumState \<Rightarrow> 'd registry" where
  "reg_setState r i s = tbl_adjust r i (\<lambda>c. c\<lparr>state := s\<rparr>)"

definition reg_setGrant :: "'d registry \<Rightarrow> string \<Rightarrow> string \<Rightarrow> 'd \<Rightarrow> 'd \<Rightarrow> 'd \<Rightarrow> 'd registry" where
  "reg_setGrant r i g freq bw eirp =
     tbl_adjust r i (\<lambda>c. c\<lparr>grantId := g, grantFreqMHz := freq, grantBwMHz := bw,
                           maxEirp := eirp, state := GRANTED\<rparr>)"

definition reg_clearGrant :: "'d registry \<Rightarrow> string \<Rightarrow> 'd registry" where
  "reg_clearGrant r i = tbl_adjust r i (\<lambda>c. c\<lparr>grantId := [], state := REGISTERED\<rparr>)"

definition reg_remove :: "'d registry \<Rightarrow> string \<Rightarrow> 'd registry" where
  "reg_remove r i = tbl_del r i"

definition reg_count :: "'d registry \<Rightarrow> nat" where
  "reg_count r = length r"

text \<open>\<open>forEach\<close> calls back on a snapshot taken under the lock.\<close>

definition reg_snapshot :: "'d registry \<Rightarrow> 'd CbsdInfo list" where
  "reg_snapshot r = map snd r"

lemmas reg_defs = reg_upsert_def reg_get_def reg_setState_def reg_setGrant_def
  reg_clearGrant_def reg_remove_def

subsection \<open>The invariant of the registry\<close>

text \<open>Keys are distinct and every entry is stored under its own identifier.\<close>

definition reg_ok :: "'d registry \<Rightarrow> bool" where
  "reg_ok r \<longleftrightarrow> tbl_ok r \<and> (\<forall>i c. map_of r i = Some c \<longrightarrow> cbsdId c = i)"

lemma reg_ok_nil [simp]: "reg_ok []"
  by (simp add: reg_ok_def)

lemma reg_ok_ops [simp]:
  assumes "reg_ok r"
  shows "reg_ok (reg_upsert r info)" and "reg_ok (reg_setState r i s)"
    and "reg_ok (reg_setGrant r i g f b e)" and "reg_ok (reg_clearGrant r i)"
    and "reg_ok (reg_remove r i)"
  using assms by (auto simp: reg_ok_def reg_defs)

lemma reg_count_card: "reg_ok r \<Longrightarrow> reg_count r = card (dom (reg_get r))"
proof -
  assume "reg_ok r"
  then have "reg_count r = card (dom (map_of r))"
    by (simp add: reg_count_def reg_ok_def length_tbl)
  moreover have "reg_get r = map_of r"
    by (simp add: fun_eq_iff reg_get_def)
  ultimately show ?thesis by simp
qed

text \<open>What each operation does to a lookup; an absent key is left absent.\<close>

lemma reg_get_ops:
  shows "reg_get (reg_upsert r info) i = (if i = cbsdId info then Some info else reg_get r i)"
    and "reg_get (reg_setState r j s) i =
           (if i = j then map_option (\<lambda>c. c\<lparr>state := s\<rparr>) (reg_get r j) else reg_get r i)"
    and "reg_get (reg_setGrant r j g f b e) i =
           (if i = j then map_option (\<lambda>c. c\<lparr>grantId := g, grantFreqMHz := f, grantBwMHz := b,
                           maxEirp := e, state := GRANTED\<rparr>) (reg_get r j) else reg_get r i)"
    and "reg_get (reg_clearGrant r j) i =
           (if i = j then map_option (\<lambda>c. c\<lparr>grantId := [], state := REGISTERED\<rparr>) (reg_get r j)
            else reg_get r i)"
    and "reg_get (reg_remove r j) i = (if i = j then None else reg_get r i)"
  by (simp_all add: reg_defs)

end
