(* ===== verification/Cbrs_Sas.thy ===== *)
theory Cbrs_Sas
  imports Cbrs_Registry
begin

text \<open>
  \<open>cbrs-domain-proxy/src/sas/sas_stub.cpp\<close>: the simulated Spectrum Access System. Its state
  is the two atomic counters; one request text gives one response text or an exception that
  nothing catches (\<open>std::stod\<close> on a malformed number, in a detached thread).
  Floating point is a parameter: \<open>std::stod\<close>, \<open>operator<<\<close>, \<open><\<close>, the conversion to
  \<open>int\<close> and the literals.
\<close>

record 'd fp_ops =
  fp_stod :: "string \<Rightarrow> cpp_exn + 'd"
  fp_show :: "'d \<Rightarrow> string"
  fp_less :: "'d \<Rightarrow> 'd \<Rightarrow> bool"
  fp_to_int :: "'d \<Rightarrow> int"
  fp_lit :: "int \<Rightarrow> 'd"

text \<open>
  What the wire format relies on: a printed number is a bare token, and the order is
  irreflexive (it also is on NaN).
\<close>

definition fp_ok :: "'d fp_ops \<Rightarrow> bool" where
  "fp_ok F \<longleftrightarrow> (\<forall>x. token (fp_show F x)) \<and> (\<forall>x. \<not> fp_less F x x)"

record SasState =
  g_cbsdCounter :: u32
  g_grantCounter :: u32

definition sas_init :: SasState where
  "sas_init = \<lparr> g_cbsdCounter = 1, g_grantCounter = 1 \<rparr>"

definition makeCbsdId :: "SasState \<Rightarrow> string \<times> SasState" where
  "makeCbsdId s = (''CBSD-SAS-'' @ json_num (sint (g_cbsdCounter s)),
                   s\<lparr>g_cbsdCounter := g_cbsdCounter s + 1\<rparr>)"

definition makeGrantId :: "SasState \<Rightarrow> string \<times> SasState" where
  "makeGrantId s = (''GRANT-'' @ json_num (sint (g_grantCounter s)),
                    s\<lparr>g_grantCounter := g_grantCounter s + 1\<rparr>)"

definition sas_registration :: "string \<Rightarrow> SasState \<Rightarrow> string \<times> SasState" where
  "sas_registration req s =
     (let (newId, s') = makeCbsdId s
      in (json_obj [(''type'', json_str ''RegistrationResponse''),
                    (''cbsdId'', json_str newId),
                    (''response'', json_obj [(''responseCode'', json_num 0),
                                             (''responseMessage'', json_str ''SUCCESS'')])], s'))"

definition stod_or :: "'d fp_ops \<Rightarrow> int \<Rightarrow> string \<Rightarrow> cpp_exn + 'd" where
  "stod_or F dflt str = (if str = [] then Inr (fp_lit F dflt) else fp_stod F str)"

definition fp_cap :: "'d fp_ops \<Rightarrow> int \<Rightarrow> 'd \<Rightarrow> 'd" where
  "fp_cap F m x = (if fp_less F (fp_lit F m) x then fp_lit F m else x)"

definition grant_response :: "'d fp_ops \<Rightarrow> string \<Rightarrow> string \<Rightarrow> 'd \<Rightarrow> 'd \<Rightarrow> 'd \<Rightarrow> string" where
  "grant_response F cid gid freq bw eirp =
     json_obj [(''type'', json_str ''GrantResponse''),
               (''cbsdId'', json_str cid),
               (''grantId'', json_str gid),
               (''channelType'', json_str ''GAA''),
               (''operationFrequencyMHz'', fp_show F freq),
               (''operationBandwidthMHz'', fp_show F bw),
               (''maxEirp'', json_num (fp_to_int F eirp)),
               (''grantExpireTime'', json_num 3600),
               (''heartbeatInterval'', json_num 120),
               (''response'', json_obj [(''responseCode'', json_num 0)])]"

definition sas_grant :: "'d fp_ops \<Rightarrow> string \<Rightarrow> SasState \<Rightarrow> (cpp_exn + string) \<times> SasState" where
  "sas_grant F req s =
     (case stod_or F 3555 (cbrs_get req ''operationFrequencyMHz'') of Inl e \<Rightarrow> (Inl e, s)
      | Inr freq \<Rightarrow>
     (case stod_or F 10 (cbrs_get req ''operationBandwidthMHz'') of Inl e \<Rightarrow> (Inl e, s)
      | Inr bw \<Rightarrow>
     (case stod_or F 30 (cbrs_get req ''maxEirp'') of Inl e \<Rightarrow> (Inl e, s)
      | Inr eirp \<Rightarrow>
        let (gid, s') = makeGrantId s
        in (Inr (grant_response F (cbrs_get req ''cbsdId'') gid freq (fp_cap F 20 bw) (fp_cap F 30 eirp)), s'))))"

definition sas_heartbeat :: "string \<Rightarrow> string" where
  "sas_heartbeat req =
     json_obj [(''type'', json_str ''HeartbeatResponse''),
               (''cbsdId'', json_str (cbrs_get req ''cbsdId'')),
               (''grantId'', json_str (cbrs_get req ''grantId'')),
               (''transmitExpireTime'', json_num 3600),
               (''heartbeatInterval'', json_num 120),
               (''response'', json_obj [(''responseCode'', json_num 0)])]"

definition sas_relinquish :: "string \<Rightarrow> string" where
  "sas_relinquish req =
     json_obj [(''type'', json_str ''RelinquishmentResponse''),
               (''cbsdId'', json_str (cbrs_get req ''cbsdId'')),
               (''grantId'', json_str (cbrs_get req ''grantId'')),
               (''response'', json_obj [(''responseCode'', json_num 0)])]"

definition sas_deregister :: "string \<Rightarrow> string" where
  "sas_deregister req =
     json_obj [(''type'', json_str ''DeregistrationResponse''),
               (''cbsdId'', json_str (cbrs_get req ''cbsdId'')),
               (''response'', json_obj [(''responseCode'', json_num 0)])]"

definition sas_unknown :: string where
  "sas_unknown =
     json_obj [(''type'', json_str ''ErrorResponse''),
               (''response'', json_obj [(''responseCode'', json_num 103),
                                        (''responseMessage'', json_str ''INVALID_VALUE'')])]"

text \<open>One iteration of the loop in \<open>handleDpConnection\<close>, between receive and send.\<close>

definition sas_handle :: "'d fp_ops \<Rightarrow> string \<Rightarrow> SasState \<Rightarrow> (cpp_exn + string) \<times> SasState" where
  "sas_handle F req s =
     (let type = cbrs_get req ''type'' in
      if type = ''RegistrationRequest'' then
        (let (resp, s') = sas_registration req s in (Inr resp, s'))
      else if type = ''GrantRequest'' then sas_grant F req s
      else if type = ''HeartbeatRequest'' then (Inr (sas_heartbeat req), s)
      else if type = ''RelinquishmentRequest'' then (Inr (sas_relinquish req), s)
      else if type = ''DeregistrationRequest'' then (Inr (sas_deregister req), s)
      else (Inr sas_unknown, s))"

subsection \<open>The fields of the responses\<close>

lemma literal_keys [simp]:
  shows "ident ''type''" and "ident ''cbsdId''" and "ident ''grantId''" and "ident ''responseCode''"
    and "ident ''operationFrequencyMHz''" and "ident ''operationBandwidthMHz''" and "ident ''maxEirp''"
  by (simp_all add: ident_def)

lemma quotefree_json_num [simp]: "quotefree (json_num n)"
  by (rule token_quotefree) simp

lemma quotefree_fp_show: "fp_ok F \<Longrightarrow> quotefree (fp_show F x)"
  by (rule token_quotefree) (simp add: fp_ok_def)

lemmas wire_simps = cbrs_get_def core_get_def json_get_obj_rules json_get_rules
  transparent_str transparent_quotefree token_quotefree

definition clean_req :: "string \<Rightarrow> bool" where
  "clean_req req \<longleftrightarrow> quotefree (cbrs_get req ''cbsdId'') \<and> quotefree (cbrs_get req ''grantId'')"

lemma registration_fields:
  assumes "sas_registration req s = (resp, s')"
  shows "cbrs_get resp ''type'' = ''RegistrationResponse''"
    and "cbrs_get resp ''responseCode'' = ''0''"
    and "cbrs_get resp ''cbsdId'' = fst (makeCbsdId s)"
    and "s' = snd (makeCbsdId s)"
  using assms
  by (auto simp: sas_registration_def makeCbsdId_def Let_def wire_simps json_num_0 [symmetric])


lemma quotefree_grant_id [simp]: "quotefree (fst (makeGrantId s))"
  by (simp add: makeGrantId_def)

lemma grant_fields:
  assumes "fp_ok F" and "quotefree cid" and "quotefree gid"
  shows "cbrs_get (grant_response F cid gid f b e) ''type'' = ''GrantResponse''"
    and "cbrs_get (grant_response F cid gid f b e) ''cbsdId'' = cid"
    and "cbrs_get (grant_response F cid gid f b e) ''grantId'' = gid"
    and "cbrs_get (grant_response F cid gid f b e) ''operationFrequencyMHz'' = fp_show F f"
    and "cbrs_get (grant_response F cid gid f b e) ''operationBandwidthMHz'' = fp_show F b"
    and "cbrs_get (grant_response F cid gid f b e) ''responseCode'' = ''0''"
    and "cbrs_get (grant_response F cid gid f b e) ''maxEirp'' = json_num (fp_to_int F e)"
  using assms
  by (auto simp: grant_response_def wire_simps json_num_0 [symmetric] quotefree_fp_show fp_ok_def)

lemma heartbeat_fields:
  assumes "clean_req req"
  shows "cbrs_get (sas_heartbeat req) ''type'' = ''HeartbeatResponse''"
    and "cbrs_get (sas_heartbeat req) ''responseCode'' = ''0''"
  using assms
  by (auto simp: sas_heartbeat_def wire_simps json_num_0 [symmetric] clean_req_def)

lemma relinquish_fields:
  assumes "clean_req req"
  shows "cbrs_get (sas_relinquish req) ''type'' = ''RelinquishmentResponse''"
    and "cbrs_get (sas_relinquish req) ''responseCode'' = ''0''"
  using assms
  by (auto simp: sas_relinquish_def wire_simps json_num_0 [symmetric] clean_req_def)

lemma deregister_fields: "cbrs_get (sas_deregister req) ''type'' = ''DeregistrationResponse''"
  by (simp add: sas_deregister_def wire_simps)

lemma unknown_fields:
  "cbrs_get sas_unknown ''type'' = ''ErrorResponse''"
  "cbrs_get sas_unknown ''responseCode'' = json_num 103"
  by (simp_all add: sas_unknown_def wire_simps)

subsection \<open>Identifiers the service hands out\<close>

definition cbsd_id_of :: "nat \<Rightarrow> string" where
  "cbsd_id_of n = ''CBSD-SAS-'' @ json_num (sint (word_of_nat (Suc n) :: u32))"

lemma cbsd_id_of_inj:
  assumes "cbsd_id_of m = cbsd_id_of n" and "m < 2 ^ 32" and "n < 2 ^ 32"
  shows "m = n"
proof -
  from assms(1) have "sint (word_of_nat (Suc m) :: u32) = sint (word_of_nat (Suc n) :: u32)"
    by (auto simp: cbsd_id_of_def dest: json_num_inj)
  then have "(word_of_nat (Suc m) :: u32) = word_of_nat (Suc n)"
    by (rule signed_word_eqI)
  then have "(word_of_nat m :: u32) = word_of_nat n"
    by simp
  then have "unat (word_of_nat m :: u32) = unat (word_of_nat n :: u32)"
    by simp
  with assms(2,3) show ?thesis
    by (simp add: unat_of_nat take_bit_nat_eq_self)
qed

lemma makeCbsdId_nth:
  "g_cbsdCounter s = word_of_nat (Suc n) \<Longrightarrow>
   fst (makeCbsdId s) = cbsd_id_of n \<and> g_cbsdCounter (snd (makeCbsdId s)) = word_of_nat (Suc (Suc n))"
  by (simp add: makeCbsdId_def cbsd_id_of_def)

lemma cbsd_id_of_not_nil [simp]: "cbsd_id_of n \<noteq> []"
  by (simp add: cbsd_id_of_def)

lemma quotefree_cbsd_id_of [simp]: "quotefree (cbsd_id_of n)"
  by (simp add: cbsd_id_of_def)

end
