(* ===== verification/Cbrs_Proxy.thy ===== *)
theory Cbrs_Proxy
  imports Cbrs_Sas
begin

text \<open>
  \<open>cbrs-domain-proxy/src/proxy/domain_proxy.cpp\<close>: the Domain Proxy. \<open>handleCbsd\<close> runs one
  loop iteration per message of its CBSD: read the entry, reject an illegal message, or
  forward it to the SAS under \<open>g_sas_mtx\<close> and update the registry from the answer. Between
  those three points other connection threads may run, so the iteration is three steps
  (receive, exchange with the SAS, finish), and a schedule is an explicit list of events.
\<close>

subsection \<open>The parts of one loop iteration\<close>

definition dp_info :: "'d::zero registry \<Rightarrow> string \<Rightarrow> 'd CbsdInfo" where
  "dp_info r my =
     (if my = [] then fresh_info
      else case reg_get r my of None \<Rightarrow> fresh_info | Some c \<Rightarrow> c)"

definition grant_reject :: string where
  "grant_reject = json_obj [(''type'', json_str ''GrantResponse''),
     (''response'', json_obj [(''responseCode'', json_num 103),
                              (''responseMessage'', json_str ''Must be REGISTERED first'')])]"

definition heartbeat_reject :: string where
  "heartbeat_reject = json_obj [(''type'', json_str ''HeartbeatResponse''),
     (''response'', json_obj [(''responseCode'', json_num 400),
                              (''responseMessage'', json_str ''TERMINATED_GRANT'')])]"

text \<open>The state machine guard: the error reply, or nothing when the message is forwarded.\<close>

definition dp_guard :: "'d::zero registry \<Rightarrow> string \<Rightarrow> string \<Rightarrow> string option" where
  "dp_guard r my req =
     (let type = cbrs_get req ''type''; st = state (dp_info r my) in
      if type = ''GrantRequest'' \<and> st \<noteq> REGISTERED then Some grant_reject
      else if type = ''HeartbeatRequest'' \<and> st \<noteq> GRANTED \<and> st \<noteq> AUTHORIZED then Some heartbeat_reject
      else None)"

definition stod_or_zero :: "'d::zero fp_ops \<Rightarrow> string \<Rightarrow> 'd" where
  "stod_or_zero F str = (case fp_stod F str of Inl _ \<Rightarrow> 0 | Inr d \<Rightarrow> d)"

definition registered_info :: "string \<Rightarrow> string \<Rightarrow> 'd::zero CbsdInfo" where
  "registered_info cid req =
     fresh_info\<lparr>cbsdId := cid, fccId := cbrs_get req ''fccId'', callSign := cbrs_get req ''callSign'',
       category := cbrs_get req ''cbsdCategory'', state := REGISTERED\<rparr>"

text \<open>
  After the answer of the SAS: the new registry, the identifier the thread goes on with, and
  whether it leaves its loop. The answer itself is passed on to the CBSD in every case.
\<close>

definition dp_complete ::
  "'d::zero fp_ops \<Rightarrow> 'd registry \<Rightarrow> string \<Rightarrow> string \<Rightarrow> string \<Rightarrow> 'd registry \<times> string \<times> bool" where
  "dp_complete F r my req resp =
     (let respType = cbrs_get resp ''type''; rc = cbrs_get resp ''responseCode'';
          success = (rc = ''0'' \<or> rc = []) in
      if respType = ''RegistrationResponse'' \<and> success then
        (let my' = cbrs_get resp ''cbsdId'' in (reg_upsert r (registered_info my' req), my', False))
      else if respType = ''GrantResponse'' \<and> success then
        (reg_setGrant r my (cbrs_get resp ''grantId'')
           (stod_or_zero F (cbrs_get resp ''operationFrequencyMHz''))
           (stod_or_zero F (cbrs_get resp ''operationBandwidthMHz''))
           (stod_or_zero F (cbrs_get resp ''maxEirp'')), my, False)
      else if respType = ''HeartbeatResponse'' \<and> success then
        (reg_setState r my AUTHORIZED, my, False)
      else if respType = ''RelinquishmentResponse'' \<and> success then
        (reg_clearGrant r my, my, False)
      else if respType = ''DeregistrationResponse'' then (reg_remove r my, my, True)
      else (r, my, False))"

definition dp_disconnect :: "'d registry \<Rightarrow> string \<Rightarrow> 'd registry" where
  "dp_disconnect r my = (if my \<noteq> [] then reg_remove r my else r)"

subsection \<open>All connections and the SAS\<close>

datatype phase = Receiving | Waiting string | Answered string string | Closed

record ('d, 's) dp_sys =
  reg :: "'d registry"
  sas :: 's
  conn_counter :: nat
  conns :: "nat \<Rightarrow> (string \<times> phase) option"
  sent :: "(nat \<times> string) list"

datatype dp_event =
    Connect
  | Receive nat string
  | Drop nat
  | Exchange nat
  | Finish nat

definition dp_init :: "'s \<Rightarrow> ('d, 's) dp_sys" where
  "dp_init s0 = \<lparr> reg = [], sas = s0, conn_counter = 0, conns = Map.empty, sent = [] \<rparr>"

definition set_conn :: "('d, 's) dp_sys \<Rightarrow> nat \<Rightarrow> string \<Rightarrow> phase \<Rightarrow> ('d, 's) dp_sys" where
  "set_conn s i my p = s\<lparr>conns := (conns s)(i := Some (my, p))\<rparr>"

text \<open>
  The service behind the SAS socket is the argument \<open>X\<close>: a request and its state give the
  answer (empty when the exchange fails) and its next state. \<open>forwardToSas\<close> holds
  \<open>g_sas_mtx\<close> around send and receive, so the exchange is one event.
\<close>

fun dp_step ::
  "'d::zero fp_ops \<Rightarrow> (string \<Rightarrow> 's \<Rightarrow> string \<times> 's) \<Rightarrow> ('d, 's) dp_sys \<Rightarrow> dp_event \<Rightarrow> ('d, 's) dp_sys" where
  "dp_step F X s Connect =
     (set_conn s (conn_counter s) [] Receiving)\<lparr>conn_counter := Suc (conn_counter s)\<rparr>"
| "dp_step F X s (Receive i req) =
     (case conns s i of
        Some (my, Receiving) \<Rightarrow>
          (case dp_guard (reg s) my req of
             Some err \<Rightarrow> s\<lparr>sent := sent s @ [(i, err)]\<rparr>
           | None \<Rightarrow> set_conn s i my (Waiting req))
      | _ \<Rightarrow> s)"
| "dp_step F X s (Drop i) =
     (case conns s i of
        Some (my, Receiving) \<Rightarrow> (set_conn s i my Closed)\<lparr>reg := dp_disconnect (reg s) my\<rparr>
      | _ \<Rightarrow> s)"
| "dp_step F X s (Exchange i) =
     (case conns s i of
        Some (my, Waiting req) \<Rightarrow>
          (let (resp, s') = X req (sas s)
           in (set_conn s i my (Answered req resp))\<lparr>sas := s'\<rparr>)
      | _ \<Rightarrow> s)"
| "dp_step F X s (Finish i) =
     (case conns s i of
        Some (my, Answered req resp) \<Rightarrow>
          (let (r, my', closed) = dp_complete F (reg s) my req resp
           in (set_conn s i my' (if closed then Closed else Receiving))
                \<lparr>reg := r, sent := sent s @ [(i, resp)]\<rparr>)
      | _ \<Rightarrow> s)"

text \<open>
  The SAS stub as such a service: an exception in its thread terminates the process, and
  from then on the proxy's receive fails and leaves the answer empty.
\<close>

definition sas_exchange :: "'d fp_ops \<Rightarrow> string \<Rightarrow> SasState option \<Rightarrow> string \<times> SasState option" where
  "sas_exchange F req so =
     (case so of None \<Rightarrow> ([], None)
      | Some s \<Rightarrow> (case sas_handle F req s of (Inl _, _) \<Rightarrow> ([], None) | (Inr resp, s') \<Rightarrow> (resp, Some s')))"

subsection \<open>The documented life cycle of a CBSD\<close>

text \<open>States of one registry entry, an absent entry standing for UNREGISTERED.\<close>

inductive lifecycle :: "SpectrumState option \<Rightarrow> SpectrumState option \<Rightarrow> bool" where
  stay: "lifecycle s s"
| register: "lifecycle None (Some REGISTERED)"
| grant: "lifecycle (Some REGISTERED) (Some GRANTED)"
| authorize: "lifecycle (Some GRANTED) (Some AUTHORIZED)"
| relinquish: "s = GRANTED \<or> s = AUTHORIZED \<Longrightarrow> lifecycle (Some s) (Some REGISTERED)"
| leave: "lifecycle (Some s) None"

inductive_simps lifecycle_from_none: "lifecycle None t"
inductive_simps lifecycle_to_authorized: "lifecycle s (Some AUTHORIZED)"
inductive_simps lifecycle_to_granted: "lifecycle s (Some GRANTED)"

definition entry_state :: "'d registry \<Rightarrow> string \<Rightarrow> SpectrumState option" where
  "entry_state r k = map_option state (reg_get r k)"

subsection \<open>What the proxy needs of the service\<close>

abbreviation ty :: "string \<Rightarrow> string" where
  "ty m \<equiv> cbrs_get m ''type''"

definition resp_ok :: "string \<Rightarrow> string \<Rightarrow> bool" where
  "resp_ok req resp \<longleftrightarrow>
     ty resp = ''RegistrationResponse''
     \<or> (ty resp = ''GrantResponse'' \<and> ty req = ''GrantRequest'' \<and> cbrs_get resp ''grantId'' \<noteq> [])
     \<or> (ty resp = ''HeartbeatResponse'' \<and> ty req = ''HeartbeatRequest'')
     \<or> (ty resp \<noteq> ''RegistrationResponse'' \<and> ty resp \<noteq> ''GrantResponse'' \<and> ty resp \<noteq> ''HeartbeatResponse'')"

locale spectrum_service =
  fixes X :: "string \<Rightarrow> 's \<Rightarrow> string \<times> 's"
    and F :: "'d::zero fp_ops"
    and issued :: "'s \<Rightarrow> nat \<Rightarrow> bool"
    and id_of :: "nat \<Rightarrow> string"
    and budget :: nat
  assumes answers: "clean_req req \<Longrightarrow> X req s = (resp, s') \<Longrightarrow> resp_ok req resp"
    and fresh: "issued s n \<Longrightarrow> clean_req req \<Longrightarrow> X req s = (resp, s') \<Longrightarrow>
       ty resp = ''RegistrationResponse'' \<Longrightarrow>
       cbrs_get resp ''cbsdId'' = id_of n \<and> cbrs_get resp ''responseCode'' = ''0'' \<and> issued s' (Suc n)"
    and kept: "issued s n \<Longrightarrow> clean_req req \<Longrightarrow> X req s = (resp, s') \<Longrightarrow>
       ty resp \<noteq> ''RegistrationResponse'' \<Longrightarrow> issued s' n"
    and id_inj: "id_of m = id_of n \<Longrightarrow> m < budget \<Longrightarrow> n < budget \<Longrightarrow> m = n"
    and id_not_nil: "id_of n \<noteq> []"

definition claim :: "string \<Rightarrow> phase \<Rightarrow> string set" where
  "claim my p = (if my = [] then {} else {my}) \<union>
     (case p of Answered req resp \<Rightarrow>
        (if ty resp = ''RegistrationResponse'' then {cbrs_get resp ''cbsdId''} else {})
      | _ \<Rightarrow> {})"

definition guard_ok :: "'d::zero registry \<Rightarrow> string \<Rightarrow> phase \<Rightarrow> bool" where
  "guard_ok r my p =
     (case p of
        Waiting req \<Rightarrow> clean_req req \<and> dp_guard r my req = None
      | Answered req resp \<Rightarrow> clean_req req \<and> dp_guard r my req = None \<and> resp_ok req resp
          \<and> (ty resp = ''RegistrationResponse'' \<longrightarrow>
               cbrs_get resp ''responseCode'' = ''0'' \<and> reg_get r (cbrs_get resp ''cbsdId'') = None)
      | _ \<Rightarrow> True)"

text \<open>An entry is never UNREGISTERED, and holds a grant identifier exactly while it has a grant.\<close>

definition entry_ok :: "'d CbsdInfo \<Rightarrow> bool" where
  "entry_ok c \<longleftrightarrow> state c \<noteq> UNREGISTERED \<and> (grantId c = [] \<longleftrightarrow> state c = REGISTERED)"

fun clean_event :: "dp_event \<Rightarrow> bool" where
  "clean_event (Receive i req) = clean_req req"
| "clean_event _ = True"

end
