(* ===== verification/Cbrs_Proxy_Safety.thy ===== *)
theory Cbrs_Proxy_Safety
  imports Cbrs_Proxy
begin

text \<open>
  Safety of the Domain Proxy under every schedule of its connection threads: proved once for
  any service that hands out fresh identifiers (locale \<open>spectrum_service\<close>), and interpreted
  on the SAS stub.
\<close>

subsection \<open>One completed iteration\<close>

lemma dp_guard_cong: "my = [] \<or> reg_get r my = reg_get r' my \<Longrightarrow> dp_guard r my req = dp_guard r' my req"
  by (auto simp: dp_guard_def dp_info_def)

lemma claim_simps [simp]:
  "claim my Receiving = (if my = [] then {} else {my})"
  "claim my Closed = (if my = [] then {} else {my})"
  "claim my (Waiting req) = (if my = [] then {} else {my})"
  "claim my (Answered req resp) = (if my = [] then {} else {my}) \<union>
     (if ty resp = ''RegistrationResponse'' then {cbrs_get resp ''cbsdId''} else {})"
  by (auto simp: claim_def)

lemma guard_ok_cong:
  assumes "\<forall>k\<in>claim my p. reg_get r k = reg_get r' k"
  shows "guard_ok r my p = guard_ok r' my p"
proof -
  have "dp_guard r my req = dp_guard r' my req" for req
    by (rule dp_guard_cong) (use assms in \<open>auto simp: claim_def split: if_splits\<close>)
  with assms show ?thesis
    by (cases p) (auto simp: guard_ok_def)
qed

lemma entry_ok_registered [simp]: "entry_ok (registered_info cid req)"
  by (simp add: entry_ok_def registered_info_def fresh_info_def)

lemma registered_info_simps [simp]:
  "cbsdId (registered_info cid req) = cid" "state (registered_info cid req) = REGISTERED"
  by (simp_all add: registered_info_def)

lemma dp_guard_grant:
  assumes "dp_guard r my req = None" and "ty req = ''GrantRequest''"
  shows "my \<noteq> []" and "\<exists>c. reg_get r my = Some c \<and> state c = REGISTERED"
  using assms by (auto simp: dp_guard_def dp_info_def fresh_info_def Let_def split: if_splits option.splits)

lemma dp_guard_heartbeat:
  assumes "dp_guard r my req = None" and "ty req = ''HeartbeatRequest''"
  shows "my \<noteq> []" and "\<exists>c. reg_get r my = Some c \<and> (state c = GRANTED \<or> state c = AUTHORIZED)"
  using assms by (auto simp: dp_guard_def dp_info_def fresh_info_def Let_def split: if_splits option.splits)

text \<open>The five ways an answer is processed, as an equation for the new registry.\<close>

lemma dp_complete_cases:
  assumes "dp_complete F r my req resp = (r', my', closed)"
  obtains (reg) "ty resp = ''RegistrationResponse''" "my' = cbrs_get resp ''cbsdId''" "\<not> closed"
      "r' = reg_upsert r (registered_info my' req)"
    | (grant) f b e where "ty resp = ''GrantResponse''" "my' = my" "\<not> closed"
      "r' = reg_setGrant r my (cbrs_get resp ''grantId'') f b e"
    | (heartbeat) "ty resp = ''HeartbeatResponse''" "my' = my" "\<not> closed"
      "r' = reg_setState r my AUTHORIZED"
    | (relinquish) "ty resp = ''RelinquishmentResponse''" "my' = my" "\<not> closed"
      "r' = reg_clearGrant r my"
    | (deregister) "ty resp = ''DeregistrationResponse''" "my' = my" "closed" "r' = reg_remove r my"
    | (ignored) "my' = my" "\<not> closed" "r' = r"
  using assms unfolding dp_complete_def Let_def by (auto split: if_splits)

definition entries_ok :: "'d registry \<Rightarrow> bool" where
  "entries_ok r \<longleftrightarrow> reg_ok r \<and> (\<forall>k c. reg_get r k = Some c \<longrightarrow> entry_ok c) \<and> reg_get r [] = None"

lemma dp_complete_sound:
  assumes ok: "entries_ok r" and g: "guard_ok r my (Answered req resp)"
    and nn: "[] \<notin> claim my (Answered req resp)"
    and c: "dp_complete F r my req resp = (r', my', closed)"
  shows "entries_ok r'"
    and "\<And>k. k \<notin> claim my (Answered req resp) \<Longrightarrow> reg_get r' k = reg_get r k"
    and "claim my' (if closed then Closed else Receiving) \<subseteq> claim my (Answered req resp)"
    and "\<And>k. lifecycle (entry_state r k) (entry_state r' k)"
proof -
  have ro: "reg_ok r" and e: "\<And>k c. reg_get r k = Some c \<Longrightarrow> entry_ok c" and n: "reg_get r [] = None"
    using ok by (auto simp: entries_ok_def)
  have gd: "dp_guard r my req = None" and rok: "resp_ok req resp"
    and pend: "ty resp = ''RegistrationResponse'' \<Longrightarrow> reg_get r (cbrs_get resp ''cbsdId'') = None"
    using g by (auto simp: guard_ok_def)
  have "entries_ok r' \<and> (\<forall>k. k \<notin> claim my (Answered req resp) \<longrightarrow> reg_get r' k = reg_get r k) \<and>
     claim my' (if closed then Closed else Receiving) \<subseteq> claim my (Answered req resp) \<and>
     (\<forall>k. lifecycle (entry_state r k) (entry_state r' k))"
    using c
  proof (cases rule: dp_complete_cases)
    case reg
    then show ?thesis
      using ro e n pend nn
      by (auto simp: entries_ok_def reg_get_ops entry_state_def intro: lifecycle.intros)
  next
    case (grant f b e')
    with rok have rq: "ty req = ''GrantRequest''" "cbrs_get resp ''grantId'' \<noteq> []"
      by (auto simp: resp_ok_def)
    from dp_guard_grant [OF gd rq(1)] obtain c where "my \<noteq> []" "reg_get r my = Some c" "state c = REGISTERED"
      by blast
    then show ?thesis
      using grant ro e n rq(2)
      by (auto simp: entries_ok_def reg_get_ops entry_state_def entry_ok_def intro: lifecycle.intros)
  next
    case heartbeat
    with rok have rq: "ty req = ''HeartbeatRequest''" by (auto simp: resp_ok_def)
    from dp_guard_heartbeat [OF gd rq] obtain c where
      c: "my \<noteq> []" "reg_get r my = Some c" "state c = GRANTED \<or> state c = AUTHORIZED"
      by blast
    with e [of my c] have "entry_ok (c\<lparr>state := AUTHORIZED\<rparr>)" by (auto simp: entry_ok_def)
    with c show ?thesis
      using heartbeat ro e n
      by (auto simp: entries_ok_def reg_get_ops entry_state_def intro: lifecycle.intros)
  next
    case relinquish
    have "lifecycle (map_option state (reg_get r my)) (map_option (\<lambda>c. REGISTERED) (reg_get r my))"
      if "my \<noteq> []"
      using e [of my] by (cases "reg_get r my"; cases "state (the (reg_get r my))")
        (auto simp: entry_ok_def intro: lifecycle.intros)
    then show ?thesis
      using relinquish ro e n
      by (auto simp: entries_ok_def reg_get_ops entry_state_def entry_ok_def option.map_comp comp_def
          intro: lifecycle.intros)
  next
    case deregister
    then show ?thesis
      using ro e n
      by (cases "reg_get r my") (auto simp: entries_ok_def reg_get_ops entry_state_def intro: lifecycle.intros)
  next
    case ignored
    then show ?thesis
      using ok by (auto intro: lifecycle.intros)
  qed
  then show "entries_ok r'"
    and "\<And>k. k \<notin> claim my (Answered req resp) \<Longrightarrow> reg_get r' k = reg_get r k"
    and "claim my' (if closed then Closed else Receiving) \<subseteq> claim my (Answered req resp)"
    and "\<And>k. lifecycle (entry_state r k) (entry_state r' k)"
    by blast+
qed


subsection \<open>All schedules\<close>

lemma dp_guard_none_cases: "dp_guard r my req \<noteq> None \<Longrightarrow> ty req = ''GrantRequest'' \<or> ty req = ''HeartbeatRequest''"
  by (auto simp: dp_guard_def Let_def split: if_splits)

context spectrum_service
begin

definition ids :: "nat \<Rightarrow> string set" where
  "ids n = id_of ` {..<n}"

definition sys_inv :: "nat \<Rightarrow> ('d, 's) dp_sys \<Rightarrow> bool" where
  "sys_inv n s \<longleftrightarrow>
     entries_ok (reg s) \<and> issued (sas s) n \<and> dom (reg_get (reg s)) \<subseteq> ids n
     \<and> (\<forall>i my p. conns s i = Some (my, p) \<longrightarrow> claim my p \<subseteq> ids n \<and> guard_ok (reg s) my p)
     \<and> (\<forall>i j my p my' p'. conns s i = Some (my, p) \<longrightarrow> conns s j = Some (my', p') \<longrightarrow> i \<noteq> j \<longrightarrow>
          claim my p \<inter> claim my' p' = {})
     \<and> (\<forall>i \<ge> conn_counter s. conns s i = None)"

lemma sys_invD:
  assumes "sys_inv n s"
  shows "entries_ok (reg s)" and "issued (sas s) n" and "dom (reg_get (reg s)) \<subseteq> ids n"
    and "\<And>i my p. conns s i = Some (my, p) \<Longrightarrow> claim my p \<subseteq> ids n"
    and "\<And>i my p. conns s i = Some (my, p) \<Longrightarrow> guard_ok (reg s) my p"
    and "\<And>i j my p my' p'. conns s i = Some (my, p) \<Longrightarrow> conns s j = Some (my', p') \<Longrightarrow> i \<noteq> j \<Longrightarrow>
          claim my p \<inter> claim my' p' = {}"
    and "\<And>i. i \<ge> conn_counter s \<Longrightarrow> conns s i = None"
  using assms unfolding sys_inv_def by blast+

lemma ids_mono: "ids n \<subseteq> ids (Suc n)"
  by (auto simp: ids_def)

lemma ids_fresh: "n < budget \<Longrightarrow> id_of n \<notin> ids n"
  using id_inj by (fastforce simp: ids_def)

lemma nil_not_id: "[] \<notin> ids n"
  using id_not_nil by (metis ids_def imageE)

text \<open>One connection moves: what has to be checked for the invariant to survive.\<close>

lemma sys_inv_update:
  assumes inv: "sys_inv n s" and ci: "conns s i = Some (my, p)" and nm: "n \<le> m"
    and e: "entries_ok r" and iss: "issued z m" and dm: "dom (reg_get r) \<subseteq> ids m"
    and cl: "claim my' p' \<subseteq> ids m" and g: "guard_ok r my' p'"
    and dis: "\<And>j my2 p2. conns s j = Some (my2, p2) \<Longrightarrow> j \<noteq> i \<Longrightarrow> claim my' p' \<inter> claim my2 p2 = {}"
    and fr: "\<And>k. k \<notin> claim my p \<Longrightarrow> reg_get r k = reg_get (reg s) k"
  shows "sys_inv m (s\<lparr>reg := r, sas := z, conns := (conns s)(i := Some (my', p')), sent := q\<rparr>)"
proof -
  have mono: "ids n \<subseteq> ids m" using nm by (auto simp: ids_def)
  have other: "claim my2 p2 \<subseteq> ids m \<and> guard_ok r my2 p2"
    if "conns s j = Some (my2, p2)" "j \<noteq> i" for j my2 p2
  proof -
    have "claim my p \<inter> claim my2 p2 = {}"
      using sys_invD(6) [OF inv ci that(1)] that(2) by blast
    then have "\<forall>k\<in>claim my2 p2. reg_get r k = reg_get (reg s) k"
      using fr by blast
    then show ?thesis
      using sys_invD(4,5) [OF inv that(1)] mono guard_ok_cong by blast
  qed
  have i: "i < conn_counter s"
    using sys_invD(7) [OF inv, of i] ci by (cases "i < conn_counter s") auto
  show ?thesis
    unfolding sys_inv_def
    using e iss dm cl g dis other i sys_invD(6,7) [OF inv] by (auto simp: Int_commute)
qed

lemma step_exchange:
  assumes inv: "sys_inv n s" and b: "n < budget" and ci: "conns s i = Some (my, Waiting req)"
    and x: "X req (sas s) = (resp, z)"
  shows "sys_inv n (dp_step F X s (Exchange i)) \<or> sys_inv (Suc n) (dp_step F X s (Exchange i))"
proof -
  have g: "clean_req req" "dp_guard (reg s) my req = None"
    using sys_invD(5) [OF inv ci] by (auto simp: guard_ok_def)
  have rok: "resp_ok req resp" by (rule answers [OF g(1) x])
  have eq: "dp_step F X s (Exchange i) = s\<lparr>reg := reg s, sas := z,
      conns := (conns s)(i := Some (my, Answered req resp)), sent := sent s\<rparr>"
    using ci x by (simp add: set_conn_def)
  show ?thesis
  proof (cases "ty resp = ''RegistrationResponse''")
    case True
    from fresh [OF sys_invD(2) [OF inv] g(1) x True]
    have f: "cbrs_get resp ''cbsdId'' = id_of n" "cbrs_get resp ''responseCode'' = ''0''" "issued z (Suc n)"
      by auto
    have new: "id_of n \<notin> ids n" by (rule ids_fresh [OF b])
    have "sys_inv (Suc n) (dp_step F X s (Exchange i))"
      unfolding eq
    proof (rule sys_inv_update [OF inv ci])
      show "dom (reg_get (reg s)) \<subseteq> ids (Suc n)" using sys_invD(3) [OF inv] ids_mono by blast
      show "claim my (Answered req resp) \<subseteq> ids (Suc n)"
        using sys_invD(4) [OF inv ci] ids_mono f(1) True by (auto simp: ids_def)
      show "guard_ok (reg s) my (Answered req resp)"
        using g rok f new sys_invD(3) [OF inv] by (auto simp: guard_ok_def)
      show "claim my (Answered req resp) \<inter> claim my2 p2 = {}"
        if "conns s j = Some (my2, p2)" "j \<noteq> i" for j my2 p2
        using sys_invD(6) [OF inv ci that(1)] sys_invD(4) [OF inv that(1)] that(2) new f(1) True by auto
    qed (use sys_invD(1) [OF inv] f(3) in auto)
    then show ?thesis ..
  next
    case False
    have "sys_inv n (dp_step F X s (Exchange i))"
      unfolding eq
    proof (rule sys_inv_update [OF inv ci])
      show "issued z n" by (rule kept [OF sys_invD(2) [OF inv] g(1) x False])
      show "claim my (Answered req resp) \<subseteq> ids n"
        using sys_invD(4) [OF inv ci] False by simp
      show "guard_ok (reg s) my (Answered req resp)"
        using g rok False by (auto simp: guard_ok_def)
      show "claim my (Answered req resp) \<inter> claim my2 p2 = {}"
        if "conns s j = Some (my2, p2)" "j \<noteq> i" for j my2 p2
        using sys_invD(6) [OF inv ci that(1)] that(2) False by auto
    qed (use sys_invD(1,3) [OF inv] in auto)
    then show ?thesis ..
  qed
qed

lemma step_finish:
  assumes inv: "sys_inv n s" and ci: "conns s i = Some (my, Answered req resp)"
  shows "sys_inv n (dp_step F X s (Finish i))"
    and "lifecycle (entry_state (reg s) k) (entry_state (reg (dp_step F X s (Finish i))) k)"
proof -
  obtain r my' cl where c: "dp_complete F (reg s) my req resp = (r, my', cl)"
    by (cases "dp_complete F (reg s) my req resp") auto
  have nn: "[] \<notin> claim my (Answered req resp)"
    using sys_invD(4) [OF inv ci] nil_not_id by blast
  note snd = dp_complete_sound [OF sys_invD(1) [OF inv] sys_invD(5) [OF inv ci] nn c]
  have eq: "dp_step F X s (Finish i) = s\<lparr>reg := r, sas := sas s,
      conns := (conns s)(i := Some (my', if cl then Closed else Receiving)), sent := sent s @ [(i, resp)]\<rparr>"
    using ci c by (simp add: set_conn_def)
  have dom_r: "dom (reg_get r) \<subseteq> ids n"
  proof
    fix k assume "k \<in> dom (reg_get r)"
    then show "k \<in> ids n"
      using snd(2) [of k] sys_invD(3) [OF inv] sys_invD(4) [OF inv ci] by (metis domIff subsetD)
  qed
  show "sys_inv n (dp_step F X s (Finish i))"
    unfolding eq
  proof (rule sys_inv_update [OF inv ci])
    show "claim my' (if cl then Closed else Receiving) \<subseteq> ids n"
      using snd(3) sys_invD(4) [OF inv ci] by blast
    show "guard_ok r my' (if cl then Closed else Receiving)"
      by (simp add: guard_ok_def)
    show "claim my' (if cl then Closed else Receiving) \<inter> claim my2 p2 = {}"
      if "conns s j = Some (my2, p2)" "j \<noteq> i" for j my2 p2
      using snd(3) sys_invD(6) [OF inv ci that(1)] that(2) by blast
  qed (use snd(1,2) sys_invD(2) [OF inv] dom_r in auto)
  show "lifecycle (entry_state (reg s) k) (entry_state (reg (dp_step F X s (Finish i))) k)"
    unfolding eq using snd(4) by simp
qed


lemma sys_inv_sent [simp]: "sys_inv n (s\<lparr>sent := q\<rparr>) = sys_inv n s"
  by (simp add: sys_inv_def)

lemma step_connect: "sys_inv n s \<Longrightarrow> sys_inv n (dp_step F X s Connect)"
  unfolding sys_inv_def by (auto simp: set_conn_def guard_ok_def)

lemma step_receive:
  assumes inv: "sys_inv n s" and c: "clean_req req"
  shows "sys_inv n (dp_step F X s (Receive i req)) \<and> reg (dp_step F X s (Receive i req)) = reg s"
proof (cases "\<exists>my. conns s i = Some (my, Receiving)")
  case False
  then have "dp_step F X s (Receive i req) = s"
    by (auto split: option.splits phase.splits)
  with inv show ?thesis by simp
next
  case True
  then obtain my where ci: "conns s i = Some (my, Receiving)" by blast
  show ?thesis
  proof (cases "dp_guard (reg s) my req")
    case (Some err)
    with ci inv show ?thesis by simp
  next
    case None
    have eq: "dp_step F X s (Receive i req) = s\<lparr>reg := reg s, sas := sas s,
      conns := (conns s)(i := Some (my, Waiting req)), sent := sent s\<rparr>"
      using ci None by (simp add: set_conn_def)
    have "sys_inv n (dp_step F X s (Receive i req))"
      unfolding eq
    proof (rule sys_inv_update [OF inv ci])
      show "guard_ok (reg s) my (Waiting req)" using None c by (simp add: guard_ok_def)
      show "claim my (Waiting req) \<inter> claim my2 p2 = {}"
        if "conns s j = Some (my2, p2)" "j \<noteq> i" for j my2 p2
        using sys_invD(6) [OF inv ci that(1)] that(2) by auto
    qed (use sys_invD(1-3) [OF inv] sys_invD(4) [OF inv ci] in auto)
    then show ?thesis by (simp add: eq del: dp_step.simps)
  qed
qed

lemma step_drop:
  assumes inv: "sys_inv n s"
  shows "sys_inv n (dp_step F X s (Drop i))"
    and "lifecycle (entry_state (reg s) k) (entry_state (reg (dp_step F X s (Drop i))) k)"
proof -
  have "sys_inv n (dp_step F X s (Drop i)) \<and>
    lifecycle (entry_state (reg s) k) (entry_state (reg (dp_step F X s (Drop i))) k)"
  proof (cases "\<exists>my. conns s i = Some (my, Receiving)")
    case False
    then have "dp_step F X s (Drop i) = s"
      by (auto split: option.splits phase.splits)
    with inv show ?thesis by (simp add: stay)
  next
    case True
    then obtain my where ci: "conns s i = Some (my, Receiving)" by blast
    let ?r = "dp_disconnect (reg s) my"
    have eq: "dp_step F X s (Drop i) = s\<lparr>reg := ?r, sas := sas s,
        conns := (conns s)(i := Some (my, Closed)), sent := sent s\<rparr>"
      using ci by (simp add: set_conn_def)
    have r: "entries_ok ?r" "dom (reg_get ?r) \<subseteq> ids n"
      using sys_invD(1,3) [OF inv]
      by (auto simp: entries_ok_def dp_disconnect_def reg_get_ops split: if_splits)
    have "sys_inv n (dp_step F X s (Drop i))"
      unfolding eq
    proof (rule sys_inv_update [OF inv ci])
      show "claim my Closed \<inter> claim my2 p2 = {}"
        if "conns s j = Some (my2, p2)" "j \<noteq> i" for j my2 p2
        using sys_invD(6) [OF inv ci that(1)] that(2) by auto
      show "reg_get ?r k = reg_get (reg s) k" if "k \<notin> claim my Receiving" for k
        using that by (simp add: dp_disconnect_def reg_get_ops split: if_splits)
    qed (use sys_invD(2) [OF inv] r sys_invD(4) [OF inv ci] in \<open>auto simp: guard_ok_def\<close>)
    moreover have "lifecycle (entry_state (reg s) k) (entry_state ?r k)"
      by (cases "reg_get (reg s) k")
        (auto simp: dp_disconnect_def entry_state_def reg_get_ops intro: lifecycle.intros)
    ultimately show ?thesis by (simp add: eq del: dp_step.simps)
  qed
  then show "sys_inv n (dp_step F X s (Drop i))"
    and "lifecycle (entry_state (reg s) k) (entry_state (reg (dp_step F X s (Drop i))) k)"
    by blast+
qed

lemma step_safe:
  assumes inv: "sys_inv n s" and b: "n < budget" and ev: "clean_event e"
  shows "(sys_inv n (dp_step F X s e) \<or> sys_inv (Suc n) (dp_step F X s e)) \<and>
     lifecycle (entry_state (reg s) k) (entry_state (reg (dp_step F X s e)) k)"
proof (cases e)
  case (Exchange i)
  show ?thesis
  proof (cases "\<exists>my req. conns s i = Some (my, Waiting req)")
    case True
    then obtain my req where ci: "conns s i = Some (my, Waiting req)" by blast
    obtain resp z where x: "X req (sas s) = (resp, z)" by fastforce
    have "reg (dp_step F X s e) = reg s"
      using ci x Exchange by (simp add: set_conn_def)
    with step_exchange [OF inv b ci x] Exchange show ?thesis by (simp add: stay)
  next
    case False
    then have "dp_step F X s e = s"
      using Exchange by (auto split: option.splits phase.splits)
    with inv show ?thesis by (simp add: stay)
  qed
next
  case (Finish i)
  show ?thesis
  proof (cases "\<exists>my req resp. conns s i = Some (my, Answered req resp)")
    case True
    then obtain my req resp where ci: "conns s i = Some (my, Answered req resp)" by blast
    from step_finish [OF inv ci] Finish show ?thesis by blast
  next
    case False
    then have "dp_step F X s e = s"
      using Finish by (auto split: option.splits phase.splits)
    with inv show ?thesis by (simp add: stay)
  qed
next
  case Connect
  with step_connect [OF inv] show ?thesis by (simp add: set_conn_def stay)
next
  case (Receive i req)
  with ev step_receive [OF inv] show ?thesis by (simp add: stay del: dp_step.simps)
next
  case (Drop i)
  with step_drop [OF inv] show ?thesis by blast
qed

lemma run_safe:
  assumes "sys_inv n s" and "n + length es \<le> budget" and "\<forall>e\<in>set es. clean_event e"
  shows "\<exists>m. n \<le> m \<and> m \<le> n + length es \<and> sys_inv m (run (dp_step F X) s es)"
  using assms
proof (induction es arbitrary: n s)
  case Nil
  then show ?case by auto
next
  case (Cons e es)
  then have "n < budget" "clean_event e" by auto
  with step_safe [OF Cons.prems(1), of e] obtain m where
    m: "m = n \<or> m = Suc n" "sys_inv m (dp_step F X s e)" by blast
  have "m + length es \<le> budget" using m(1) Cons.prems(2) by auto
  from Cons.IH [OF m(2) this] Cons.prems(3) obtain k where
    k: "m \<le> k" "k \<le> m + length es" "sys_inv k (run (dp_step F X) (dp_step F X s e) es)"
    by auto
  moreover have "n \<le> k \<and> k \<le> n + length (e # es)" using k(1,2) m(1) by auto
  ultimately show ?case by (auto simp del: dp_step.simps)
qed

lemma init_inv: "issued s0 0 \<Longrightarrow> sys_inv 0 (dp_init s0)"
  by (auto simp: sys_inv_def dp_init_def entries_ok_def reg_defs)

end

subsection \<open>The SAS stub meets the contract\<close>

definition stub_issued :: "SasState option \<Rightarrow> nat \<Rightarrow> bool" where
  "stub_issued so n \<longleftrightarrow> (case so of None \<Rightarrow> True | Some s \<Rightarrow> g_cbsdCounter s = word_of_nat (Suc n))"

lemma sas_grant_cases:
  assumes "sas_grant F req s = (Inr resp, s')"
  obtains f b e where "resp = grant_response F (cbrs_get req ''cbsdId'') (fst (makeGrantId s)) f b e"
    and "s' = snd (makeGrantId s)"
  using assms by (auto simp: sas_grant_def Let_def split: sum.splits prod.splits)

lemma stub_answer:
  assumes F: "fp_ok F" and c: "clean_req req" and x: "sas_handle F req s = (Inr resp, s')"
  shows "(ty req = ''RegistrationRequest'' \<and> ty resp = ''RegistrationResponse'' \<and> (resp, s') = sas_registration req s)
    \<or> (ty resp \<noteq> ''RegistrationResponse'' \<and> resp_ok req resp \<and> g_cbsdCounter s' = g_cbsdCounter s)"
proof -
  note fields = relinquish_fields(1) [OF c] heartbeat_fields(1) [OF c] deregister_fields unknown_fields(1)
  consider "ty req = ''RegistrationRequest''" "(resp, s') = sas_registration req s"
    | "ty req = ''GrantRequest''" "sas_grant F req s = (Inr resp, s')"
    | "ty req = ''HeartbeatRequest''" "resp = sas_heartbeat req" "s' = s"
    | "resp = sas_relinquish req" "s' = s" | "resp = sas_deregister req" "s' = s"
    | "resp = sas_unknown" "s' = s"
    using x by (auto simp: sas_handle_def Let_def split: if_splits prod.splits)
  then show ?thesis
  proof cases
    case 1
    with registration_fields(1) [of req s resp s'] show ?thesis by simp
  next
    case 2
    from sas_grant_cases [OF 2(2)] obtain f b e where
      r: "resp = grant_response F (cbrs_get req ''cbsdId'') (fst (makeGrantId s)) f b e" "s' = snd (makeGrantId s)"
      by blast
    with 2(1) F c grant_fields(1,3) [of F "cbrs_get req ''cbsdId''" "fst (makeGrantId s)" f b e]
    show ?thesis by (simp add: resp_ok_def clean_req_def makeGrantId_def)
  qed (use fields in \<open>auto simp: resp_ok_def\<close>)
qed

lemma stub_service: "fp_ok F \<Longrightarrow> spectrum_service (sas_exchange F) stub_issued cbsd_id_of (2 ^ 32)"
proof (unfold_locales, goal_cases)
  case (1 req s resp s')
  then show ?case
    using stub_answer [of F req]
    by (auto simp: sas_exchange_def resp_ok_def cbrs_get_def split: option.splits prod.splits sum.splits)
next
  case (2 s n req resp s')
  then obtain S S' where s: "s = Some S" "sas_handle F req S = (Inr resp, S')" "s' = Some S'"
    by (auto simp: sas_exchange_def cbrs_get_def split: option.splits prod.splits sum.splits)
  with stub_answer [of F req S resp S'] 2 have "sas_registration req S = (resp, S')" by auto
  from registration_fields(2-4) [OF this] makeCbsdId_nth [of S n] 2(2) s show ?case
    by (simp add: stub_issued_def)
next
  case (3 s n req resp s')
  show ?case
  proof (cases s')
    case None
    then show ?thesis by (simp add: stub_issued_def)
  next
    case (Some S')
    with 3 obtain S where s: "s = Some S" "sas_handle F req S = (Inr resp, S')"
      by (auto simp: sas_exchange_def split: option.splits prod.splits sum.splits)
    with stub_answer [OF 3(1) 3(3) s(2)] 3 Some show ?thesis by (auto simp: stub_issued_def)
  qed
next
  case (4 m n)
  then show ?case by (intro cbsd_id_of_inj)
next
  case (5 n)
  show ?case by simp
qed

text \<open>
  Whole-number arithmetic is one such floating point: the contract is met by the stub as it
  stands, not only under a hypothesis.
\<close>

definition fp_whole :: "int fp_ops" where
  "fp_whole = \<lparr> fp_stod = stoi, fp_show = json_num, fp_less = (<), fp_to_int = id, fp_lit = id \<rparr>"

lemma fp_whole_ok: "fp_ok fp_whole"
  by (simp add: fp_ok_def fp_whole_def)

interpretation stub: spectrum_service "sas_exchange fp_whole" fp_whole stub_issued cbsd_id_of "2 ^ 32"
  by (rule stub_service) (rule fp_whole_ok)

end
