(* ===== verification/Cbrs_Agent.thy ===== *)
theory Cbrs_Agent
  imports Cbrs_Proxy_Safety
begin

text \<open>
  \<open>cbrs-domain-proxy/src/cbsd/cbsd_agent.cpp\<close>: the device. Its loop reads a command line,
  checks the local state, sends one request and waits for the answer. The loop body is
  split at the blocking \<open>recvMsg\<close>: \<open>agent_command\<close> is what it does before, \<open>agent_answer\<close>
  what it does after. \<open>agent_turn\<close> runs one line against a Domain Proxy.
\<close>

record 'd CbsdConfig =
  c_fccId :: string
  c_callSign :: string
  c_category :: string
  c_latitude :: 'd
  c_longitude :: 'd
  c_heightMeters :: 'd
  c_antennaGainDbi :: 'd
  c_desiredFreqMHz :: 'd
  c_desiredBwMHz :: 'd

record 'd Agent =
  ag_state :: SpectrumState
  ag_cbsdId :: string
  ag_grantId :: string
  ag_grantFreq :: 'd
  ag_grantBw :: 'd
  ag_maxEirp :: 'd

definition agent_init :: "'d::zero Agent" where
  "agent_init = \<lparr> ag_state = UNREGISTERED, ag_cbsdId = [], ag_grantId = [],
     ag_grantFreq = 0, ag_grantBw = 0, ag_maxEirp = 0 \<rparr>"

subsection \<open>The requests\<close>

definition register_req :: "'d fp_ops \<Rightarrow> 'd CbsdConfig \<Rightarrow> string" where
  "register_req F cfg = json_obj
     [(''type'', json_str ''RegistrationRequest''),
      (''fccId'', json_str (c_fccId cfg)),
      (''callSign'', json_str (c_callSign cfg)),
      (''cbsdCategory'', json_str (c_category cfg)),
      (''radioTechnology'', json_str ''NR''),
      (''latitude'', fp_show F (c_latitude cfg)),
      (''longitude'', fp_show F (c_longitude cfg)),
      (''height'', fp_show F (c_heightMeters cfg)),
      (''heightType'', json_str ''AGL''),
      (''antennaGain'', fp_show F (c_antennaGainDbi cfg)),
      (''measCapability'', json_str ''RECEIVED_POWER_WITH_GRANT'')]"

definition grant_req :: "'d fp_ops \<Rightarrow> 'd CbsdConfig \<Rightarrow> string \<Rightarrow> string" where
  "grant_req F cfg cid = json_obj
     [(''type'', json_str ''GrantRequest''),
      (''cbsdId'', json_str cid),
      (''operationFrequencyMHz'', fp_show F (c_desiredFreqMHz cfg)),
      (''operationBandwidthMHz'', fp_show F (c_desiredBwMHz cfg)),
      (''maxEirp'', json_num (if c_category cfg = ''A'' then 30 else 47))]"

definition heartbeat_req :: "'d Agent \<Rightarrow> string" where
  "heartbeat_req a = json_obj
     [(''type'', json_str ''HeartbeatRequest''),
      (''cbsdId'', json_str (ag_cbsdId a)),
      (''grantId'', json_str (ag_grantId a)),
      (''operationState'', json_str (if ag_state a = AUTHORIZED then ''AUTHORIZED'' else ''GRANTED''))]"

definition relinquish_req :: "'d Agent \<Rightarrow> string" where
  "relinquish_req a = json_obj
     [(''type'', json_str ''RelinquishmentRequest''),
      (''cbsdId'', json_str (ag_cbsdId a)),
      (''grantId'', json_str (ag_grantId a))]"

definition deregister_req :: "'d Agent \<Rightarrow> string" where
  "deregister_req a = json_obj
     [(''type'', json_str ''DeregistrationRequest''),
      (''cbsdId'', json_str (ag_cbsdId a))]"

subsection \<open>One command line\<close>

datatype command = Register | Grant | Heartbeat | Relinquish | Deregister | Status | Quit | Other

definition parse_command :: "string \<Rightarrow> command" where
  "parse_command line =
     (if line = ''REGISTER'' \<or> line = ''register'' then Register
      else if line = ''GRANT'' \<or> line = ''grant'' then Grant
      else if line = ''HEARTBEAT'' \<or> line = ''heartbeat'' then Heartbeat
      else if line = ''RELINQUISH'' \<or> line = ''relinquish'' then Relinquish
      else if line = ''DEREGISTER'' \<or> line = ''deregister'' then Deregister
      else if line = ''STATUS'' \<or> line = ''status'' then Status
      else if line = ''QUIT'' \<or> line = ''quit'' then Quit
      else Other)"

datatype reaction = Ignore | Leave | Ask string

fun agent_command :: "'d fp_ops \<Rightarrow> 'd CbsdConfig \<Rightarrow> 'd Agent \<Rightarrow> command \<Rightarrow> reaction" where
  "agent_command F cfg a Register =
     (if ag_state a \<noteq> UNREGISTERED then Ignore else Ask (register_req F cfg))"
| "agent_command F cfg a Grant =
     (if ag_state a \<noteq> REGISTERED then Ignore else Ask (grant_req F cfg (ag_cbsdId a)))"
| "agent_command F cfg a Heartbeat =
     (if ag_state a \<noteq> GRANTED \<and> ag_state a \<noteq> AUTHORIZED then Ignore else Ask (heartbeat_req a))"
| "agent_command F cfg a Relinquish =
     (if ag_grantId a = [] then Ignore else Ask (relinquish_req a))"
| "agent_command F cfg a Deregister =
     (if ag_cbsdId a = [] then Ignore else Ask (deregister_req a))"
| "agent_command F cfg a Quit = Leave"
| "agent_command F cfg a Status = Ignore"
| "agent_command F cfg a Other = Ignore"

definition stod_keep :: "'d fp_ops \<Rightarrow> 'd \<Rightarrow> string \<Rightarrow> 'd" where
  "stod_keep F old str = (case fp_stod F str of Inl _ \<Rightarrow> old | Inr d \<Rightarrow> d)"

fun agent_answer :: "'d::zero fp_ops \<Rightarrow> 'd Agent \<Rightarrow> command \<Rightarrow> string \<Rightarrow> 'd Agent" where
  "agent_answer F a Register resp =
     (let a' = a\<lparr>ag_cbsdId := cbrs_get resp ''cbsdId''\<rparr> in
      if cbrs_get resp ''responseCode'' = ''0'' \<or> ag_cbsdId a' \<noteq> []
      then a'\<lparr>ag_state := REGISTERED\<rparr> else a')"
| "agent_answer F a Grant resp =
     (let a' = a\<lparr>ag_grantId := cbrs_get resp ''grantId'',
                 ag_grantFreq := stod_keep F (ag_grantFreq a) (cbrs_get resp ''operationFrequencyMHz''),
                 ag_grantBw := stod_keep F (ag_grantBw a) (cbrs_get resp ''operationBandwidthMHz''),
                 ag_maxEirp := stod_keep F (ag_maxEirp a) (cbrs_get resp ''maxEirp'')\<rparr> in
      if cbrs_get resp ''responseCode'' = ''0'' \<or> ag_grantId a' \<noteq> []
      then a'\<lparr>ag_state := GRANTED\<rparr> else a')"
| "agent_answer F a Heartbeat resp = a\<lparr>ag_state := AUTHORIZED\<rparr>"
| "agent_answer F a Relinquish resp =
     a\<lparr>ag_grantId := [], ag_grantFreq := 0, ag_grantBw := 0, ag_maxEirp := 0, ag_state := REGISTERED\<rparr>"
| "agent_answer F a Deregister resp =
     a\<lparr>ag_cbsdId := [], ag_grantId := [], ag_state := UNREGISTERED\<rparr>"
| "agent_answer F a c resp = a"

text \<open>
  One line of the device at connection \<open>i\<close> of a proxy: the request travels in a frame, the
  proxy thread runs its iteration, the answer travels back in a frame. A frame that
  \<open>recvFrame\<close> refuses (\<open>frame_ok\<close>, lemmas \<open>recv_make_frame\<close> and \<open>recv_frame_rejects\<close>) ends the
  receiver's loop. The flag says that the device has left its loop.
\<close>

fun agent_turn ::
  "'d::zero fp_ops \<Rightarrow> (string \<Rightarrow> 's \<Rightarrow> string \<times> 's) \<Rightarrow> 'd CbsdConfig \<Rightarrow> nat \<Rightarrow>
   'd Agent \<times> ('d, 's) dp_sys \<times> bool \<Rightarrow> string \<Rightarrow> 'd Agent \<times> ('d, 's) dp_sys \<times> bool" where
  "agent_turn F X cfg i (a, s, True) line = (a, s, True)"
| "agent_turn F X cfg i (a, s, False) line =
     (case agent_command F cfg a (parse_command line) of
        Ignore \<Rightarrow> (a, s, False)
      | Leave \<Rightarrow> (a, s, True)
      | Ask req \<Rightarrow>
          if \<not> frame_ok req then (a, dp_step F X s (Drop i), True)
          else
            let s' = run (dp_step F X) s [Receive i req, Exchange i, Finish i] in
            (case drop (length (sent s)) (sent s') of
               [] \<Rightarrow> (a, s', True)
             | (_, resp) # _ \<Rightarrow>
                 if frame_ok resp then (agent_answer F a (parse_command line) resp, s', False)
                 else (a, s', True)))"

subsection \<open>The fields of the requests\<close>

definition cfg_ok :: "'d CbsdConfig \<Rightarrow> bool" where
  "cfg_ok cfg \<longleftrightarrow> quotefree (c_fccId cfg) \<and> quotefree (c_callSign cfg) \<and> quotefree (c_category cfg)"

lemma request_types [simp]:
  "ty (register_req F cfg) = ''RegistrationRequest''"
  "ty (grant_req F cfg cid) = ''GrantRequest''"
  "ty (heartbeat_req a) = ''HeartbeatRequest''"
  "ty (relinquish_req a) = ''RelinquishmentRequest''"
  "ty (deregister_req a) = ''DeregistrationRequest''"
  by (simp_all add: register_req_def grant_req_def heartbeat_req_def relinquish_req_def
      deregister_req_def wire_simps)

lemma register_req_clean:
  "cfg_ok cfg \<Longrightarrow> fp_ok F \<Longrightarrow> clean_req (register_req F cfg)"
  by (simp add: clean_req_def register_req_def wire_simps cfg_ok_def quotefree_fp_show)

lemma grant_req_clean: "fp_ok F \<Longrightarrow> quotefree cid \<Longrightarrow> clean_req (grant_req F cfg cid)"
  by (simp add: clean_req_def grant_req_def wire_simps quotefree_fp_show)

lemma session_req_clean:
  assumes "quotefree (ag_cbsdId a)" and "quotefree (ag_grantId a)"
  shows "clean_req (heartbeat_req a)" and "clean_req (relinquish_req a)" and "clean_req (deregister_req a)"
  using assms
  by (simp_all add: clean_req_def heartbeat_req_def relinquish_req_def deregister_req_def wire_simps)

end
