(* ===== verification/Cbrs_Agreement.thy ===== *)
theory Cbrs_Agreement
  imports Cbrs_Agent
begin

text \<open>
  The device, the Domain Proxy and the SAS together: the state the device believes it is in
  is the state of its entry in the proxy's registry, whatever commands its user types.
\<close>

definition agrees :: "nat \<Rightarrow> 'd Agent \<Rightarrow> ('d, 's) dp_sys \<Rightarrow> bool" where
  "agrees i a s \<longleftrightarrow>
     (case conns s i of
        Some (my, Receiving) \<Rightarrow>
          my = ag_cbsdId a \<and> quotefree my \<and> quotefree (ag_grantId a) \<and>
          (if my = [] then ag_state a = UNREGISTERED \<and> ag_grantId a = []
           else (\<exists>c. reg_get (reg s) my = Some c \<and> state c = ag_state a \<and> grantId c = ag_grantId a)
                \<and> ag_state a \<noteq> UNREGISTERED \<and> (ag_grantId a = [] \<longleftrightarrow> ag_state a = REGISTERED))
      | Some (my, Closed) \<Rightarrow>
          ag_cbsdId a = [] \<and> ag_grantId a = [] \<and> ag_state a = UNREGISTERED \<and> reg_get (reg s) my = None
      | _ \<Rightarrow> False)"

subsection \<open>One iteration seen from the device\<close>

lemma iteration:
  assumes "conns s i = Some (my, Receiving)" and "dp_guard (reg s) my req = None"
    and "X req (sas s) = (resp, z)" and "dp_complete F (reg s) my req resp = (r, my', cl)"
  shows "run (dp_step F X) s [Receive i req, Exchange i, Finish i] =
     s\<lparr>reg := r, sas := z, conns := (conns s)(i := Some (my', if cl then Closed else Receiving)),
       sent := sent s @ [(i, resp)]\<rparr>"
  using assms by (simp add: set_conn_def fun_upd_upd)

lemma iteration_closed:
  assumes "conns s i = Some (my, Closed)"
  shows "run (dp_step F X) s [Receive i req, Exchange i, Finish i] = s"
  using assms by simp

lemma turn_answered:
  assumes c: "conns s i = Some (my, Receiving)" and g: "dp_guard (reg s) my req = None"
    and x: "X req (sas s) = (resp, z)" and d: "dp_complete F (reg s) my req resp = (r, my', cl)"
    and ask: "agent_command F cfg a (parse_command line) = Ask req" and fit: "frame_ok req" "frame_ok resp"
  shows "agent_turn F X cfg i (a, s, False) line =
     (agent_answer F a (parse_command line) resp,
      s\<lparr>reg := r, sas := z, conns := (conns s)(i := Some (my', if cl then Closed else Receiving)),
        sent := sent s @ [(i, resp)]\<rparr>, False)"
  using fit by (simp add: ask iteration [OF c g, of X resp z F r my' cl, OF x d] del: run.simps)

lemma turn_stopped:
  assumes c: "conns s i = Some (my, Receiving)" and g: "dp_guard (reg s) my req = None"
    and x: "X req (sas s) = (resp, z)"
    and ask: "agent_command F cfg a (parse_command line) = Ask req"
    and fit: "\<not> frame_ok req \<or> \<not> frame_ok resp"
  shows "\<exists>s'. agent_turn F X cfg i (a, s, False) line = (a, s', True)"
proof -
  obtain r my' cl where d: "dp_complete F (reg s) my req resp = (r, my', cl)"
    by (metis prod_cases3)
  show ?thesis
    using fit by (auto simp: ask iteration [OF c g, of X resp z F r my' cl, OF x d] simp del: run.simps)
qed

lemma turn_closed:
  assumes "conns s i = Some (my, Closed)" and "agent_command F cfg a (parse_command line) = Ask req"
  shows "\<exists>s'. agent_turn F X cfg i (a, s, False) line = (a, s', True)"
  using assms by (auto simp: iteration_closed simp del: run.simps)

subsection \<open>Agreement is kept\<close>

lemma agreesD:
  assumes "agrees i a s" and "conns s i = Some (my, Receiving)"
  shows "my = ag_cbsdId a" and "quotefree (ag_cbsdId a)" and "quotefree (ag_grantId a)"
    and "ag_cbsdId a = [] \<Longrightarrow> ag_state a = UNREGISTERED \<and> ag_grantId a = []"
    and "ag_cbsdId a \<noteq> [] \<Longrightarrow> \<exists>c. reg_get (reg s) (ag_cbsdId a) = Some c \<and> state c = ag_state a \<and>
           grantId c = ag_grantId a \<and> ag_state a \<noteq> UNREGISTERED \<and> (ag_grantId a = [] \<longleftrightarrow> ag_state a = REGISTERED)"
  using assms by (auto simp: agrees_def split: if_splits)

lemma asked:
  assumes ok: "fp_ok F" "cfg_ok cfg" and ag: "agrees i a s" "conns s i = Some (my, Receiving)"
    and ask: "agent_command F cfg a c = Ask req"
  shows "dp_guard (reg s) my req = None" and "clean_req req"
proof -
  note a = agreesD [OF ag]
  show "clean_req req"
    using ask ok a by (cases c) (auto split: if_splits
      simp: register_req_clean grant_req_clean session_req_clean)
  show "dp_guard (reg s) my req = None"
  proof (cases "ag_cbsdId a = []")
    case True
    with ask a(4) show ?thesis
      by (cases c) (auto split: if_splits simp: dp_guard_def Let_def)
  next
    case False
    with ask a(1,5) show ?thesis
      by (cases c) (auto split: if_splits simp: dp_guard_def dp_info_def Let_def)
  qed
qed

lemma agrees_register:
  assumes ag: "agrees i a s" "conns s i = Some (my, Receiving)" "ag_state a = UNREGISTERED"
    and x: "sas_registration req S = (resp, S')" and d: "dp_complete F (reg s) my req resp = (r, my', cl)"
  shows "agrees i (agent_answer F a Register resp) (s\<lparr>reg := r, sas := z,
    conns := (conns s)(i := Some (my', if cl then Closed else Receiving)), sent := w\<rparr>)"
proof -
  note f = registration_fields [OF x] and a = agreesD [OF ag(1,2)]
  have "my' = fst (makeCbsdId S)" "\<not> cl" "r = reg_upsert (reg s) (registered_info my' req)"
    using d f by (auto simp: dp_complete_def Let_def)
  moreover have "my' \<noteq> []" "quotefree my'"
    using \<open>my' = _\<close> by (simp_all add: makeCbsdId_def)
  moreover have "ag_grantId a = []" using a ag(3) by auto
  ultimately show ?thesis
    using f by (simp add: agrees_def reg_get_ops registered_info_def fresh_info_def)
qed

lemma agrees_grant:
  assumes ag: "agrees i a s" "conns s i = Some (my, Receiving)" "ag_state a = REGISTERED"
    and F: "fp_ok F" and q: "clean_req req"
    and x: "sas_grant F req S = (Inr resp, S')" and d: "dp_complete F (reg s) my req resp = (r, my', cl)"
  shows "agrees i (agent_answer F a Grant resp) (s\<lparr>reg := r, sas := z,
    conns := (conns s)(i := Some (my', if cl then Closed else Receiving)), sent := w\<rparr>)"
proof -
  note a = agreesD [OF ag(1,2)]
  have cid: "quotefree (cbrs_get req ''cbsdId'')" using q by (simp add: clean_req_def)
  obtain f b e where r: "resp = grant_response F (cbrs_get req ''cbsdId'') (fst (makeGrantId S)) f b e"
    by (rule sas_grant_cases [OF x])
  note g = grant_fields(1,3,6) [OF F cid quotefree_grant_id [of S], of f b e, folded r]
  have n: "fst (makeGrantId S) \<noteq> []" "quotefree (fst (makeGrantId S))"
    by (simp_all add: makeGrantId_def)
  have "(r, my', cl) = (reg_setGrant (reg s) my (fst (makeGrantId S))
      (stod_or_zero F (cbrs_get resp ''operationFrequencyMHz''))
      (stod_or_zero F (cbrs_get resp ''operationBandwidthMHz''))
      (stod_or_zero F (cbrs_get resp ''maxEirp'')), my, False)"
    unfolding d [symmetric] by (simp add: dp_complete_def Let_def g)
  then obtain f b e where r': "r = reg_setGrant (reg s) my (fst (makeGrantId S)) f b e" "my' = my" "\<not> cl"
    by blast
  from a(4) ag(3) have cid: "ag_cbsdId a \<noteq> []" by auto
  from a(5) [OF this] obtain c where "reg_get (reg s) (ag_cbsdId a) = Some c" by blast
  then show ?thesis
    using a(1,2) n cid r' by (simp add: agrees_def reg_get_ops Let_def g)
qed

lemma agrees_heartbeat:
  assumes ag: "agrees i a s" "conns s i = Some (my, Receiving)"
    "ag_state a = GRANTED \<or> ag_state a = AUTHORIZED"
    and q: "clean_req req" and d: "dp_complete F (reg s) my req (sas_heartbeat req) = (r, my', cl)"
  shows "agrees i (agent_answer F a Heartbeat resp) (s\<lparr>reg := r, sas := z,
    conns := (conns s)(i := Some (my', if cl then Closed else Receiving)), sent := w\<rparr>)"
proof -
  have "r = reg_setState (reg s) my AUTHORIZED" "my' = my" "\<not> cl"
    using d heartbeat_fields [OF q] by (auto simp: dp_complete_def Let_def)
  with agreesD [OF ag(1,2)] ag(3) show ?thesis
    by (auto simp: agrees_def reg_get_ops)
qed

lemma agrees_relinquish:
  assumes ag: "agrees i a s" "conns s i = Some (my, Receiving)" "ag_grantId a \<noteq> []"
    and q: "clean_req req" and d: "dp_complete F (reg s) my req (sas_relinquish req) = (r, my', cl)"
  shows "agrees i (agent_answer F a Relinquish resp) (s\<lparr>reg := r, sas := z,
    conns := (conns s)(i := Some (my', if cl then Closed else Receiving)), sent := w\<rparr>)"
proof -
  have "r = reg_clearGrant (reg s) my" "my' = my" "\<not> cl"
    using d relinquish_fields [OF q] by (auto simp: dp_complete_def Let_def)
  with agreesD [OF ag(1,2)] ag(3) show ?thesis
    by (auto simp: agrees_def reg_get_ops)
qed

lemma agrees_deregister:
  assumes ag: "agrees i a s" "conns s i = Some (my, Receiving)" "ag_cbsdId a \<noteq> []"
    and d: "dp_complete F (reg s) my req (sas_deregister req) = (r, my', cl)"
  shows "agrees i (agent_answer F a Deregister resp) (s\<lparr>reg := r, sas := z,
    conns := (conns s)(i := Some (my', if cl then Closed else Receiving)), sent := w\<rparr>)"
proof -
  have "r = reg_remove (reg s) my" "my' = my" "cl"
    using d deregister_fields [of req] by (auto simp: dp_complete_def Let_def)
  with agreesD [OF ag(1,2)] ag(3) show ?thesis
    by (auto simp: agrees_def reg_get_ops)
qed

lemma agrees_answer:
  assumes ok: "fp_ok F" "cfg_ok cfg" and ag: "agrees i a s" "conns s i = Some (my, Receiving)"
    and ask: "agent_command F cfg a c = Ask req"
    and x: "sas_handle F req S = (Inr resp, S')" and d: "dp_complete F (reg s) my req resp = (r, my', cl)"
  shows "agrees i (agent_answer F a c resp) (s\<lparr>reg := r, sas := z,
    conns := (conns s)(i := Some (my', if cl then Closed else Receiving)), sent := w\<rparr>)"
proof -
  note q = asked(2) [OF ok ag ask]
  show ?thesis
  proof (cases c)
    case Register
    show ?thesis
      unfolding Register using Register ask x d
      by (intro agrees_register [OF ag]) (auto simp: sas_handle_def Let_def split: if_splits prod.splits)
  next
    case Grant
    show ?thesis
      unfolding Grant using Grant ask x d
      by (intro agrees_grant [OF ag _ ok(1) q]) (auto simp: sas_handle_def Let_def split: if_splits)
  next
    case Heartbeat
    with ask x have r: "resp = sas_heartbeat req" by (auto simp: sas_handle_def Let_def split: if_splits)
    show ?thesis
      unfolding Heartbeat using Heartbeat ask d r by (intro agrees_heartbeat [OF ag _ q]) (auto split: if_splits)
  next
    case Relinquish
    with ask x have r: "resp = sas_relinquish req" by (auto simp: sas_handle_def Let_def split: if_splits)
    show ?thesis
      unfolding Relinquish using Relinquish ask d r by (intro agrees_relinquish [OF ag _ q]) (auto split: if_splits)
  next
    case Deregister
    with ask x have r: "resp = sas_deregister req" by (auto simp: sas_handle_def Let_def split: if_splits)
    show ?thesis
      unfolding Deregister using Deregister ask d r by (intro agrees_deregister [OF ag]) (auto split: if_splits)
  qed (use ask in auto)
qed

lemma turn_agrees:
  assumes ok: "fp_ok F" "cfg_ok cfg" and ag: "agrees i a s"
    and t: "agent_turn F (sas_exchange F) cfg i (a, s, False) line = (a', s', False)"
  shows "agrees i a' s'"
proof (cases "agent_command F cfg a (parse_command line)")
  case (Ask req)
  show ?thesis
  proof (cases "\<exists>my. conns s i = Some (my, Receiving)")
    case False
    with ag have "\<exists>my. conns s i = Some (my, Closed)"
      by (force simp: agrees_def split: option.splits prod.splits phase.splits)
    then obtain my where "conns s i = Some (my, Closed)" by blast
    from turn_closed [OF this Ask] t show ?thesis by (metis prod.inject)
  next
    case True
    then obtain my where c: "conns s i = Some (my, Receiving)" by blast
    note q = asked [OF ok ag c Ask]
    obtain resp z where x: "sas_exchange F req (sas s) = (resp, z)" by fastforce
    have fit: "frame_ok req" "frame_ok resp"
      using turn_stopped [where X = "sas_exchange F", OF c q(1) x Ask] t by (metis prod.inject)+
    then obtain S S' where S: "sas_handle F req S = (Inr resp, S')"
      using x by (auto simp: sas_exchange_def frame_ok_def split: option.splits prod.splits sum.splits)
    obtain r my' cl where d: "dp_complete F (reg s) my req resp = (r, my', cl)"
      by (metis prod_cases3)
    have "a' = agent_answer F a (parse_command line) resp" "s' = s\<lparr>reg := r, sas := z,
        conns := (conns s)(i := Some (my', if cl then Closed else Receiving)), sent := sent s @ [(i, resp)]\<rparr>"
      using turn_answered [where X = "sas_exchange F", OF c q(1) x d Ask fit] t by simp_all
    with agrees_answer [OF ok ag c Ask S d] show ?thesis by (simp only:)
  qed
qed (use ag t in auto)

lemma turns_agree:
  assumes ok: "fp_ok F" "cfg_ok cfg" and ag: "agrees i a s"
    and t: "run (agent_turn F (sas_exchange F) cfg i) (a, s, False) lines = (a', s', False)"
  shows "agrees i a' s'"
  using ag t
proof (induction lines arbitrary: a s)
  case Nil
  then show ?case by simp
next
  case (Cons line lines)
  obtain a1 s1 d where 1: "agent_turn F (sas_exchange F) cfg i (a, s, False) line = (a1, s1, d)"
    by (metis prod_cases3)
  have stuck: "run (agent_turn F (sas_exchange F) cfg i) (b, u, True) ls = (b, u, True)" for b u ls
    by (induction ls) auto
  have "\<not> d" using Cons.prems(2) 1 stuck by (cases d) auto
  with 1 Cons.prems(2) have
    2: "agent_turn F (sas_exchange F) cfg i (a, s, False) line = (a1, s1, False)"
       "run (agent_turn F (sas_exchange F) cfg i) (a1, s1, False) lines = (a', s', False)"
    by simp_all
  show ?case
    by (rule Cons.IH [OF turn_agrees [OF ok Cons.prems(1) 2(1)] 2(2)])
qed

end
