(* ===== verification/Cbrs_System.thy ===== *)
theory Cbrs_System
  imports Cbrs_Agreement
begin

text \<open>
  The properties of the CBRS programs (\<open>cbrs-domain-proxy/src\<close>): the state machine
  guard of the Domain Proxy, its safety under every schedule, the caps of the SAS, and the
  agreement of device and proxy; then what modelling showed about unusual paths. The demo
  definitions instantiate the floating point with whole numbers.
\<close>

definition demo_cfg :: "int CbsdConfig" where
  "demo_cfg = \<lparr> c_fccId = ''FCC-DEVICE-001'', c_callSign = ''KA1ABC'', c_category = ''A'',
     c_latitude = 37, c_longitude = -122, c_heightMeters = 5, c_antennaGainDbi = 6,
     c_desiredFreqMHz = 3555, c_desiredBwMHz = 10 \<rparr>"

abbreviation stub_step :: "'d::zero fp_ops \<Rightarrow> ('d, SasState option) dp_sys \<Rightarrow> dp_event \<Rightarrow> ('d, SasState option) dp_sys" where
  "stub_step F \<equiv> dp_step F (sas_exchange F)"

definition demo_sys :: "(int, SasState option) dp_sys" where
  "demo_sys = stub_step fp_whole (dp_init (Some sas_init)) Connect"

definition demo_turns :: "string list \<Rightarrow> int Agent \<times> (int, SasState option) dp_sys \<times> bool" where
  "demo_turns ls = run (agent_turn fp_whole (sas_exchange fp_whole) demo_cfg 0) (agent_init, demo_sys, False) ls"

definition demo_status :: "string list \<Rightarrow> SpectrumState \<times> string \<times> SpectrumState option \<times> bool" where
  "demo_status ls = (case demo_turns ls of
     (a, s, d) \<Rightarrow> (ag_state a, ag_cbsdId a, entry_state (reg s) (ag_cbsdId a), d))"

lemma demo_authorized:
  "demo_status [''REGISTER'', ''GRANT'', ''HEARTBEAT''] = (AUTHORIZED, ''CBSD-SAS-1'', Some AUTHORIZED, False)"
  by code_simp

lemma demo_ok: "cfg_ok demo_cfg" "conns demo_sys 0 = Some ([], Receiving)"
  by (simp_all add: cfg_ok_def demo_cfg_def demo_sys_def dp_init_def set_conn_def)

subsection \<open>Agreement\<close>

text \<open>C15. Agreement of device and proxy: run the device's loop on any command lines against the
  Domain Proxy and the SAS stub, other connections standing still. While the device is in its loop,
  it is either unregistered and without a grant, or the registry of the proxy holds an entry under
  its identifier with exactly its state and its grant identifier. In particular the proxy never
  rejects a message of this device.\<close>

theorem device_proxy_agree:
  assumes "fp_ok F" and "cfg_ok cfg" and "conns s i = Some ([], Receiving)"
    and "run (agent_turn F (sas_exchange F) cfg i) (agent_init, s, False) lines = (a', s', False)"
  shows "if ag_cbsdId a' = [] then ag_state a' = UNREGISTERED \<and> ag_grantId a' = []
    else map_option (\<lambda>c. (state c, grantId c)) (reg_get (reg s') (ag_cbsdId a'))
           = Some (ag_state a', ag_grantId a')"
proof -
  have "agrees i agent_init s"
    using assms(3) by (simp add: agrees_def agent_init_def)
  from turns_agree [OF assms(1,2) this assms(4)] have "agrees i a' s'" .
  then show ?thesis
    by (auto simp: agrees_def split: option.splits prod.splits phase.splits if_splits)
qed

theorem device_proxy_agree_witness:
  "\<exists>a s. demo_turns [''REGISTER'', ''GRANT'', ''HEARTBEAT''] = (a, s, False) \<and>
     map_option (\<lambda>c. (state c, grantId c)) (reg_get (reg s) ''CBSD-SAS-1'') = Some (AUTHORIZED, ag_grantId a)"
proof -
  obtain a s d where t: "demo_turns [''REGISTER'', ''GRANT'', ''HEARTBEAT''] = (a, s, d)"
    by (metis prod_cases3)
  with demo_authorized have v: "\<not> d" "ag_state a = AUTHORIZED" "ag_cbsdId a = ''CBSD-SAS-1''"
    by (simp_all add: demo_status_def)
  with t have "run (agent_turn fp_whole (sas_exchange fp_whole) demo_cfg 0) (agent_init, demo_sys, False)
      [''REGISTER'', ''GRANT'', ''HEARTBEAT''] = (a, s, False)"
    by (simp add: demo_turns_def)
  from device_proxy_agree [OF fp_whole_ok demo_ok this] t v show ?thesis by simp
qed

subsection \<open>Every schedule of the connection threads\<close>

definition demo_schedule :: "dp_event list" where
  "demo_schedule = [Connect, Receive 0 (register_req fp_whole demo_cfg), Connect, Exchange 0]"

lemma demo_schedule_ok:
  "length demo_schedule = 4" "\<forall>e\<in>set demo_schedule. clean_event e"
  using register_req_clean [OF demo_ok(1) fp_whole_ok] by (simp_all add: demo_schedule_def)

abbreviation after :: "'d::zero fp_ops \<Rightarrow> dp_event list \<Rightarrow> ('d, SasState option) dp_sys" where
  "after F es \<equiv> run (stub_step F) (dp_init (Some sas_init)) es"

lemma after_inv:
  assumes "fp_ok F" and "length es \<le> 2 ^ 32" and "\<forall>e\<in>set es. clean_event e"
  shows "\<exists>m \<le> length es. spectrum_service.sys_inv stub_issued cbsd_id_of m (after F es)"
proof -
  note svc = stub_service [OF assms(1)]
  have "spectrum_service.sys_inv stub_issued cbsd_id_of 0
      (dp_init (Some sas_init) :: ('a, SasState option) dp_sys)"
    by (rule spectrum_service.init_inv [OF svc]) (simp add: stub_issued_def sas_init_def)
  from spectrum_service.run_safe [OF svc this _ assms(3)] assms(2) show ?thesis by auto
qed



text \<open>C21. Exclusive identifiers: under any such schedule no two connections of the Domain Proxy work
  under the same CBSD identifier, so no device can change or remove the entry of another.\<close>

theorem proxy_exclusive_ids:
  assumes "fp_ok F" and "length es \<le> 2 ^ 32" and "\<forall>x\<in>set es. clean_event x"
    and "conns (after F es) i = Some (my, p)" and "conns (after F es) j = Some (my', p')"
    and "i \<noteq> j" and "my \<noteq> []"
  shows "my \<noteq> my'"
proof -
  obtain m where "spectrum_service.sys_inv stub_issued cbsd_id_of m (after F es)"
    using after_inv [OF assms(1-3)] by blast
  from spectrum_service.sys_invD(6) [OF stub_service [OF assms(1)] this assms(4,5,6)] assms(7)
  show ?thesis by (auto simp: claim_def)
qed

theorem proxy_exclusive_ids_witness:
  "map (\<lambda>i. map_option fst (conns (after fp_whole (demo_schedule @ [Finish 0])) i)) [0, 1]
     = [Some ''CBSD-SAS-1'', Some []] \<and> ''CBSD-SAS-1'' \<noteq> []"
proof -
  have c: "map (\<lambda>i. conns (after fp_whole (demo_schedule @ [Finish 0])) i) [0, 1]
     = [Some (''CBSD-SAS-1'', Receiving), Some ([], Receiving)]"
    by code_simp
  have "''CBSD-SAS-1'' \<noteq> []"
    by (rule proxy_exclusive_ids [OF fp_whole_ok, of "demo_schedule @ [Finish 0]" 0 _ Receiving 1 _ Receiving])
      (use c demo_schedule_ok in auto)
  with c show ?thesis by simp
qed



subsection \<open>One message\<close>

text \<open>The guard is exact: a message of a waiting connection goes to the SAS if and only if it is not
  a GrantRequest outside REGISTERED and not a HeartbeatRequest outside GRANTED and AUTHORIZED, the
  state being that of the connection's own registry entry; a rejected message leaves registry, SAS and
  connections as they are and is answered once, on that connection, with a non-zero response code.\<close>

theorem proxy_guard_exact:
  assumes "conns s i = Some (my, Receiving)" and "reg_get (reg s) [] = None"
  shows "(let s' = dp_step F X s (Receive i req); st = entry_state (reg s) my in
     if (ty req = ''GrantRequest'' \<and> st \<noteq> Some REGISTERED)
        \<or> (ty req = ''HeartbeatRequest'' \<and> st \<noteq> Some GRANTED \<and> st \<noteq> Some AUTHORIZED)
     then reg s' = reg s \<and> sas s' = sas s \<and> conns s' = conns s \<and>
          (\<exists>err code. sent s' = sent s @ [(i, err)] \<and> code \<noteq> 0 \<and> cbrs_get err ''responseCode'' = json_num code)
     else conns s' i = Some (my, Waiting req) \<and> sent s' = sent s)"
proof -
  have e: "cbrs_get grant_reject ''responseCode'' = json_num 103"
    "cbrs_get heartbeat_reject ''responseCode'' = json_num 400"
    by (simp_all add: grant_reject_def heartbeat_reject_def wire_simps)
  have st: "state (dp_info (reg s) my) = (case entry_state (reg s) my of None \<Rightarrow> UNREGISTERED | Some t \<Rightarrow> t)"
    using assms(2) by (auto simp: dp_info_def entry_state_def fresh_info_def split: option.splits)
  let ?st = "entry_state (reg s) my"
  have rej: "dp_step F X s (Receive i req) = s\<lparr>sent := sent s @ [(i, err)]\<rparr>"
    if "dp_guard (reg s) my req = Some err" for err
    using assms(1) that by simp
  have eq: "(state (dp_info (reg s) my) = z) = (?st = Some z)" if "z \<noteq> UNREGISTERED" for z
    using that by (auto simp: st split: option.splits)
  consider (g) "ty req = ''GrantRequest''" "?st \<noteq> Some REGISTERED"
    | (h) "ty req = ''HeartbeatRequest''" "?st \<noteq> Some GRANTED" "?st \<noteq> Some AUTHORIZED"
    | (ok) "\<not> (ty req = ''GrantRequest'' \<and> ?st \<noteq> Some REGISTERED)"
        "\<not> (ty req = ''HeartbeatRequest'' \<and> ?st \<noteq> Some GRANTED \<and> ?st \<noteq> Some AUTHORIZED)"
    by blast
  then show ?thesis
  proof cases
    case g
    have "dp_guard (reg s) my req = Some grant_reject" using g by (simp add: dp_guard_def eq)
    from rej [OF this] g e(1) show ?thesis
      by (simp add: Let_def del: dp_step.simps) (rule exI [of _ 103], simp)
  next
    case h
    have "dp_guard (reg s) my req = Some heartbeat_reject" using h by (simp add: dp_guard_def eq)
    from rej [OF this] h e(2) show ?thesis
      by (simp add: Let_def del: dp_step.simps) (rule exI [of _ 400], simp)
  next
    case ok
    then have "dp_guard (reg s) my req = None" by (auto simp: dp_guard_def eq)
    with assms(1) ok show ?thesis by (simp only: Let_def) (simp add: set_conn_def)
  qed
qed

theorem proxy_guard_exact_witness:
  "conns (stub_step fp_whole demo_sys (Receive 0 (grant_req fp_whole demo_cfg ''CBSD-SAS-1''))) = conns demo_sys
   \<and> ty (grant_req fp_whole demo_cfg ''CBSD-SAS-1'') = ''GrantRequest''"
proof -
  have n: "reg demo_sys = []" by (simp add: demo_sys_def dp_init_def set_conn_def)
  then have "reg_get (reg demo_sys) [] = None" "entry_state (reg demo_sys) [] \<noteq> Some REGISTERED"
    by (simp_all add: reg_get_def entry_state_def)
  with proxy_guard_exact [OF demo_ok(2), of fp_whole "sas_exchange fp_whole" "grant_req fp_whole demo_cfg ''CBSD-SAS-1''"]
  show ?thesis by (simp add: Let_def del: dp_step.simps)
qed

text \<open>Caps of the SAS: an answered GrantRequest grants a bandwidth that is not above 20 MHz and an EIRP
  that is not above 30 dBm, whatever was asked, under the identifier of the request and a grant
  identifier that counts up by one.\<close>

theorem sas_grant_capped:
  assumes "fp_ok F" and "clean_req req" and "ty req = ''GrantRequest''"
    and "sas_handle F req s = (Inr resp, s')"
  shows "(\<exists>b e. cbrs_get resp ''operationBandwidthMHz'' = fp_show F b \<and> \<not> fp_less F (fp_lit F 20) b \<and>
            cbrs_get resp ''maxEirp'' = json_num (fp_to_int F e) \<and> \<not> fp_less F (fp_lit F 30) e) \<and>
    ty resp = ''GrantResponse'' \<and> cbrs_get resp ''cbsdId'' = cbrs_get req ''cbsdId'' \<and>
    cbrs_get resp ''grantId'' = ''GRANT-'' @ json_num (sint (g_grantCounter s)) \<and>
    s' = s\<lparr>g_grantCounter := g_grantCounter s + 1\<rparr>"
proof -
  have cap: "\<not> fp_less F (fp_lit F m) (fp_cap F m x)" for m x
    using assms(1) by (auto simp: fp_cap_def fp_ok_def)
  have cid: "quotefree (cbrs_get req ''cbsdId'')" using assms(2) by (simp add: clean_req_def)
  have "sas_grant F req s = (Inr resp, s')" using assms(3,4) by (simp add: sas_handle_def)
  then obtain f b e where
    r: "resp = grant_response F (cbrs_get req ''cbsdId'') (fst (makeGrantId s)) f (fp_cap F 20 b) (fp_cap F 30 e)"
    and s': "s' = snd (makeGrantId s)"
    by (auto simp: sas_grant_def Let_def split: sum.splits prod.splits)
  note g = grant_fields [OF assms(1) cid quotefree_grant_id [of s], of f "fp_cap F 20 b" "fp_cap F 30 e", folded r]
  show ?thesis
    by (intro conjI exI [of _ "fp_cap F 20 b"] exI [of _ "fp_cap F 30 e"])
      (simp_all add: g cap s' makeGrantId_def)
qed

definition greedy_req :: string where
  "greedy_req = json_obj [(''type'', json_str ''GrantRequest''), (''cbsdId'', json_str ''CBSD-SAS-1''),
     (''operationBandwidthMHz'', json_num 40), (''maxEirp'', json_num 47)]"

theorem sas_grant_capped_witness:
  "(\<exists>resp s'. sas_handle fp_whole greedy_req sas_init = (Inr resp, s') \<and> ty resp = ''GrantResponse''
     \<and> cbrs_get resp ''operationBandwidthMHz'' = ''20'')"
proof -
  have c: "clean_req greedy_req" "ty greedy_req = ''GrantRequest''"
    by (simp_all add: greedy_req_def clean_req_def wire_simps)
  have "(case sas_handle fp_whole greedy_req sas_init of (Inr resp, _) \<Rightarrow> cbrs_get resp ''operationBandwidthMHz'' = ''20''
     | _ \<Rightarrow> False)" by code_simp
  then obtain resp s' where r: "sas_handle fp_whole greedy_req sas_init = (Inr resp, s')"
    "cbrs_get resp ''operationBandwidthMHz'' = ''20''"
    by (auto split: prod.splits sum.splits)
  with sas_grant_capped [OF fp_whole_ok c r(1)] show ?thesis by blast
qed

subsection \<open>Unusual paths\<close>

text \<open>C30. A malformed number ends the SAS: the \<open>std::stod\<close> of a GrantRequest's bandwidth is not guarded,
  so when it throws, the process is gone and every later exchange of every connection gets the
  empty answer.\<close>

theorem sas_malformed_number_terminates:
  assumes "ty req = ''GrantRequest''" and "cbrs_get req ''operationFrequencyMHz'' = []"
    and "cbrs_get req ''operationBandwidthMHz'' = bad" and "bad \<noteq> []" and "fp_stod F bad = Inl exn"
  shows "sas_exchange F req (Some s) = ([], None) \<and>
    run (\<lambda>so r. snd (sas_exchange F r so)) (snd (sas_exchange F req (Some s))) reqs = None"
proof -
  have x: "sas_exchange F req (Some s) = ([], None)"
    using assms by (simp add: sas_exchange_def sas_handle_def sas_grant_def stod_or_def)
  have "run (\<lambda>so r. snd (sas_exchange F r so)) None reqs = None"
    by (induction reqs) (simp_all add: sas_exchange_def)
  with x show ?thesis by simp
qed

theorem sas_malformed_number_terminates_witness:
  "sas_exchange fp_whole (json_obj [(''type'', json_str ''GrantRequest''), (''operationBandwidthMHz'', json_str ''wide'')])
     (Some sas_init) = ([], None)"
proof -
  let ?req = "json_obj [(''type'', json_str ''GrantRequest''), (''operationBandwidthMHz'', json_str ''wide'')]"
  have "ty ?req = ''GrantRequest''" "cbrs_get ?req ''operationFrequencyMHz'' = []"
    "cbrs_get ?req ''operationBandwidthMHz'' = ''wide''"
    by (simp_all add: wire_simps)
  moreover have "fp_stod fp_whole ''wide'' = Inl InvalidArgument" by code_simp
  ultimately show ?thesis
    using sas_malformed_number_terminates [of ?req "''wide''" fp_whole InvalidArgument sas_init] by simp
qed

text \<open>A second registration on one connection strands the first entry: the proxy forwards it,
  takes over the new identifier, and at the disconnect removes only the new entry; the entry of the
  first identifier stays in the registry with no connection that could ever remove it.\<close>

theorem reregistration_strands_entry:
  "(let s = after fp_whole [Connect,
        Receive 0 (register_req fp_whole demo_cfg), Exchange 0, Finish 0,
        Receive 0 (register_req fp_whole demo_cfg), Exchange 0, Finish 0, Drop 0]
    in conns s 0 = Some (''CBSD-SAS-2'', Closed) \<and> entry_state (reg s) ''CBSD-SAS-2'' = None
       \<and> entry_state (reg s) ''CBSD-SAS-1'' = Some REGISTERED)"
  by code_simp

text \<open>The device transmits after a refused heartbeat: the HEARTBEAT branch of the agent does not look
  at the response code, so the proxy's own TERMINATED_GRANT answer (code 400) puts it into AUTHORIZED.\<close>

theorem agent_ignores_terminated_grant:
  "cbrs_get heartbeat_reject ''responseCode'' = json_num 400 \<and>
   ag_state (agent_answer F a Heartbeat heartbeat_reject) = AUTHORIZED"
  by (simp add: heartbeat_reject_def wire_simps)

end
