(* ===== verification/Upf_Rules.thy ===== *)
theory Upf_Rules
  imports Tables
begin

text \<open>
  \<open>5g-simulator/src/upf_fastpath/packet.h\<close> and \<open>pfcp_rules.h\<close>: the packet descriptor, the
  PFCP rules (PDR, FAR, QER), their table, and the rule set the demos install.
\<close>

unbundle bit_operations_syntax

datatype Direction = UL | DL

record Packet =
  p_teid :: u32
  p_ue_ip :: u32
  p_dscp :: byte
  p_payload_len :: u16
  p_arrival_ns :: u64
  p_qfi :: byte
  p_pdr_id :: u32
  p_far_id :: u32
  p_classified :: bool
  p_dropped :: bool
  p_seq :: u32
  p_dir :: Direction

definition fresh_packet :: Packet where
  "fresh_packet = \<lparr> p_teid = 0, p_ue_ip = 0, p_dscp = 0, p_payload_len = 0, p_arrival_ns = 0,
     p_qfi = 0, p_pdr_id = 0, p_far_id = 0, p_classified = False, p_dropped = False, p_seq = 0, p_dir = UL \<rparr>"

record PDR =
  pdr_id :: u32
  pdr_teid :: u32
  pdr_ue_ip :: u32
  pdr_dir :: Direction
  pdr_far_id :: u32
  pdr_qer_id :: u32
  pdr_precedence :: u32

datatype FarAction = FORWARD | DROP | BUFFER

record FAR =
  far_id :: u32
  far_action :: FarAction
  far_dst_ip :: u32
  far_dst_port :: u16
  far_encap_gtpu :: bool

record QER =
  qer_id :: u32
  qer_qfi :: byte
  ul_mbr_kbps :: u32
  dl_mbr_kbps :: u32
  ul_gbr_kbps :: u32
  dl_gbr_kbps :: u32

record RuleTable =
  pdrs :: "(u32, PDR) table"
  fars :: "(u32, FAR) table"
  qers :: "(u32, QER) table"
  teid_to_pdr :: "(u32, u32) table"
  ueip_to_pdr :: "(u32, u32) table"

definition empty_rules :: RuleTable where
  "empty_rules = \<lparr> pdrs = [], fars = [], qers = [], teid_to_pdr = [], ueip_to_pdr = [] \<rparr>"

subsection \<open>The operations of RuleTable\<close>

definition add_pdr :: "PDR \<Rightarrow> RuleTable \<Rightarrow> RuleTable" where
  "add_pdr pdr rt =
     (let rt1 = rt\<lparr>pdrs := tbl_set (pdrs rt) (pdr_id pdr) pdr\<rparr> in
      if pdr_dir pdr = UL
      then rt1\<lparr>teid_to_pdr := tbl_set (teid_to_pdr rt1) (pdr_teid pdr) (pdr_id pdr)\<rparr>
      else rt1\<lparr>ueip_to_pdr := tbl_set (ueip_to_pdr rt1) (pdr_ue_ip pdr) (pdr_id pdr)\<rparr>)"

definition add_far :: "FAR \<Rightarrow> RuleTable \<Rightarrow> RuleTable" where
  "add_far far rt = rt\<lparr>fars := tbl_set (fars rt) (far_id far) far\<rparr>"

definition add_qer :: "QER \<Rightarrow> RuleTable \<Rightarrow> RuleTable" where
  "add_qer qer rt = rt\<lparr>qers := tbl_set (qers rt) (qer_id qer) qer\<rparr>"

definition match_pdr :: "RuleTable \<Rightarrow> Packet \<Rightarrow> PDR option" where
  "match_pdr rt pkt =
     (case (if p_dir pkt = UL then map_of (teid_to_pdr rt) (p_teid pkt)
            else map_of (ueip_to_pdr rt) (p_ue_ip pkt)) of
        None \<Rightarrow> None
      | Some i \<Rightarrow> map_of (pdrs rt) i)"

definition get_far :: "RuleTable \<Rightarrow> u32 \<Rightarrow> FAR option" where
  "get_far rt i = map_of (fars rt) i"

definition get_qer :: "RuleTable \<Rightarrow> u32 \<Rightarrow> QER option" where
  "get_qer rt i = map_of (qers rt) i"

subsection \<open>The demo rule set\<close>

definition ip4 :: "nat \<Rightarrow> nat \<Rightarrow> nat \<Rightarrow> nat \<Rightarrow> u32" where
  "ip4 a b c d = push_bit 24 (word_of_nat a) OR push_bit 16 (word_of_nat b) OR push_bit 8 (word_of_nat c) OR word_of_nat d"

definition demo_qer :: "u32 \<Rightarrow> QER" where
  "demo_qer i =
     (let qi = unat (i mod 3) in
      \<lparr> qer_id = i + 1, qer_qfi = [1, 2, 9] ! qi,
        ul_mbr_kbps = [64, 4000, 100000] ! qi, dl_mbr_kbps = [64, 8000, 100000] ! qi,
        ul_gbr_kbps = [64, 2000, 0] ! qi, dl_gbr_kbps = [64, 4000, 0] ! qi \<rparr>)"

definition demo_pdr :: "u32 \<Rightarrow> Direction \<Rightarrow> PDR" where
  "demo_pdr i d =
     (let rid = (if d = UL then 2 * i + 1 else 2 * i + 2) in
      \<lparr> pdr_id = rid, pdr_teid = 1000 + i, pdr_ue_ip = ip4 10 45 0 1 + i, pdr_dir = d,
        pdr_far_id = rid, pdr_qer_id = i + 1, pdr_precedence = 100 \<rparr>)"

definition demo_far :: "u32 \<Rightarrow> Direction \<Rightarrow> FAR" where
  "demo_far i d =
     (if d = UL
      then \<lparr> far_id = 2 * i + 1, far_action = FORWARD, far_dst_ip = ip4 8 8 8 8, far_dst_port = 0, far_encap_gtpu = False \<rparr>
      else \<lparr> far_id = 2 * i + 2, far_action = FORWARD, far_dst_ip = ip4 10 10 0 1, far_dst_port = 2152, far_encap_gtpu = True \<rparr>)"

definition install_ue :: "nat \<Rightarrow> RuleTable \<Rightarrow> RuleTable" where
  "install_ue n rt =
     (let i = word_of_nat n in
      add_qer (demo_qer i) (add_far (demo_far i DL) (add_far (demo_far i UL)
        (add_pdr (demo_pdr i DL) (add_pdr (demo_pdr i UL) rt)))))"

definition build_demo_rules :: "u32 \<Rightarrow> RuleTable" where
  "build_demo_rules num_ues = fold install_ue [0..<unat num_ues] empty_rules"

definition make_demo_packet :: "u32 \<Rightarrow> Direction \<Rightarrow> u32 \<Rightarrow> u64 \<Rightarrow> Packet" where
  "make_demo_packet ue dir seq now =
     fresh_packet\<lparr>p_seq := seq + 1, p_dir := dir, p_teid := 1000 + ue, p_ue_ip := ip4 10 45 0 1 + ue,
       p_dscp := (if ue mod 3 = 0 then 46 else if ue mod 3 = 1 then 34 else 0),
       p_payload_len := (if dir = UL then 60 else 1400), p_arrival_ns := now,
       p_qfi := (if ue mod 3 = 0 then 1 else if ue mod 3 = 1 then 2 else 9)\<rparr>"

subsection \<open>Looking up what was installed\<close>

lemma word_of_nat_eq_small:
  "a < 2 ^ 32 \<Longrightarrow> b < 2 ^ 32 \<Longrightarrow> ((word_of_nat a :: u32) = word_of_nat b) = (a = b)"
  by (simp add: word_of_nat_eq_iff take_bit_nat_eq_self)

lemma lookups_add [simp]:
  "map_of (pdrs (add_pdr p rt)) = (map_of (pdrs rt))(pdr_id p := Some p)"
  "map_of (teid_to_pdr (add_pdr p rt)) =
     (if pdr_dir p = UL then (map_of (teid_to_pdr rt))(pdr_teid p := Some (pdr_id p)) else map_of (teid_to_pdr rt))"
  "map_of (ueip_to_pdr (add_pdr p rt)) =
     (if pdr_dir p = UL then map_of (ueip_to_pdr rt) else (map_of (ueip_to_pdr rt))(pdr_ue_ip p := Some (pdr_id p)))"
  "fars (add_pdr p rt) = fars rt" "qers (add_pdr p rt) = qers rt"
  "map_of (fars (add_far f rt)) = (map_of (fars rt))(far_id f := Some f)"
  "pdrs (add_far f rt) = pdrs rt" "teid_to_pdr (add_far f rt) = teid_to_pdr rt"
  "ueip_to_pdr (add_far f rt) = ueip_to_pdr rt" "qers (add_far f rt) = qers rt"
  "map_of (qers (add_qer q rt)) = (map_of (qers rt))(qer_id q := Some q)"
  "pdrs (add_qer q rt) = pdrs rt" "teid_to_pdr (add_qer q rt) = teid_to_pdr rt"
  "ueip_to_pdr (add_qer q rt) = ueip_to_pdr rt" "fars (add_qer q rt) = fars rt"
  by (simp_all add: add_pdr_def add_far_def add_qer_def Let_def)

definition demo_upto :: "nat \<Rightarrow> RuleTable" where
  "demo_upto n = fold install_ue [0..<n] empty_rules"

lemma demo_upto_Suc: "demo_upto (Suc n) = install_ue n (demo_upto n)"
  by (simp add: demo_upto_def)

lemma demo_ids_distinct:
  assumes "i < n" and "Suc n < 2 ^ 31"
  defines "v \<equiv> word_of_nat i :: u32" and "w \<equiv> word_of_nat n :: u32"
  shows "v \<noteq> w" and "2 * v + 1 \<noteq> 2 * w + 1" and "2 * v + 2 \<noteq> 2 * w + 2"
    and "2 * v + 1 \<noteq> 2 * w + 2" and "2 * v + 2 \<noteq> 2 * w + 1"
proof -
  note small = word_of_nat_eq_small
  show "v \<noteq> w" using small [of i n] assms by auto
  have e: "2 * v + 1 = word_of_nat (2 * i + 1)" "2 * w + 1 = word_of_nat (2 * n + 1)"
    "2 * v + 2 = word_of_nat (2 * i + 2)" "2 * w + 2 = word_of_nat (2 * n + 2)"
    by (simp_all add: v_def w_def)
  have odd: "2 * i + 1 \<noteq> 2 * n + 2" "2 * i + 2 \<noteq> 2 * n + 1" by presburger+
  show "2 * v + 1 \<noteq> 2 * w + 1" using small [of "2 * i + 1" "2 * n + 1"] assms(1,2) unfolding e by auto
  show "2 * v + 2 \<noteq> 2 * w + 2" using small [of "2 * i + 2" "2 * n + 2"] assms(1,2) unfolding e by auto
  show "2 * v + 1 \<noteq> 2 * w + 2" using small [of "2 * i + 1" "2 * n + 2"] assms(1,2) odd unfolding e by auto
  show "2 * v + 2 \<noteq> 2 * w + 1" using small [of "2 * i + 2" "2 * n + 1"] assms(1,2) odd unfolding e by auto
qed

definition ue_installed :: "RuleTable \<Rightarrow> u32 \<Rightarrow> bool" where
  "ue_installed rt w \<longleftrightarrow>
     map_of (teid_to_pdr rt) (1000 + w) = Some (2 * w + 1) \<and>
     map_of (ueip_to_pdr rt) (ip4 10 45 0 1 + w) = Some (2 * w + 2) \<and>
     map_of (pdrs rt) (2 * w + 1) = Some (demo_pdr w UL) \<and>
     map_of (pdrs rt) (2 * w + 2) = Some (demo_pdr w DL) \<and>
     map_of (fars rt) (2 * w + 1) = Some (demo_far w UL) \<and>
     map_of (fars rt) (2 * w + 2) = Some (demo_far w DL) \<and>
     map_of (qers rt) (w + 1) = Some (demo_qer w)"

lemma demo_rule_keys [simp]:
  "pdr_id (demo_pdr w d) = (if d = UL then 2 * w + 1 else 2 * w + 2)" "pdr_dir (demo_pdr w d) = d"
  "pdr_teid (demo_pdr w d) = 1000 + w" "pdr_ue_ip (demo_pdr w d) = ip4 10 45 0 1 + w"
  "pdr_far_id (demo_pdr w d) = (if d = UL then 2 * w + 1 else 2 * w + 2)" "pdr_qer_id (demo_pdr w d) = w + 1"
  "far_id (demo_far w d) = (if d = UL then 2 * w + 1 else 2 * w + 2)" "qer_id (demo_qer w) = w + 1"
  "far_action (demo_far w d) = FORWARD"
  by (simp_all add: demo_pdr_def demo_far_def demo_qer_def Let_def)

lemma installed_new: "ue_installed (install_ue n rt) (word_of_nat n)"
  by (simp add: ue_installed_def install_ue_def Let_def)

lemma installed_old:
  assumes "ue_installed rt (word_of_nat i)" and "i < n" and "Suc n < 2 ^ 31"
  shows "ue_installed (install_ue n rt) (word_of_nat i)"
  using assms(1) demo_ids_distinct [OF assms(2,3)]
  by (simp add: ue_installed_def install_ue_def Let_def)

lemma demo_installed: "n < 2 ^ 31 \<Longrightarrow> i < n \<Longrightarrow> ue_installed (demo_upto n) (word_of_nat i)"
proof (induction n)
  case 0
  then show ?case by simp
next
  case (Suc n)
  then show ?case
    by (cases "i = n") (auto simp: demo_upto_Suc installed_new intro!: installed_old)
qed

lemma demo_rules_installed:
  assumes "num < 2 ^ 31" and "ue < num"
  shows "ue_installed (build_demo_rules num) ue"
proof -
  have "unat num < 2 ^ 31" "unat ue < unat num"
    using assms by (simp_all add: word_less_nat_alt)
  from demo_installed [OF this] show ?thesis
    by (simp add: demo_upto_def build_demo_rules_def)
qed

end
