(* ===== verification/Upf_Stats.thy ===== *)
theory Upf_Stats
  imports Upf_Rules "HOL-Library.Multiset"
begin

text \<open>
  \<open>5g-simulator/src/upf_fastpath/stats.h\<close>: the counters of a forwarding path and its latency
  samples. Counters are 64-bit words and wrap. The reservoir has \<open>RESERVOIR_SIZE\<close> slots that
  are filled in turn.
\<close>

definition RESERVOIR_SIZE :: nat where
  "RESERVOIR_SIZE = 100000"

record PathStats =
  pkts_rx :: u64
  pkts_forwarded :: u64
  pkts_dropped :: u64
  pkts_no_pdr :: u64
  latencies :: "u64 list"
  sample_idx :: u64

definition stats_init :: PathStats where
  "stats_init = \<lparr> pkts_rx = 0, pkts_forwarded = 0, pkts_dropped = 0, pkts_no_pdr = 0,
     latencies = replicate RESERVOIR_SIZE 0, sample_idx = 0 \<rparr>"

definition count_rx :: "PathStats \<Rightarrow> PathStats" where
  "count_rx st = st\<lparr>pkts_rx := pkts_rx st + 1\<rparr>"

definition count_forwarded :: "PathStats \<Rightarrow> PathStats" where
  "count_forwarded st = st\<lparr>pkts_forwarded := pkts_forwarded st + 1\<rparr>"

definition count_dropped :: "PathStats \<Rightarrow> PathStats" where
  "count_dropped st = st\<lparr>pkts_dropped := pkts_dropped st + 1\<rparr>"

definition count_no_pdr :: "PathStats \<Rightarrow> PathStats" where
  "count_no_pdr st = st\<lparr>pkts_no_pdr := pkts_no_pdr st + 1\<rparr>"

definition record_latency :: "u64 \<Rightarrow> u64 \<Rightarrow> PathStats \<Rightarrow> PathStats" where
  "record_latency arrival now st =
     (if now \<le> arrival then st
      else st\<lparr>latencies := (latencies st)[unat (sample_idx st) mod RESERVOIR_SIZE := now - arrival],
              sample_idx := sample_idx st + 1\<rparr>)"

record Percentiles =
  p50_ns :: u64
  p95_ns :: u64
  p99_ns :: u64
  avg_ns :: u64
  min_ns :: u64
  max_ns :: u64

definition no_percentiles :: Percentiles where
  "no_percentiles = \<lparr> p50_ns = 0, p95_ns = 0, p99_ns = 0, avg_ns = 0, min_ns = 0, max_ns = 0 \<rparr>"

definition filled :: "PathStats \<Rightarrow> nat" where
  "filled st = min (unat (sample_idx st)) RESERVOIR_SIZE"

definition sorted_samples :: "PathStats \<Rightarrow> u64 list" where
  "sorted_samples st = sort (take (filled st) (latencies st))"

definition compute_percentiles :: "PathStats \<Rightarrow> Percentiles" where
  "compute_percentiles st =
     (let n = filled st; s = sorted_samples st in
      if n = 0 then no_percentiles
      else \<lparr> p50_ns = s ! (n * 50 div 100), p95_ns = s ! (n * 95 div 100), p99_ns = s ! (n * 99 div 100),
             avg_ns = sum_list s div word_of_nat n, min_ns = hd s, max_ns = last s \<rparr>)"

definition stats_reset :: "PathStats \<Rightarrow> PathStats" where
  "stats_reset st = st\<lparr>pkts_rx := 0, pkts_forwarded := 0, pkts_dropped := 0, pkts_no_pdr := 0,
     sample_idx := 0, latencies := replicate (length (latencies st)) 0\<rparr>"

lemmas count_defs = count_rx_def count_forwarded_def count_dropped_def count_no_pdr_def

subsection \<open>The reservoir\<close>

definition stats_ok :: "PathStats \<Rightarrow> bool" where
  "stats_ok st \<longleftrightarrow> length (latencies st) = RESERVOIR_SIZE"

lemma stats_ok_ops [simp]:
  "stats_ok stats_init" "stats_ok (count_rx st) = stats_ok st" "stats_ok (count_forwarded st) = stats_ok st"
  "stats_ok (count_dropped st) = stats_ok st" "stats_ok (count_no_pdr st) = stats_ok st"
  "stats_ok (record_latency a b st) = stats_ok st" "stats_ok (stats_reset st) = stats_ok st"
  by (simp_all add: stats_ok_def stats_init_def count_defs record_latency_def stats_reset_def)

text \<open>The four counters, which the latency samples do not touch.\<close>

definition counters :: "PathStats \<Rightarrow> u64 \<times> u64 \<times> u64 \<times> u64" where
  "counters st = (pkts_rx st, pkts_forwarded st, pkts_dropped st, pkts_no_pdr st)"

lemma counters_latency [simp]: "counters (record_latency a b st) = counters st"
  by (simp add: counters_def record_latency_def)

lemma length_sorted_samples: "stats_ok st \<Longrightarrow> length (sorted_samples st) = filled st"
  by (simp add: sorted_samples_def stats_ok_def filled_def)

lemma sorted_sorted_samples: "sorted (sorted_samples st)"
  by (simp add: sorted_samples_def)

lemma sum_list_bounds:
  assumes "\<forall>x\<in>set xs. lo \<le> x \<and> x \<le> hi"
  shows "length xs * lo \<le> sum_list xs \<and> sum_list xs \<le> length xs * (hi::nat)"
  using assms by (induction xs) auto

lemma unat_sum_list:
  fixes xs :: "u64 list"
  assumes "sum_list (map unat xs) < 2 ^ 64"
  shows "unat (sum_list xs) = sum_list (map unat xs)"
  using assms
proof (induction xs)
  case (Cons x xs)
  then have "unat x + unat (sum_list xs) < 2 ^ 64" by simp
  then have "unat (x + sum_list xs) = unat x + unat (sum_list xs)"
    by (subst unat_add_lem [symmetric]) (simp add: word_size)
  with Cons show ?case by simp
qed simp

lemma sum_list_sort:
  fixes xs :: "u64 list"
  shows "sum_list (map unat (sort xs)) = sum_list (map unat xs)"
  by (metis mset_map mset_sort sum_mset_sum_list)

lemma average_between:
  fixes xs :: "u64 list"
  assumes "0 < length xs" and "length xs < 2 ^ 64" and "sum_list (map unat xs) < 2 ^ 64"
    and "\<forall>x\<in>set xs. lo \<le> x \<and> x \<le> hi"
  shows "lo \<le> sum_list xs div word_of_nat (length xs) \<and> sum_list xs div word_of_nat (length xs) \<le> hi"
proof -
  have n: "unat (word_of_nat (length xs) :: u64) = length xs"
    using assms(2) by (simp add: unat_of_nat take_bit_nat_eq_self)
  have q: "unat (sum_list xs div word_of_nat (length xs)) = sum_list (map unat xs) div length xs"
    by (simp only: unat_div n unat_sum_list [OF assms(3)])
  have "\<forall>x\<in>set (map unat xs). unat lo \<le> x \<and> x \<le> unat hi"
    using assms(4) by (auto simp: word_le_nat_alt)
  from sum_list_bounds [OF this] have
    "length xs * unat lo \<le> sum_list (map unat xs)" "sum_list (map unat xs) \<le> length xs * unat hi" by simp_all
  then have "length xs * unat lo div length xs \<le> sum_list (map unat xs) div length xs"
    "sum_list (map unat xs) div length xs \<le> length xs * unat hi div length xs"
    by (simp_all only: div_le_mono)
  then have "unat lo \<le> sum_list (map unat xs) div length xs" "sum_list (map unat xs) div length xs \<le> unat hi"
    using assms(1) by simp_all
  then show ?thesis by (simp add: word_le_nat_alt q)
qed

end
