(* ===== verification/Upf_Ring.thy ===== *)
theory Upf_Ring
  imports Prelude
begin

text \<open>
  \<open>5g-simulator/src/upf_fastpath/ring_buffer.h\<close>: the single-producer single-consumer ring.
  Cursors are 64-bit words, indices are masked with \<open>N - 1\<close> where \<open>N\<close> is a power of two.
  First the operations on their own, as an instance of the bounded-queue interface; then the
  producer and the consumer as two threads whose atomic loads and stores interleave.
\<close>

unbundle bit_operations_syntax

record 'a ring =
  r_head :: u64
  r_tail :: u64
  r_buf :: "'a list"

definition ring_new :: "u64 \<Rightarrow> 'a \<Rightarrow> 'a ring" where
  "ring_new N dflt = \<lparr> r_head = 0, r_tail = 0, r_buf = replicate (unat N) dflt \<rparr>"

definition ring_capacity :: "u64 \<Rightarrow> u64" where
  "ring_capacity N = N - 1"

definition ring_push :: "u64 \<Rightarrow> 'a ring \<Rightarrow> 'a \<Rightarrow> bool \<times> 'a ring" where
  "ring_push N r v =
     (let h = r_head r; next_h = (h + 1) AND (N - 1) in
      if next_h = r_tail r then (False, r)
      else (True, r\<lparr>r_buf := (r_buf r)[unat h := v], r_head := next_h\<rparr>))"

definition ring_pop :: "u64 \<Rightarrow> 'a ring \<Rightarrow> 'a option \<times> 'a ring" where
  "ring_pop N r =
     (let t = r_tail r in
      if t = r_head r then (None, r)
      else (Some (r_buf r ! unat t), r\<lparr>r_tail := (t + 1) AND (N - 1)\<rparr>))"

definition burst_count :: "u64 \<Rightarrow> u64 \<Rightarrow> u64 \<Rightarrow> u64 \<Rightarrow> u64" where
  "burst_count N h t mx = (let avail = (h - t) AND (N - 1) in if avail < mx then avail else mx)"

definition ring_pop_burst :: "u64 \<Rightarrow> 'a ring \<Rightarrow> u64 \<Rightarrow> 'a list \<times> 'a ring" where
  "ring_pop_burst N r mx =
     (let t = r_tail r; n = burst_count N (r_head r) t mx;
          out = map (\<lambda>i. r_buf r ! unat ((t + word_of_nat i) AND (N - 1))) [0..<unat n] in
      (out, if 0 < n then r\<lparr>r_tail := (t + n) AND (N - 1)\<rparr> else r))"

definition ring_size :: "u64 \<Rightarrow> 'a ring \<Rightarrow> u64" where
  "ring_size N r = (r_head r - r_tail r) AND (N - 1)"

definition ring_empty :: "'a ring \<Rightarrow> bool" where
  "ring_empty r \<longleftrightarrow> r_head r = r_tail r"

subsection \<open>Masking is reduction modulo the size\<close>

definition pow2_size :: "u64 \<Rightarrow> bool" where
  "pow2_size N \<longleftrightarrow> (\<exists>k < 64. N = 2 ^ k)"

lemma unat_p2:
  assumes "k < 64"
  shows "unat (2 ^ k :: u64) = 2 ^ k"
proof -
  have "(2::nat) ^ k < 2 ^ LENGTH(64)"
    using assms by (intro power_strict_increasing) auto
  then have "unat (word_of_nat (2 ^ k) :: u64) = 2 ^ k"
    by (simp only: unat_of_nat mod_less)
  then show ?thesis by (simp only: of_nat_power of_nat_numeral)
qed

lemma unat_less_p64: "unat (w :: u64) < 2 ^ 64"
  using unsigned_less [of w] by simp

lemma mask_mod: "pow2_size N \<Longrightarrow> unat (w AND (N - 1)) = unat w mod unat N"
proof -
  assume "pow2_size N"
  then obtain k where k: "k < 64" "N = 2 ^ k" by (auto simp: pow2_size_def)
  have "w AND (N - 1) = w mod 2 ^ k"
    by (simp only: k(2) mask_eq_exp_minus_1 [symmetric] take_bit_eq_mask [symmetric] take_bit_eq_mod)
  then show "unat (w AND (N - 1)) = unat w mod unat N"
    by (simp only: unat_mod k(2))
qed

lemma pow2_size_pos: "pow2_size N \<Longrightarrow> 0 < unat N"
  by (auto simp: pow2_size_def unat_p2)

lemma pow2_divides: "pow2_size N \<Longrightarrow> unat N dvd 2 ^ 64"
  unfolding pow2_size_def by (metis less_imp_le le_imp_power_dvd unat_p2)

text \<open>The masked difference of two cursors, computed modulo \<open>2^64\<close>, is their distance around the ring.\<close>

lemma mask_diff:
  assumes "pow2_size N" and "unat h < unat N" and "unat t < unat N"
  shows "unat ((h - t) AND (N - 1)) = (unat h + unat N - unat t) mod unat N"
proof -
  have "unat (h - t) mod unat N = (unat h + 2 ^ 64 - unat t) mod unat N"
  proof -
    have "unat t < 2 ^ 64" using unat_less_p64 [of t] by simp
    then have "unat (h - t) = (unat h + 2 ^ 64 - unat t) mod 2 ^ 64"
      using unat_less_p64 [of h] by (auto simp: unat_sub_if' mod_if)
    then show ?thesis
      by (simp only: mod_mod_cancel [OF pow2_divides [OF assms(1)]])
  qed
  also have "\<dots> = (unat h + unat N - unat t) mod unat N"
  proof -
    obtain c where c: "(2::nat) ^ 64 = unat N * Suc c"
    proof -
      from pow2_divides [OF assms(1)] obtain d where d: "(2::nat) ^ 64 = unat N * d" by (rule dvdE)
      then have "d \<noteq> 0" by (cases d) auto
      with d that show ?thesis by (cases d) auto
    qed
    have "unat h + 2 ^ 64 - unat t = (unat h + unat N - unat t) + unat N * c"
      using c assms(3) by simp
    then show ?thesis by simp
  qed
  finally show ?thesis by (simp add: mask_mod [OF assms(1)])
qed

lemma mask_add: "pow2_size N \<Longrightarrow> unat ((t + word_of_nat i) AND (N - 1)) = (unat t + i) mod unat N"
proof -
  assume N: "pow2_size N"
  have "unat (t + word_of_nat i) = (unat t + i) mod 2 ^ 64"
    by (simp add: unat_word_ariths unat_of_nat mod_add_right_eq)
  with mask_mod [OF N, of "t + word_of_nat i"] pow2_divides [OF N] show ?thesis
    by (simp only: mod_mod_cancel)
qed

lemma mask_Suc: "pow2_size N \<Longrightarrow> unat ((t + 1) AND (N - 1)) = (unat t + 1) mod unat N"
  using mask_add [of N t 1] by simp

subsection \<open>Distances around the ring\<close>

definition gap :: "nat \<Rightarrow> nat \<Rightarrow> nat \<Rightarrow> nat" where
  "gap M h t = (h + M - t) mod M"

lemma gap_if: "h < M \<Longrightarrow> t < M \<Longrightarrow> gap M h t = (if t \<le> h then h - t else h + M - t)"
  by (auto simp: gap_def mod_if)

lemma wrap_if: "t < M \<Longrightarrow> i < M \<Longrightarrow> (t + i) mod M = (if t + i < M then t + i else t + i - M)"
  for t i M :: nat
  by (auto simp: mod_if)

lemma gap_facts:
  assumes h: "h < M" and t: "t < M"
  shows gap_less: "gap M h t < M"
    and gap_end: "(t + gap M h t) mod M = h"
    and gap_inside: "\<And>i. i < gap M h t \<Longrightarrow> (t + i) mod M \<noteq> h"
    and gap_zero: "gap M h t = 0 \<longleftrightarrow> h = t"
    and gap_full: "(h + 1) mod M = t \<longleftrightarrow> gap M h t = M - 1"
    and gap_push: "gap M h t \<noteq> M - 1 \<Longrightarrow> gap M ((h + 1) mod M) t = Suc (gap M h t)"
    and gap_pop: "\<And>n. n \<le> gap M h t \<Longrightarrow> gap M h ((t + n) mod M) = gap M h t - n"
proof -
  show less: "gap M h t < M"
    using h t by (simp add: gap_def)
  show "(t + gap M h t) mod M = h"
    using h t by (subst wrap_if [OF t less]) (auto simp: gap_if)
  show "(t + i) mod M \<noteq> h" if "i < gap M h t" for i
    using h t that less by (subst wrap_if) (auto simp: gap_if split: if_splits)
  show "gap M h t = 0 \<longleftrightarrow> h = t"
    using h t by (auto simp: gap_if)
  show "(h + 1) mod M = t \<longleftrightarrow> gap M h t = M - 1"
    using h t by (auto simp: gap_if mod_if)
  show "gap M ((h + 1) mod M) t = Suc (gap M h t)" if "gap M h t \<noteq> M - 1"
    using h t that by (auto simp: gap_def mod_if)
  show "gap M h ((t + n) mod M) = gap M h t - n" if "n \<le> gap M h t" for n
    using h t that less by (subst wrap_if) (auto simp: gap_if gap_def mod_if split: if_splits)
qed

lemma wrap_shift: "((t + n) mod M + i) mod M = (t + (n + i)) mod (M::nat)"
  by (simp add: mod_add_left_eq add.assoc)

subsection \<open>The ring as a bounded queue\<close>

definition ring_ok :: "u64 \<Rightarrow> 'a ring \<Rightarrow> bool" where
  "ring_ok N r \<longleftrightarrow> pow2_size N \<and> unat (r_head r) < unat N \<and> unat (r_tail r) < unat N
     \<and> length (r_buf r) = unat N"

definition ring_len :: "u64 \<Rightarrow> 'a ring \<Rightarrow> nat" where
  "ring_len N r = gap (unat N) (unat (r_head r)) (unat (r_tail r))"

definition ring_contents :: "u64 \<Rightarrow> 'a ring \<Rightarrow> 'a list" where
  "ring_contents N r = map (\<lambda>i. r_buf r ! ((unat (r_tail r) + i) mod unat N)) [0..<ring_len N r]"

lemma length_ring_contents [simp]: "length (ring_contents N r) = ring_len N r"
  by (simp add: ring_contents_def)

lemma ring_okD:
  assumes "ring_ok N r"
  shows "pow2_size N" and "unat (r_head r) < unat N" and "unat (r_tail r) < unat N"
    and "length (r_buf r) = unat N"
  using assms by (simp_all add: ring_ok_def)

lemma ring_ok_new: "pow2_size N \<Longrightarrow> ring_ok N (ring_new N d) \<and> ring_contents N (ring_new N d) = []"
  using pow2_size_pos [of N] by (auto simp: ring_ok_def ring_new_def ring_contents_def ring_len_def gap_def)

lemma ring_size_len: "ring_ok N r \<Longrightarrow> unat (ring_size N r) = ring_len N r"
  by (simp add: ring_size_def ring_len_def gap_def mask_diff ring_okD)

lemma ring_full_iff:
  "ring_ok N r \<Longrightarrow> ((r_head r + 1) AND (N - 1) = r_tail r) = (ring_len N r = unat N - 1)"
proof -
  assume ok: "ring_ok N r"
  have "((r_head r + 1) AND (N - 1) = r_tail r) = (unat ((r_head r + 1) AND (N - 1)) = unat (r_tail r))"
    by (simp add: word_unat_eq_iff)
  with gap_full [OF ring_okD(2,3) [OF ok]] show ?thesis
    by (simp only: mask_Suc [OF ring_okD(1) [OF ok]] ring_len_def)
qed

text \<open>Writing the slot at the head does not disturb the queued elements.\<close>

lemma contents_write:
  assumes "ring_ok N r"
  shows "ring_contents N (r\<lparr>r_buf := (r_buf r)[unat (r_head r) := v]\<rparr>) = ring_contents N r"
    and "ring_ok N (r\<lparr>r_buf := (r_buf r)[unat (r_head r) := v]\<rparr>)"
proof -
  show "ring_ok N (r\<lparr>r_buf := (r_buf r)[unat (r_head r) := v]\<rparr>)"
    using assms by (simp add: ring_ok_def)
  have "(unat (r_tail r) + i) mod unat N \<noteq> unat (r_head r)" if "i < ring_len N r" for i
    using gap_inside [OF ring_okD(2,3) [OF assms]] that by (simp add: ring_len_def)
  then show "ring_contents N (r\<lparr>r_buf := (r_buf r)[unat (r_head r) := v]\<rparr>) = ring_contents N r"
    by (intro nth_equalityI) (auto simp: ring_contents_def ring_len_def nth_list_update_neq [OF not_sym])
qed

text \<open>Advancing the head publishes the slot it pointed to.\<close>

lemma contents_publish:
  assumes ok: "ring_ok N r" and nf: "ring_len N r \<noteq> unat N - 1"
  shows "ring_contents N (r\<lparr>r_head := (r_head r + 1) AND (N - 1)\<rparr>)
           = ring_contents N r @ [r_buf r ! unat (r_head r)]"
    and "ring_ok N (r\<lparr>r_head := (r_head r + 1) AND (N - 1)\<rparr>)"
proof -
  note o = ring_okD [OF ok]
  show "ring_ok N (r\<lparr>r_head := (r_head r + 1) AND (N - 1)\<rparr>)"
    using o pow2_size_pos [OF o(1)] by (simp add: ring_ok_def mask_Suc)
  have "ring_len N (r\<lparr>r_head := (r_head r + 1) AND (N - 1)\<rparr>) = Suc (ring_len N r)"
    using nf gap_push [OF o(2,3)] by (simp add: ring_len_def mask_Suc o(1))
  then show "ring_contents N (r\<lparr>r_head := (r_head r + 1) AND (N - 1)\<rparr>)
           = ring_contents N r @ [r_buf r ! unat (r_head r)]"
    using gap_end [OF o(2,3)] by (simp add: ring_contents_def ring_len_def)
qed

text \<open>Advancing the tail removes elements from the front.\<close>

lemma contents_release:
  assumes ok: "ring_ok N r" and n: "unat n \<le> ring_len N r"
  shows "ring_contents N (r\<lparr>r_tail := (r_tail r + n) AND (N - 1)\<rparr>) = drop (unat n) (ring_contents N r)"
    and "ring_ok N (r\<lparr>r_tail := (r_tail r + n) AND (N - 1)\<rparr>)"
proof -
  note o = ring_okD [OF ok]
  have t: "unat ((r_tail r + n) AND (N - 1)) = (unat (r_tail r) + unat n) mod unat N"
    using mask_add [OF o(1), of "r_tail r" "unat n"] by simp
  show "ring_ok N (r\<lparr>r_tail := (r_tail r + n) AND (N - 1)\<rparr>)"
    using o pow2_size_pos [OF o(1)] by (simp add: ring_ok_def t)
  have len: "ring_len N (r\<lparr>r_tail := (r_tail r + n) AND (N - 1)\<rparr>) = ring_len N r - unat n"
    using n gap_pop [OF o(2,3)] by (simp add: ring_len_def t)
  show "ring_contents N (r\<lparr>r_tail := (r_tail r + n) AND (N - 1)\<rparr>) = drop (unat n) (ring_contents N r)"
    by (rule nth_equalityI) (use n in \<open>auto simp: len ring_contents_def t wrap_shift\<close>)
qed

lemma contents_nth:
  assumes "ring_ok N r" and "i < ring_len N r"
  shows "r_buf r ! unat ((r_tail r + word_of_nat i) AND (N - 1)) = ring_contents N r ! i"
  using assms by (simp add: ring_contents_def mask_add ring_okD)

lemma push_cases:
  assumes "ring_ok N r"
  shows "ring_len N r = unat N - 1 \<Longrightarrow> ring_push N r v = (False, r)"
    and "ring_len N r \<noteq> unat N - 1 \<Longrightarrow> fst (ring_push N r v) \<and> ring_ok N (snd (ring_push N r v))
           \<and> ring_contents N (snd (ring_push N r v)) = ring_contents N r @ [v]"
proof -
  show "ring_push N r v = (False, r)" if "ring_len N r = unat N - 1"
    using that ring_full_iff [OF assms] by (simp add: ring_push_def Let_def)
  assume nf: "ring_len N r \<noteq> unat N - 1"
  let ?w = "r\<lparr>r_buf := (r_buf r)[unat (r_head r) := v]\<rparr>"
  note w = contents_write [OF assms, of v]
  have l: "ring_len N ?w \<noteq> unat N - 1" using nf by (simp add: ring_len_def)
  have p: "ring_push N r v = (True, ?w\<lparr>r_head := (r_head ?w + 1) AND (N - 1)\<rparr>)"
    using nf ring_full_iff [OF assms] by (simp add: ring_push_def Let_def)
  have v: "r_buf ?w ! unat (r_head ?w) = v"
    using ring_okD(2,4) [OF assms] by simp
  show "fst (ring_push N r v) \<and> ring_ok N (snd (ring_push N r v))
           \<and> ring_contents N (snd (ring_push N r v)) = ring_contents N r @ [v]"
    using contents_publish [OF w(2) l] unfolding p v w(1) by simp
qed

lemma pop_cases:
  assumes "ring_ok N r"
  shows "ring_contents N r = [] \<Longrightarrow> ring_pop N r = (None, r)"
    and "ring_contents N r = x # xs \<Longrightarrow> fst (ring_pop N r) = Some x \<and> ring_contents N (snd (ring_pop N r)) = xs"
    and "ring_ok N (snd (ring_pop N r))"
proof -
  note o = ring_okD [OF assms]
  have z: "r_tail r = r_head r \<longleftrightarrow> ring_len N r = 0"
    using gap_zero [OF o(2,3)] by (auto simp: ring_len_def word_unat_eq_iff)
  have nil: "ring_contents N r = [] \<longleftrightarrow> ring_len N r = 0"
    by (metis length_0_conv length_ring_contents)
  show "ring_contents N r = [] \<Longrightarrow> ring_pop N r = (None, r)"
    using z nil by (simp add: ring_pop_def Let_def)
  have one: "ring_len N r \<noteq> 0 \<Longrightarrow> unat 1 \<le> ring_len N r" by simp
  show "ring_ok N (snd (ring_pop N r))"
    using assms z contents_release(2) [OF assms one] by (simp add: ring_pop_def Let_def)
  assume c: "ring_contents N r = x # xs"
  then have n: "ring_len N r \<noteq> 0" using nil by simp
  have "unat ((r_tail r + word_of_nat 0) AND (N - 1)) = unat (r_tail r)"
    using o(1,3) by (simp add: mask_mod)
  with contents_nth [OF assms, of 0] c n have "r_buf r ! unat (r_tail r) = x"
    by simp
  with n z contents_release(1) [OF assms one] c
  show "fst (ring_pop N r) = Some x \<and> ring_contents N (snd (ring_pop N r)) = xs"
    by (simp add: ring_pop_def Let_def)
qed

lemma burst_count_min:
  "ring_ok N r \<Longrightarrow> unat (burst_count N (r_head r) (r_tail r) mx) = min (ring_len N r) (unat mx)"
  using ring_size_len [of N r]
  by (auto simp: burst_count_def Let_def ring_size_def word_less_nat_alt)

lemma pop_burst_take:
  assumes "ring_ok N r"
  shows "fst (ring_pop_burst N r mx) = take (unat mx) (ring_contents N r)"
    and "ring_contents N (snd (ring_pop_burst N r mx)) = drop (unat mx) (ring_contents N r)"
    and "ring_ok N (snd (ring_pop_burst N r mx))"
proof -
  let ?n = "burst_count N (r_head r) (r_tail r) mx"
  note n = burst_count_min [OF assms, of mx]
  show "fst (ring_pop_burst N r mx) = take (unat mx) (ring_contents N r)"
    by (rule nth_equalityI)
      (use contents_nth [OF assms] in \<open>auto simp: ring_pop_burst_def Let_def n min_def split: if_splits\<close>)
  have le: "unat ?n \<le> ring_len N r" using n by simp
  have z: "\<not> 0 < ?n \<Longrightarrow> unat mx = 0 \<or> ring_len N r = 0"
    using n by (auto simp: word_less_nat_alt min_def split: if_splits)
  show "ring_ok N (snd (ring_pop_burst N r mx))"
    using assms contents_release(2) [OF assms le] by (simp add: ring_pop_burst_def Let_def)
  show "ring_contents N (snd (ring_pop_burst N r mx)) = drop (unat mx) (ring_contents N r)"
  proof (cases "0 < ?n")
    case True
    then show ?thesis
      using contents_release(1) [OF assms le] n
      by (simp add: ring_pop_burst_def Let_def min_def split: if_splits)
  next
    case False
    with z [OF False] show ?thesis
      by (auto simp: ring_pop_burst_def Let_def ring_contents_def [of N r])
  qed
qed

text \<open>\<open>SPSCRing<T, 4096>\<close>, the size the fast path uses, is a bounded queue.\<close>

abbreviation RX_RING :: u64 where "RX_RING \<equiv> 4096"

lemma rx_ring_pow2: "pow2_size RX_RING"
  by (auto simp: pow2_size_def intro!: exI [of _ 12])

lemma unat_rx_ring: "unat RX_RING - 1 = 4095"
  by simp

lemma rx_ring_bound: "ring_ok RX_RING r \<Longrightarrow> ring_len RX_RING r \<le> 4095"
  using gap_less [OF ring_okD(2) [of RX_RING r] ring_okD(3) [of RX_RING r]] by (simp add: ring_len_def)

interpretation rx_ring: bounded_fifo "ring_contents RX_RING" "ring_push RX_RING" "ring_pop RX_RING" 4095 "ring_ok RX_RING"
proof (unfold_locales, goal_cases)
  case (1 r x)
  then have "ring_len RX_RING r \<noteq> 4095" by simp
  from push_cases(2) [OF 1(1), unfolded unat_rx_ring, OF this, of x] show ?case by simp
next
  case (2 r x)
  then have "ring_len RX_RING r = 4095" using rx_ring_bound [OF 2(1)] by simp
  then show ?case by (rule push_cases(1) [OF 2(1), unfolded unat_rx_ring])
next
  case (3 r x xs)
  then show ?case by (rule pop_cases(2))
next
  case (4 r)
  then show ?case by (rule pop_cases(1))
next
  case (5 r x)
  from push_cases [OF 5, of x] 5 show ?case unfolding unat_rx_ring
    by (cases "ring_len RX_RING r = 4095") (simp_all only: snd_conv simp_thms)
next
  case (6 r)
  then show ?case by (rule pop_cases(3))
qed

end
