(* ===== verification/Upf_Paths.thy ===== *)
theory Upf_Paths
  imports Upf_Stats Upf_Ring Byte_Order
begin

text \<open>
  The forwarding paths of \<open>5g-simulator/src/upf_fastpath\<close>: \<open>socket_path.h\<close> (a mutex-protected
  queue and one worker), \<open>dpdk_path.h\<close> with \<open>mbuf_pool.h\<close> (an mbuf pool, the ring of mbuf
  pointers and a polling lcore) and the packet loop of \<open>real_lcore_fn\<close> in \<open>dpdk_compat.h\<close>. An
  mbuf pointer is the index of the mbuf in the pool. Clock readings are arguments.
\<close>

subsection \<open>mbuf_pool.h\<close>

record Mbuf =
  m_pkt :: Packet
  m_in_use :: bool

record MbufPool =
  pool_mbufs :: "Mbuf list"
  pool_next :: u32

definition pool_new :: "nat \<Rightarrow> MbufPool" where
  "pool_new n = \<lparr> pool_mbufs = replicate n \<lparr> m_pkt = fresh_packet, m_in_use = False \<rparr>, pool_next = 0 \<rparr>"

definition set_mbuf :: "nat \<Rightarrow> (Mbuf \<Rightarrow> Mbuf) \<Rightarrow> MbufPool \<Rightarrow> MbufPool" where
  "set_mbuf i f p = p\<lparr>pool_mbufs := (pool_mbufs p)[i := f (pool_mbufs p ! i)]\<rparr>"

definition pool_alloc :: "MbufPool \<Rightarrow> nat \<times> MbufPool" where
  "pool_alloc p =
     (let idx = pool_next p; p1 = p\<lparr>pool_next := idx + 1\<rparr>;
          (i, p2) = (if length (pool_mbufs p) \<le> unat idx then (0, p1\<lparr>pool_next := 0\<rparr>) else (unat idx, p1))
      in (i, set_mbuf i (\<lambda>m. m\<lparr>m_in_use := True\<rparr>) p2))"

definition pool_free :: "nat \<Rightarrow> MbufPool \<Rightarrow> MbufPool" where
  "pool_free i p = set_mbuf i (\<lambda>m. m\<lparr>m_in_use := False\<rparr>) p"

subsection \<open>socket_path.h\<close>

definition process_one :: "RuleTable \<Rightarrow> u64 \<Rightarrow> Packet \<Rightarrow> PathStats \<Rightarrow> Packet \<times> PathStats" where
  "process_one rt now pkt st =
     (case match_pdr rt pkt of
        None \<Rightarrow> (pkt, count_dropped (count_no_pdr st))
      | Some pdr \<Rightarrow>
          (let pkt1 = pkt\<lparr>p_pdr_id := pdr_id pdr, p_far_id := pdr_far_id pdr, p_classified := True\<rparr> in
           case get_far rt (pdr_far_id pdr) of
             None \<Rightarrow> (pkt1\<lparr>p_dropped := True\<rparr>, count_dropped st)
           | Some far \<Rightarrow>
               if far_action far = DROP then (pkt1\<lparr>p_dropped := True\<rparr>, count_dropped st)
               else (pkt1, record_latency (p_arrival_ns pkt1) now (count_forwarded st))))"

definition MAX_QUEUE_DEPTH :: nat where
  "MAX_QUEUE_DEPTH = 4096"

record SocketPath =
  sk_queue :: "Packet list"
  sk_stats :: PathStats

definition socket_new :: SocketPath where
  "socket_new = \<lparr> sk_queue = [], sk_stats = stats_init \<rparr>"

definition socket_enqueue :: "Packet \<Rightarrow> SocketPath \<Rightarrow> bool \<times> SocketPath" where
  "socket_enqueue pkt s =
     (let s1 = s\<lparr>sk_stats := count_rx (sk_stats s)\<rparr> in
      if length (sk_queue s1) \<ge> MAX_QUEUE_DEPTH
      then (False, s1\<lparr>sk_stats := count_dropped (sk_stats s1)\<rparr>)
      else (True, s1\<lparr>sk_queue := sk_queue s1 @ [pkt]\<rparr>))"

text \<open>One turn of the worker: it waits until the queue is not empty.\<close>

definition socket_work :: "RuleTable \<Rightarrow> u64 \<Rightarrow> SocketPath \<Rightarrow> SocketPath" where
  "socket_work rt now s =
     (case sk_queue s of [] \<Rightarrow> s
      | pkt # q \<Rightarrow> s\<lparr>sk_queue := q, sk_stats := snd (process_one rt now pkt (sk_stats s))\<rparr>)"

subsection \<open>dpdk_path.h\<close>

record DpdkPath =
  dp_ring :: "nat ring"
  dp_pool :: MbufPool
  dp_stats :: PathStats

definition dpdk_new :: DpdkPath where
  "dpdk_new = \<lparr> dp_ring = ring_new 4096 0, dp_pool = pool_new 65536, dp_stats = stats_init \<rparr>"

definition dpdk_rx_enqueue :: "Packet \<Rightarrow> DpdkPath \<Rightarrow> bool \<times> DpdkPath" where
  "dpdk_rx_enqueue pkt s =
     (let s1 = s\<lparr>dp_stats := count_rx (dp_stats s)\<rparr>;
          (i, pool1) = pool_alloc (dp_pool s1);
          pool2 = set_mbuf i (\<lambda>m. m\<lparr>m_pkt := pkt, m_in_use := True\<rparr>) pool1;
          (ok, ring1) = ring_push 4096 (dp_ring s1) i
      in if ok then (True, s1\<lparr>dp_pool := pool2, dp_ring := ring1\<rparr>)
         else (False, s1\<lparr>dp_pool := pool_free i pool2, dp_stats := count_dropped (dp_stats s1)\<rparr>))"

definition process_mbuf :: "RuleTable \<Rightarrow> u64 \<Rightarrow> nat \<Rightarrow> MbufPool \<times> PathStats \<Rightarrow> MbufPool \<times> PathStats" where
  "process_mbuf rt now i ps =
     (let (pool, st) = ps; pkt = m_pkt (pool_mbufs pool ! i) in
      case match_pdr rt pkt of
        None \<Rightarrow> (pool_free i pool, count_dropped (count_no_pdr st))
      | Some pdr \<Rightarrow>
          (let pkt1 = pkt\<lparr>p_pdr_id := pdr_id pdr, p_far_id := pdr_far_id pdr, p_classified := True\<rparr>;
               pool1 = set_mbuf i (\<lambda>m. m\<lparr>m_pkt := pkt1\<rparr>) pool
           in case get_far rt (pdr_far_id pdr) of
                None \<Rightarrow> (pool_free i (set_mbuf i (\<lambda>m. m\<lparr>m_pkt := pkt1\<lparr>p_dropped := True\<rparr>\<rparr>) pool1), count_dropped st)
              | Some far \<Rightarrow>
                  if far_action far = DROP
                  then (pool_free i (set_mbuf i (\<lambda>m. m\<lparr>m_pkt := pkt1\<lparr>p_dropped := True\<rparr>\<rparr>) pool1), count_dropped st)
                  else (pool_free i pool1, record_latency (p_arrival_ns pkt1) now (count_forwarded st))))"

definition process_burst :: "RuleTable \<Rightarrow> u64 \<Rightarrow> nat list \<Rightarrow> MbufPool \<times> PathStats \<Rightarrow> MbufPool \<times> PathStats" where
  "process_burst rt now burst ps = fold (process_mbuf rt now) burst ps"

definition BURST_SIZE :: u64 where
  "BURST_SIZE = 32"

text \<open>One turn of the polling loop.\<close>

definition lcore_poll :: "RuleTable \<Rightarrow> u64 \<Rightarrow> DpdkPath \<Rightarrow> DpdkPath" where
  "lcore_poll rt now s =
     (let (burst, ring1) = ring_pop_burst 4096 (dp_ring s) BURST_SIZE in
      if burst = [] then s
      else let (pool1, st1) = process_burst rt now burst (dp_pool s, dp_stats s)
           in s\<lparr>dp_ring := ring1, dp_pool := pool1, dp_stats := st1\<rparr>)"

text \<open>
  The drain loop after \<open>stop\<close>: one clock reading per burst, until a poll finds the ring empty;
  nothing when the readings run out first.
\<close>

fun lcore_drain :: "RuleTable \<Rightarrow> u64 list \<Rightarrow> DpdkPath \<Rightarrow> DpdkPath option" where
  "lcore_drain rt [] s = (if ring_empty (dp_ring s) then Some s else None)"
| "lcore_drain rt (now # nows) s =
     (if ring_empty (dp_ring s) then Some s else lcore_drain rt nows (lcore_poll rt now s))"

subsection \<open>dpdk_compat.h\<close>

text \<open>The body of the packet loop of \<open>real_lcore_fn\<close>, for one frame and the clock before and after.\<close>

definition TEID_OFFSET :: nat where
  "TEID_OFFSET = 46"

definition frame_teid :: "bytes \<Rightarrow> u32" where
  "frame_teid d = join32 (d ! (TEID_OFFSET + 3)) (d ! (TEID_OFFSET + 2)) (d ! (TEID_OFFSET + 1)) (d ! TEID_OFFSET)"

definition real_lcore_frame :: "RuleTable \<Rightarrow> u64 \<Rightarrow> u64 \<Rightarrow> bytes \<Rightarrow> PathStats \<Rightarrow> PathStats" where
  "real_lcore_frame rt now done d st =
     (if length d < TEID_OFFSET + 4 then count_dropped st
      else let pkt = fresh_packet\<lparr>p_teid := frame_teid d, p_dir := UL, p_arrival_ns := now\<rparr> in
        case match_pdr rt pkt of
          None \<Rightarrow> count_dropped (count_no_pdr st)
        | Some pdr \<Rightarrow>
            (case get_far rt (pdr_far_id pdr) of
               None \<Rightarrow> count_dropped st
             | Some far \<Rightarrow>
                 if far_action far = DROP then count_dropped st
                 else record_latency now done (count_forwarded st)))"

definition real_lcore_burst :: "RuleTable \<Rightarrow> u64 \<Rightarrow> (bytes \<times> u64) list \<Rightarrow> PathStats \<Rightarrow> PathStats" where
  "real_lcore_burst rt now burst st = fold (\<lambda>(d, done) s. real_lcore_frame rt now done d s) burst st"

end
