(* ===== verification/Upf_Path_Laws.thy ===== *)
theory Upf_Path_Laws
  imports Upf_Paths
begin

text \<open>
  What a forwarding path promises, apart from its queues and pools: a bounded queue of packets
  served in order, each by the verdict of the rules, and four counters. The socket path
  refines it for its depth and one packet per turn; the DPDK path refines it for the ring
  capacity and 32 packets per turn, as long as the mbuf pool has not wrapped.
\<close>

subsection \<open>The specification\<close>

datatype rule_verdict = No_Rule | Refused | Passed

definition verdict :: "RuleTable \<Rightarrow> Packet \<Rightarrow> rule_verdict" where
  "verdict rt pkt =
     (case match_pdr rt pkt of
        None \<Rightarrow> No_Rule
      | Some pdr \<Rightarrow>
          (case get_far rt (pdr_far_id pdr) of
             None \<Rightarrow> Refused
           | Some far \<Rightarrow> if far_action far = DROP then Refused else Passed))"

type_synonym tally = "u64 \<times> u64 \<times> u64 \<times> u64"

fun tally_rx :: "tally \<Rightarrow> tally" where
  "tally_rx (rx, f, d, n) = (rx + 1, f, d, n)"

fun tally_full :: "tally \<Rightarrow> tally" where
  "tally_full (rx, f, d, n) = (rx + 1, f, d + 1, n)"

fun tally_verdict :: "rule_verdict \<Rightarrow> tally \<Rightarrow> tally" where
  "tally_verdict No_Rule (rx, f, d, n) = (rx, f, d + 1, n + 1)"
| "tally_verdict Refused (rx, f, d, n) = (rx, f, d + 1, n)"
| "tally_verdict Passed (rx, f, d, n) = (rx, f + 1, d, n)"

datatype path_event = Arrive Packet | Serve u64

fun spec_step :: "nat \<Rightarrow> nat \<Rightarrow> RuleTable \<Rightarrow> Packet list \<times> tally \<Rightarrow> path_event \<Rightarrow> Packet list \<times> tally" where
  "spec_step cap burst rt (q, c) (Arrive p) =
     (if length q \<ge> cap then (q, tally_full c) else (q @ [p], tally_rx c))"
| "spec_step cap burst rt (q, c) (Serve now) =
     (drop burst q, fold (\<lambda>p. tally_verdict (verdict rt p)) (take burst q) c)"

fun socket_step :: "RuleTable \<Rightarrow> SocketPath \<Rightarrow> path_event \<Rightarrow> SocketPath" where
  "socket_step rt s (Arrive p) = snd (socket_enqueue p s)"
| "socket_step rt s (Serve now) = socket_work rt now s"

fun dpdk_step :: "RuleTable \<Rightarrow> DpdkPath \<Rightarrow> path_event \<Rightarrow> DpdkPath" where
  "dpdk_step rt s (Arrive p) = snd (dpdk_rx_enqueue p s)"
| "dpdk_step rt s (Serve now) = lcore_poll rt now s"

definition socket_abs :: "SocketPath \<Rightarrow> Packet list \<times> tally" where
  "socket_abs s = (sk_queue s, counters (sk_stats s))"

definition dpdk_abs :: "DpdkPath \<Rightarrow> Packet list \<times> tally" where
  "dpdk_abs s = (map (\<lambda>i. m_pkt (pool_mbufs (dp_pool s) ! i)) (ring_contents 4096 (dp_ring s)), counters (dp_stats s))"

subsection \<open>Counters\<close>

lemma counters_simps [simp]:
  "counters (count_rx st) = tally_rx (counters st)"
  "counters (count_forwarded st) = tally_verdict Passed (counters st)"
  "counters (count_dropped st) = tally_verdict Refused (counters st)"
  by (simp_all add: counters_def count_defs)

lemma counters_no_pdr [simp]:
  "tally_verdict Refused (tally_rx c) = tally_full c"
  "tally_verdict Refused (counters (count_no_pdr st)) = tally_verdict No_Rule (counters st)"
  by (cases c) (simp_all add: counters_def count_defs)

lemma process_one_counters:
  "counters (snd (process_one rt now pkt st)) = tally_verdict (verdict rt pkt) (counters st)"
  by (auto simp: process_one_def verdict_def Let_def split: option.splits)

lemma real_lcore_counters:
  "counters (real_lcore_frame rt now done d st) =
     (if length d < TEID_OFFSET + 4 then tally_verdict Refused (counters st)
      else tally_verdict (verdict rt (fresh_packet\<lparr>p_teid := frame_teid d, p_dir := UL, p_arrival_ns := now\<rparr>)) (counters st))"
  by (auto simp: real_lcore_frame_def verdict_def Let_def split: option.splits)

subsection \<open>The socket path refines the specification\<close>

lemma socket_refines: "socket_abs (socket_step rt s e) = spec_step MAX_QUEUE_DEPTH 1 rt (socket_abs s) e"
  by (cases e) (auto simp: socket_abs_def socket_enqueue_def socket_work_def Let_def process_one_counters
      split: list.splits)

interpretation socket: simulation "socket_step rt" "\<lambda>_. True" "spec_step MAX_QUEUE_DEPTH 1 rt" socket_abs for rt
  by unfold_locales (simp_all add: socket_refines)

subsection \<open>The pool\<close>

lemma set_mbuf_simps [simp]:
  "length (pool_mbufs (set_mbuf i f p)) = length (pool_mbufs p)" "pool_next (set_mbuf i f p) = pool_next p"
  "j \<noteq> i \<Longrightarrow> pool_mbufs (set_mbuf i f p) ! j = pool_mbufs p ! j"
  "i < length (pool_mbufs p) \<Longrightarrow> pool_mbufs (set_mbuf i f p) ! i = f (pool_mbufs p ! i)"
  by (simp_all add: set_mbuf_def)

lemma pool_free_simps [simp]:
  "length (pool_mbufs (pool_free i p)) = length (pool_mbufs p)" "pool_next (pool_free i p) = pool_next p"
  "j \<noteq> i \<Longrightarrow> pool_mbufs (pool_free i p) ! j = pool_mbufs p ! j"
  by (simp_all add: pool_free_def)

lemma process_mbuf_effect:
  assumes "process_mbuf rt now i (pool, st) = (pool', st')"
  shows "counters st' = tally_verdict (verdict rt (m_pkt (pool_mbufs pool ! i))) (counters st)"
    and "length (pool_mbufs pool') = length (pool_mbufs pool)" and "pool_next pool' = pool_next pool"
    and "j \<noteq> i \<Longrightarrow> pool_mbufs pool' ! j = pool_mbufs pool ! j"
  using assms by (auto simp: process_mbuf_def verdict_def Let_def split: option.splits if_splits)

lemma process_burst_effect:
  assumes "process_burst rt now idxs (pool, st) = (pool', st')" and "distinct idxs"
  shows "counters st' = fold (\<lambda>p. tally_verdict (verdict rt p)) (map (\<lambda>i. m_pkt (pool_mbufs pool ! i)) idxs) (counters st)
     \<and> length (pool_mbufs pool') = length (pool_mbufs pool) \<and> pool_next pool' = pool_next pool
     \<and> (\<forall>j. j \<notin> set idxs \<longrightarrow> pool_mbufs pool' ! j = pool_mbufs pool ! j)"
  using assms
proof (induction idxs arbitrary: pool st)
  case Nil
  then show ?case by (simp add: process_burst_def)
next
  case (Cons i idxs)
  obtain pool1 st1 where 1: "process_mbuf rt now i (pool, st) = (pool1, st1)" by fastforce
  note e = process_mbuf_effect [OF 1]
  have 2: "process_burst rt now idxs (pool1, st1) = (pool', st')"
    using Cons.prems(1) 1 by (simp add: process_burst_def)
  have d: "i \<notin> set idxs" "distinct idxs" using Cons.prems(2) by auto
  have "map (\<lambda>i. m_pkt (pool_mbufs pool1 ! i)) idxs = map (\<lambda>i. m_pkt (pool_mbufs pool ! i)) idxs"
    by (intro map_cong refl) (metis d(1) e(4))
  with Cons.IH [OF 2 d(2)] e show ?case by auto
qed

subsection \<open>The DPDK path refines the specification until the pool wraps\<close>

definition dpdk_fresh :: "DpdkPath \<Rightarrow> bool" where
  "dpdk_fresh s \<longleftrightarrow> ring_ok 4096 (dp_ring s) \<and> length (pool_mbufs (dp_pool s)) = 65536
     \<and> sorted_wrt (<) (ring_contents 4096 (dp_ring s))
     \<and> (\<forall>i\<in>set (ring_contents 4096 (dp_ring s)). i < unat (pool_next (dp_pool s)))
     \<and> unat (pool_next (dp_pool s)) \<le> 65536"

lemma dpdk_fresh_new: "dpdk_fresh dpdk_new" "dpdk_abs dpdk_new = ([], 0, 0, 0, 0)"
  using ring_ok_new [OF rx_ring_pow2, of "0::nat"]
  by (simp_all add: dpdk_fresh_def dpdk_abs_def dpdk_new_def pool_new_def counters_def stats_init_def)

lemma push_4096:
  assumes "ring_ok 4096 r"
  shows "if length (ring_contents 4096 r) \<ge> 4095 then ring_push 4096 r v = (False, r)
    else \<exists>r'. ring_push 4096 r v = (True, r') \<and> ring_ok 4096 r' \<and> ring_contents 4096 r' = ring_contents 4096 r @ [v]"
proof (cases "length (ring_contents 4096 r) \<ge> 4095")
  case True
  with rx_ring.offer_full [OF assms] show ?thesis by simp
next
  case False
  with rx_ring.offer_ok [OF assms, of v] rx_ring.inv_offer [OF assms, of v] show ?thesis
    by (cases "ring_push 4096 r v") auto
qed

lemma alloc_fresh:
  assumes "length (pool_mbufs p) = 65536" and "unat (pool_next p) < 65536"
  shows "pool_alloc p = (unat (pool_next p), set_mbuf (unat (pool_next p)) (\<lambda>m. m\<lparr>m_in_use := True\<rparr>)
           (p\<lparr>pool_next := pool_next p + 1\<rparr>))"
    and "unat (pool_next p + 1) = Suc (unat (pool_next p))"
proof -
  show "pool_alloc p = (unat (pool_next p), set_mbuf (unat (pool_next p)) (\<lambda>m. m\<lparr>m_in_use := True\<rparr>)
           (p\<lparr>pool_next := pool_next p + 1\<rparr>))"
    using assms by (simp add: pool_alloc_def Let_def)
  have "unat (pool_next p) + unat (1::u32) < 2 ^ LENGTH(32)" using assms(2) by simp
  then show "unat (pool_next p + 1) = Suc (unat (pool_next p))"
    by (subst (asm) unat_add_lem) simp
qed

lemma dpdk_arrive:
  assumes ok: "dpdk_fresh s" and room: "unat (pool_next (dp_pool s)) < 65536"
  shows "dpdk_abs (dpdk_step rt s (Arrive p)) = spec_step 4095 32 rt (dpdk_abs s) (Arrive p)"
    and "dpdk_fresh (dpdk_step rt s (Arrive p))"
    and "unat (pool_next (dp_pool (dpdk_step rt s (Arrive p)))) = Suc (unat (pool_next (dp_pool s)))"
proof -
  let ?i = "unat (pool_next (dp_pool s))" and ?r = "dp_ring s" and ?P = "pool_mbufs (dp_pool s)"
  have f: "ring_ok 4096 ?r" "length ?P = 65536" "sorted_wrt (<) (ring_contents 4096 ?r)"
    "\<forall>i\<in>set (ring_contents 4096 ?r). i < ?i"
    using ok by (auto simp: dpdk_fresh_def)
  note a = alloc_fresh [OF f(2) room]
  have keep: "map (\<lambda>i. m_pkt (Q ! i)) (ring_contents 4096 ?r) = map (\<lambda>i. m_pkt (?P ! i)) (ring_contents 4096 ?r)"
    if "\<And>j. j \<noteq> ?i \<Longrightarrow> Q ! j = ?P ! j" for Q
    using f(4) that by (intro map_cong refl) (metis less_irrefl)
  let ?p1 = "set_mbuf ?i (\<lambda>m. m\<lparr>m_pkt := p, m_in_use := True\<rparr>)
      (set_mbuf ?i (\<lambda>m. m\<lparr>m_in_use := True\<rparr>) ((dp_pool s)\<lparr>pool_next := pool_next (dp_pool s) + 1\<rparr>))"
  have p1: "length (pool_mbufs ?p1) = 65536" "pool_next ?p1 = pool_next (dp_pool s) + 1"
    "\<And>j. j \<noteq> ?i \<Longrightarrow> pool_mbufs ?p1 ! j = ?P ! j" "m_pkt (pool_mbufs ?p1 ! ?i) = p"
    using f(2) room by simp_all
  have "dpdk_abs (dpdk_step rt s (Arrive p)) = spec_step 4095 32 rt (dpdk_abs s) (Arrive p) \<and>
    dpdk_fresh (dpdk_step rt s (Arrive p)) \<and>
    unat (pool_next (dp_pool (dpdk_step rt s (Arrive p)))) = Suc (unat (pool_next (dp_pool s)))"
  proof (cases "length (ring_contents 4096 ?r) \<ge> 4095")
    case True
    then have "ring_push 4096 ?r ?i = (False, ?r)" using push_4096 [OF f(1), of ?i] by simp
    then have e: "dpdk_step rt s (Arrive p) =
        s\<lparr>dp_pool := pool_free ?i ?p1, dp_stats := count_dropped (count_rx (dp_stats s))\<rparr>"
      by (simp add: dpdk_rx_enqueue_def a(1) Let_def)
    have "map (\<lambda>i. m_pkt (pool_mbufs (pool_free ?i ?p1) ! i)) (ring_contents 4096 ?r)
        = map (\<lambda>i. m_pkt (?P ! i)) (ring_contents 4096 ?r)"
      by (rule keep) simp
    with True f p1 a(2) room show ?thesis
      unfolding e by (auto simp: dpdk_abs_def dpdk_fresh_def less_Suc_eq simp del: set_mbuf_simps(4))
  next
    case False
    then obtain r' where r': "ring_push 4096 ?r ?i = (True, r')" "ring_ok 4096 r'"
      "ring_contents 4096 r' = ring_contents 4096 ?r @ [?i]"
      using push_4096 [OF f(1), of ?i] by auto
    then have e: "dpdk_step rt s (Arrive p) = s\<lparr>dp_stats := count_rx (dp_stats s), dp_pool := ?p1, dp_ring := r'\<rparr>"
      by (simp add: dpdk_rx_enqueue_def a(1) Let_def)
    have "map (\<lambda>i. m_pkt (pool_mbufs ?p1 ! i)) (ring_contents 4096 ?r)
        = map (\<lambda>i. m_pkt (?P ! i)) (ring_contents 4096 ?r)"
      by (rule keep) simp
    with False f p1 r' a(2) room show ?thesis
      unfolding e by (auto simp: dpdk_abs_def dpdk_fresh_def less_Suc_eq sorted_wrt_append simp del: set_mbuf_simps)
  qed
  then show "dpdk_abs (dpdk_step rt s (Arrive p)) = spec_step 4095 32 rt (dpdk_abs s) (Arrive p)"
    and "dpdk_fresh (dpdk_step rt s (Arrive p))"
    and "unat (pool_next (dp_pool (dpdk_step rt s (Arrive p)))) = Suc (unat (pool_next (dp_pool s)))"
    by blast+
qed

lemma burst_32: "unat BURST_SIZE = 32"
  by (simp add: BURST_SIZE_def)

lemma lcore_poll_effect:
  assumes ok: "ring_ok 4096 (dp_ring s)"
  obtains r pool st where "process_burst rt now (take 32 (ring_contents 4096 (dp_ring s))) (dp_pool s, dp_stats s) = (pool, st)"
    and "ring_ok 4096 r" and "ring_contents 4096 r = drop 32 (ring_contents 4096 (dp_ring s))"
    and "lcore_poll rt now s = s\<lparr>dp_ring := r, dp_pool := pool, dp_stats := st\<rparr>"
proof -
  obtain out r where o: "ring_pop_burst 4096 (dp_ring s) BURST_SIZE = (out, r)" by fastforce
  note b = pop_burst_take [OF ok, of BURST_SIZE, unfolded o burst_32 fst_conv snd_conv]
  obtain pool st where p: "process_burst rt now out (dp_pool s, dp_stats s) = (pool, st)" by fastforce
  show thesis
  proof (cases "out = []")
    case True
    then have "ring_contents 4096 (dp_ring s) = []" using b(1) by simp
    with True that [of "dp_pool s" "dp_stats s" "dp_ring s"] o ok show thesis
      by (simp add: lcore_poll_def process_burst_def)
  next
    case False
    with that [of pool st r] o p b show thesis by (simp add: lcore_poll_def)
  qed
qed

lemma dpdk_serve:
  assumes ok: "dpdk_fresh s"
  shows "dpdk_abs (dpdk_step rt s (Serve now)) = spec_step 4095 32 rt (dpdk_abs s) (Serve now)"
    and "dpdk_fresh (dpdk_step rt s (Serve now))"
    and "pool_next (dp_pool (dpdk_step rt s (Serve now))) = pool_next (dp_pool s)"
proof -
  let ?c = "ring_contents 4096 (dp_ring s)"
  have f: "ring_ok 4096 (dp_ring s)" "length (pool_mbufs (dp_pool s)) = 65536" "sorted_wrt (<) ?c"
    using ok by (auto simp: dpdk_fresh_def)
  obtain r pool st where
    p: "process_burst rt now (take 32 ?c) (dp_pool s, dp_stats s) = (pool, st)"
    and r: "ring_ok 4096 r" "ring_contents 4096 r = drop 32 ?c"
    and e: "lcore_poll rt now s = s\<lparr>dp_ring := r, dp_pool := pool, dp_stats := st\<rparr>"
    by (rule lcore_poll_effect [OF f(1)])
  have d: "distinct ?c" using f(3) by (simp add: strict_sorted_iff)
  note b = process_burst_effect [OF p distinct_take [OF d]]
  have "i \<notin> set (take 32 ?c)" if "i \<in> set (drop 32 ?c)" for i
    using d that by (metis append_take_drop_id disjoint_iff distinct_append)
  with b have keep: "map (\<lambda>i. m_pkt (pool_mbufs pool ! i)) (drop 32 ?c) = drop 32 (map (\<lambda>i. m_pkt (pool_mbufs (dp_pool s) ! i)) ?c)"
    by (auto simp: drop_map intro!: map_cong)
  show "dpdk_abs (dpdk_step rt s (Serve now)) = spec_step 4095 32 rt (dpdk_abs s) (Serve now)"
    using b r keep by (simp add: e dpdk_abs_def take_map)
  have "sorted_wrt (<) (drop 32 ?c)" using f(3) by (simp add: sorted_wrt_drop)
  with b r ok show "dpdk_fresh (dpdk_step rt s (Serve now))"
    by (auto simp: e dpdk_fresh_def dest: in_set_dropD)
  from b show "pool_next (dp_pool (dpdk_step rt s (Serve now))) = pool_next (dp_pool s)"
    by (simp add: e)
qed

fun arrivals :: "path_event list \<Rightarrow> nat" where
  "arrivals [] = 0"
| "arrivals (Arrive p # es) = Suc (arrivals es)"
| "arrivals (Serve now # es) = arrivals es"

lemma dpdk_refines:
  assumes "dpdk_fresh s" and "unat (pool_next (dp_pool s)) + arrivals es \<le> 65536"
  shows "dpdk_abs (run (dpdk_step rt) s es) = run (spec_step 4095 32 rt) (dpdk_abs s) es
     \<and> dpdk_fresh (run (dpdk_step rt) s es)
     \<and> unat (pool_next (dp_pool (run (dpdk_step rt) s es))) = unat (pool_next (dp_pool s)) + arrivals es"
  using assms
proof (induction es arbitrary: s)
  case Nil
  then show ?case by simp
next
  case (Cons e es)
  show ?case
  proof (cases e)
    case (Arrive p)
    then have room: "unat (pool_next (dp_pool s)) < 65536" using Cons.prems(2) by simp
    note a = dpdk_arrive [OF Cons.prems(1) room, of rt p]
    with Arrive Cons.prems(2) have "unat (pool_next (dp_pool (dpdk_step rt s e))) + arrivals es \<le> 65536" by simp
    from Cons.IH [OF _ this] a Arrive show ?thesis by (simp del: dpdk_step.simps spec_step.simps)
  next
    case (Serve now)
    note a = dpdk_serve [OF Cons.prems(1), of rt now]
    with Serve Cons.prems(2) have "unat (pool_next (dp_pool (dpdk_step rt s e))) + arrivals es \<le> 65536" by simp
    from Cons.IH [OF _ this] a Serve show ?thesis by (simp del: dpdk_step.simps spec_step.simps)
  qed
qed

end
