(* ===== verification/Upf_Ring_Threads.thy ===== *)
theory Upf_Ring_Threads
  imports Upf_Ring
begin

text \<open>
  The two threads of \<open>SPSCRing\<close>: the producer runs \<open>push\<close>, the consumer \<open>pop_burst\<close>, and
  every atomic load, every atomic store and every access to a slot is a step of its own; steps
  interleave in any order. The acquire and release orders of the code make the steps of one
  thread visible to the other in program order, which is what interleaving assumes.
  \<open>accepted\<close> and \<open>delivered\<close> are histories: what was published by a store of the head, what
  was taken by a store of the tail.
\<close>

unbundle bit_operations_syntax

datatype 'a producer = P_Idle | P_Loaded 'a u64 | P_Checked 'a u64 u64 | P_Written 'a u64

datatype 'a consumer = C_Idle | C_Loaded u64 u64 | C_Reading u64 u64 "'a list"

record 'a spsc =
  shared :: "'a ring"
  prod :: "'a producer"
  cons :: "'a consumer"
  accepted :: "'a list"
  delivered :: "'a list"

definition spsc_init :: "u64 \<Rightarrow> 'a \<Rightarrow> 'a spsc" where
  "spsc_init N d = \<lparr> shared = ring_new N d, prod = P_Idle, cons = C_Idle, accepted = [], delivered = [] \<rparr>"

inductive spsc_step :: "u64 \<Rightarrow> 'a spsc \<Rightarrow> 'a spsc \<Rightarrow> bool" for N :: u64 where
  p_load: "prod s = P_Idle \<Longrightarrow> spsc_step N s (s\<lparr>prod := P_Loaded v (r_head (shared s))\<rparr>)"
| p_full: "prod s = P_Loaded v h \<Longrightarrow> (h + 1) AND (N - 1) = r_tail (shared s) \<Longrightarrow>
    spsc_step N s (s\<lparr>prod := P_Idle\<rparr>)"
| p_check: "prod s = P_Loaded v h \<Longrightarrow> (h + 1) AND (N - 1) \<noteq> r_tail (shared s) \<Longrightarrow>
    spsc_step N s (s\<lparr>prod := P_Checked v h ((h + 1) AND (N - 1))\<rparr>)"
| p_write: "prod s = P_Checked v h nx \<Longrightarrow>
    spsc_step N s (s\<lparr>shared := (shared s)\<lparr>r_buf := (r_buf (shared s))[unat h := v]\<rparr>, prod := P_Written v nx\<rparr>)"
| p_store: "prod s = P_Written v nx \<Longrightarrow>
    spsc_step N s (s\<lparr>shared := (shared s)\<lparr>r_head := nx\<rparr>, prod := P_Idle, accepted := accepted s @ [v]\<rparr>)"
| c_load: "cons s = C_Idle \<Longrightarrow> spsc_step N s (s\<lparr>cons := C_Loaded mx (r_tail (shared s))\<rparr>)"
| c_count: "cons s = C_Loaded mx t \<Longrightarrow>
    spsc_step N s (s\<lparr>cons := C_Reading t (burst_count N (r_head (shared s)) t mx) []\<rparr>)"
| c_read: "cons s = C_Reading t n xs \<Longrightarrow> length xs < unat n \<Longrightarrow>
    spsc_step N s (s\<lparr>cons := C_Reading t n (xs @ [r_buf (shared s) ! unat ((t + word_of_nat (length xs)) AND (N - 1))])\<rparr>)"
| c_none: "cons s = C_Reading t n xs \<Longrightarrow> n = 0 \<Longrightarrow> spsc_step N s (s\<lparr>cons := C_Idle\<rparr>)"
| c_store: "cons s = C_Reading t n xs \<Longrightarrow> 0 < n \<Longrightarrow> length xs = unat n \<Longrightarrow>
    spsc_step N s (s\<lparr>shared := (shared s)\<lparr>r_tail := (t + n) AND (N - 1)\<rparr>, cons := C_Idle, delivered := delivered s @ xs\<rparr>)"

definition prod_ok :: "u64 \<Rightarrow> 'a ring \<Rightarrow> 'a producer \<Rightarrow> bool" where
  "prod_ok N r p =
     (case p of
        P_Idle \<Rightarrow> True
      | P_Loaded v h \<Rightarrow> h = r_head r
      | P_Checked v h nx \<Rightarrow> h = r_head r \<and> nx = (h + 1) AND (N - 1) \<and> ring_len N r \<noteq> unat N - 1
      | P_Written v nx \<Rightarrow> nx = (r_head r + 1) AND (N - 1) \<and> ring_len N r \<noteq> unat N - 1
          \<and> r_buf r ! unat (r_head r) = v)"

definition cons_ok :: "u64 \<Rightarrow> 'a ring \<Rightarrow> 'a consumer \<Rightarrow> bool" where
  "cons_ok N r c =
     (case c of
        C_Idle \<Rightarrow> True
      | C_Loaded mx t \<Rightarrow> t = r_tail r
      | C_Reading t n xs \<Rightarrow> t = r_tail r \<and> unat n \<le> ring_len N r \<and> length xs \<le> unat n
          \<and> xs = take (length xs) (ring_contents N r))"

definition spsc_inv :: "u64 \<Rightarrow> 'a spsc \<Rightarrow> bool" where
  "spsc_inv N s \<longleftrightarrow> ring_ok N (shared s) \<and> accepted s = delivered s @ ring_contents N (shared s)
     \<and> prod_ok N (shared s) (prod s) \<and> cons_ok N (shared s) (cons s)"

lemma spsc_init_inv: "pow2_size N \<Longrightarrow> spsc_inv N (spsc_init N d)"
  using ring_ok_new [of N d] by (simp add: spsc_inv_def spsc_init_def prod_ok_def cons_ok_def)

text \<open>What one thread does to the ring leaves the other thread's knowledge true.\<close>

lemma cons_ok_grow:
  assumes "cons_ok N r c" and "r_tail r' = r_tail r" and "ring_contents N r' = ring_contents N r @ ys"
  shows "cons_ok N r' c"
proof -
  have "ring_len N r' = ring_len N r + length ys"
    using assms(3) by (metis length_append length_ring_contents)
  moreover have "take k (ring_contents N r') = take k (ring_contents N r)" if "k \<le> ring_len N r" for k
    using that assms(3) by simp
  ultimately show ?thesis
    using assms(1,2) by (cases c) (auto simp: cons_ok_def)
qed

lemma prod_ok_shrink:
  assumes "prod_ok N r p" and "r_head r' = r_head r" and "r_buf r' = r_buf r"
    and "ring_len N r' < unat N - 1 \<or> ring_len N r' = ring_len N r"
  shows "prod_ok N r' p"
  using assms by (cases p) (auto simp: prod_ok_def)

lemma spsc_step_inv:
  assumes "spsc_step N s s'" and "spsc_inv N s"
  shows "spsc_inv N s'"
  using assms
proof (induction rule: spsc_step.induct)
  case (p_load s v)
  then show ?case by (simp add: spsc_inv_def prod_ok_def)
next
  case (p_full s v h)
  then show ?case by (simp add: spsc_inv_def prod_ok_def)
next
  case (p_check s v h)
  then show ?case using ring_full_iff [of N "shared s"] by (simp add: spsc_inv_def prod_ok_def)
next
  case (p_write s v h nx)
  then have i: "ring_ok N (shared s)" "h = r_head (shared s)" "nx = (h + 1) AND (N - 1)"
    "ring_len N (shared s) \<noteq> unat N - 1" "cons_ok N (shared s) (cons s)"
    "accepted s = delivered s @ ring_contents N (shared s)"
    by (simp_all add: spsc_inv_def prod_ok_def)
  let ?r = "(shared s)\<lparr>r_buf := (r_buf (shared s))[unat h := v]\<rparr>"
  have c: "ring_contents N ?r = ring_contents N (shared s)" "ring_ok N ?r"
    using contents_write [OF i(1), of v] i(2) by simp_all
  moreover have "ring_len N ?r = ring_len N (shared s)" by (simp add: ring_len_def)
  moreover have "cons_ok N ?r (cons s)"
    by (rule cons_ok_grow [OF i(5), of _ "[]"]) (simp_all add: c(1))
  ultimately show ?case
    using i ring_okD(2,4) [OF i(1)] by (simp add: spsc_inv_def prod_ok_def)
next
  case (p_store s v nx)
  then have i: "ring_ok N (shared s)" "nx = (r_head (shared s) + 1) AND (N - 1)"
    "ring_len N (shared s) \<noteq> unat N - 1" "r_buf (shared s) ! unat (r_head (shared s)) = v"
    "cons_ok N (shared s) (cons s)" "accepted s = delivered s @ ring_contents N (shared s)"
    by (simp_all add: spsc_inv_def prod_ok_def)
  note c = contents_publish [OF i(1,3), folded i(2), unfolded i(4)]
  have "cons_ok N ((shared s)\<lparr>r_head := nx\<rparr>) (cons s)"
    by (rule cons_ok_grow [OF i(5) _ c(1)]) simp
  with c i(6) show ?case by (simp add: spsc_inv_def prod_ok_def)
next
  case (c_load s mx)
  then show ?case by (simp add: spsc_inv_def cons_ok_def)
next
  case (c_count s mx t)
  then show ?case using burst_count_min [of N "shared s" mx] by (simp add: spsc_inv_def cons_ok_def)
next
  case (c_read s t n xs)
  then have i: "ring_ok N (shared s)" "t = r_tail (shared s)" "unat n \<le> ring_len N (shared s)"
    "xs = take (length xs) (ring_contents N (shared s))"
    by (simp_all add: spsc_inv_def cons_ok_def)
  with c_read(2) have l: "length xs < ring_len N (shared s)" by simp
  have "xs @ [ring_contents N (shared s) ! length xs] = take (Suc (length xs)) (ring_contents N (shared s))"
    using l i(4) by (simp add: take_Suc_conv_app_nth)
  with contents_nth [OF i(1) l] c_read i(2) show ?case
    by (simp add: spsc_inv_def cons_ok_def)
next
  case (c_none s t n xs)
  then show ?case by (simp add: spsc_inv_def cons_ok_def)
next
  case (c_store s t n xs)
  then have i: "ring_ok N (shared s)" "t = r_tail (shared s)" "unat n \<le> ring_len N (shared s)"
    "xs = take (unat n) (ring_contents N (shared s))" "prod_ok N (shared s) (prod s)"
    "accepted s = delivered s @ ring_contents N (shared s)"
    by (simp_all add: spsc_inv_def cons_ok_def)
  let ?r = "(shared s)\<lparr>r_tail := (t + n) AND (N - 1)\<rparr>"
  note c = contents_release [OF i(1,3), folded i(2)]
  have "ring_len N ?r = ring_len N (shared s) - unat n"
    using c(1) by (metis length_drop length_ring_contents)
  moreover have "ring_len N (shared s) < unat N" "0 < unat n"
    using gap_less [OF ring_okD(2,3) [OF i(1)]] c_store(2) by (simp_all add: ring_len_def word_less_nat_alt)
  ultimately have "ring_len N ?r < unat N - 1" using i(3) by simp
  then have "prod_ok N ?r (prod s)"
    by (intro prod_ok_shrink [OF i(5)]) auto
  with c i(4,6) show ?case by (simp add: spsc_inv_def cons_ok_def)
qed

lemma spsc_reachable_inv:
  assumes "(spsc_step N)\<^sup>*\<^sup>* (spsc_init N d) s" and "pow2_size N"
  shows "spsc_inv N s"
  using assms(1)
proof (induction rule: rtranclp_induct)
  case base
  show ?case by (rule spsc_init_inv [OF assms(2)])
next
  case (step y z)
  then show ?case using spsc_step_inv by blast
qed

end
