(* ===== verification/Upf_System.thy ===== *)
theory Upf_System
  imports Upf_Path_Laws Upf_Ring_Threads
begin

text \<open>
  The properties of the UPF fast path: the ring between its threads, the two forwarding paths
  and their counters, the demo rules, the latency percentiles, and what happens when the mbuf
  pool wraps.
\<close>

subsection \<open>The ring\<close>

text \<open>C1. The lock-free ring is a queue under every interleaving of its two threads: at any moment
  of any execution the elements whose push was published are, in order, those that were delivered
  followed by at most \<open>N - 1\<close> more; nothing is lost, duplicated, reordered or made up.\<close>

theorem ring_threads_fifo:
  assumes "pow2_size N" and "(spsc_step N)\<^sup>*\<^sup>* (spsc_init N d) s"
  shows "\<exists>rest. accepted s = delivered s @ rest \<and> length rest \<le> unat N - 1"
proof -
  have i: "spsc_inv N s" by (rule spsc_reachable_inv [OF assms(2,1)])
  then have "ring_len N (shared s) < unat N"
    using gap_less [OF ring_okD(2) [of N "shared s"] ring_okD(3) [of N "shared s"]]
    by (simp add: spsc_inv_def ring_len_def)
  with i show ?thesis
    by (intro exI [of _ "ring_contents N (shared s)"]) (simp add: spsc_inv_def)
qed

definition demo_ring :: "nat spsc" where
  "demo_ring = \<lparr> shared = \<lparr> r_head = 1, r_tail = 0, r_buf = [7, 0] \<rparr>, prod = P_Idle, cons = C_Idle,
     accepted = [7], delivered = [] \<rparr>"

lemma ring_new_2: "ring_new 2 (0::nat) = \<lparr> r_head = 0, r_tail = 0, r_buf = [0, 0] \<rparr>"
  by code_simp

lemma demo_ring_reachable: "(spsc_step 2)\<^sup>*\<^sup>* (spsc_init 2 0) demo_ring"
proof -
  let ?s0 = "spsc_init 2 0 :: nat spsc"
  let ?s1 = "?s0\<lparr>prod := P_Loaded 7 0\<rparr>"
  let ?s2 = "?s1\<lparr>prod := P_Checked 7 0 1\<rparr>"
  let ?s3 = "?s2\<lparr>shared := (shared ?s2)\<lparr>r_buf := [7, 0]\<rparr>, prod := P_Written 7 1\<rparr>"
  have "spsc_step 2 ?s0 ?s1"
    using p_load [of ?s0 2 7] by (simp add: spsc_init_def ring_new_2)
  moreover have "spsc_step 2 ?s1 ?s2"
    using p_check [of ?s1 7 0 2] by (simp add: spsc_init_def ring_new_2)
  moreover have "spsc_step 2 ?s2 ?s3"
    using p_write [of ?s2 7 0 1 2] by (simp add: spsc_init_def ring_new_2)
  moreover have "spsc_step 2 ?s3 demo_ring"
    using p_store [of ?s3 7 1 2] by (simp add: spsc_init_def ring_new_2 demo_ring_def)
  ultimately show ?thesis by (meson rtranclp.rtrancl_into_rtrancl rtranclp.rtrancl_refl)
qed

theorem ring_threads_fifo_witness:
  "accepted demo_ring = [7] \<and> (\<exists>rest. accepted demo_ring = delivered demo_ring @ rest \<and> length rest \<le> unat (2::u64) - 1)"
proof -
  have "pow2_size 2" unfolding pow2_size_def by (rule exI [of _ 1]) simp
  from ring_threads_fifo [OF this demo_ring_reachable] show ?thesis by (simp add: demo_ring_def)
qed

text \<open>C12. Bursts drain the ring in order: on its own, \<open>pop_burst\<close> returns the oldest elements, as many as
  asked for or as there are, and leaves exactly the others.\<close>

theorem pop_burst_drains:
  assumes "ring_ok N r" and "ring_pop_burst N r mx = (out, r')"
  shows "ring_contents N r = out @ ring_contents N r' \<and> ring_ok N r' \<and>
    length out = min (unat (ring_size N r)) (unat mx)"
proof -
  note b = pop_burst_take [OF assms(1), of mx, unfolded assms(2) fst_conv snd_conv]
  have "length out = min (ring_len N r) (unat mx)"
    by (simp add: b(1))
  then have "length out = min (unat (ring_size N r)) (unat mx)"
    by (simp only: ring_size_len [OF assms(1)])
  with b show ?thesis by simp
qed

theorem pop_burst_drains_witness:
  "fst (ring_pop_burst 2 (shared demo_ring) 32) = [7] \<and> ring_contents 2 (shared demo_ring) = [7]"
proof -
  have "pow2_size 2" unfolding pow2_size_def by (rule exI [of _ 1]) simp
  then have ok: "ring_ok 2 (shared demo_ring)" by (simp add: ring_ok_def demo_ring_def)
  have "fst (ring_pop_burst 2 (shared demo_ring) 32) = [7]"
    "ring_contents 2 (snd (ring_pop_burst 2 (shared demo_ring) 32)) = []"
    by code_simp+
  with pop_burst_drains [OF ok surjective_pairing, of 32] show ?thesis by simp
qed

subsection \<open>The two paths\<close>

definition settled :: "tally \<Rightarrow> u64" where
  "settled c = (case c of (rx, f, d, n) \<Rightarrow> rx - f - d)"

lemma settled_simps [simp]:
  "settled (tally_rx c) = settled c + 1" "settled (tally_full c) = settled c"
  "settled (tally_verdict v c) = settled c - 1"
  by (cases c; cases v; simp add: settled_def algebra_simps)+

lemma settled_fold: "settled (fold (\<lambda>p. tally_verdict (verdict rt p)) ps c) = settled c - word_of_nat (length ps)"
  by (induction ps arbitrary: c) (simp_all add: algebra_simps)

lemma process_burst_settled:
  "settled (counters (snd (process_burst rt now idxs ps))) = settled (counters (snd ps)) - word_of_nat (length idxs)"
proof (induction idxs arbitrary: ps)
  case Nil
  then show ?case by (simp add: process_burst_def)
next
  case (Cons i idxs)
  obtain pool st pool1 st1 where 1: "ps = (pool, st)" "process_mbuf rt now i ps = (pool1, st1)"
    by (metis surj_pair)
  with Cons.IH [of "(pool1, st1)"] process_mbuf_effect(1) [OF 1(2) [unfolded 1(1)]] show ?case
    by (simp add: process_burst_def algebra_simps)
qed

lemma socket_conserves:
  "settled (counters (sk_stats (run (socket_step rt) s es))) - word_of_nat (length (sk_queue (run (socket_step rt) s es)))
   = settled (counters (sk_stats s)) - word_of_nat (length (sk_queue s))"
proof (induction es arbitrary: s)
  case (Cons e es)
  have "settled (counters (sk_stats (socket_step rt s e))) - word_of_nat (length (sk_queue (socket_step rt s e)))
     = settled (counters (sk_stats s)) - word_of_nat (length (sk_queue s))"
    by (cases e) (auto simp: socket_enqueue_def socket_work_def Let_def process_one_counters algebra_simps
        split: list.splits)
  with Cons show ?case by simp
qed simp

lemma dpdk_step_conserves:
  assumes "ring_ok 4096 (dp_ring s)"
  shows "ring_ok 4096 (dp_ring (dpdk_step rt s e))"
    and "settled (counters (dp_stats (dpdk_step rt s e))) - word_of_nat (ring_len 4096 (dp_ring (dpdk_step rt s e)))
     = settled (counters (dp_stats s)) - word_of_nat (ring_len 4096 (dp_ring s))"
proof -
  have "ring_ok 4096 (dp_ring (dpdk_step rt s e)) \<and>
    settled (counters (dp_stats (dpdk_step rt s e))) - word_of_nat (ring_len 4096 (dp_ring (dpdk_step rt s e)))
     = settled (counters (dp_stats s)) - word_of_nat (ring_len 4096 (dp_ring s))"
  proof (cases e)
    case (Arrive p)
    obtain i pool1 where a: "pool_alloc (dp_pool s) = (i, pool1)" by fastforce
    show ?thesis
    proof (cases "length (ring_contents 4096 (dp_ring s)) \<ge> 4095")
      case True
      then have "ring_push 4096 (dp_ring s) i = (False, dp_ring s)"
        using push_4096 [OF assms, of i] by simp
      with assms Arrive a show ?thesis by (simp add: dpdk_rx_enqueue_def Let_def)
    next
      case False
      then obtain r where r: "ring_push 4096 (dp_ring s) i = (True, r)" "ring_ok 4096 r"
        "ring_contents 4096 r = ring_contents 4096 (dp_ring s) @ [i]"
        using push_4096 [OF assms, of i] by auto
      from r(3) have "ring_len 4096 r = Suc (ring_len 4096 (dp_ring s))"
        by (metis length_append_singleton length_ring_contents)
      with r a Arrive show ?thesis by (simp add: dpdk_rx_enqueue_def Let_def)
    qed
  next
    case (Serve now)
    let ?c = "ring_contents 4096 (dp_ring s)"
    obtain r pool st where
      p: "process_burst rt now (take 32 ?c) (dp_pool s, dp_stats s) = (pool, st)"
      and r: "ring_ok 4096 r" "ring_contents 4096 r = drop 32 ?c"
      and e: "lcore_poll rt now s = s\<lparr>dp_ring := r, dp_pool := pool, dp_stats := st\<rparr>"
      by (rule lcore_poll_effect [OF assms])
    have l: "ring_len 4096 r = ring_len 4096 (dp_ring s) - length (take 32 ?c)"
      "length (take 32 ?c) \<le> ring_len 4096 (dp_ring s)"
      using arg_cong [OF r(2), of length] by (simp_all add: min_def)
    have "settled (counters st) = settled (counters (dp_stats s)) - word_of_nat (length (take 32 ?c))"
      using process_burst_settled [of rt now "take 32 ?c" "(dp_pool s, dp_stats s)"] p by simp
    with r(1) l show ?thesis by (simp add: Serve e of_nat_diff del: length_take)
  qed
  then show "ring_ok 4096 (dp_ring (dpdk_step rt s e))"
    and "settled (counters (dp_stats (dpdk_step rt s e))) - word_of_nat (ring_len 4096 (dp_ring (dpdk_step rt s e)))
     = settled (counters (dp_stats s)) - word_of_nat (ring_len 4096 (dp_ring s))"
    by blast+
qed

lemma dpdk_conserves:
  assumes "ring_ok 4096 (dp_ring s)"
  shows "settled (counters (dp_stats (run (dpdk_step rt) s es))) - word_of_nat (ring_len 4096 (dp_ring (run (dpdk_step rt) s es)))
     = settled (counters (dp_stats s)) - word_of_nat (ring_len 4096 (dp_ring s))"
  using assms
proof (induction es arbitrary: s)
  case (Cons e es)
  from Cons.IH [OF dpdk_step_conserves(1) [OF Cons.prems, of rt e]] dpdk_step_conserves(2) [OF Cons.prems, of rt e]
  show ?case by simp
qed simp

text \<open>C3. No packet disappears from the counts: under every sequence of arrivals and worker turns, in both
  paths, packets received are packets forwarded plus packets dropped plus packets still queued
  (as 64-bit counters).\<close>

theorem paths_conserve:
  "let s = run (socket_step rt) socket_new es; t = run (dpdk_step rt) dpdk_new fs in
   pkts_rx (sk_stats s) = pkts_forwarded (sk_stats s) + pkts_dropped (sk_stats s) + word_of_nat (length (sk_queue s))
   \<and> pkts_rx (dp_stats t) = pkts_forwarded (dp_stats t) + pkts_dropped (dp_stats t) + ring_size 4096 (dp_ring t)"
proof -
  let ?s = "run (socket_step rt) socket_new es" and ?t = "run (dpdk_step rt) dpdk_new fs"
  have n: "counters stats_init = (0, 0, 0, 0)" by (simp add: counters_def stats_init_def)
  have 1: "settled (counters (sk_stats ?s)) - word_of_nat (length (sk_queue ?s)) = 0"
    using socket_conserves [of rt socket_new es] n by (simp add: socket_new_def settled_def)
  have ok: "ring_ok 4096 (dp_ring dpdk_new)" "ring_len 4096 (dp_ring dpdk_new) = 0"
    using ring_ok_new [OF rx_ring_pow2, of "0::nat"]
    by (simp_all add: dpdk_new_def) (metis length_ring_contents list.size(3))
  have 2: "settled (counters (dp_stats ?t)) - word_of_nat (ring_len 4096 (dp_ring ?t)) = 0"
    using dpdk_conserves [OF ok(1), of rt fs] n ok(2) by (simp add: dpdk_new_def settled_def)
  have "ring_ok 4096 (dp_ring (run (dpdk_step rt) u fs))" if "ring_ok 4096 (dp_ring u)" for u
    using that by (induction fs arbitrary: u) (auto simp: dpdk_step_conserves(1) simp del: dpdk_step.simps)
  from ring_size_len [OF this [OF ok(1)]]
  have "ring_len 4096 (dp_ring ?t) = unat (ring_size 4096 (dp_ring ?t))" by simp
  then have "word_of_nat (ring_len 4096 (dp_ring ?t)) = ring_size 4096 (dp_ring ?t)" by simp
  with 1 2 show ?thesis
    by (simp add: settled_def counters_def Let_def algebra_simps)
qed





lemma demo_verdict:
  assumes "num < 2 ^ 31" and "ue < num"
  shows "match_pdr (build_demo_rules num) (make_demo_packet ue dir seq now) = Some (demo_pdr ue dir)"
    and "get_far (build_demo_rules num) (pdr_far_id (demo_pdr ue dir)) = Some (demo_far ue dir)"
  using demo_rules_installed [OF assms]
  by (cases dir; simp add: ue_installed_def match_pdr_def get_far_def make_demo_packet_def)+


text \<open>C15. The demo rule set is complete: with fewer than \<open>2^31\<close> devices, every packet the demo makes for a
  configured device, in either direction, matches that device's own rule and is forwarded: uplink
  unwrapped to the N6 gateway, downlink in GTP-U on port 2152 to the base station.\<close>

theorem demo_packets_forwarded:
  assumes "num < 2 ^ 31" and "ue < num"
  shows "verdict (build_demo_rules num) (make_demo_packet ue dir seq now) = Passed \<and>
    (\<exists>pdr far. match_pdr (build_demo_rules num) (make_demo_packet ue dir seq now) = Some pdr \<and>
       get_far (build_demo_rules num) (pdr_far_id pdr) = Some far \<and> pdr_dir pdr = dir \<and>
       pdr_teid pdr = 1000 + ue \<and>
       (if dir = UL then far_dst_ip far = ip4 8 8 8 8 \<and> \<not> far_encap_gtpu far
        else far_dst_ip far = ip4 10 10 0 1 \<and> far_dst_port far = 2152 \<and> far_encap_gtpu far))"
  using demo_verdict(1) [OF assms, of dir seq now] demo_verdict(2) [OF assms, of dir]
  by (simp add: verdict_def) (simp add: demo_far_def)

theorem demo_packets_forwarded_witness:
  "verdict (build_demo_rules 100) (make_demo_packet 99 DL 7 0) = Passed"
  using demo_packets_forwarded [of 100 99 DL 7 0] by simp

subsection \<open>Latency percentiles\<close>

text \<open>The printed percentiles are ordered: minimum, median, 95th, 99th percentile and maximum never
  decrease, all are recorded samples, and, as long as the sum of the samples fits its 64-bit
  accumulator, the average lies between minimum and maximum.\<close>

theorem percentiles_ordered:
  assumes "stats_ok st" and "filled st > 0"
  shows "let p = compute_percentiles st; xs = take (filled st) (latencies st) in
    min_ns p \<le> p50_ns p \<and> p50_ns p \<le> p95_ns p \<and> p95_ns p \<le> p99_ns p \<and> p99_ns p \<le> max_ns p
    \<and> {min_ns p, p50_ns p, p95_ns p, p99_ns p, max_ns p} \<subseteq> set xs
    \<and> (sum_list (map unat xs) < 2 ^ 64 \<longrightarrow> min_ns p \<le> avg_ns p \<and> avg_ns p \<le> max_ns p)"
proof -
  let ?s = "sorted_samples st" and ?n = "filled st" and ?xs = "take (filled st) (latencies st)"
  have len: "length ?s = ?n" by (rule length_sorted_samples [OF assms(1)])
  have ne: "?s \<noteq> []" using len assms(2) by auto
  have set: "set ?s = set ?xs" by (simp add: sorted_samples_def)
  have mono: "i \<le> j \<Longrightarrow> j < ?n \<Longrightarrow> ?s ! i \<le> ?s ! j" for i j
    using sorted_sorted_samples [of st] len by (simp add: sorted_nth_mono)
  have idx: "?n * 50 div 100 < ?n" "?n * 95 div 100 < ?n" "?n * 99 div 100 < ?n"
    "?n * 50 div 100 \<le> ?n * 95 div 100" "?n * 95 div 100 \<le> ?n * 99 div 100" "?n * 99 div 100 \<le> ?n - 1"
    using assms(2) by simp_all
  have ends: "hd ?s = ?s ! 0" "last ?s = ?s ! (?n - 1)"
    using ne len by (simp_all add: hd_conv_nth last_conv_nth)
  have p: "compute_percentiles st = \<lparr> p50_ns = ?s ! (?n * 50 div 100), p95_ns = ?s ! (?n * 95 div 100),
      p99_ns = ?s ! (?n * 99 div 100), avg_ns = sum_list ?s div word_of_nat ?n, min_ns = ?s ! 0, max_ns = ?s ! (?n - 1) \<rparr>"
    using assms(2) by (simp add: compute_percentiles_def Let_def ends)
  have mem: "?s ! i \<in> set ?xs" if "i < ?n" for i
    using that len set by (metis nth_mem)
  have avg: "?s ! 0 \<le> sum_list ?s div word_of_nat ?n \<and> sum_list ?s div word_of_nat ?n \<le> ?s ! (?n - 1)"
    if "sum_list (map unat ?xs) < 2 ^ 64"
  proof -
    have "\<forall>x\<in>set ?s. ?s ! 0 \<le> x \<and> x \<le> ?s ! (?n - 1)"
      using mono len by (auto simp: in_set_conv_nth)
    moreover have "?n < 2 ^ 64" by (simp add: filled_def RESERVOIR_SIZE_def)
    moreover have "sum_list (map unat ?s) < 2 ^ 64"
      using that by (simp add: sorted_samples_def sum_list_sort)
    ultimately show ?thesis
      using average_between [of ?s "?s ! 0" "?s ! (?n - 1)"] len assms(2) by simp
  qed
  show ?thesis
    unfolding p Let_def using mono idx mem avg assms(2) by simp
qed

definition demo_stats :: PathStats where
  "demo_stats = record_latency 0 5 (record_latency 0 3 (record_latency 0 9 stats_init))"

theorem percentiles_ordered_witness:
  "filled demo_stats = 3 \<and> (let p = compute_percentiles demo_stats in
     min_ns p \<le> p50_ns p \<and> p50_ns p \<le> p95_ns p \<and> p95_ns p \<le> p99_ns p \<and> p99_ns p \<le> max_ns p)"
proof -
  have n: "filled demo_stats = 3"
    by (simp add: demo_stats_def record_latency_def filled_def stats_init_def RESERVOIR_SIZE_def)
  have "stats_ok demo_stats" by (simp add: demo_stats_def)
  from percentiles_ordered [OF this] n show ?thesis by (simp add: Let_def)
qed

subsection \<open>Unusual paths\<close>

lemma arrive_room:
  assumes "ring_ok 4096 (dp_ring s)" and "length (ring_contents 4096 (dp_ring s)) < 4095"
    and "pool_alloc (dp_pool s) = (i, pool1)"
  shows "\<exists>r. dpdk_rx_enqueue p s = (True, s\<lparr>dp_stats := count_rx (dp_stats s),
        dp_pool := set_mbuf i (\<lambda>m. m\<lparr>m_pkt := p, m_in_use := True\<rparr>) pool1, dp_ring := r\<rparr>)
     \<and> ring_ok 4096 r \<and> ring_contents 4096 r = ring_contents 4096 (dp_ring s) @ [i]"
  using push_4096 [OF assms(1), of i] assms(2,3) by (auto simp: dpdk_rx_enqueue_def Let_def)

lemma spec_turns_empty: "fst (run (spec_step 4095 32 rt) ([], c) (concat (replicate n [Arrive x, Serve now]))) = []"
  by (induction n arbitrary: c) auto

lemma arrivals_turns: "arrivals (concat (replicate n [Arrive x, Serve now])) = n"
  by (induction n) auto

text \<open>C35. When the bump pointer of the mbuf pool wraps, one mbuf is handed out twice: after 65536
  packets, each served before the next, the next two packets \<open>p\<close> and \<open>q\<close> are both accepted, but
  the ring then holds \<open>q\<close> twice; \<open>p\<close> is overwritten before it was looked at.\<close>

theorem pool_wrap_overwrites:
  "let s = run (dpdk_step rt) dpdk_new (concat (replicate 65536 [Arrive x, Serve now]));
       (a, s1) = dpdk_rx_enqueue p s; (b, s2) = dpdk_rx_enqueue q s1
   in a \<and> b \<and> fst (dpdk_abs s) = [] \<and> fst (dpdk_abs s2) = [q, q]"
proof -
  let ?es = "concat (replicate 65536 [Arrive x, Serve now])"
  define s where "s = run (dpdk_step rt) dpdk_new ?es"
  have "unat (pool_next (dp_pool dpdk_new)) + arrivals ?es \<le> 65536"
    by (simp only: arrivals_turns) (simp add: dpdk_new_def pool_new_def)
  from dpdk_refines [OF dpdk_fresh_new(1) this, of rt, folded s_def]
  have s: "dpdk_abs s = run (spec_step 4095 32 rt) (dpdk_abs dpdk_new) ?es" "dpdk_fresh s"
    "unat (pool_next (dp_pool s)) = 65536"
    by (simp_all only: arrivals_turns) (simp add: dpdk_new_def pool_new_def)
  have e: "fst (dpdk_abs s) = []"
    unfolding s(1) dpdk_fresh_new(2) by (rule spec_turns_empty)
  then have c: "ring_contents 4096 (dp_ring s) = []" by (simp add: dpdk_abs_def)
  have f: "ring_ok 4096 (dp_ring s)" "length (pool_mbufs (dp_pool s)) = 65536"
    using s(2) by (simp_all add: dpdk_fresh_def)
  have a1: "pool_alloc (dp_pool s) = (0, set_mbuf 0 (\<lambda>m. m\<lparr>m_in_use := True\<rparr>) ((dp_pool s)\<lparr>pool_next := 0\<rparr>))"
    using s(3) f(2) by (simp add: pool_alloc_def Let_def)
  from arrive_room [OF f(1) _ a1, of p] c obtain r1 where r1:
    "dpdk_rx_enqueue p s = (True, s\<lparr>dp_stats := count_rx (dp_stats s),
        dp_pool := set_mbuf 0 (\<lambda>m. m\<lparr>m_pkt := p, m_in_use := True\<rparr>)
          (set_mbuf 0 (\<lambda>m. m\<lparr>m_in_use := True\<rparr>) ((dp_pool s)\<lparr>pool_next := 0\<rparr>)), dp_ring := r1\<rparr>)"
    "ring_ok 4096 r1" "ring_contents 4096 r1 = [0]" by auto
  define s1 where "s1 = snd (dpdk_rx_enqueue p s)"
  have s1: "dp_ring s1 = r1" "length (pool_mbufs (dp_pool s1)) = 65536" "pool_next (dp_pool s1) = 0"
    using f(2) by (simp_all add: s1_def r1(1))
  have a2: "pool_alloc (dp_pool s1) = (0, set_mbuf 0 (\<lambda>m. m\<lparr>m_in_use := True\<rparr>) ((dp_pool s1)\<lparr>pool_next := 1\<rparr>))"
    using s1 by (simp add: pool_alloc_def Let_def)
  from arrive_room [OF _ _ a2, of q] s1(1) r1(2,3) obtain r2 where r2:
    "dpdk_rx_enqueue q s1 = (True, s1\<lparr>dp_stats := count_rx (dp_stats s1),
        dp_pool := set_mbuf 0 (\<lambda>m. m\<lparr>m_pkt := q, m_in_use := True\<rparr>)
          (set_mbuf 0 (\<lambda>m. m\<lparr>m_in_use := True\<rparr>) ((dp_pool s1)\<lparr>pool_next := 1\<rparr>)), dp_ring := r2\<rparr>)"
    "ring_contents 4096 r2 = [0, 0]" by auto
  have "fst (dpdk_abs (snd (dpdk_rx_enqueue q s1))) = [q, q]"
    using r2 s1(2) by (simp add: dpdk_abs_def)
  then show ?thesis
    using e r1(1) r2(1) by (simp add: Let_def s_def [symmetric] s1_def del: replicate.simps)
qed

text \<open>C28. The loop over real NIC frames agrees with the socket path on every full frame: it counts what
  \<open>process_one\<close> counts for an uplink packet with the tunnel identifier found at bytes 46 to 49, most
  significant first; shorter frames are dropped. But it never counts a received packet, so the
  RX column its program prints stays at its start.\<close>

theorem real_lcore_agrees:
  "counters (real_lcore_frame rt now done d st) =
     (if length d < 50 then tally_verdict Refused (counters st)
      else counters (snd (process_one rt clock (fresh_packet\<lparr>p_teid := frame_teid d, p_dir := UL, p_arrival_ns := now\<rparr>) st)))
   \<and> pkts_rx (real_lcore_burst rt now burst st) = pkts_rx st"
proof -
  have rx: "fst (tally_verdict v c) = fst c" for v c by (cases c; cases v) auto
  have one: "pkts_rx (real_lcore_frame rt now fin d st) = pkts_rx st" for fin d st
    using arg_cong [OF real_lcore_counters [of rt now fin d st], of fst]
    by (auto simp: rx counters_def split: if_splits)
  have "pkts_rx (real_lcore_burst rt now burst st) = pkts_rx st"
    by (induction burst arbitrary: st) (auto simp: real_lcore_burst_def one)
  then show ?thesis
    by (simp add: real_lcore_counters process_one_counters TEID_OFFSET_def)
qed

lemma match_pdr_fars [simp]:
  "match_pdr (rt\<lparr>fars := x\<rparr>) pkt = match_pdr rt pkt" "match_pdr (add_far far rt) pkt = match_pdr rt pkt"
  by (simp_all add: match_pdr_def add_far_def cong: option.case_cong)

text \<open>A FAR with action BUFFER is not held back: both paths forward the packet and count it as
  forwarded, exactly as for FORWARD; the action differs from FORWARD in no observable way.\<close>

theorem buffer_is_forwarded:
  assumes "match_pdr rt pkt = Some pdr" and "get_far rt (pdr_far_id pdr) = Some far" and "far_action far = BUFFER"
  shows "counters (snd (process_one rt now pkt st)) = tally_verdict Passed (counters st) \<and>
    process_one rt now pkt st = process_one (rt\<lparr>fars := tbl_set (fars rt) (pdr_far_id pdr) (far\<lparr>far_action := FORWARD\<rparr>)\<rparr>) now pkt st"
proof
  show "counters (snd (process_one rt now pkt st)) = tally_verdict Passed (counters st)"
    using assms by (simp add: process_one_counters verdict_def)
  let ?rt = "rt\<lparr>fars := tbl_set (fars rt) (pdr_far_id pdr) (far\<lparr>far_action := FORWARD\<rparr>)\<rparr>"
  have "match_pdr ?rt pkt = Some pdr" using assms(1) by simp
  moreover have "get_far ?rt (pdr_far_id pdr) = Some (far\<lparr>far_action := FORWARD\<rparr>)"
    by (simp add: get_far_def)
  ultimately show "process_one rt now pkt st = process_one ?rt now pkt st"
    using assms by (simp add: process_one_def)
qed

definition buffer_rules :: RuleTable where
  "buffer_rules = add_far ((demo_far 0 UL)\<lparr>far_action := BUFFER\<rparr>) (build_demo_rules 1)"

theorem buffer_is_forwarded_witness:
  "counters (snd (process_one buffer_rules 9 (make_demo_packet 0 UL 0 5) stats_init)) = (0, 1, 0, 0)"
proof -
  have m: "match_pdr buffer_rules (make_demo_packet 0 UL 0 5) = Some (demo_pdr 0 UL)"
    using demo_verdict(1) [of 1 0 UL 0 5] by (simp add: buffer_rules_def)
  have g: "get_far buffer_rules (pdr_far_id (demo_pdr 0 UL)) = Some ((demo_far 0 UL)\<lparr>far_action := BUFFER\<rparr>)"
    by (simp add: buffer_rules_def get_far_def)
  have "far_action ((demo_far 0 UL)\<lparr>far_action := BUFFER\<rparr>) = BUFFER" by simp
  from conjunct1 [OF buffer_is_forwarded [OF m g this, of 9 stats_init]] show ?thesis
    by (simp add: counters_def stats_init_def)
qed

end
