(* ===== verification/Core5g_Base.thy ===== *)
theory Core5g_Base
  imports Text_Frames Tables
begin

text \<open>
  The common headers of the 5G core (\<open>5g-simulator/src/common\<close>): hexadecimal strings and the
  simplified AKA of \<open>aka_lite.h\<close>, the identities of \<open>ids5g.h\<close>, and the HTTP messages of
  \<open>wire.h\<close>. The environment variables PLMN_MCC and PLMN_MNC and the random strings are
  arguments.
\<close>

subsection \<open>std::stoul\<close>

definition hex_digit :: "char \<Rightarrow> nat option" where
  "hex_digit c =
     (let n = of_char c :: nat in
      if 48 \<le> n \<and> n \<le> 57 then Some (n - 48)
      else if 97 \<le> n \<and> n \<le> 102 then Some (n - 87)
      else if 65 \<le> n \<and> n \<le> 70 then Some (n - 55)
      else None)"

definition is_hex :: "char \<Rightarrow> bool" where
  "is_hex c \<longleftrightarrow> hex_digit c \<noteq> None"

definition hex_value :: "string \<Rightarrow> nat" where
  "hex_value s = foldl (\<lambda>a c. 16 * a + the (hex_digit c)) 0 s"

text \<open>Sign and white space as \<open>strtoul\<close> takes them; a negative value is negated modulo \<open>2^64\<close>.\<close>

definition split_sign :: "string \<Rightarrow> bool \<times> string" where
  "split_sign s =
     (case dropWhile is_space s of [] \<Rightarrow> (False, [])
      | c # cs \<Rightarrow> if c = CHR ''-'' then (True, cs) else if c = CHR ''+'' then (False, cs) else (False, c # cs))"

definition stoul_result :: "bool \<Rightarrow> bool \<Rightarrow> nat \<Rightarrow> cpp_exn + nat" where
  "stoul_result none neg v =
     (if none then Inl InvalidArgument
      else if v \<ge> 2 ^ 64 then Inl OutOfRange
      else Inr (if neg then (2 ^ 64 - v) mod 2 ^ 64 else v))"

definition stoul16 :: "string \<Rightarrow> cpp_exn + nat" where
  "stoul16 s =
     (let (neg, t) = split_sign s;
          t1 = (case t of z # x # h # r \<Rightarrow>
                  if z = CHR ''0'' \<and> (x = CHR ''x'' \<or> x = CHR ''X'') \<and> is_hex h then h # r else t
                | _ \<Rightarrow> t);
          ds = takeWhile is_hex t1
      in stoul_result (ds = []) neg (hex_value ds))"

definition stoul10 :: "string \<Rightarrow> cpp_exn + nat" where
  "stoul10 s =
     (let (neg, t) = split_sign s; ds = takeWhile is_digit t
      in stoul_result (ds = []) neg (dec_value ds))"

subsection \<open>aka_lite.h\<close>

fun from_hex :: "string \<Rightarrow> cpp_exn + bytes" where
  "from_hex (a # b # r) =
     (case stoul16 [a, b] of Inl e \<Rightarrow> Inl e
      | Inr v \<Rightarrow> (case from_hex r of Inl e \<Rightarrow> Inl e | Inr bs \<Rightarrow> Inr (word_of_nat v # bs)))"
| "from_hex _ = Inr []"

definition hex_char :: "nat \<Rightarrow> char" where
  "hex_char d = ''0123456789abcdef'' ! d"

definition to_hex :: "bytes \<Rightarrow> string" where
  "to_hex bs = concat (map (\<lambda>b. [hex_char (unat b div 16), hex_char (unat b mod 16)]) bs)"

text \<open>The bytes combined; undefined (\<open>None\<close>) when a modulus is zero.\<close>

definition xor_bytes :: "bytes \<Rightarrow> bytes \<Rightarrow> bytes option" where
  "xor_bytes a b =
     (if a \<noteq> [] \<and> b = [] then None
      else Some (map (\<lambda>i. xor (a ! i) (b ! (i mod length b))) [0..<length a]))"

definition byteXor :: "string \<Rightarrow> string \<Rightarrow> cpp_exn + string option" where
  "byteXor a_hex b_hex =
     (case from_hex a_hex of Inl e \<Rightarrow> Inl e
      | Inr a \<Rightarrow> (case from_hex b_hex of Inl e \<Rightarrow> Inl e
                 | Inr b \<Rightarrow> Inr (map_option to_hex (xor_bytes a b))))"

definition kFor :: "string \<Rightarrow> string" where
  "kFor msin =
     (let base = ''00112233445566778899aabbccddee0'';
          last_digit = (if msin = [] then 0 else (of_char (last msin) :: int) - 48)
      in butlast base @ [''0123456789abcdef'' ! nat (last_digit mod 16)])"

subsection \<open>ids5g.h\<close>

record plmn =
  mcc :: string
  mnc :: string

definition plmn_default :: plmn where
  "plmn_default = \<lparr> mcc = ''404'', mnc = ''10'' \<rparr>"

definition plmnDomain :: "plmn \<Rightarrow> string" where
  "plmnDomain n =
     (let m = (if length (mnc n) = 2 then ''0'' @ mnc n else mnc n)
      in ''mnc'' @ m @ ''.mcc'' @ mcc n)"

text \<open>\<open>std::setw(w) << std::setfill('0')\<close> on an int: zeros on the left.\<close>

definition padded :: "nat \<Rightarrow> int \<Rightarrow> string" where
  "padded w n = replicate (w - length (json_num n)) CHR ''0'' @ json_num n"

definition msin :: "int \<Rightarrow> string" where
  "msin ueId = padded 10 ueId"

definition suci :: "plmn \<Rightarrow> int \<Rightarrow> string" where
  "suci n ueId = ''suci-0-'' @ mcc n @ ''-'' @ mnc n @ ''-0000-0-0-'' @ msin ueId"

definition supi :: "plmn \<Rightarrow> int \<Rightarrow> string" where
  "supi n ueId = ''imsi-'' @ mcc n @ mnc n @ msin ueId"

definition after_last :: "char \<Rightarrow> string \<Rightarrow> string" where
  "after_last c s = rev (takeWhile (\<lambda>x. x \<noteq> c) (rev s))"

definition msinFromSuci :: "string \<Rightarrow> string" where
  "msinFromSuci s = (if CHR ''-'' \<in> set s then after_last CHR ''-'' s else [])"

definition supiFromSuci :: "plmn \<Rightarrow> string \<Rightarrow> string" where
  "supiFromSuci n s = ''imsi-'' @ mcc n @ mnc n @ msinFromSuci s"

subsection \<open>HTTP messages\<close>

record HttpMessage =
  startLine :: string
  headers :: "(string, string) table"
  http_body :: string

definition httpBuild :: "string \<Rightarrow> string \<Rightarrow> string \<Rightarrow> string" where
  "httpBuild start body extra =
     start @ [CR, LF] @ (if extra = [] then [] else extra @ [CR, LF])
     @ ''Content-Type: application/json'' @ [CR, LF]
     @ ''Content-Length: '' @ json_num (int (length body)) @ [CR, LF] @ [CR, LF] @ body"

text \<open>The lines \<open>std::getline\<close> returns: no empty line after a final newline.\<close>

fun get_lines :: "string \<Rightarrow> string \<Rightarrow> string list" where
  "get_lines acc [] = (if acc = [] then [] else [rev acc])"
| "get_lines acc (c # cs) = (if c = LF then rev acc # get_lines [] cs else get_lines (c # acc) cs)"

definition strip_cr :: "string \<Rightarrow> string" where
  "strip_cr s = (if s \<noteq> [] \<and> last s = CR then butlast s else s)"

definition add_field :: "(string, string) table \<Rightarrow> string \<Rightarrow> (string, string) table" where
  "add_field h l =
     (if colon \<in> set l
      then tbl_set h (takeWhile (\<lambda>x. x \<noteq> colon) l)
             (dropWhile (\<lambda>x. x = CHR '' '') (tl (dropWhile (\<lambda>x. x \<noteq> colon) l)))
      else h)"

definition add_header :: "(string, string) table \<Rightarrow> string \<Rightarrow> (string, string) table" where
  "add_header h line = add_field h (strip_cr line)"

definition crlf2 :: string where
  "crlf2 = [CR, LF, CR, LF]"

text \<open>
  One message off a stream, what is left of the stream, and whether it arrived whole: when the
  connection ends early the caller still sees the fields filled so far. The body is sized
  with the full length and filled with as many bytes as its 32-bit truncation says.
\<close>

definition httpRecvMsg :: "string \<Rightarrow> cpp_exn + (bool \<times> HttpMessage \<times> string)" where
  "httpRecvMsg stream =
     (case find_sub crlf2 stream of
        None \<Rightarrow> Inr (False, \<lparr> startLine = [], headers = [], http_body = [] \<rparr>, [])
      | Some p \<Rightarrow>
          (let ls = get_lines [] (take p stream);
               rest = drop (p + 4) stream;
               start = (case ls of [] \<Rightarrow> [] | l # _ \<Rightarrow> strip_cr l);
               hs = foldl add_header [] (tl ls)
           in case (case map_of hs ''Content-Length'' of None \<Rightarrow> Inr 0 | Some v \<Rightarrow> stoul10 v) of
                Inl e \<Rightarrow> Inl e
              | Inr len \<Rightarrow>
                  (let n = len mod 2 ^ 32; got = take n rest
                   in Inr (n \<le> length rest,
                       \<lparr> startLine = start, headers = hs,
                         http_body = got @ replicate (len - length got) (CHR 0x00) \<rparr>,
                       drop n rest))))"

definition httpRecv :: "string \<Rightarrow> cpp_exn + (HttpMessage \<times> string) option" where
  "httpRecv stream =
     (case httpRecvMsg stream of Inl e \<Rightarrow> Inl e
      | Inr (ok, m, rest) \<Rightarrow> Inr (if ok then Some (m, rest) else None))"

subsection \<open>Hexadecimal strings read back\<close>

lemma less_16_cases: "(d::nat) < 16 \<Longrightarrow> d \<in> set [0,1,2,3,4,5,6,7,8,9,10,11,12,13,14,15]"
  by simp presburger

lemma hex_char_all:
  "list_all (\<lambda>d. hex_digit (hex_char d) = Some d \<and> \<not> is_space (hex_char d) \<and> hex_char d \<noteq> CHR ''-''
     \<and> hex_char d \<noteq> CHR ''+'' \<and> hex_char d \<noteq> dq) [0,1,2,3,4,5,6,7,8,9,10,11,12,13,14,15]"
  by (simp add: hex_char_def hex_digit_def is_space_def)

lemma hex_char_simps:
  assumes "d < 16"
  shows "hex_digit (hex_char d) = Some d" and "\<not> is_space (hex_char d)" and "hex_char d \<noteq> CHR ''-''"
    and "hex_char d \<noteq> CHR ''+''" and "hex_char d \<noteq> dq"
  using hex_char_all less_16_cases [OF assms] by (auto simp only: list_all_iff)

lemma stoul16_pair:
  assumes "a < 16" and "b < 16"
  shows "stoul16 [hex_char a, hex_char b] = Inr (16 * a + b)"
proof -
  note h = hex_char_simps [OF assms(1)] hex_char_simps [OF assms(2)]
  have "split_sign [hex_char a, hex_char b] = (False, [hex_char a, hex_char b])"
    using h by (simp add: split_sign_def)
  moreover have "16 * a + b < 2 ^ 64" using assms by simp
  ultimately show ?thesis
    using h by (simp add: stoul16_def is_hex_def hex_value_def stoul_result_def)
qed

lemma from_hex_to_hex [simp]: "from_hex (to_hex bs) = Inr bs"
proof (induction bs)
  case Nil
  then show ?case by (simp add: to_hex_def)
next
  case (Cons b bs)
  have "unat b < 256" using unsigned_less [of b] by simp
  then have "unat b div 16 < 16" "unat b mod 16 < 16" by auto
  from stoul16_pair [OF this] Cons show ?case by (simp add: to_hex_def)
qed

lemma quotefree_to_hex [simp]: "quotefree (to_hex bs)"
proof (induction bs)
  case Nil
  then show ?case by (simp add: to_hex_def)
next
  case (Cons b bs)
  have "unat b < 256" using unsigned_less [of b] by simp
  then have "unat b div 16 < 16" "unat b mod 16 < 16" by auto
  with Cons hex_char_simps(5) show ?case by (simp add: to_hex_def)
qed

lemma length_to_hex [simp]: "length (to_hex bs) = 2 * length bs"
  by (induction bs) (simp_all add: to_hex_def)

lemma from_hex_odd: "even (length s) \<Longrightarrow> from_hex (s @ [c]) = from_hex s"
  by (induction s rule: from_hex.induct) (auto split: sum.splits)

text \<open>The key of every subscriber decodes to the same fifteen bytes.\<close>

definition the_key :: bytes where
  "the_key = [0x00, 0x11, 0x22, 0x33, 0x44, 0x55, 0x66, 0x77, 0x88, 0x99, 0xaa, 0xbb, 0xcc, 0xdd, 0xee]"

lemma from_hex_base: "from_hex ''00112233445566778899aabbccddee'' = Inr the_key"
proof -
  have "to_hex the_key = ''00112233445566778899aabbccddee''"
    by (simp add: to_hex_def the_key_def hex_char_def)
  then show ?thesis using from_hex_to_hex [of the_key] by simp
qed

lemma kFor_tail: "\<exists>c. kFor m = ''00112233445566778899aabbccddee'' @ [c]"
  by (simp add: kFor_def)

lemma kFor_bytes: "from_hex (kFor m) = Inr the_key"
proof -
  have "even (length ''00112233445566778899aabbccddee'')" by simp
  with from_hex_odd kFor_tail [of m] from_hex_base show ?thesis by metis
qed

subsection \<open>HTTP messages read back\<close>

definition plain_line :: "string \<Rightarrow> bool" where
  "plain_line l \<longleftrightarrow> l \<noteq> [] \<and> CR \<notin> set l \<and> LF \<notin> set l"

definition head_of :: "string list \<Rightarrow> string" where
  "head_of ls = concat (map (\<lambda>l. l @ [CR, LF]) ls)"

lemma crlf2_skip_char: "c \<noteq> CR \<Longrightarrow> find_sub crlf2 (c # cs) = map_option Suc (find_sub crlf2 cs)"
  by (simp add: crlf2_def)

lemma crlf2_skip_line:
  "CR \<notin> set l \<Longrightarrow> find_sub crlf2 (l @ s) = map_option (\<lambda>n. length l + n) (find_sub crlf2 s)"
proof (induction l)
  case Nil
  then show ?case by (cases "find_sub crlf2 s") auto
next
  case (Cons c l)
  then have "c \<noteq> CR" "find_sub crlf2 (l @ s) = map_option (\<lambda>n. length l + n) (find_sub crlf2 s)" by auto
  then show ?case
    by (cases "find_sub crlf2 s") (auto simp: crlf2_skip_char simp del: find_sub.simps)
qed

lemma crlf2_crlf_line:
  assumes "plain_line l"
  shows "find_sub crlf2 (CR # LF # l @ s) = map_option (\<lambda>n. 2 + length l + n) (find_sub crlf2 s)"
proof -
  obtain c r where l: "l = c # r" "c \<noteq> CR" "c \<noteq> LF" using assms by (cases l) (auto simp: plain_line_def)
  have "find_sub crlf2 (CR # LF # l @ s) = map_option (\<lambda>n. Suc (Suc n)) (find_sub crlf2 (l @ s))"
    using l by (simp add: crlf2_def option.map_comp comp_def)
  with crlf2_skip_line [of l s] assms show ?thesis
    by (auto simp: plain_line_def option.map_comp comp_def)
qed

lemma find_head_aux:
  assumes "\<forall>l\<in>set ls. plain_line l"
  shows "find_sub crlf2 ([CR, LF] @ concat (map (\<lambda>l. l @ [CR, LF]) ls) @ [CR, LF] @ body)
     = Some (length (head_of ls))"
  using assms
proof (induction ls)
  case Nil
  then show ?case by (simp add: crlf2_def head_of_def)
next
  case (Cons l ls)
  then show ?case using crlf2_crlf_line [of l] by (simp add: head_of_def)
qed

lemma find_head:
  assumes "\<forall>l\<in>set ls. plain_line l" and "ls \<noteq> []"
  shows "find_sub crlf2 (head_of ls @ [CR, LF] @ body) = Some (length (head_of ls) - 2)"
proof -
  obtain l ks where ls: "ls = l # ks" using assms(2) by (cases ls) auto
  with assms(1) have "CR \<notin> set l" "\<forall>k\<in>set ks. plain_line k" by (auto simp: plain_line_def)
  with crlf2_skip_line [of l] find_head_aux [of ks body] show ?thesis
    by (simp add: ls head_of_def)
qed

lemma get_lines_line: "LF \<notin> set l \<Longrightarrow> get_lines acc (l @ LF # s) = (rev acc @ l) # get_lines [] s"
  by (induction l arbitrary: acc) auto

lemma get_lines_last: "LF \<notin> set l \<Longrightarrow> get_lines acc l = (if rev acc @ l = [] then [] else [rev acc @ l])"
  by (induction l arbitrary: acc) auto

lemma head_of_length: "ls \<noteq> [] \<Longrightarrow> 2 \<le> length (head_of ls)"
  by (cases ls) (auto simp: head_of_def)

lemma take_head:
  assumes "\<forall>l\<in>set ls. plain_line l" and "ls \<noteq> []"
  shows "map strip_cr (get_lines [] (take (length (head_of ls) - 2) (head_of ls @ s))) = ls"
  using assms
proof (induction ls)
  case Nil
  then show ?case by simp
next
  case (Cons l ls)
  then have l: "plain_line l" by simp
  show ?case
  proof (cases "ls = []")
    case True
    with l show ?thesis
      by (simp add: head_of_def get_lines_last plain_line_def strip_cr_def last_in_set)
        (metis last_in_set)
  next
    case False
    then obtain n where n: "length (head_of ls) = n + 2"
      using head_of_length [of ls] by (metis add.commute le_Suc_ex)
    moreover have "head_of (l # ls) = (l @ [CR, LF]) @ head_of ls" by (simp add: head_of_def)
    ultimately have "take (length (head_of (l # ls)) - 2) (head_of (l # ls) @ s)
        = (l @ [CR, LF]) @ take (length (head_of ls) - 2) (head_of ls @ s)"
      using n by simp
    then have "get_lines [] (take (length (head_of (l # ls)) - 2) (head_of (l # ls) @ s))
        = (l @ [CR]) # get_lines [] (take (length (head_of ls) - 2) (head_of ls @ s))"
      using get_lines_line [of "l @ [CR]" "[]"] l by (simp add: plain_line_def)
    with Cons False show ?thesis by (simp add: strip_cr_def)
  qed
qed

lemma add_headers_strip: "foldl add_header h ls = foldl add_field h (map strip_cr ls)"
  by (induction ls arbitrary: h) (simp_all add: add_header_def)

lemma httpRecv_head:
  assumes ls: "\<forall>l\<in>set ls. plain_line l" "ls = l # ks"
    and len: "(case map_of (foldl add_field [] ks) ''Content-Length'' of None \<Rightarrow> Inr 0 | Some v \<Rightarrow> stoul10 v)
        = Inr (length body)"
    and small: "length body < 2 ^ 32"
  shows "httpRecvMsg (head_of ls @ [CR, LF] @ body @ rest)
     = Inr (True, \<lparr> startLine = l, headers = foldl add_field [] ks, http_body = body \<rparr>, rest)"
proof -
  let ?s = "head_of ls @ [CR, LF] @ body @ rest"
  let ?gl = "get_lines [] (take (length (head_of ls) - 2) ?s)"
  have nn: "ls \<noteq> []" using ls(2) by simp
  have f: "find_sub crlf2 ?s = Some (length (head_of ls) - 2)"
    by (rule find_head [OF ls(1) nn])
  have m: "map strip_cr ?gl = l # ks" using take_head [OF ls(1) nn] ls(2) by simp
  then obtain g gs where g: "?gl = g # gs" "strip_cr g = l" "map strip_cr gs = ks" by (cases ?gl) auto
  have h: "foldl add_header [] gs = foldl add_field [] ks"
    by (simp add: add_headers_strip g(3))
  have d: "drop (length (head_of ls) - 2 + 4) ?s = body @ rest"
    using head_of_length [OF nn] by simp
  show ?thesis
    unfolding httpRecvMsg_def f option.case Let_def g(1) list.case list.sel h g(2) d len sum.case
    using small by simp
qed

text \<open>What \<open>httpBuild\<close> writes, \<open>httpRecv\<close> reads back, with an extra \<open>Host\<close> header or none.\<close>

definition http_headers :: "string \<Rightarrow> string \<Rightarrow> (string, string) table" where
  "http_headers extra body =
     tbl_set (tbl_set (if extra = [] then [] else add_field [] extra) ''Content-Type'' ''application/json'')
       ''Content-Length'' (json_num (int (length body)))"

definition extra_ok :: "string \<Rightarrow> bool" where
  "extra_ok e \<longleftrightarrow> e = [] \<or> plain_line e"

lemma stoul10_nat_dec: "n < 2 ^ 64 \<Longrightarrow> stoul10 (nat_dec n) = Inr n"
proof -
  assume n: "n < 2 ^ 64"
  obtain c cs where c: "nat_dec n = c # cs" "is_digit c" using nat_dec_hd by blast
  then have "split_sign (nat_dec n) = (False, nat_dec n)"
    by (auto simp: split_sign_def is_digit_space) (auto simp: is_digit_def)
  then show ?thesis using n by (simp add: stoul10_def stoul_result_def)
qed

lemma nat_dec_plain: "CR \<notin> set (nat_dec n)" "LF \<notin> set (nat_dec n)" "CHR '' '' \<notin> set (nat_dec n)"
  using nat_dec_digits [of _ n] by (fastforce simp: is_digit_def)+

lemma nat_dec_trim: "dropWhile (\<lambda>x. x = CHR '' '') (nat_dec n) = nat_dec n"
proof -
  obtain c cs where c: "nat_dec n = c # cs" "is_digit c" using nat_dec_hd by blast
  moreover have "c \<noteq> CHR '' ''" using c(2) by (auto simp: is_digit_def)
  ultimately show ?thesis by simp
qed

lemma length_header:
  "foldl add_field h [''Content-Type: application/json'', ''Content-Length: '' @ nat_dec n]
     = tbl_set (tbl_set h ''Content-Type'' ''application/json'') ''Content-Length'' (nat_dec n)"
  by (simp add: add_field_def nat_dec_trim)

lemma httpRecvMsg_build:
  assumes "plain_line start" and "extra_ok extra" and "length body < 2 ^ 32"
  shows "httpRecvMsg (httpBuild start body extra @ rest)
     = Inr (True, \<lparr> startLine = start, headers = http_headers extra body, http_body = body \<rparr>, rest)"
proof -
  let ?n = "nat_dec (length body)"
  let ?es = "if extra = [] then [] else [extra]"
  let ?ks = "?es @ [''Content-Type: application/json'', ''Content-Length: '' @ ?n]"
  have ls: "\<forall>l\<in>set (start # ?ks). plain_line l"
    using assms(1,2) nat_dec_plain [of "length body"] by (auto simp: plain_line_def extra_ok_def)
  have h: "foldl add_field [] ?ks = http_headers extra body"
    unfolding foldl_append length_header by (simp add: http_headers_def json_num_def)
  have "stoul10 ?n = Inr (length body)" using assms(3) by (simp add: stoul10_nat_dec)
  then have "(case map_of (foldl add_field [] ?ks) ''Content-Length'' of None \<Rightarrow> Inr 0 | Some v \<Rightarrow> stoul10 v)
        = Inr (length body)"
    unfolding h by (simp add: http_headers_def json_num_def)
  from httpRecv_head [OF ls refl this assms(3)] show ?thesis
    unfolding h by (cases "extra = []") (simp_all add: httpBuild_def head_of_def json_num_def)
qed

lemma httpRecv_build:
  assumes "plain_line start" and "extra_ok extra" and "length body < 2 ^ 32"
  shows "httpRecv (httpBuild start body extra @ rest)
     = Inr (Some (\<lparr> startLine = start, headers = http_headers extra body, http_body = body \<rparr>, rest))"
  by (simp add: httpRecv_def httpRecvMsg_build [OF assms])

lemma extra_ok_nil [simp]: "extra_ok []"
  by (simp add: extra_ok_def)

lemmas httpRecv_build1 = httpRecv_build [where rest = "[]", simplified append_Nil2]
lemmas httpRecvMsg_build1 = httpRecvMsg_build [where rest = "[]", simplified append_Nil2]

end
