(* ===== verification/Core5g_Nrf.thy ===== *)
theory Core5g_Nrf
  imports Core5g_Base
begin

text \<open>
  The repository function of the 5G core: \<open>nrf/nrf_main.cpp\<close>, a server that keeps one
  profile per NF type, and \<open>common/nrf_client.h\<close>, the two calls the other functions make.
  The state is the map \<open>g_profiles\<close>. An exception of \<open>std::stoi\<close> or \<open>std::stoul\<close> is not
  caught by the server and ends it.
\<close>

subsection \<open>Strings\<close>

text \<open>The pieces of a string between separators, without the empty ones.\<close>

fun split_runs :: "(char \<Rightarrow> bool) \<Rightarrow> string \<Rightarrow> string \<Rightarrow> string list" where
  "split_runs sep acc [] = (if acc = [] then [] else [rev acc])"
| "split_runs sep acc (c # cs) =
     (if sep c then (if acc = [] then split_runs sep [] cs else rev acc # split_runs sep [] cs)
      else split_runs sep (c # acc) cs)"

definition splitPath :: "string \<Rightarrow> string list" where
  "splitPath path = split_runs (\<lambda>c. c = CHR ''/'') [] path"

definition part :: "string list \<Rightarrow> nat \<Rightarrow> string" where
  "part ps i = (if i < length ps then ps ! i else [])"

text \<open>\<open>ss >> method >> path >> ver\<close> on the start line.\<close>

definition method_of :: "string \<Rightarrow> string" where
  "method_of start = part (split_runs is_space [] start) 0"

definition path_of :: "string \<Rightarrow> string" where
  "path_of start = part (split_runs is_space [] start) 1"

definition contains :: "string \<Rightarrow> string \<Rightarrow> bool" where
  "contains s needle \<longleftrightarrow> find_sub needle s \<noteq> None"

definition getQueryParam :: "string \<Rightarrow> string \<Rightarrow> string" where
  "getQueryParam path key =
     (if CHR ''?'' \<notin> set path then []
      else (let query = tl (dropWhile (\<lambda>c. c \<noteq> CHR ''?'') path); needle = key @ [CHR ''='']
            in case find_sub needle query of None \<Rightarrow> []
               | Some p \<Rightarrow> takeWhile (\<lambda>c. c \<noteq> CHR ''&'') (drop (p + length needle) query)))"

subsection \<open>The server\<close>

record NfProfile =
  nfInstanceId :: string
  nfType :: string
  nf_host :: string
  nf_port :: u16

type_synonym nrf_state = "(string, NfProfile) table"

definition register_response :: "string \<Rightarrow> string \<Rightarrow> string" where
  "register_response inst ty =
     httpBuild ''HTTP/1.1 201 Created''
       (json_obj [(''nfInstanceId'', json_str inst), (''nfType'', json_str ty)]) []"

definition nrf_handleRegister :: "nrf_state \<Rightarrow> string \<Rightarrow> string \<Rightarrow> cpp_exn + (nrf_state \<times> string)" where
  "nrf_handleRegister g inst body =
     (let ty = core_get body ''nfType''; h = core_get body ''host''
      in case stoi (core_get body ''port'') of Inl e \<Rightarrow> Inl e
         | Inr port \<Rightarrow>
             Inr (tbl_set g ty \<lparr> nfInstanceId = inst, nfType = ty, nf_host = h, nf_port = word_of_int port \<rparr>,
                  register_response inst ty))"

definition not_found_404 :: string where
  "not_found_404 = httpBuild ''HTTP/1.1 404 Not Found'' ''{}'' []"

definition profile_json :: "NfProfile \<Rightarrow> string" where
  "profile_json p =
     json_obj [(''nfInstanceId'', json_str (nfInstanceId p)), (''nfType'', json_str (nfType p)),
               (''host'', json_str (nf_host p)), (''port'', json_num (uint (nf_port p)))]"

definition nrf_handleDiscover :: "nrf_state \<Rightarrow> string \<Rightarrow> string" where
  "nrf_handleDiscover g ty =
     (case map_of g ty of None \<Rightarrow> not_found_404
      | Some p \<Rightarrow> httpBuild ''HTTP/1.1 200 OK'' (profile_json p) [])"

definition nrf_dispatch :: "nrf_state \<Rightarrow> HttpMessage \<Rightarrow> cpp_exn + (nrf_state \<times> string)" where
  "nrf_dispatch g req =
     (let m = method_of (startLine req); path = path_of (startLine req)
      in if m = ''PUT'' \<and> contains path ''/nnrf-nfm/v1/nf-instances/''
         then nrf_handleRegister g (part (splitPath (takeWhile (\<lambda>c. c \<noteq> CHR ''?'') path)) 3) (http_body req)
         else if m = ''GET'' \<and> contains path ''/nnrf-disc/v1/nf-instances''
         then Inr (g, nrf_handleDiscover g (getQueryParam path ''target-nf-type''))
         else Inr (g, not_found_404))"

text \<open>One connection: what the client sent, and what it gets back (nothing when it hung up).\<close>

definition nrf_serve :: "nrf_state \<Rightarrow> string \<Rightarrow> cpp_exn + (nrf_state \<times> string)" where
  "nrf_serve g stream =
     (case httpRecv stream of Inl e \<Rightarrow> Inl e
      | Inr None \<Rightarrow> Inr (g, [])
      | Inr (Some (req, _)) \<Rightarrow> nrf_dispatch g req)"

fun nrf_run :: "nrf_state \<Rightarrow> string list \<Rightarrow> cpp_exn + nrf_state" where
  "nrf_run g [] = Inr g"
| "nrf_run g (s # ss) = (case nrf_serve g s of Inl e \<Rightarrow> Inl e | Inr (g', _) \<Rightarrow> nrf_run g' ss)"

subsection \<open>The client\<close>

definition register_body :: "string \<Rightarrow> string \<Rightarrow> string \<Rightarrow> u16 \<Rightarrow> string" where
  "register_body inst ty h port =
     json_obj [(''nfInstanceId'', json_str inst), (''nfType'', json_str ty), (''host'', json_str h),
               (''port'', json_num (uint port))]"

definition registerSelf :: "string \<Rightarrow> string \<Rightarrow> string \<Rightarrow> u16 \<Rightarrow> string" where
  "registerSelf inst ty h port =
     httpBuild (''PUT /nnrf-nfm/v1/nf-instances/'' @ inst @ '' HTTP/1.1'') (register_body inst ty h port) []"

record Discovered =
  d_host :: string
  d_port :: u16
  found :: bool

definition undiscovered :: Discovered where
  "undiscovered = \<lparr> d_host = [], d_port = 0, found = False \<rparr>"

definition discover_request :: "string \<Rightarrow> string" where
  "discover_request target =
     httpBuild (''GET /nnrf-disc/v1/nf-instances?target-nf-type='' @ target @ '' HTTP/1.1'') [] []"

text \<open>
  What \<open>discover\<close> makes of the answer; every exception of the connection or of
  \<open>std::stoi\<close> (\<open>None\<close> here for the former) gives "not found".
\<close>

definition discover_reply :: "HttpMessage option \<Rightarrow> Discovered" where
  "discover_reply r =
     (case r of None \<Rightarrow> undiscovered
      | Some resp \<Rightarrow>
          if \<not> contains (startLine resp) ''200'' then undiscovered
          else (case stoi (core_get (http_body resp) ''port'') of Inl _ \<Rightarrow> undiscovered
                | Inr port \<Rightarrow> \<lparr> d_host = core_get (http_body resp) ''host'', d_port = word_of_int port,
                              found = True \<rparr>))"

text \<open>The answer as the client reads it off the connection, whole or not.\<close>

definition read_reply :: "string \<Rightarrow> HttpMessage option" where
  "read_reply s = (case httpRecvMsg s of Inl _ \<Rightarrow> None | Inr (_, m, _) \<Rightarrow> Some m)"

definition discover :: "nrf_state \<Rightarrow> string \<Rightarrow> Discovered" where
  "discover g target =
     discover_reply (case nrf_serve g (discover_request target) of Inl _ \<Rightarrow> None
                     | Inr (_, resp) \<Rightarrow> read_reply resp)"

subsection \<open>Requests taken apart\<close>

lemma split_runs_piece:
  "\<forall>x\<in>set w. \<not> sep x \<Longrightarrow> split_runs sep acc (w @ s) = split_runs sep (rev w @ acc) s"
  by (induction w arbitrary: acc) auto

lemma split_runs_cons:
  assumes "\<forall>x\<in>set w. \<not> sep x" and "w \<noteq> []" and "sep c"
  shows "split_runs sep [] (w @ c # s) = w # split_runs sep [] s"
  using assms by (simp add: split_runs_piece)

lemma split_runs_last:
  assumes "\<forall>x\<in>set w. \<not> sep x" and "w \<noteq> []"
  shows "split_runs sep [] w = [w]"
  using assms split_runs_piece [of w sep "[]" "[]"] by simp

text \<open>A word of a request line: visible characters, nothing the path syntax uses.\<close>

definition sbi_word :: "string \<Rightarrow> bool" where
  "sbi_word w \<longleftrightarrow> w \<noteq> [] \<and> quotefree w \<and>
     (\<forall>c\<in>set w. \<not> is_space c \<and> c \<noteq> CHR ''/'' \<and> c \<noteq> CHR ''?'' \<and> c \<noteq> CHR ''&'' \<and> c \<noteq> CHR ''='')"

lemma is_space_crlf [simp]: "is_space CR" "is_space LF" "is_space CHR '' ''"
  by (simp_all add: is_space_def)

lemma request_words:
  assumes "\<forall>c\<in>set m. \<not> is_space c" and "\<forall>c\<in>set p. \<not> is_space c" and "m \<noteq> []" and "p \<noteq> []"
  shows "method_of (m @ CHR '' '' # p @ '' HTTP/1.1'') = m" and "path_of (m @ CHR '' '' # p @ '' HTTP/1.1'') = p"
proof -
  have "split_runs is_space [] (m @ CHR '' '' # p @ '' HTTP/1.1'') = m # p # split_runs is_space [] ''HTTP/1.1''"
    using split_runs_cons [OF assms(1,3) is_space_crlf(3)] split_runs_cons [OF assms(2,4) is_space_crlf(3)] by simp
  then show "method_of (m @ CHR '' '' # p @ '' HTTP/1.1'') = m" "path_of (m @ CHR '' '' # p @ '' HTTP/1.1'') = p"
    by (simp_all add: method_of_def path_of_def part_def)
qed

lemma contains_append: "contains (a @ n @ b) n"
proof (induction a)
  case Nil
  then show ?case by (simp add: contains_def find_sub_prefix)
next
  case (Cons c a)
  then show ?case by (auto simp: contains_def)
qed

lemma contains_prefix: "contains (n @ b) n"
  using contains_append [of "[]" n b] by (simp only: append_Nil)

lemma sbi_word_plain: "sbi_word w \<Longrightarrow> CR \<notin> set w \<and> LF \<notin> set w"
  using is_space_crlf unfolding sbi_word_def by blast

lemma register_line:
  assumes "sbi_word inst"
  shows "method_of (''PUT /nnrf-nfm/v1/nf-instances/'' @ inst @ '' HTTP/1.1'') = ''PUT''"
    and "path_of (''PUT /nnrf-nfm/v1/nf-instances/'' @ inst @ '' HTTP/1.1'') = ''/nnrf-nfm/v1/nf-instances/'' @ inst"
  using request_words [of "''PUT''" "''/nnrf-nfm/v1/nf-instances/'' @ inst"] assms
  by (simp_all add: sbi_word_def is_space_def)

lemma register_id:
  assumes "sbi_word inst"
  shows "part (splitPath (takeWhile (\<lambda>c. c \<noteq> CHR ''?'') (''/nnrf-nfm/v1/nf-instances/'' @ inst))) 3 = inst"
proof -
  let ?sep = "\<lambda>c. c = CHR ''/''"
  have "takeWhile (\<lambda>c. c \<noteq> CHR ''?'') inst = inst"
    using assms by (auto simp: sbi_word_def takeWhile_eq_all_conv)
  then have t: "takeWhile (\<lambda>c. c \<noteq> CHR ''?'') (''/nnrf-nfm/v1/nf-instances/'' @ inst)
      = ''/nnrf-nfm/v1/nf-instances/'' @ inst" by simp
  have "split_runs ?sep [] inst = [inst]"
    using assms by (intro split_runs_last) (auto simp: sbi_word_def)
  then have "splitPath (''/nnrf-nfm/v1/nf-instances/'' @ inst) = [''nnrf-nfm'', ''v1'', ''nf-instances'', inst]"
    by (simp add: splitPath_def)
  then show ?thesis unfolding t by (simp add: part_def)
qed

lemma discover_line:
  assumes "sbi_word ty"
  shows "method_of (''GET /nnrf-disc/v1/nf-instances?target-nf-type='' @ ty @ '' HTTP/1.1'') = ''GET''"
    and "path_of (''GET /nnrf-disc/v1/nf-instances?target-nf-type='' @ ty @ '' HTTP/1.1'')
       = ''/nnrf-disc/v1/nf-instances?target-nf-type='' @ ty"
  using request_words [of "''GET''" "''/nnrf-disc/v1/nf-instances?target-nf-type='' @ ty"] assms
  by (simp_all add: sbi_word_def is_space_def)

lemma discover_param:
  assumes "sbi_word ty"
  shows "getQueryParam (''/nnrf-disc/v1/nf-instances?target-nf-type='' @ ty) ''target-nf-type'' = ty"
proof -
  have "takeWhile (\<lambda>c. c \<noteq> CHR ''&'') ty = ty"
    using assms by (auto simp: sbi_word_def takeWhile_eq_all_conv)
  moreover have "find_sub ''target-nf-type='' (''target-nf-type='' @ ty) = Some 0"
    by (rule find_sub_prefix)
  ultimately show ?thesis by (simp add: getQueryParam_def)
qed

subsection \<open>Profiles kept and found\<close>

definition profile_ok :: "NfProfile \<Rightarrow> bool" where
  "profile_ok p \<longleftrightarrow> sbi_word (nfInstanceId p) \<and> sbi_word (nfType p) \<and> quotefree (nf_host p)
     \<and> length (profile_json p) < 2 ^ 32"

definition register_of :: "NfProfile \<Rightarrow> string" where
  "register_of p = registerSelf (nfInstanceId p) (nfType p) (nf_host p) (nf_port p)"

lemma core_ident [simp]: "ident ''nfInstanceId''" "ident ''nfType''" "ident ''host''" "ident ''port''"
  by (simp_all add: ident_def)

lemma profile_fields:
  assumes "quotefree i" and "quotefree t" and "quotefree h"
  shows "core_get (json_obj [(''nfInstanceId'', json_str i), (''nfType'', json_str t), (''host'', json_str h),
               (''port'', json_num n)]) ''nfType'' = t"
    and "core_get (json_obj [(''nfInstanceId'', json_str i), (''nfType'', json_str t), (''host'', json_str h),
               (''port'', json_num n)]) ''host'' = h"
    and "core_get (json_obj [(''nfInstanceId'', json_str i), (''nfType'', json_str t), (''host'', json_str h),
               (''port'', json_num n)]) ''port'' = json_num n"
  using assms by (simp_all add: core_get_def json_get_obj_rules transparent_str transparent_quotefree
      token_quotefree)

lemma stoi_port [simp]: "stoi (json_num (uint (p :: u16))) = Inr (uint p)"
proof -
  have "- (2 ^ 31) \<le> uint p" by (rule order_trans [of _ 0]) simp_all
  moreover have "uint p < 2 ^ 31" using uint_lt2p [of p] by simp
  ultimately show ?thesis by (rule stoi_json_num)
qed

lemma serve_register:
  assumes "profile_ok p"
  shows "nrf_serve g (register_of p)
     = Inr (tbl_set g (nfType p) p, register_response (nfInstanceId p) (nfType p))"
proof -
  let ?s = "''PUT /nnrf-nfm/v1/nf-instances/'' @ nfInstanceId p @ '' HTTP/1.1''"
  have w: "sbi_word (nfInstanceId p)" "quotefree (nfType p)" "quotefree (nfInstanceId p)" "quotefree (nf_host p)"
    using assms by (auto simp: profile_ok_def sbi_word_def)
  have "plain_line ?s" using sbi_word_plain [OF w(1)] by (simp add: plain_line_def)
  moreover have "length (register_body (nfInstanceId p) (nfType p) (nf_host p) (nf_port p)) < 2 ^ 32"
    using assms by (simp add: profile_ok_def profile_json_def register_body_def)
  ultimately have r: "httpRecv (register_of p) = Inr (Some (\<lparr> startLine = ?s,
      headers = http_headers [] (register_body (nfInstanceId p) (nfType p) (nf_host p) (nf_port p)),
      http_body = register_body (nfInstanceId p) (nfType p) (nf_host p) (nf_port p) \<rparr>, []))"
    using httpRecv_build1 [of ?s "[]" _] by (simp add: register_of_def registerSelf_def)
  have c: "contains (''/nnrf-nfm/v1/nf-instances/'' @ nfInstanceId p) ''/nnrf-nfm/v1/nf-instances/''"
    by (rule contains_prefix)
  show ?thesis
    unfolding nrf_serve_def r sum.case option.case prod.case nrf_dispatch_def HttpMessage.simps Let_def
      register_line [OF w(1)] register_id [OF w(1)]
    using c profile_fields [OF w(3,2,4)]
    by (cases p) (simp add: nrf_handleRegister_def register_body_def Let_def)
qed

lemma run_register:
  assumes "\<forall>p\<in>set ps. profile_ok p"
  shows "nrf_run g (map register_of ps) = Inr (foldl (\<lambda>g p. tbl_set g (nfType p) p) g ps)"
  using assms by (induction ps arbitrary: g) (simp_all add: serve_register)

lemma serve_discover:
  assumes "sbi_word ty"
  shows "nrf_serve g (discover_request ty) = Inr (g, nrf_handleDiscover g ty)"
proof -
  let ?s = "''GET /nnrf-disc/v1/nf-instances?target-nf-type='' @ ty @ '' HTTP/1.1''"
  have "plain_line ?s" using sbi_word_plain [OF assms] by (simp add: plain_line_def)
  then have r: "httpRecv (discover_request ty) = Inr (Some (\<lparr> startLine = ?s, headers = http_headers [] [],
      http_body = [] \<rparr>, []))"
    using httpRecv_build1 [of ?s "[]" "[]"] by (simp add: discover_request_def)
  have "''/nnrf-disc/v1/nf-instances?target-nf-type='' @ ty
      = ''/nnrf-disc/v1/nf-instances'' @ ''?target-nf-type='' @ ty" by simp
  then have c: "contains (''/nnrf-disc/v1/nf-instances?target-nf-type='' @ ty) ''/nnrf-disc/v1/nf-instances''"
    by (simp only: contains_prefix)
  show ?thesis
    unfolding nrf_serve_def r sum.case option.case prod.case nrf_dispatch_def HttpMessage.simps Let_def
      discover_line [OF assms] discover_param [OF assms]
    using c by simp
qed

lemma discover_found:
  assumes "sbi_word ty" and "map_of g ty = Some p" and "profile_ok p"
  shows "discover g ty = \<lparr> d_host = nf_host p, d_port = nf_port p, found = True \<rparr>"
proof -
  have w: "quotefree (nfType p)" "quotefree (nfInstanceId p)" "quotefree (nf_host p)"
    using assms(3) by (auto simp: profile_ok_def sbi_word_def)
  have "plain_line ''HTTP/1.1 200 OK''" "length (profile_json p) < 2 ^ 32"
    using assms(3) by (simp_all add: plain_line_def profile_ok_def)
  then have r: "httpRecvMsg (httpBuild ''HTTP/1.1 200 OK'' (profile_json p) []) = Inr (True, \<lparr>
      startLine = ''HTTP/1.1 200 OK'', headers = http_headers [] (profile_json p), http_body = profile_json p \<rparr>, [])"
    using httpRecvMsg_build1 [of "''HTTP/1.1 200 OK''" "[]" "profile_json p"] by simp
  then have "discover g ty = discover_reply (Some \<lparr> startLine = ''HTTP/1.1 200 OK'',
      headers = http_headers [] (profile_json p), http_body = profile_json p \<rparr>)"
    by (simp add: discover_def serve_discover [OF assms(1)] nrf_handleDiscover_def assms(2) read_reply_def)
  moreover have "contains ''HTTP/1.1 200 OK'' ''200''" by (simp add: contains_def)
  ultimately show ?thesis
    using profile_fields [OF w(2,1,3)] by (simp add: discover_reply_def profile_json_def)
qed

lemma discover_missing:
  assumes "sbi_word ty" and "map_of g ty = None"
  shows "discover g ty = undiscovered"
proof -
  have "httpRecvMsg not_found_404 = Inr (True, \<lparr> startLine = ''HTTP/1.1 404 Not Found'',
      headers = http_headers [] ''{}'', http_body = ''{}'' \<rparr>, [])"
    using httpRecvMsg_build1 [of "''HTTP/1.1 404 Not Found''" "[]" "''{}''"]
    by (simp add: not_found_404_def plain_line_def)
  moreover have "\<not> contains ''HTTP/1.1 404 Not Found'' ''200''" by (simp add: contains_def)
  ultimately show ?thesis
    by (simp add: discover_def serve_discover [OF assms(1)] nrf_handleDiscover_def assms(2) read_reply_def
        discover_reply_def)
qed

lemma map_of_profiles:
  "map_of (foldl (\<lambda>g p. tbl_set g (nfType p) p) g ps) t
     = (case map_of (rev (map (\<lambda>p. (nfType p, p)) ps)) t of None \<Rightarrow> map_of g t | Some p \<Rightarrow> Some p)"
  by (induction ps arbitrary: g) (auto split: option.splits)

end
