(* ===== verification/Core5g_Udm.thy ===== *)
theory Core5g_Udm
  imports Core5g_Nrf
begin

text \<open>
  The data management function of the 5G core: \<open>udm/udm_main.cpp\<close>. It keeps no state; the
  random strings of a challenge and the network identity are arguments. \<open>splitPath\<close> and the
  parsing of the start line are the same code as in the repository function.
\<close>

subsection \<open>The server\<close>

record udm_random =
  rnd_bytes :: bytes
  autn_bytes :: bytes
  kausf_bytes :: bytes

text \<open>The body of a challenge; \<open>None\<close> where \<open>byteXor\<close> would divide by zero.\<close>

definition auth_body :: "string \<Rightarrow> string \<Rightarrow> string \<Rightarrow> string \<Rightarrow> string \<Rightarrow> string" where
  "auth_body sp rnd autn xres kausf =
     json_obj (str_fields [(''authType'', ''5G_AKA''), (''supi'', sp), (''rand'', rnd), (''autn'', autn),
                           (''xresStar'', xres), (''kausf'', kausf)])"

definition handleAuthDataRequest :: "plmn \<Rightarrow> udm_random \<Rightarrow> string \<Rightarrow> cpp_exn + string option" where
  "handleAuthDataRequest n r suci_text =
     (let ms = msinFromSuci suci_text; sp = supiFromSuci n suci_text; k = kFor ms;
          rnd = to_hex (rnd_bytes r); autn = to_hex (autn_bytes r)
      in case byteXor rnd k of
           Inl e \<Rightarrow> Inl e
         | Inr None \<Rightarrow> Inr None
         | Inr (Some xres) \<Rightarrow>
             Inr (Some (httpBuild ''HTTP/1.1 200 OK''
               (auth_body sp rnd autn xres (to_hex (kausf_bytes r))) [])))"

definition nssai_json :: string where
  "nssai_json =
     ''{'' @ [dq] @ ''defaultSingleNssais'' @ [dq] @ '':[{'' @ [dq] @ ''sst'' @ [dq] @ '':1,''
     @ [dq] @ ''sd'' @ [dq] @ '':'' @ [dq] @ ''000001'' @ [dq] @ ''}]}''"

definition ambr_json :: string where
  "ambr_json =
     ''{'' @ [dq] @ ''uplink'' @ [dq] @ '':'' @ [dq] @ ''100Mbps'' @ [dq] @ '',''
     @ [dq] @ ''downlink'' @ [dq] @ '':'' @ [dq] @ ''200Mbps'' @ [dq] @ ''}''"

definition handleSdmRequest :: "string \<Rightarrow> string" where
  "handleSdmRequest sp =
     httpBuild ''HTTP/1.1 200 OK''
       (json_obj [(''supi'', json_str sp), (''nssai'', nssai_json), (''subscribedUeAmbr'', ambr_json)]) []"

definition udm_dispatch :: "plmn \<Rightarrow> udm_random \<Rightarrow> HttpMessage \<Rightarrow> cpp_exn + string option" where
  "udm_dispatch n r req =
     (let path = path_of (startLine req); ident_part = part (splitPath path) 2
      in if contains path ''/security-information/generate-auth-data''
         then handleAuthDataRequest n r ident_part
         else if contains path ''/am-data'' then Inr (Some (handleSdmRequest ident_part))
         else Inr (Some not_found_404))"

text \<open>One connection; an empty answer when the client hung up early.\<close>

definition udm_serve :: "plmn \<Rightarrow> udm_random \<Rightarrow> string \<Rightarrow> cpp_exn + string option" where
  "udm_serve n r stream =
     (case httpRecv stream of Inl e \<Rightarrow> Inl e
      | Inr None \<Rightarrow> Inr (Some [])
      | Inr (Some (req, _)) \<Rightarrow> udm_dispatch n r req)"

subsection \<open>Responses and keys\<close>

lemma byteXor_kFor:
  "byteXor (to_hex bs) (kFor m) = Inr (Some (to_hex (map (\<lambda>i. xor (bs ! i) (the_key ! (i mod 15))) [0..<length bs])))"
proof -
  have "the_key \<noteq> []" "length the_key = 15" by (simp_all add: the_key_def)
  then show ?thesis by (simp add: byteXor_def kFor_bytes xor_bytes_def)
qed

definition expected_res :: "udm_random \<Rightarrow> string" where
  "expected_res r =
     to_hex (map (\<lambda>i. xor (rnd_bytes r ! i) (the_key ! (i mod 15))) [0..<length (rnd_bytes r)])"

lemma byteXor_expected: "byteXor (to_hex (rnd_bytes r)) (kFor m) = Inr (Some (expected_res r))"
  by (simp add: byteXor_kFor expected_res_def)

lemma handleAuth_ok:
  "handleAuthDataRequest n r s = Inr (Some (httpBuild ''HTTP/1.1 200 OK''
     (auth_body (supiFromSuci n s) (to_hex (rnd_bytes r)) (to_hex (autn_bytes r)) (expected_res r)
       (to_hex (kausf_bytes r))) []))"
  by (simp add: handleAuthDataRequest_def byteXor_expected Let_def)

subsection \<open>The requests of the access function\<close>

definition auth_request :: "plmn \<Rightarrow> string \<Rightarrow> string" where
  "auth_request n sc =
     httpBuild (''POST /nudm-ueau/v2/'' @ sc @ ''/security-information/generate-auth-data HTTP/1.1'')
       (json_obj [(''servingNetworkName'', json_str (''5G:'' @ plmnDomain n @ ''.3gppnetwork.org''))])
       (''Host: udm.5gc.'' @ plmnDomain n @ ''.3gppnetwork.org'')"

definition sdm_request :: "plmn \<Rightarrow> string \<Rightarrow> string" where
  "sdm_request n sp =
     httpBuild (''GET /nudm-sdm/v2/'' @ sp @ ''/am-data HTTP/1.1'') []
       (''Host: udm.5gc.'' @ plmnDomain n @ ''.3gppnetwork.org'')"

text \<open>A network whose codes are short words without a dash.\<close>

definition plmn_ok :: "plmn \<Rightarrow> bool" where
  "plmn_ok n \<longleftrightarrow> sbi_word (mcc n) \<and> sbi_word (mnc n) \<and> length (mcc n) \<le> 3 \<and> length (mnc n) \<le> 3"

lemma plmnDomain_plain:
  assumes "plmn_ok n"
  shows "CR \<notin> set (plmnDomain n)" and "LF \<notin> set (plmnDomain n)" and "length (plmnDomain n) \<le> 14"
  using assms sbi_word_plain [of "mcc n"] sbi_word_plain [of "mnc n"]
  by (auto simp: plmn_ok_def plmnDomain_def Let_def)

lemma host_ok: "plmn_ok n \<Longrightarrow> extra_ok (''Host: udm.5gc.'' @ plmnDomain n @ ''.3gppnetwork.org'')"
  using plmnDomain_plain [of n] by (simp add: extra_ok_def plain_line_def)

lemma auth_parts:
  assumes "sbi_word sc"
  shows "part (splitPath (''/nudm-ueau/v2/'' @ sc @ ''/security-information/generate-auth-data'')) 2 = sc"
proof -
  let ?sep = "\<lambda>c. c = CHR ''/''"
  have "split_runs ?sep [] (sc @ CHR ''/'' # s) = sc # split_runs ?sep [] s" for s
    using assms by (intro split_runs_cons) (auto simp: sbi_word_def)
  then have "splitPath (''/nudm-ueau/v2/'' @ sc @ ''/security-information/generate-auth-data'')
      = [''nudm-ueau'', ''v2'', sc, ''security-information'', ''generate-auth-data'']"
    by (simp add: splitPath_def)
  then show ?thesis by (simp add: part_def)
qed

lemma udm_auth:
  assumes n: "plmn_ok n" and s: "sbi_word sc"
  shows "udm_serve n r (auth_request n sc) = handleAuthDataRequest n r sc"
proof -
  let ?p = "''/nudm-ueau/v2/'' @ sc @ ''/security-information/generate-auth-data''"
  let ?s = "''POST '' @ ?p @ '' HTTP/1.1''"
  let ?b = "json_obj [(''servingNetworkName'', json_str (''5G:'' @ plmnDomain n @ ''.3gppnetwork.org''))]"
  let ?h = "''Host: udm.5gc.'' @ plmnDomain n @ ''.3gppnetwork.org''"
  have "plain_line ?s" using sbi_word_plain [OF s] by (simp add: plain_line_def)
  moreover have "length ?b < 2 ^ 32"
    using plmnDomain_plain(3) [OF n] by (simp add: json_obj_def json_str_def)
  ultimately have r: "httpRecv (httpBuild ?s ?b ?h)
      = Inr (Some (\<lparr> startLine = ?s, headers = http_headers ?h ?b, http_body = ?b \<rparr>, []))"
    using httpRecv_build1 [of ?s ?h ?b] host_ok [OF n] by blast
  have "?s = ''POST'' @ CHR '' '' # ?p @ '' HTTP/1.1''" by simp
  moreover have "\<forall>c\<in>set ?p. \<not> is_space c" using s by (simp add: sbi_word_def is_space_def)
  ultimately have p: "path_of ?s = ?p" using request_words(2) [of "''POST''" ?p] by (simp add: is_space_def)
  have "''POST /nudm-ueau/v2/'' @ sc @ ''/security-information/generate-auth-data HTTP/1.1'' = ?s" by simp
  then have q: "auth_request n sc = httpBuild ?s ?b ?h" by (simp only: auth_request_def)
  have c: "contains ?p ''/security-information/generate-auth-data''"
    using contains_append [of "''/nudm-ueau/v2/'' @ sc" _ "[]"] by (simp only: append_Nil2 append_assoc)
  show ?thesis
    unfolding q udm_serve_def r sum.case option.case prod.case udm_dispatch_def HttpMessage.simps Let_def p
      auth_parts [OF s]
    using c by (simp only: if_True)
qed

text \<open>A subscriber identity does not contain the text that selects the other service.\<close>

lemma no_slash_no_match:
  assumes "CHR ''/'' \<notin> set w"
  shows "find_sub (CHR ''/'' # p) (w @ s) = map_option (\<lambda>n. length w + n) (find_sub (CHR ''/'' # p) s)"
  using assms
proof (induction w)
  case Nil
  then show ?case by (cases "find_sub (CHR ''/'' # p) s") simp_all
next
  case (Cons c w)
  then have "find_sub (CHR ''/'' # p) ((c # w) @ s) = map_option Suc (find_sub (CHR ''/'' # p) (w @ s))" by auto
  with Cons show ?case by (simp add: option.map_comp comp_def)
qed

lemma no_slash_start:
  assumes "CHR ''/'' \<notin> set w"
  shows "\<not> starts_with ''security-information/generate-auth-data'' (w @ ''/am-data'')"
proof
  assume "starts_with ''security-information/generate-auth-data'' (w @ ''/am-data'')"
  then obtain r where "w @ ''/am-data'' = ''security-information/generate-auth-data'' @ r"
    by (auto simp only: starts_with_iff)
  then have "dropWhile (\<lambda>c. c \<noteq> CHR ''/'') (w @ ''/am-data'')
      = dropWhile (\<lambda>c. c \<noteq> CHR ''/'') (''security-information/generate-auth-data'' @ r)" by (rule arg_cong)
  moreover have "dropWhile (\<lambda>c. c \<noteq> CHR ''/'') (w @ ''/am-data'') = ''/am-data''"
    using assms by (subst dropWhile_append2) auto
  ultimately show False by simp
qed

lemma udm_sdm:
  assumes n: "plmn_ok n" and s: "sbi_word sp"
  shows "udm_serve n r (sdm_request n sp) = Inr (Some (handleSdmRequest sp))"
proof -
  let ?p = "''/nudm-sdm/v2/'' @ sp @ ''/am-data''"
  let ?s = "''GET '' @ ?p @ '' HTTP/1.1''"
  let ?h = "''Host: udm.5gc.'' @ plmnDomain n @ ''.3gppnetwork.org''"
  let ?sep = "\<lambda>c. c = CHR ''/''"
  have "plain_line ?s" using sbi_word_plain [OF s] by (simp add: plain_line_def)
  then have r: "httpRecv (httpBuild ?s [] ?h)
      = Inr (Some (\<lparr> startLine = ?s, headers = http_headers ?h [], http_body = [] \<rparr>, []))"
    using httpRecv_build1 [of ?s ?h "[]"] host_ok [OF n] by simp
  have "?s = ''GET'' @ CHR '' '' # ?p @ '' HTTP/1.1''" by simp
  moreover have "\<forall>c\<in>set ?p. \<not> is_space c" using s by (simp add: sbi_word_def is_space_def)
  ultimately have p: "path_of ?s = ?p" using request_words(2) [of "''GET''" ?p] by (simp add: is_space_def)
  have "''GET /nudm-sdm/v2/'' @ sp @ ''/am-data HTTP/1.1'' = ?s" by simp
  then have q: "sdm_request n sp = httpBuild ?s [] ?h" by (simp only: sdm_request_def)
  have nos: "CHR ''/'' \<notin> set sp" using s by (auto simp: sbi_word_def)
  have c1: "\<not> contains ?p ''/security-information/generate-auth-data''"
    using no_slash_no_match [OF nos] no_slash_start [OF nos] by (simp add: contains_def)
  have c2: "contains ?p ''/am-data''"
    using contains_append [of "''/nudm-sdm/v2/'' @ sp" _ "[]"] by (simp only: append_Nil2 append_assoc)
  have "split_runs ?sep [] (sp @ CHR ''/'' # t) = sp # split_runs ?sep [] t" for t
    using s by (intro split_runs_cons) (auto simp: sbi_word_def)
  then have i: "part (splitPath ?p) 2 = sp" by (simp add: splitPath_def part_def)
  show ?thesis
    unfolding q udm_serve_def r sum.case option.case prod.case udm_dispatch_def HttpMessage.simps Let_def p i
    using c1 c2 by (simp only: if_True if_False)
qed

end
