(* ===== verification/Core5g_Pfcp.thy ===== *)
theory Core5g_Pfcp
  imports Core5g_Udm
begin

text \<open>
  The N4 side of the 5G core: the PFCP builders of \<open>smf/smf_main.cpp\<close> and the parser, the
  response builder and the server loop of \<open>upf/upf_main.cpp\<close>. The reader of information
  elements is the format the comment of \<open>smf_main.cpp\<close> documents; the program has none.
  A field that the code leaves uninitialised is \<open>None\<close>.
\<close>

subsection \<open>Builders (smf_main.cpp)\<close>

definition put_ie :: "u16 \<Rightarrow> bytes \<Rightarrow> bytes" where
  "put_ie ty v = be16 ty @ be16 (word_of_nat (length v)) @ v"

definition nodeId :: "u32 \<Rightarrow> bytes" where
  "nodeId ip = 0x00 # be32 ip"

definition fSeid :: "u64 \<Rightarrow> u32 \<Rightarrow> bytes" where
  "fSeid seid ip = 0x02 # be64 seid @ be32 ip"

definition createPdr :: "u16 \<Rightarrow> u32 \<Rightarrow> bytes" where
  "createPdr pdr_id far_id =
     (let pdi_inner = put_ie 20 [0x00, 0x00, 0x00, 0x00]
      in put_ie 56 (be16 pdr_id) @ put_ie 29 [0, 0, 0, 100] @ put_ie 22 pdi_inner
         @ put_ie 108 [0, 0, byte_at 1 far_id, byte_at 0 far_id])"

definition createFar :: "u32 \<Rightarrow> bytes" where
  "createFar far_id =
     put_ie 108 [0, 0, byte_at 1 far_id, byte_at 0 far_id] @ put_ie 44 [0x00, 0x02]"

text \<open>The message after the common header: SEID 0, three bytes of sequence number, a spare.\<close>

definition pfcp_packet :: "byte \<Rightarrow> u32 \<Rightarrow> bytes \<Rightarrow> bytes" where
  "pfcp_packet ty seq ies =
     (let body = replicate 8 0x00 @ [byte_at 2 seq, byte_at 1 seq, byte_at 0 seq, 0x00] @ ies;
          msg_len = (word_of_nat (length body) :: u16)
      in [0x21, ty, byte_at 1 msg_len, byte_at 0 msg_len] @ body)"

definition buildSessionEstReq :: "u32 \<Rightarrow> u64 \<Rightarrow> u32 \<Rightarrow> u16 \<Rightarrow> u32 \<Rightarrow> bytes" where
  "buildSessionEstReq smf_ip cp_seid seq pdr_id far_id =
     (let ies = put_ie 60 (nodeId smf_ip) @ put_ie 57 (fSeid cp_seid smf_ip)
                @ put_ie 1 (createPdr pdr_id far_id) @ put_ie 3 (createFar far_id)
      in pfcp_packet 50 seq ies)"

definition buildSessionEstRsp :: "u32 \<Rightarrow> u64 \<Rightarrow> u32 \<Rightarrow> bytes" where
  "buildSessionEstRsp upf_ip up_seid seq =
     (let ies = put_ie 19 [0x01] @ put_ie 60 (nodeId upf_ip) @ put_ie 57 (fSeid up_seid upf_ip)
      in pfcp_packet 51 seq ies)"

subsection \<open>Parser and server (upf_main.cpp)\<close>

definition get16 :: "byte \<Rightarrow> byte \<Rightarrow> u16" where
  "get16 b0 b1 = push_bit 8 (ucast b0) OR ucast b1"

definition get24 :: "byte \<Rightarrow> byte \<Rightarrow> byte \<Rightarrow> u32" where
  "get24 b0 b1 b2 = push_bit 16 (ucast b0) OR push_bit 8 (ucast b1) OR ucast b2"

record pfcp_header =
  version_flags :: byte
  msg_type :: byte
  msg_len :: u16
  h_seid :: "u64 option"
  h_seq :: u32
  has_seid :: bool

definition join_bytes :: "bytes \<Rightarrow> u64" where
  "join_bytes bs = foldl (\<lambda>s b. push_bit 8 s OR ucast b) 0 bs"

definition parseHeader :: "bytes \<Rightarrow> pfcp_header option" where
  "parseHeader pkt =
     (if length pkt < 4 then None
      else let flags = pkt ! 0; s = bit flags 0; off = (if s then 12 else 4)
           in if s \<and> length pkt < 4 + 8 + 4 then None
              else if length pkt < off + 3 then None
              else Some \<lparr> version_flags = flags, msg_type = pkt ! 1, msg_len = get16 (pkt ! 2) (pkt ! 3),
                     h_seid = (if s then Some (join_bytes (take 8 (drop 4 pkt))) else None),
                     h_seq = get24 (pkt ! off) (pkt ! (off + 1)) (pkt ! (off + 2)),
                     has_seid = s \<rparr>)"

definition buildRsp :: "u32 \<Rightarrow> u64 \<Rightarrow> u32 \<Rightarrow> bytes" where
  "buildRsp upf_ip up_seid seq =
     (let ies = put_ie 19 [0x01] @ put_ie 60 (0x00 # be32 upf_ip)
                @ put_ie 57 (0x02 # be64 up_seid @ be32 upf_ip)
      in pfcp_packet 51 seq ies)"

record PfcpSession =
  cp_seid :: "u64 option"
  up_seid :: u64
  pdr_count :: u32
  far_count :: u32

record upf_server =
  s_sessions :: "PfcpSession list"
  s_up_seid_counter :: u64

definition upf_init :: upf_server where
  "upf_init = \<lparr> s_sessions = [], s_up_seid_counter = 0xABC0000000000001 \<rparr>"

definition IP_SMF :: u32 where "IP_SMF = 0x0A010003"
definition IP_UPF :: u32 where "IP_UPF = 0x0A010004"

text \<open>One datagram with a parsed header, and the answer sent.\<close>

definition upf_handle :: "upf_server \<Rightarrow> pfcp_header \<Rightarrow> upf_server \<times> bytes option" where
  "upf_handle u h =
     (if msg_type h = 50
      then (let id = s_up_seid_counter u
            in (u\<lparr> s_up_seid_counter := id + 1,
                   s_sessions := s_sessions u @ [\<lparr> cp_seid = h_seid h, up_seid = id,
                     pdr_count = 1, far_count = 1 \<rparr>] \<rparr>,
                Some (buildRsp IP_UPF id (h_seq h))))
      else if msg_type h = 52 then (u, Some ((buildRsp IP_UPF 0 (h_seq h))[1 := 53]))
      else if msg_type h = 54 then (u, Some ((buildRsp IP_UPF 0 (h_seq h))[1 := 55]))
      else (u, None))"

text \<open>The receive loop ends (\<open>None\<close>) on an empty datagram; a longer one than the buffer is cut.\<close>

definition upf_recv :: "upf_server \<Rightarrow> bytes \<Rightarrow> (upf_server \<times> bytes option) option" where
  "upf_recv u datagram =
     (let pkt = take 4096 datagram
      in if pkt = [] then None
         else case parseHeader pkt of None \<Rightarrow> Some (u, None) | Some h \<Rightarrow> Some (upf_handle u h))"

fun upf_loop :: "upf_server \<Rightarrow> bytes list \<Rightarrow> upf_server \<times> bytes list" where
  "upf_loop u [] = (u, [])"
| "upf_loop u (d # ds) =
     (case upf_recv u d of None \<Rightarrow> (u, [])
      | Some (u', r) \<Rightarrow> (let (u2, rs) = upf_loop u' ds in (u2, (case r of None \<Rightarrow> [] | Some x \<Rightarrow> [x]) @ rs)))"

subsection \<open>The documented element format\<close>

fun read_ie :: "bytes \<Rightarrow> ((u16 \<times> bytes) \<times> bytes) option" where
  "read_ie (t1 # t0 # l1 # l0 # s) =
     (let n = unat (get16 l1 l0)
      in if n \<le> length s then Some ((get16 t1 t0, take n s), drop n s) else None)"
| "read_ie _ = None"

definition write_ie :: "u16 \<times> bytes \<Rightarrow> bytes" where
  "write_ie e = put_ie (fst e) (snd e)"

definition ie_fits :: "u16 \<times> bytes \<Rightarrow> bool" where
  "ie_fits e \<longleftrightarrow> length (snd e) < 2 ^ 16"

lemma get16_be16: "get16 (byte_at 1 w) (byte_at 0 w) = w"
proof -
  have "get16 (byte_at 1 w) (byte_at 0 w) = join16 (byte_at 0 w) (byte_at 1 w)"
    by (simp add: get16_def join16_def or.commute)
  then show ?thesis using join16_byte_at [of w] by simp
qed

lemma read_put_ie: "length v < 2 ^ 16 \<Longrightarrow> read_ie (put_ie ty v @ rest) = Some ((ty, v), rest)"
proof -
  assume "length v < 2 ^ 16"
  then have "unat (word_of_nat (length v) :: u16) = length v"
    by (simp add: unat_of_nat take_bit_nat_eq_self)
  then show ?thesis using get16_be16 [of ty] get16_be16 [of "word_of_nat (length v)"]
    by (simp add: put_ie_def be16_def)
qed

interpretation ies: codec write_ie read_ie ie_fits
  by unfold_locales (simp add: write_ie_def ie_fits_def read_put_ie)

lemma read_ies:
  assumes "\<forall>e\<in>set es. ie_fits e"
  shows "read_seq read_ie (length es) (concat (map write_ie es)) = Some (es, [])"
  using ies.read_seq_enc [OF assms, of "[]"] by simp

subsection \<open>Headers read back\<close>

lemma seq_bytes: "get24 (byte_at 2 s) (byte_at 1 s) (byte_at 0 s) = take_bit 24 s"
proof (rule bit_word_eqI)
  fix n
  assume "n < LENGTH(32)"
  then consider "n < 8" | "8 \<le> n" "n < 16" | "16 \<le> n" "n < 24" | "24 \<le> n" "n < 32"
    by fastforce
  then show "bit (get24 (byte_at 2 s) (byte_at 1 s) (byte_at 0 s)) n = bit (take_bit 24 s) n"
    by cases (auto simp: get24_def byte_at_def bit_simps)
qed

lemma length_pfcp_packet [simp]: "length (pfcp_packet ty seq ies) = 16 + length ies"
  by (simp add: pfcp_packet_def Let_def)

lemma pfcp_packet_unfold:
  "pfcp_packet ty seq ies =
     [0x21, ty, byte_at 1 (word_of_nat (12 + length ies) :: u16), byte_at 0 (word_of_nat (12 + length ies) :: u16),
      0, 0, 0, 0, 0, 0, 0, 0, byte_at 2 seq, byte_at 1 seq, byte_at 0 seq, 0] @ ies"
  by (simp add: pfcp_packet_def Let_def eval_nat_numeral)

lemma parse_pfcp_packet:
  "parseHeader (pfcp_packet ty seq ies @ tail) =
     Some \<lparr> version_flags = 0x21, msg_type = ty, msg_len = word_of_nat (12 + length ies),
       h_seid = Some 0, h_seq = take_bit 24 seq, has_seid = True \<rparr>"
proof -
  let ?p = "pfcp_packet ty seq ies @ tail"
  have b: "bit (0x21 :: byte) 0" by simp
  have l: "\<not> length ?p < 4" "\<not> length ?p < 16" "\<not> length ?p < 12 + 3" by simp_all
  have n: "?p ! 0 = 0x21" "?p ! 1 = ty" "?p ! 2 = byte_at 1 (word_of_nat (12 + length ies) :: u16)"
      "?p ! 3 = byte_at 0 (word_of_nat (12 + length ies) :: u16)"
      "?p ! 12 = byte_at 2 seq" "?p ! (12 + 1) = byte_at 1 seq" "?p ! (12 + 2) = byte_at 0 seq"
      "take 8 (drop 4 ?p) = [0, 0, 0, 0, 0, 0, 0, 0]"
    unfolding pfcp_packet_unfold by (simp_all add: eval_nat_numeral)
  have z: "join_bytes [0, 0, 0, 0, 0, 0, 0, 0] = 0" by (simp add: join_bytes_def)
  have l2: "\<not> length ?p < 4 + 8 + 4" by simp
  show ?thesis
    unfolding parseHeader_def Let_def n(1)
    using b l l2 n(2-) z get16_be16 [of "word_of_nat (12 + length ies)"] seq_bytes [of seq]
    by (simp only: if_True if_False not_False_eq_True simp_thms)
qed

end
