(* ===== verification/Core5g_Smf.thy ===== *)
theory Core5g_Smf
  imports Core5g_Pfcp
begin

text \<open>
  The session management function of the 5G core: address allocation, the N4 session set-up
  and the one SBI service of \<open>smf/smf_main.cpp\<close>. The state is the two process-wide counters.
  The response the code builds for the capture file alone is not part of the model of the
  exchange; the request sent to the user plane function is.
\<close>

subsection \<open>State and operations\<close>

record smf_state =
  s_ue_ip_counter :: u32
  s_pfcp_seq :: u32

definition smf_init :: smf_state where
  "smf_init = \<lparr> s_ue_ip_counter = 2, s_pfcp_seq = 1 \<rparr>"

definition ip_text :: "u32 \<Rightarrow> string" where
  "ip_text n =
     ''10.45.'' @ json_num (uint (drop_bit 8 n AND 0xFF)) @ ''.'' @ json_num (uint (n AND 0xFF))"

definition allocateUeIp :: "smf_state \<Rightarrow> string \<times> smf_state" where
  "allocateUeIp s = (ip_text (s_ue_ip_counter s), s\<lparr> s_ue_ip_counter := s_ue_ip_counter s + 1 \<rparr>)"

text \<open>The datagram sent to the user plane function.\<close>

definition setupN4Session :: "smf_state \<Rightarrow> u32 \<Rightarrow> bytes \<times> smf_state" where
  "setupN4Session s pdu_session_id =
     (let seq = s_pfcp_seq s; cp = (0x0000000100000000 OR ucast pdu_session_id :: u64)
      in (buildSessionEstReq IP_SMF cp seq 1 1, s\<lparr> s_pfcp_seq := seq + 1 \<rparr>))"

definition problem_400 :: string where
  "problem_400 =
     httpBuild ''HTTP/1.1 400 Bad Request''
       (''{'' @ [dq] @ ''problem'' @ [dq] @ '':'' @ [dq]
        @ ''only POST /nsmf-pdusession/v1/sm-contexts supported'' @ [dq] @ ''}'') []"

definition or_internet :: "string \<Rightarrow> string" where
  "or_internet dnn = (if dnn = [] then ''internet'' else dnn)"

definition sm_ctx_ref :: "string \<Rightarrow> string" where
  "sm_ctx_ref sp =
     ''/nsmf-pdusession/v1/sm-contexts/ue-'' @ drop (if length sp > 5 then length sp - 5 else 0) sp"

definition created_body :: "string \<Rightarrow> string \<Rightarrow> int \<Rightarrow> string \<Rightarrow> string" where
  "created_body ref ip psi dnn =
     json_obj [(''smContextRef'', json_str ref), (''ueIpAddress'', json_str ip), (''pduSessionId'', json_num psi),
               (''dnn'', json_str (or_internet dnn)), (''upfIp'', json_str ''10.1.0.4''),
               (''upfTeid'', json_str ''0x00000101'')]"

definition created_201 :: "string \<Rightarrow> string \<Rightarrow> string" where
  "created_201 ref body =
     ''HTTP/1.1 201 Created'' @ [CR, LF] @ ''Location: '' @ ref @ [CR, LF]
     @ ''Content-Type: application/json'' @ [CR, LF]
     @ ''Content-Length: '' @ json_num (int (length body)) @ [CR, LF] @ [CR, LF] @ body"

text \<open>One connection: the new state, the answer, and the datagrams sent on N4.\<close>

definition smf_handleOne :: "smf_state \<Rightarrow> string \<Rightarrow> cpp_exn + (smf_state \<times> string \<times> bytes list)" where
  "smf_handleOne s stream =
     (case httpRecv stream of Inl e \<Rightarrow> Inl e
      | Inr None \<Rightarrow> Inr (s, [], [])
      | Inr (Some (req, _)) \<Rightarrow>
          if \<not> contains (startLine req) ''POST'' \<or> \<not> contains (startLine req) ''sm-contexts''
          then Inr (s, problem_400, [])
          else let sp = core_get (http_body req) ''supi''; dnn = core_get (http_body req) ''dnn'';
                   p = core_get (http_body req) ''pduSessionId''
               in case (if p = [] then Inr 1 else stoi p) of Inl e \<Rightarrow> Inl e
                  | Inr psi \<Rightarrow>
                      (let (ip, s1) = allocateUeIp s; (n4, s2) = setupN4Session s1 (word_of_int psi);
                           ref = sm_ctx_ref sp
                       in Inr (s2, created_201 ref (created_body ref ip psi dnn), [n4])))"

fun smf_run :: "smf_state \<Rightarrow> string list \<Rightarrow> cpp_exn + (smf_state \<times> string list \<times> bytes list)" where
  "smf_run s [] = Inr (s, [], [])"
| "smf_run s (c # cs) =
     (case smf_handleOne s c of Inl e \<Rightarrow> Inl e
      | Inr (s', r, n4) \<Rightarrow>
          (case smf_run s' cs of Inl e \<Rightarrow> Inl e | Inr (s2, rs, n4s) \<Rightarrow> Inr (s2, r # rs, n4 @ n4s)))"

subsection \<open>Addresses\<close>

lemma ip_text_alt:
  "ip_text n = ''10.45.'' @ json_num (uint n div 256 mod 256) @ ''.'' @ json_num (uint n mod 256)"
proof -
  have m: "x AND 0xFF = take_bit 8 x" for x :: u32
    by (simp add: take_bit_eq_mask mask_eq_exp_minus_1)
  have "uint (n AND 0xFF) = uint n mod 256"
    unfolding m unsigned_take_bit_eq by (simp add: take_bit_eq_mod)
  moreover have "uint (drop_bit 8 n AND 0xFF) = uint n div 256 mod 256"
    unfolding m unsigned_take_bit_eq unsigned_drop_bit_eq using uint_lt2p [of n]
    by (simp add: take_bit_eq_mod drop_bit_eq_div mod_pos_pos_trivial)
  ultimately show ?thesis by (simp only: ip_text_def)
qed

lemma json_num_dotfree: "n \<ge> 0 \<Longrightarrow> CHR ''.'' \<notin> set (json_num n)"
  using nat_dec_digits [of "CHR ''.''"] by (auto simp: json_num_def is_digit_def)

lemma dot_split:
  assumes "CHR ''.'' \<notin> set a" and "CHR ''.'' \<notin> set b" and "a @ ''.'' @ r = b @ ''.'' @ t"
  shows "a = b \<and> r = t"
  using assms
proof (induction a arbitrary: b)
  case Nil
  then show ?case by (cases b) auto
next
  case (Cons x xs)
  then show ?case by (cases b) auto
qed

lemma octets: "(a :: int) mod 65536 = b mod 65536 \<longleftrightarrow> a div 256 mod 256 = b div 256 mod 256 \<and> a mod 256 = b mod 256"
proof -
  have "x mod (256 * 256) = 256 * (x div 256 mod 256) + x mod 256" for x :: int
    by (rule zmod_zmult2_eq) simp
  then have e: "x mod 65536 = 256 * (x div 256 mod 256) + x mod 256" for x :: int by simp
  have "x mod 65536 mod 256 = x mod 256" for x :: int by (rule mod_mod_cancel) simp
  with e [of a] e [of b] show ?thesis by (metis add_right_cancel mult_cancel_left zero_neq_numeral)
qed

lemma two_numbers:
  assumes "0 \<le> a" and "0 \<le> b" and "0 \<le> c" and "0 \<le> d"
  shows "json_num a @ ''.'' @ json_num b = json_num c @ ''.'' @ json_num d \<longleftrightarrow> a = c \<and> b = d"
proof
  assume "json_num a @ ''.'' @ json_num b = json_num c @ ''.'' @ json_num d"
  from dot_split [OF json_num_dotfree [OF assms(1)] json_num_dotfree [OF assms(3)] this]
  show "a = c \<and> b = d" using json_num_inj by blast
qed simp

lemma ip_text_eq: "ip_text m = ip_text n \<longleftrightarrow> uint m mod 65536 = uint n mod 65536"
  unfolding ip_text_alt same_append_eq octets by (rule two_numbers) (simp_all only: pos_mod_sign zero_less_numeral)

subsection \<open>The service\<close>

lemma created_build: "created_201 ref body = httpBuild ''HTTP/1.1 201 Created'' body (''Location: '' @ ref)"
  by (simp add: created_201_def httpBuild_def)

text \<open>The request of the access function, as \<open>callSmf\<close> writes it.\<close>

definition smf_body :: "string \<Rightarrow> int \<Rightarrow> string \<Rightarrow> string" where
  "smf_body sp psi dnn =
     json_obj [(''supi'', json_str sp), (''pduSessionId'', json_num psi), (''dnn'', json_str (or_internet dnn)),
               (''snssai'', json_str (''{'' @ [dq] @ ''sst'' @ [dq] @ '':1,'' @ [dq] @ ''sd'' @ [dq] @ '':''
                  @ [dq] @ ''000001'' @ [dq] @ ''}'')),
               (''servingNssai'', json_str ''5G:mnc010.mcc404.3gppnetwork.org''),
               (''anType'', json_str ''3GPP_ACCESS'')]"

definition smf_request :: "string \<Rightarrow> int \<Rightarrow> string \<Rightarrow> string" where
  "smf_request sp psi dnn =
     httpBuild ''POST /nsmf-pdusession/v1/sm-contexts HTTP/1.1'' (smf_body sp psi dnn)
       ''Host: smf.5gc.mnc010.mcc404.3gppnetwork.org''"

lemma smf_ident [simp]: "ident ''supi''" "ident ''pduSessionId''" "ident ''dnn''" "ident ''ueIpAddress''"
    "ident ''smContextRef''"
  by (simp_all add: ident_def)

lemma smf_body_fields:
  assumes "quotefree sp" and "quotefree dnn"
  shows "core_get (smf_body sp psi dnn) ''supi'' = sp"
    and "core_get (smf_body sp psi dnn) ''pduSessionId'' = json_num psi"
    and "core_get (smf_body sp psi dnn) ''dnn'' = or_internet dnn"
  using assms
  by (simp_all add: core_get_def smf_body_def or_internet_def json_get_obj_rules transparent_str
      transparent_quotefree token_quotefree)

definition psi_ok :: "int \<Rightarrow> bool" where
  "psi_ok i \<longleftrightarrow> - (2 ^ 31) \<le> i \<and> i < 2 ^ 31"

definition n4_request :: "smf_state \<Rightarrow> int \<Rightarrow> bytes" where
  "n4_request s psi = buildSessionEstReq IP_SMF (0x0000000100000000 OR ucast (word_of_int psi :: u32)) (s_pfcp_seq s) 1 1"

definition smf_next :: "smf_state \<Rightarrow> smf_state" where
  "smf_next s = \<lparr> s_ue_ip_counter = s_ue_ip_counter s + 1, s_pfcp_seq = s_pfcp_seq s + 1 \<rparr>"

lemma or_internet_idem [simp]: "or_internet (or_internet d) = or_internet d"
  by (simp add: or_internet_def)

lemma json_num_nonempty [simp]: "json_num n \<noteq> []"
  by (simp add: json_num_def)

lemma smf_create:
  assumes "quotefree sp" and "quotefree dnn" and "psi_ok psi" and "length (smf_body sp psi dnn) < 2 ^ 32"
  shows "smf_handleOne s (smf_request sp psi dnn)
     = Inr (smf_next s, created_201 (sm_ctx_ref sp) (created_body (sm_ctx_ref sp) (ip_text (s_ue_ip_counter s)) psi dnn),
            [n4_request s psi])"
proof -
  let ?s = "''POST /nsmf-pdusession/v1/sm-contexts HTTP/1.1''"
  let ?h = "''Host: smf.5gc.mnc010.mcc404.3gppnetwork.org''"
  have "plain_line ?s" "extra_ok ?h" by (simp_all add: plain_line_def extra_ok_def)
  then have r: "httpRecv (smf_request sp psi dnn) = Inr (Some (\<lparr> startLine = ?s,
      headers = http_headers ?h (smf_body sp psi dnn), http_body = smf_body sp psi dnn \<rparr>, []))"
    using httpRecv_build1 [of ?s ?h] assms(4) by (simp add: smf_request_def)
  have c: "contains ?s ''POST''" "contains ?s ''sm-contexts''" by (simp_all add: contains_def)
  have st: "stoi (json_num psi) = Inr psi" using assms(3) by (simp add: psi_ok_def stoi_json_num)
  note f = smf_body_fields [OF assms(1,2)]
  show ?thesis
    unfolding smf_handleOne_def r sum.case option.case prod.case HttpMessage.simps f Let_def
    using c by (cases s) (simp add: st Let_def allocateUeIp_def setupN4Session_def created_body_def n4_request_def smf_next_def)
qed

end
