(* ===== verification/Core5g_Amf.thy ===== *)
theory Core5g_Amf
  imports Core5g_Smf
begin

text \<open>
  The access and mobility function of the 5G core (\<open>amf/amf_main.cpp\<close>): the four N2 handlers
  over the map of UE contexts. The peers it calls are arguments, functions from the bytes of
  a request to the bytes of the answer (\<open>None\<close>: the connection cannot be opened), and so is
  the outcome of \<open>Chaos::rollDrop\<close>. The result is the exception that ends the process, or the
  new contexts and the texts sent to the gNB.
\<close>

subsection \<open>State and handlers\<close>

record UeContext =
  uc_suci :: string
  uc_supi :: string
  uc_xresStar :: string
  uc_nssai :: string

type_synonym amf_ctx = "(int, UeContext) table"
type_synonym sbi_peer = "string \<Rightarrow> string option"

record n2_event =
  ev_text :: string
  ev_udm :: sbi_peer
  ev_smf :: sbi_peer
  ev_drop :: bool

definition callUdm :: "sbi_peer \<Rightarrow> string \<Rightarrow> cpp_exn + HttpMessage" where
  "callUdm udm req =
     (case udm req of None \<Rightarrow> Inl RuntimeError
      | Some answer \<Rightarrow> (case httpRecvMsg answer of Inl e \<Rightarrow> Inl e | Inr (_, m, _) \<Rightarrow> Inr m))"

definition callSmf :: "sbi_peer \<Rightarrow> string \<Rightarrow> int \<Rightarrow> string \<Rightarrow> string" where
  "callSmf smf sp psi dnn =
     (case smf (smf_request sp psi dnn) of None \<Rightarrow> []
      | Some answer \<Rightarrow>
          (case httpRecv answer of Inl _ \<Rightarrow> [] | Inr None \<Rightarrow> []
           | Inr (Some (m, _)) \<Rightarrow> core_get (http_body m) ''ueIpAddress''))"

definition ran_ue :: "string \<Rightarrow> cpp_exn + int" where
  "ran_ue text = stoi (core_get text ''ranUeNgapId'')"

definition chaos_reject :: string where
  "chaos_reject =
     json_obj (str_fields [(''msgType'', ''RegistrationReject''), (''ranUeNgapId'', ''0''),
                           (''cause'', ''chaos-udm-drop'')])"

definition auth_challenge :: "int \<Rightarrow> string \<Rightarrow> string \<Rightarrow> string" where
  "auth_challenge u rnd autn =
     json_obj [(''msgType'', json_str ''AuthenticationRequest''), (''ranUeNgapId'', json_num u),
               (''rand'', json_str rnd), (''autn'', json_str autn)]"

definition handleRegistrationRequest :: "plmn \<Rightarrow> n2_event \<Rightarrow> amf_ctx \<Rightarrow> cpp_exn + (amf_ctx \<times> string list)" where
  "handleRegistrationRequest n e ctx =
     (case ran_ue (ev_text e) of Inl x \<Rightarrow> Inl x
      | Inr u \<Rightarrow>
          (let sc = core_get (ev_text e) ''suci''; slices = core_get (ev_text e) ''requestedNssai''
           in if ev_drop e then Inr (ctx, [chaos_reject])
              else case callUdm (ev_udm e) (auth_request n sc) of Inl x \<Rightarrow> Inl x
                   | Inr resp \<Rightarrow>
                       (let b = http_body resp
                        in Inr (tbl_set ctx u \<lparr> uc_suci = sc, uc_supi = core_get b ''supi'',
                                  uc_xresStar = core_get b ''xresStar'', uc_nssai = slices \<rparr>,
                                [auth_challenge u (core_get b ''rand'') (core_get b ''autn'')]))))"

definition auth_reject :: "int \<Rightarrow> string" where
  "auth_reject u =
     json_obj [(''msgType'', json_str ''RegistrationReject''), (''ranUeNgapId'', json_num u),
               (''cause'', json_str ''authentication-failure'')]"

definition guti :: "plmn \<Rightarrow> int \<Rightarrow> string" where
  "guti n u = ''5g-guti-'' @ mcc n @ ''-'' @ mnc n @ ''-amf01-'' @ padded 5 u"

definition allowed_nssai :: "string \<Rightarrow> string" where
  "allowed_nssai slices =
     (if slices = []
      then ''[{'' @ [dq] @ ''sst'' @ [dq] @ '':1,'' @ [dq] @ ''sd'' @ [dq] @ '':'' @ [dq] @ ''000001'' @ [dq] @ ''}]''
      else ''['' @ slices @ '']'')"

definition registration_accept :: "plmn \<Rightarrow> int \<Rightarrow> string \<Rightarrow> string" where
  "registration_accept n u slices =
     json_obj [(''msgType'', json_str ''RegistrationAccept''), (''ranUeNgapId'', json_num u),
               (''5gGuti'', json_str (guti n u)), (''allowedNssai'', allowed_nssai slices)]"

definition handleAuthResponse :: "plmn \<Rightarrow> n2_event \<Rightarrow> amf_ctx \<Rightarrow> cpp_exn + (amf_ctx \<times> string list)" where
  "handleAuthResponse n e ctx =
     (case ran_ue (ev_text e) of Inl x \<Rightarrow> Inl x
      | Inr u \<Rightarrow>
          (case map_of ctx u of None \<Rightarrow> Inr (ctx, [])
           | Some c \<Rightarrow>
               if core_get (ev_text e) ''resStar'' \<noteq> uc_xresStar c then Inr (ctx, [auth_reject u])
               else case callUdm (ev_udm e) (sdm_request n (uc_supi c)) of Inl x \<Rightarrow> Inl x
                    | Inr _ \<Rightarrow> Inr (ctx, [registration_accept n u (uc_nssai c)])))"

definition handleRegistrationComplete :: "n2_event \<Rightarrow> amf_ctx \<Rightarrow> cpp_exn + (amf_ctx \<times> string list)" where
  "handleRegistrationComplete e ctx =
     (case ran_ue (ev_text e) of Inl x \<Rightarrow> Inl x | Inr _ \<Rightarrow> Inr (ctx, []))"

definition pdu_accept :: "int \<Rightarrow> int \<Rightarrow> string \<Rightarrow> string \<Rightarrow> string" where
  "pdu_accept u psi ip dnn =
     json_obj [(''msgType'', json_str ''PduSessionAccept''), (''ranUeNgapId'', json_num u),
               (''pduSessionId'', json_num psi), (''ueIpAddress'', json_str ip),
               (''upfIp'', json_str ''10.1.0.4''), (''upfTeid'', json_str ''0x00000101''),
               (''dnn'', json_str (or_internet dnn))]"

definition handlePduSessionRequest :: "n2_event \<Rightarrow> amf_ctx \<Rightarrow> cpp_exn + (amf_ctx \<times> string list)" where
  "handlePduSessionRequest e ctx =
     (case ran_ue (ev_text e) of Inl x \<Rightarrow> Inl x
      | Inr u \<Rightarrow>
          (let ps = core_get (ev_text e) ''pduSessionId''
           in case (if ps \<noteq> [] then stoi ps else Inr 1) of Inl x \<Rightarrow> Inl x
              | Inr psi \<Rightarrow>
                  (let dnn = core_get (ev_text e) ''dnn'';
                       sp = (case map_of ctx u of Some c \<Rightarrow> uc_supi c
                             | None \<Rightarrow> ''imsi-404100000000'' @ json_num u);
                       ip = callSmf (ev_smf e) sp psi dnn;
                       ip' = (if ip = [] then ''10.45.0.2'' else ip)
                   in Inr (ctx, [pdu_accept u psi ip' dnn]))))"

definition msgType :: "string \<Rightarrow> string" where
  "msgType text = core_get text ''msgType''"

definition amf_step :: "plmn \<Rightarrow> n2_event \<Rightarrow> amf_ctx \<Rightarrow> cpp_exn + (amf_ctx \<times> string list)" where
  "amf_step n e ctx =
     (let t = msgType (ev_text e)
      in if t = ''RegistrationRequest'' then handleRegistrationRequest n e ctx
         else if t = ''AuthenticationResponse'' then handleAuthResponse n e ctx
         else if t = ''RegistrationComplete'' then handleRegistrationComplete e ctx
         else if t = ''PduSessionRequest'' then handlePduSessionRequest e ctx
         else Inr (ctx, []))"

fun amf_run :: "plmn \<Rightarrow> n2_event list \<Rightarrow> amf_ctx \<Rightarrow> cpp_exn + amf_ctx" where
  "amf_run n [] ctx = Inr ctx"
| "amf_run n (e # es) ctx = (case amf_step n e ctx of Inl x \<Rightarrow> Inl x | Inr (ctx', _) \<Rightarrow> amf_run n es ctx')"

subsection \<open>What the messages say\<close>

lemma amf_ident [simp]: "ident ''msgType''" "ident ''ranUeNgapId''" "ident ''rand''" "ident ''autn''"
    "ident ''xresStar''" "ident ''resStar''" "ident ''suci''" "ident ''5gGuti''" "ident ''cause''"
    "ident ''requestedNssai''" "ident ''upfIp''" "ident ''upfTeid''"
  by (simp_all add: ident_def)

lemma msgType_out [simp]:
  "msgType chaos_reject = ''RegistrationReject''" "msgType (auth_challenge u r a) = ''AuthenticationRequest''"
  "msgType (auth_reject u) = ''RegistrationReject''" "msgType (registration_accept n u sl) = ''RegistrationAccept''"
  "msgType (pdu_accept u psi ip dnn) = ''PduSessionAccept''"
  by (simp_all add: msgType_def core_get_def chaos_reject_def str_fields_def auth_challenge_def auth_reject_def
      registration_accept_def pdu_accept_def json_get_obj_rules)

lemma challenge_fields:
  assumes "quotefree r" and "quotefree a"
  shows "core_get (auth_challenge u r a) ''rand'' = r" and "core_get (auth_challenge u r a) ''autn'' = a"
  using assms by (simp_all add: core_get_def auth_challenge_def json_get_obj_rules transparent_str
      transparent_quotefree token_quotefree)

lemma accept_guti:
  assumes "quotefree (guti n u)"
  shows "core_get (registration_accept n u sl) ''5gGuti'' = guti n u"
  using assms by (simp add: core_get_def registration_accept_def json_get_obj_rules transparent_str
      transparent_quotefree token_quotefree)

subsection \<open>Where contexts and acceptances come from\<close>

text \<open>A registration request for the identity whose vector from the UDM gives this context.\<close>

definition challenged :: "plmn \<Rightarrow> n2_event \<Rightarrow> int \<Rightarrow> UeContext \<Rightarrow> bool" where
  "challenged n e u c \<longleftrightarrow>
     msgType (ev_text e) = ''RegistrationRequest'' \<and> ran_ue (ev_text e) = Inr u
     \<and> uc_suci c = core_get (ev_text e) ''suci''
     \<and> (\<exists>m. callUdm (ev_udm e) (auth_request n (uc_suci c)) = Inr m
          \<and> uc_supi c = core_get (http_body m) ''supi'' \<and> uc_xresStar c = core_get (http_body m) ''xresStar'')"

lemma step_ctx:
  assumes "amf_step n e ctx = Inr (ctx', outs)" and "map_of ctx' u = Some c"
  shows "map_of ctx u = Some c \<or> challenged n e u c"
  using assms
  by (auto simp: amf_step_def handleRegistrationRequest_def handleAuthResponse_def handleRegistrationComplete_def
      handlePduSessionRequest_def challenged_def Let_def split: if_splits sum.splits option.splits)

lemma run_ctx:
  assumes "amf_run n es ctx = Inr ctx'" and "map_of ctx' u = Some c"
  shows "map_of ctx u = Some c \<or> (\<exists>e\<in>set es. challenged n e u c)"
  using assms(1)
proof (induction es arbitrary: ctx)
  case Nil
  with assms(2) show ?case by simp
next
  case (Cons e es)
  then obtain ctx1 outs where s: "amf_step n e ctx = Inr (ctx1, outs)" "amf_run n es ctx1 = Inr ctx'"
    by (auto split: sum.splits)
  with Cons.IH step_ctx [OF s(1), of u c] show ?case by auto
qed

lemma step_accept:
  assumes "amf_step n e ctx = Inr (ctx', outs)" and "m \<in> set outs" and "msgType m = ''RegistrationAccept''"
  shows "\<exists>u c. ran_ue (ev_text e) = Inr u \<and> map_of ctx u = Some c
     \<and> core_get (ev_text e) ''resStar'' = uc_xresStar c \<and> m = registration_accept n u (uc_nssai c)
     \<and> msgType (ev_text e) = ''AuthenticationResponse''"
  using assms
  by (auto simp: amf_step_def handleRegistrationRequest_def handleAuthResponse_def handleRegistrationComplete_def
      handlePduSessionRequest_def Let_def split: if_splits sum.splits option.splits)

end
