(* ===== verification/Core5g_Gnb.thy ===== *)
theory Core5g_Gnb
  imports Core5g_Amf
begin

text \<open>
  The simulated gNB and UE (\<open>gnb/gnb_main.cpp\<close>): the registration and the PDU session
  procedure, each a straight line of requests and answers over one N2 connection. The other
  side is an argument, a function from its state and the text received to its new state and
  the text it answers with (\<open>None\<close> when it closes the connection).
\<close>

subsection \<open>Procedures\<close>

type_synonym 's n2_peer = "'s \<Rightarrow> string \<Rightarrow> 's \<times> string option"

datatype reg_result =
    ConnectionClosed
  | UnexpectedReply string
  | DivisionByZero
  | Rejected string
  | Registered string

definition slice_nssai :: "string \<Rightarrow> string" where
  "slice_nssai slc =
     (let sst = (if slc = ''urllc'' then 2 else 1 :: int);
          sd = (if sst = 2 then ''000002'' else ''000001'')
      in ''{'' @ [dq] @ ''sst'' @ [dq] @ '':'' @ json_num sst @ '','' @ [dq] @ ''sd'' @ [dq] @ '':''
         @ [dq] @ sd @ [dq] @ ''}'')"

definition registration_request :: "plmn \<Rightarrow> int \<Rightarrow> string \<Rightarrow> string" where
  "registration_request n u slc =
     json_obj [(''msgType'', json_str ''RegistrationRequest''), (''ranUeNgapId'', json_num u),
               (''suci'', json_str (suci n u)), (''registrationType'', json_str ''initial''),
               (''requestedNssai'', json_str (slice_nssai slc))]"

definition authentication_response :: "int \<Rightarrow> string \<Rightarrow> string" where
  "authentication_response u res =
     json_obj [(''msgType'', json_str ''AuthenticationResponse''), (''ranUeNgapId'', json_num u),
               (''resStar'', json_str res)]"

definition registration_complete :: "int \<Rightarrow> string" where
  "registration_complete u =
     json_obj [(''msgType'', json_str ''RegistrationComplete''), (''ranUeNgapId'', json_num u)]"

definition finish_registration :: "'s n2_peer \<Rightarrow> int \<Rightarrow> 's \<Rightarrow> string \<Rightarrow> reg_result \<times> 's" where
  "finish_registration peer u s text =
     (if msgType text = ''RegistrationReject'' then (Rejected (core_get text ''cause''), s)
      else if msgType text \<noteq> ''RegistrationAccept'' then (UnexpectedReply text, s)
      else (Registered (core_get text ''5gGuti''), fst (peer s (registration_complete u))))"

definition doRegistration :: "plmn \<Rightarrow> int \<Rightarrow> string \<Rightarrow> 's n2_peer \<Rightarrow> 's \<Rightarrow> cpp_exn + (reg_result \<times> 's)" where
  "doRegistration n u slc peer s =
     (let k = kFor (msin u); (s1, r1) = peer s (registration_request n u slc)
      in case r1 of None \<Rightarrow> Inr (ConnectionClosed, s1)
         | Some text \<Rightarrow>
             if msgType text \<noteq> ''AuthenticationRequest'' then Inr (UnexpectedReply text, s1)
             else (case byteXor (core_get text ''rand'') k of
                     Inl x \<Rightarrow> Inl x
                   | Inr None \<Rightarrow> Inr (DivisionByZero, s1)
                   | Inr (Some res) \<Rightarrow>
                       (let (s2, r2) = peer s1 (authentication_response u res)
                        in case r2 of None \<Rightarrow> Inr (ConnectionClosed, s2)
                           | Some text2 \<Rightarrow> Inr (finish_registration peer u s2 text2))))"

datatype pdu_result =
    PduClosed
  | PduUnexpected string
  | PduEstablished string string string

definition pdu_request :: "int \<Rightarrow> int \<Rightarrow> string \<Rightarrow> string" where
  "pdu_request u psi dnn =
     json_obj [(''msgType'', json_str ''PduSessionRequest''), (''ranUeNgapId'', json_num u),
               (''pduSessionId'', json_num psi), (''dnn'', json_str dnn),
               (''sNssai'', json_str (''{'' @ [dq] @ ''sst'' @ [dq] @ '':1,'' @ [dq] @ ''sd'' @ [dq] @ '':''
                  @ [dq] @ ''000001'' @ [dq] @ ''}''))]"

definition doPduSession :: "int \<Rightarrow> int \<Rightarrow> string \<Rightarrow> 's n2_peer \<Rightarrow> 's \<Rightarrow> pdu_result \<times> 's" where
  "doPduSession u psi dnn peer s =
     (let (s1, r1) = peer s (pdu_request u psi dnn)
      in case r1 of None \<Rightarrow> (PduClosed, s1)
         | Some text \<Rightarrow>
             if msgType text \<noteq> ''PduSessionAccept'' then (PduUnexpected text, s1)
             else (PduEstablished (core_get text ''ueIpAddress'') (core_get text ''upfIp'')
                     (core_get text ''upfTeid''), s1))"

subsection \<open>The access function as the other side\<close>

text \<open>The process that an exception ended is \<open>None\<close>; what it answers is the first message sent.\<close>

definition amf_peer :: "plmn \<Rightarrow> sbi_peer \<Rightarrow> sbi_peer \<Rightarrow> amf_ctx option n2_peer" where
  "amf_peer n udm smf s text =
     (case s of None \<Rightarrow> (None, None)
      | Some ctx \<Rightarrow>
          (case amf_step n \<lparr> ev_text = text, ev_udm = udm, ev_smf = smf, ev_drop = False \<rparr> ctx of
             Inl _ \<Rightarrow> (None, None)
           | Inr (ctx', outs) \<Rightarrow> (Some ctx', case outs of [] \<Rightarrow> None | m # _ \<Rightarrow> Some m)))"

definition udm_peer :: "plmn \<Rightarrow> udm_random \<Rightarrow> sbi_peer" where
  "udm_peer n r req = (case udm_serve n r req of Inr (Some answer) \<Rightarrow> Some answer | _ \<Rightarrow> Some [])"

definition smf_peer :: "smf_state \<Rightarrow> sbi_peer" where
  "smf_peer s req = (case smf_handleOne s req of Inl _ \<Rightarrow> Some [] | Inr (_, answer, _) \<Rightarrow> Some answer)"

subsection \<open>Identities\<close>

definition ue_ok :: "int \<Rightarrow> bool" where
  "ue_ok u \<longleftrightarrow> 0 \<le> u \<and> u < 2 ^ 31"

lemma ue_num:
  assumes "ue_ok u"
  shows "\<forall>c\<in>set (json_num u). is_digit c" and "length (json_num u) \<le> 10" and "stoi (json_num u) = Inr u"
proof -
  show "\<forall>c\<in>set (json_num u). is_digit c"
    using assms nat_dec_digits by (auto simp: ue_ok_def json_num_def)
  have "nat u < 10 ^ Suc 9" using assms by (simp add: ue_ok_def nat_less_iff)
  then have "length (nat_dec (nat u)) \<le> Suc 9" by (rule nat_dec_length)
  then show "length (json_num u) \<le> 10" using assms by (simp add: ue_ok_def json_num_def)
  show "stoi (json_num u) = Inr u" using assms by (intro stoi_json_num) (simp_all add: ue_ok_def)
qed

lemma msin_digits:
  assumes "ue_ok u"
  shows "\<forall>c\<in>set (msin u). is_digit c" and "length (msin u) = 10" and "msin u \<noteq> []"
proof -
  have "is_digit CHR ''0''" by (simp add: is_digit_def)
  then show "\<forall>c\<in>set (msin u). is_digit c" using ue_num(1) [OF assms] by (auto simp: msin_def padded_def)
  show l: "length (msin u) = 10" using ue_num(2) [OF assms] by (simp add: msin_def padded_def)
  then show "msin u \<noteq> []" by auto
qed

text \<open>Digits are harmless in a path, a header line and a quoted value.\<close>

lemma digit_plain: "is_digit c \<Longrightarrow> c \<noteq> dq \<and> \<not> is_space c \<and> c \<noteq> CHR ''/'' \<and> c \<noteq> CHR ''?'' \<and> c \<noteq> CHR ''&''
    \<and> c \<noteq> CHR ''='' \<and> c \<noteq> CHR ''-''"
  by (auto simp: is_digit_def is_space_def)

definition sbi_chars :: "string \<Rightarrow> bool" where
  "sbi_chars w \<longleftrightarrow> (\<forall>c\<in>set w. c \<noteq> dq \<and> \<not> is_space c \<and> c \<noteq> CHR ''/'' \<and> c \<noteq> CHR ''?'' \<and> c \<noteq> CHR ''&'' \<and> c \<noteq> CHR ''='')"

lemma sbi_chars_simps [simp]: "sbi_chars []" "sbi_chars (a @ b) \<longleftrightarrow> sbi_chars a \<and> sbi_chars b"
  by (auto simp: sbi_chars_def)

lemma sbi_word_chars: "sbi_word w \<longleftrightarrow> w \<noteq> [] \<and> sbi_chars w"
  by (auto simp: sbi_word_def sbi_chars_def quotefree_def)

lemma sbi_chars_digits: "\<forall>c\<in>set w. is_digit c \<Longrightarrow> sbi_chars w"
  using digit_plain by (fastforce simp: sbi_chars_def)

lemma sbi_chars_quotefree: "sbi_chars w \<Longrightarrow> quotefree w"
  by (auto simp: sbi_chars_def quotefree_def)

lemma identities:
  assumes "plmn_ok n" and "ue_ok u"
  shows "sbi_word (suci n u)" and "sbi_word (supi n u)" and "quotefree (guti n u)"
    and "length (supi n u) \<le> 21"
proof -
  have c: "sbi_chars (mcc n)" "sbi_chars (mnc n)" "length (mcc n) \<le> 3" "length (mnc n) \<le> 3"
    using assms(1) by (auto simp: plmn_ok_def sbi_word_chars)
  have m: "sbi_chars (msin u)" by (rule sbi_chars_digits [OF msin_digits(1) [OF assms(2)]])
  have lit: "sbi_chars ''suci-0-''" "sbi_chars ''-''" "sbi_chars ''-0000-0-0-''" "sbi_chars ''imsi-''"
      "sbi_chars ''5g-guti-''" "sbi_chars ''-amf01-''"
    by (simp_all add: sbi_chars_def is_space_def)
  show "sbi_word (suci n u)" unfolding sbi_word_chars suci_def sbi_chars_simps using c m lit by simp
  show "sbi_word (supi n u)" unfolding sbi_word_chars supi_def sbi_chars_simps using c m lit by simp
  show "length (supi n u) \<le> 21" using c msin_digits(2) [OF assms(2)] by (simp add: supi_def)
  have "\<forall>c\<in>set (padded 5 u). is_digit c"
    using ue_num(1) [OF assms(2)] by (auto simp: padded_def is_digit_def)
  from sbi_chars_digits [OF this] have "sbi_chars (guti n u)"
    unfolding guti_def sbi_chars_simps using c lit by simp
  then show "quotefree (guti n u)" by (rule sbi_chars_quotefree)
qed

lemma supi_of_suci:
  assumes "ue_ok u"
  shows "supiFromSuci n (suci n u) = supi n u"
proof -
  have "CHR ''-'' \<notin> set (msin u)" using msin_digits(1) [OF assms] digit_plain by blast
  then have "takeWhile (\<lambda>x. x \<noteq> CHR ''-'') (rev (msin u) @ CHR ''-'' # s) = rev (msin u)" for s
    by (subst takeWhile_append2) auto
  then have "msinFromSuci (suci n u) = msin u"
    by (simp add: msinFromSuci_def suci_def after_last_def)
  then show ?thesis by (simp add: supiFromSuci_def supi_def)
qed

subsection \<open>Registration against the model's own core\<close>

definition random_ok :: "udm_random \<Rightarrow> bool" where
  "random_ok r \<longleftrightarrow> length (rnd_bytes r) = 16 \<and> length (autn_bytes r) = 16 \<and> length (kausf_bytes r) = 32"

definition vector_body :: "plmn \<Rightarrow> udm_random \<Rightarrow> int \<Rightarrow> string" where
  "vector_body n r u =
     auth_body (supi n u) (to_hex (rnd_bytes r)) (to_hex (autn_bytes r)) (expected_res r) (to_hex (kausf_bytes r))"

lemma ok_line: "plain_line ''HTTP/1.1 200 OK''"
  by (simp add: plain_line_def)

lemma length_expected: "length (expected_res r) = 2 * length (rnd_bytes r)"
  by (simp add: expected_res_def)

lemma vector_call:
  assumes "plmn_ok n" and "ue_ok u" and "random_ok r"
  shows "callUdm (udm_peer n r) (auth_request n (suci n u)) =
     Inr \<lparr> startLine = ''HTTP/1.1 200 OK'', headers = http_headers [] (vector_body n r u),
           http_body = vector_body n r u \<rparr>"
proof -
  have s: "udm_serve n r (auth_request n (suci n u)) = Inr (Some (httpBuild ''HTTP/1.1 200 OK'' (vector_body n r u) []))"
    using udm_auth [OF assms(1) identities(1) [OF assms(1,2)]]
    by (simp add: handleAuth_ok supi_of_suci [OF assms(2)] vector_body_def)
  have "length (vector_body n r u) < 2 ^ 32"
    using assms(3) identities(4) [OF assms(1,2)]
    by (simp add: vector_body_def auth_body_def str_fields_def json_obj_def json_str_def length_expected random_ok_def)
  then show ?thesis
    using httpRecvMsg_build1 [OF ok_line extra_ok_nil] by (simp add: callUdm_def udm_peer_def s)
qed

lemma vector_fields:
  assumes "plmn_ok n" and "ue_ok u"
  shows "core_get (vector_body n r u) ''supi'' = supi n u"
    and "core_get (vector_body n r u) ''rand'' = to_hex (rnd_bytes r)"
    and "core_get (vector_body n r u) ''autn'' = to_hex (autn_bytes r)"
    and "core_get (vector_body n r u) ''xresStar'' = expected_res r"
proof -
  have "quotefree (supi n u)" using identities(2) [OF assms] by (simp add: sbi_word_def)
  then show "core_get (vector_body n r u) ''supi'' = supi n u"
    "core_get (vector_body n r u) ''rand'' = to_hex (rnd_bytes r)"
    "core_get (vector_body n r u) ''autn'' = to_hex (autn_bytes r)"
    "core_get (vector_body n r u) ''xresStar'' = expected_res r"
    unfolding vector_body_def auth_body_def core_get_def
    by (subst json_get_str_fields; simp add: expected_res_def)+
qed

lemma request_fields:
  assumes "plmn_ok n" and "ue_ok u"
  shows "msgType (registration_request n u slc) = ''RegistrationRequest''"
    and "ran_ue (registration_request n u slc) = Inr u"
    and "core_get (registration_request n u slc) ''suci'' = suci n u"
    and "core_get (registration_request n u slc) ''requestedNssai'' = ''{''"
proof -
  have q: "quotefree (suci n u)" using identities(1) [OF assms] by (simp add: sbi_word_def)
  note go = registration_request_def core_get_def json_get_obj_rules transparent_str transparent_quotefree
    token_quotefree
  show "msgType (registration_request n u slc) = ''RegistrationRequest''" by (simp add: msgType_def go)
  show "ran_ue (registration_request n u slc) = Inr u"
    using ue_num(3) [OF assms(2)] by (simp add: ran_ue_def go)
  show "core_get (registration_request n u slc) ''suci'' = suci n u" using q by (simp add: go)
  have "core_get (registration_request n u slc) ''requestedNssai''
      = json_get_with (\<lambda>t. t) (json_obj [(''requestedNssai'', json_str (slice_nssai slc))]) ''requestedNssai''"
    using q by (simp add: go)
  also have "\<dots> = json_value (\<lambda>t. t) (json_str (slice_nssai slc) @ [rbrace])"
    using json_get_at [of "\<lambda>t. t" "''requestedNssai''"] by (simp add: json_obj_def json_get_char json_needle_def)
  also have "\<dots> = ''{''" by (simp add: json_value_def json_str_def slice_nssai_def Let_def)
  finally show "core_get (registration_request n u slc) ''requestedNssai'' = ''{''" .
qed

end
