(* ===== verification/Core5g_Flow.thy ===== *)
theory Core5g_Flow
  imports Core5g_Gnb
begin

text \<open>
  The procedures of the gNB run against the access function, the data management function
  and the session management function of the model, message by message.
\<close>

subsection \<open>Registration\<close>

definition registered_context :: "plmn \<Rightarrow> udm_random \<Rightarrow> int \<Rightarrow> UeContext" where
  "registered_context n r u =
     \<lparr> uc_suci = suci n u, uc_supi = supi n u, uc_xresStar = expected_res r, uc_nssai = ''{'' \<rparr>"

lemma step_request:
  assumes "plmn_ok n" and "ue_ok u" and "random_ok r"
  shows "amf_step n \<lparr> ev_text = registration_request n u slc, ev_udm = udm_peer n r, ev_smf = smf, ev_drop = False \<rparr> ctx
     = Inr (tbl_set ctx u (registered_context n r u),
            [auth_challenge u (to_hex (rnd_bytes r)) (to_hex (autn_bytes r))])"
proof -
  note f = request_fields [OF assms(1,2)]
  show ?thesis
    unfolding amf_step_def n2_event.simps f(1) handleRegistrationRequest_def f(2-) sum.case Let_def
      vector_call [OF assms]
    by (simp add: vector_fields [OF assms(1,2)] registered_context_def)
qed

lemma response_fields:
  assumes "ue_ok u" and "quotefree res"
  shows "msgType (authentication_response u res) = ''AuthenticationResponse''"
    and "ran_ue (authentication_response u res) = Inr u"
    and "core_get (authentication_response u res) ''resStar'' = res"
proof -
  note go = authentication_response_def core_get_def json_get_obj_rules transparent_str transparent_quotefree
    token_quotefree
  show "msgType (authentication_response u res) = ''AuthenticationResponse''" by (simp add: msgType_def go)
  show "ran_ue (authentication_response u res) = Inr u"
    using ue_num(3) [OF assms(1)] by (simp add: ran_ue_def go)
  show "core_get (authentication_response u res) ''resStar'' = res" using assms(2) by (simp add: go)
qed

lemma complete_fields:
  assumes "ue_ok u"
  shows "msgType (registration_complete u) = ''RegistrationComplete''" and "ran_ue (registration_complete u) = Inr u"
  using ue_num(3) [OF assms]
  by (simp_all add: msgType_def ran_ue_def registration_complete_def core_get_def json_get_obj_rules transparent_str)

lemma sdm_call:
  assumes "plmn_ok n" and "ue_ok u"
  shows "\<exists>m. callUdm (udm_peer n r) (sdm_request n (supi n u)) = Inr m"
proof -
  let ?b = "json_obj [(''supi'', json_str (supi n u)), (''nssai'', nssai_json), (''subscribedUeAmbr'', ambr_json)]"
  have "length ?b < 2 ^ 32"
    using identities(4) [OF assms] by (simp add: json_obj_def json_str_def nssai_json_def ambr_json_def)
  then show ?thesis
    using httpRecvMsg_build1 [OF ok_line extra_ok_nil, of ?b] udm_sdm [OF assms(1) identities(2) [OF assms]]
    by (simp add: callUdm_def udm_peer_def handleSdmRequest_def)
qed

lemma step_response:
  assumes "plmn_ok n" and "ue_ok u" and "map_of ctx u = Some (registered_context n r u)"
  shows "amf_step n \<lparr> ev_text = authentication_response u (expected_res r), ev_udm = udm_peer n r', ev_smf = smf,
           ev_drop = False \<rparr> ctx
     = Inr (ctx, [registration_accept n u ''{''])"
proof -
  have q: "quotefree (expected_res r)" by (simp add: expected_res_def)
  obtain m where m: "callUdm (udm_peer n r') (sdm_request n (supi n u)) = Inr m"
    using sdm_call [OF assms(1,2)] by blast
  show ?thesis
    using response_fields [OF assms(2) q] m assms(3)
    by (simp add: amf_step_def handleAuthResponse_def registered_context_def)
qed

lemma step_complete:
  assumes "ue_ok u"
  shows "amf_step n \<lparr> ev_text = registration_complete u, ev_udm = udm, ev_smf = smf, ev_drop = False \<rparr> ctx
     = Inr (ctx, [])"
  using complete_fields [OF assms] by (simp add: amf_step_def handleRegistrationComplete_def)

lemma registration_flow:
  assumes "plmn_ok n" and "ue_ok u" and "random_ok r"
  shows "doRegistration n u slc (amf_peer n (udm_peer n r) smf) (Some ctx)
     = Inr (Registered (guti n u), Some (tbl_set ctx u (registered_context n r u)))"
proof -
  let ?ctx = "tbl_set ctx u (registered_context n r u)"
  let ?p = "amf_peer n (udm_peer n r) smf"
  have p1: "?p (Some ctx) (registration_request n u slc)
      = (Some ?ctx, Some (auth_challenge u (to_hex (rnd_bytes r)) (to_hex (autn_bytes r))))"
    by (simp add: amf_peer_def step_request [OF assms])
  have p2: "?p (Some ?ctx) (authentication_response u (expected_res r))
      = (Some ?ctx, Some (registration_accept n u ''{''))"
    by (simp add: amf_peer_def step_response [OF assms(1,2)])
  have p3: "?p (Some ?ctx) (registration_complete u) = (Some ?ctx, None)"
    by (simp add: amf_peer_def step_complete [OF assms(2)])
  have f: "finish_registration ?p u (Some ?ctx) (registration_accept n u ''{'') = (Registered (guti n u), Some ?ctx)"
    using accept_guti [OF identities(3) [OF assms(1,2)]] by (simp add: finish_registration_def p3)
  show ?thesis
    by (simp add: doRegistration_def p1 challenge_fields byteXor_expected p2 f)
qed

subsection \<open>PDU sessions\<close>

lemma pdu_fields:
  assumes "ue_ok u" and "quotefree dnn" and "psi_ok psi"
  shows "msgType (pdu_request u psi dnn) = ''PduSessionRequest''" and "ran_ue (pdu_request u psi dnn) = Inr u"
    and "core_get (pdu_request u psi dnn) ''pduSessionId'' = json_num psi"
    and "core_get (pdu_request u psi dnn) ''dnn'' = dnn"
proof -
  note go = pdu_request_def core_get_def json_get_obj_rules transparent_str transparent_quotefree token_quotefree
  show "msgType (pdu_request u psi dnn) = ''PduSessionRequest''" by (simp add: msgType_def go)
  show "ran_ue (pdu_request u psi dnn) = Inr u" using ue_num(3) [OF assms(1)] by (simp add: ran_ue_def go)
  show "core_get (pdu_request u psi dnn) ''pduSessionId'' = json_num psi" by (simp add: go)
  show "core_get (pdu_request u psi dnn) ''dnn'' = dnn" using assms(2) by (simp add: go)
qed

lemma ip_text_ok: "quotefree (ip_text n)" "length (ip_text n) \<le> 13" "ip_text n \<noteq> []"
proof -
  have b: "length (json_num k) \<le> 3" "quotefree (json_num k)" if "0 \<le> k" "k < 256" for k
  proof -
    have "nat k < 10 ^ Suc 2" using that by simp
    from nat_dec_length [OF this] show "length (json_num k) \<le> 3" using that by (simp add: json_num_def)
    show "quotefree (json_num k)" by (rule token_quotefree [OF token_json_num])
  qed
  have "0 \<le> uint n div 256 mod 256" "uint n div 256 mod 256 < 256" "0 \<le> uint n mod 256" "uint n mod 256 < 256"
    by simp_all
  from b [OF this(1,2)] b [OF this(3,4)]
  show "quotefree (ip_text n)" "length (ip_text n) \<le> 13" "ip_text n \<noteq> []"
    unfolding ip_text_alt by auto
qed

definition dnn_ok :: "string \<Rightarrow> bool" where
  "dnn_ok dnn \<longleftrightarrow> quotefree dnn \<and> length dnn \<le> 100"

lemma psi_length: "psi_ok psi \<Longrightarrow> length (json_num psi) \<le> 11"
proof -
  assume "psi_ok psi"
  then have "nat psi < 10 ^ Suc 9" "nat (- psi) < 10 ^ Suc 9" by (cases "0 \<le> psi"; simp add: psi_ok_def nat_less_iff)+
  from nat_dec_length [OF this(1)] nat_dec_length [OF this(2)] show ?thesis by (simp add: json_num_def)
qed

lemma ctx_ref_plain: "sbi_word sp \<Longrightarrow> extra_ok (''Location: '' @ sm_ctx_ref sp) \<and> quotefree (sm_ctx_ref sp)
    \<and> length (sm_ctx_ref sp) \<le> 42"
  using sbi_word_plain [of sp] in_set_dropD [of _ _ sp]
  by (auto simp: extra_ok_def plain_line_def sm_ctx_ref_def quotefree_def sbi_word_def)

lemma smf_call:
  assumes "sbi_word sp" and "length sp \<le> 21" and "dnn_ok dnn" and "psi_ok psi"
  shows "callSmf (smf_peer s) sp psi dnn = ip_text (s_ue_ip_counter s)"
proof -
  let ?ref = "sm_ctx_ref sp"
  let ?b = "created_body ?ref (ip_text (s_ue_ip_counter s)) psi dnn"
  have q: "quotefree sp" "quotefree dnn" using assms(1,3) by (simp_all add: sbi_word_def dnn_ok_def)
  have l: "length (or_internet dnn) \<le> 100" using assms(3) by (simp add: or_internet_def dnn_ok_def)
  have "length (smf_body sp psi dnn) < 2 ^ 32"
    using l assms(2) psi_length [OF assms(4)] by (simp add: smf_body_def json_obj_def json_str_def)
  then have s: "smf_handleOne s (smf_request sp psi dnn) = Inr (smf_next s, created_201 ?ref ?b, [n4_request s psi])"
    by (rule smf_create [OF q assms(4)])
  note r = ctx_ref_plain [OF assms(1)]
  have "length ?b < 2 ^ 32"
    using l r ip_text_ok(2) [of "s_ue_ip_counter s"] psi_length [OF assms(4)]
    by (simp add: created_body_def json_obj_def json_str_def)
  moreover have "plain_line ''HTTP/1.1 201 Created''" by (simp add: plain_line_def)
  ultimately have h: "httpRecv (created_201 ?ref ?b) = Inr (Some (\<lparr> startLine = ''HTTP/1.1 201 Created'',
      headers = http_headers (''Location: '' @ ?ref) ?b, http_body = ?b \<rparr>, []))"
    unfolding created_build using r by (intro httpRecv_build1) simp_all
  have "core_get ?b ''ueIpAddress'' = ip_text (s_ue_ip_counter s)"
    using r ip_text_ok(1) by (simp add: core_get_def created_body_def json_get_obj_rules transparent_str)
  then show ?thesis by (simp add: callSmf_def smf_peer_def s h)
qed

lemma pdu_accept_fields:
  assumes "quotefree ip"
  shows "core_get (pdu_accept u psi ip dnn) ''ueIpAddress'' = ip"
    and "core_get (pdu_accept u psi ip dnn) ''upfIp'' = ''10.1.0.4''"
    and "core_get (pdu_accept u psi ip dnn) ''upfTeid'' = ''0x00000101''"
  using assms by (simp_all add: core_get_def pdu_accept_def json_get_obj_rules transparent_str transparent_quotefree
      token_quotefree)

lemma pdu_flow:
  assumes u: "ue_ok u" and d: "dnn_ok dnn" and p: "psi_ok psi"
    and c: "map_of ctx u = Some c" "sbi_word (uc_supi c)" "length (uc_supi c) \<le> 21"
  shows "doPduSession u psi dnn (amf_peer n udm (smf_peer s)) (Some ctx)
     = (PduEstablished (ip_text (s_ue_ip_counter s)) ''10.1.0.4'' ''0x00000101'', Some ctx)"
proof -
  let ?e = "\<lparr> ev_text = pdu_request u psi dnn, ev_udm = udm, ev_smf = smf_peer s, ev_drop = False \<rparr>"
  have q: "quotefree dnn" using d by (simp add: dnn_ok_def)
  have st: "stoi (json_num psi) = Inr psi" using p by (simp add: psi_ok_def stoi_json_num)
  have a: "amf_step n ?e ctx = Inr (ctx, [pdu_accept u psi (ip_text (s_ue_ip_counter s)) dnn])"
    using pdu_fields [OF u q p] smf_call [OF c(2,3) d p, of s] c(1) ip_text_ok(3)
    by (simp add: amf_step_def handlePduSessionRequest_def st)
  then show ?thesis
    using pdu_accept_fields [OF ip_text_ok(1)] by (simp add: doPduSession_def amf_peer_def)
qed

subsection \<open>Sessions of the user plane function\<close>

lemma upf_recv_packet:
  assumes "length (pfcp_packet ty seq els) \<le> 4096"
  shows "upf_recv s (pfcp_packet ty seq els) =
     Some (upf_handle s \<lparr> version_flags = 0x21, msg_type = ty, msg_len = word_of_nat (12 + length els),
        h_seid = Some 0, h_seq = take_bit 24 seq, has_seid = True \<rparr>)"
proof -
  have "pfcp_packet ty seq els \<noteq> []" by (simp add: pfcp_packet_unfold)
  then show ?thesis using assms parse_pfcp_packet [of ty seq els "[]"] by (simp add: upf_recv_def Let_def)
qed

text \<open>Session identifiers are handed out in order from the initial counter.\<close>

definition seids_ok :: "upf_server \<Rightarrow> bool" where
  "seids_ok u \<longleftrightarrow>
     map up_seid (s_sessions u)
       = map (\<lambda>i. 0xABC0000000000001 + word_of_nat i) [0..<length (s_sessions u)]
     \<and> s_up_seid_counter u = 0xABC0000000000001 + word_of_nat (length (s_sessions u))"

lemma seids_handle: "seids_ok u \<Longrightarrow> seids_ok (fst (upf_handle u h))"
  by (auto simp: seids_ok_def upf_handle_def Let_def)

interpretation upf: invariant_machine "\<lambda>u h. fst (upf_handle u h)" seids_ok
  by unfold_locales (rule seids_handle)

lemma seids_init: "seids_ok upf_init"
  by (simp add: seids_ok_def upf_init_def)

lemma upf_loop_ok: "seids_ok u \<Longrightarrow> seids_ok (fst (upf_loop u ds))"
proof (induction ds arbitrary: u)
  case Nil
  then show ?case by simp
next
  case (Cons d ds)
  show ?case
  proof (cases "upf_recv u d")
    case None
    with Cons.prems show ?thesis by simp
  next
    case (Some ur)
    obtain u' r where ur: "ur = (u', r)" by fastforce
    have "seids_ok u'"
      using Some ur Cons.prems seids_handle [of u]
      by (auto simp: upf_recv_def Let_def split: if_splits option.splits) (metis fst_conv)
    with Cons.IH Some ur show ?thesis by (simp split: prod.splits) (metis fst_conv)
  qed
qed

lemma seids_distinct:
  assumes "seids_ok u" and "length (s_sessions u) \<le> 2 ^ 64"
  shows "distinct (map up_seid (s_sessions u))"
proof -
  have "inj_on (\<lambda>i. (0xABC0000000000001 :: u64) + word_of_nat i) {0..<length (s_sessions u)}"
  proof (rule inj_onI)
    fix i j
    assume ij: "i \<in> {0..<length (s_sessions u)}" "j \<in> {0..<length (s_sessions u)}"
      and "(0xABC0000000000001 :: u64) + word_of_nat i = 0xABC0000000000001 + word_of_nat j"
    then have "(word_of_nat i :: u64) = word_of_nat j" by simp
    moreover have "i < 2 ^ 64" "j < 2 ^ 64" using ij assms(2) by auto
    then have "unat (word_of_nat i :: u64) = i" "unat (word_of_nat j :: u64) = j"
      by (simp_all add: unat_of_nat take_bit_nat_eq_self)
    ultimately show "i = j" by metis
  qed
  with assms(1) show ?thesis unfolding seids_ok_def by (simp add: distinct_map)
qed

end
