(* ===== verification/Core5g_System.thy ===== *)
theory Core5g_System
  imports Core5g_Flow
begin

text \<open>
  The properties of the 5G core: the messages of the service interfaces, discovery through
  the repository, registration and PDU sessions end to end, the N4 sessions, and the places
  where the code falls short of what its comments say.
\<close>

subsection \<open>Service interfaces\<close>

text \<open>C37. A message that \<open>httpBuild\<close> writes is read back by \<open>httpRecv\<close> with its start line, its
  headers and its whole body, whatever follows it on the connection.\<close>

theorem http_round_trip:
  assumes "plain_line start" and "extra_ok extra" and "length body < 2 ^ 32"
  shows "httpRecv (httpBuild start body extra @ rest)
     = Inr (Some (\<lparr> startLine = start, headers = http_headers extra body, http_body = body \<rparr>, rest))"
  by (rule httpRecv_build [OF assms])

theorem http_round_trip_witness:
  "httpRecv (httpBuild ''HTTP/1.1 200 OK'' ''{}'' ''Host: a'' @ ''GET'')
     = Inr (Some (\<lparr> startLine = ''HTTP/1.1 200 OK'', headers = http_headers ''Host: a'' ''{}'', http_body = ''{}'' \<rparr>,
                  ''GET''))"
  by (rule http_round_trip) (simp_all add: plain_line_def extra_ok_def)

text \<open>After any sequence of registrations the repository answers a discovery with the host
  and port of the profile of that type registered last, and with "not found" when there is
  none. The whole exchange is bytes: requests and answers are built, sent, parsed and read.\<close>

theorem nrf_register_then_discover:
  assumes "\<forall>p\<in>set ps. profile_ok p" and "sbi_word ty"
  shows "\<exists>g. nrf_run [] (map register_of ps) = Inr g \<and>
     discover g ty =
       (case map_of (rev (map (\<lambda>p. (nfType p, p)) ps)) ty of
          None \<Rightarrow> undiscovered
        | Some p \<Rightarrow> \<lparr> d_host = nf_host p, d_port = nf_port p, found = True \<rparr>)"
proof -
  let ?g = "foldl (\<lambda>g p. tbl_set g (nfType p) p) [] ps"
  let ?m = "map_of (rev (map (\<lambda>p. (nfType p, p)) ps)) ty"
  have m: "map_of ?g ty = ?m" by (simp add: map_of_profiles split: option.splits)
  have "discover ?g ty = (case ?m of None \<Rightarrow> undiscovered
      | Some p \<Rightarrow> \<lparr> d_host = nf_host p, d_port = nf_port p, found = True \<rparr>)"
  proof (cases ?m)
    case None
    with discover_missing [OF assms(2)] m show ?thesis by simp
  next
    case (Some p)
    then have "p \<in> set ps" by (auto dest!: map_of_SomeD)
    with assms(1) discover_found [OF assms(2)] m Some show ?thesis by simp
  qed
  with run_register [OF assms(1)] show ?thesis by blast
qed

definition udm_profile :: "string \<Rightarrow> NfProfile" where
  "udm_profile h = \<lparr> nfInstanceId = ''udm-1'', nfType = ''UDM'', nf_host = h, nf_port = 29503 \<rparr>"

lemma udm_profile_ok: "profile_ok (udm_profile ''a'')" "profile_ok (udm_profile ''b'')"
proof -
  have p: "uint (29503 :: u16) = 29503" by simp
  have "length (json_num 29503) = 5" by code_simp
  then show "profile_ok (udm_profile ''a'')" "profile_ok (udm_profile ''b'')"
    by (simp_all add: profile_ok_def udm_profile_def sbi_word_def is_space_def profile_json_def json_obj_def
        json_str_def p)
qed

theorem nrf_register_then_discover_witness:
  "\<exists>g. nrf_run [] (map register_of [udm_profile ''a'', udm_profile ''b'']) = Inr g \<and>
     discover g ''UDM'' = \<lparr> d_host = ''b'', d_port = 29503, found = True \<rparr>"
proof -
  have "\<forall>p\<in>set [udm_profile ''a'', udm_profile ''b'']. profile_ok p" using udm_profile_ok by simp
  moreover have "sbi_word ''UDM''" by (simp add: sbi_word_def is_space_def)
  ultimately show ?thesis
    using nrf_register_then_discover [of "[udm_profile ''a'', udm_profile ''b'']" "''UDM''"]
    by (simp add: udm_profile_def)
qed

subsection \<open>Registration\<close>


definition zero_random :: udm_random where
  "zero_random = \<lparr> rnd_bytes = replicate 16 0, autn_bytes = replicate 16 0, kausf_bytes = replicate 32 0 \<rparr>"

lemma sample_ok: "plmn_ok plmn_default" "ue_ok 1" "random_ok zero_random"
  by (simp_all add: plmn_ok_def plmn_default_def sbi_word_def is_space_def ue_ok_def random_ok_def zero_random_def)




definition sample_event :: "string \<Rightarrow> n2_event" where
  "sample_event t = \<lparr> ev_text = t, ev_udm = udm_peer plmn_default zero_random, ev_smf = (\<lambda>_. None), ev_drop = False \<rparr>"




text \<open>C38. The key of \<open>kFor\<close> does not depend on the subscriber: its 31 hexadecimal digits decode to
  fifteen bytes that leave out the last digit, the only one that varies, so any two
  subscribers compute the same response to every challenge.\<close>

theorem same_response_for_all_subscribers:
  "byteXor rnd (kFor m) = byteXor rnd (kFor m')"
  by (cases "from_hex rnd") (simp_all add: byteXor_def kFor_bytes)

text \<open>An identity that the parser of the request line cuts in two.\<close>

definition bypass_request :: string where
  "bypass_request =
     json_obj [(''msgType'', json_str ''RegistrationRequest''), (''ranUeNgapId'', json_num 7),
               (''suci'', json_str ''a b'')]"

definition bypass_response :: string where
  "bypass_response = json_obj [(''msgType'', json_str ''AuthenticationResponse''), (''ranUeNgapId'', json_num 7)]"

definition bypass_ctx :: UeContext where
  "bypass_ctx = \<lparr> uc_suci = ''a b'', uc_supi = [], uc_xresStar = [], uc_nssai = [] \<rparr>"

lemma bypass_fields:
  "msgType bypass_request = ''RegistrationRequest''" "ran_ue bypass_request = Inr 7"
  "core_get bypass_request ''suci'' = ''a b''" "core_get bypass_request ''requestedNssai'' = []"
  "msgType bypass_response = ''AuthenticationResponse''" "ran_ue bypass_response = Inr 7"
  "core_get bypass_response ''resStar'' = []"
  by code_simp+

lemma bypass_vector: "\<exists>hs. callUdm (udm_peer plmn_default r) (auth_request plmn_default ''a b'')
    = Inr \<lparr> startLine = ''HTTP/1.1 404 Not Found'', headers = hs, http_body = ''{}'' \<rparr>"
proof -
  let ?s = "''POST /nudm-ueau/v2/a b/security-information/generate-auth-data HTTP/1.1''"
  let ?b = "json_obj [(''servingNetworkName'', json_str (''5G:'' @ plmnDomain plmn_default @ ''.3gppnetwork.org''))]"
  let ?h = "''Host: udm.5gc.'' @ plmnDomain plmn_default @ ''.3gppnetwork.org''"
  have "plain_line ?s" by (simp add: plain_line_def)
  moreover have "length ?b < 2 ^ 32"
    using plmnDomain_plain(3) [OF sample_ok(1)] by (simp add: json_obj_def json_str_def)
  ultimately have r: "httpRecv (auth_request plmn_default ''a b'')
      = Inr (Some (\<lparr> startLine = ?s, headers = http_headers ?h ?b, http_body = ?b \<rparr>, []))"
    using httpRecv_build1 [of ?s ?h ?b] host_ok [OF sample_ok(1)] by (simp add: auth_request_def)
  have "path_of ?s = ''/nudm-ueau/v2/a''" by code_simp
  then have "udm_serve plmn_default r (auth_request plmn_default ''a b'') = Inr (Some not_found_404)"
    by (simp add: udm_serve_def r udm_dispatch_def contains_def)
  moreover have "plain_line ''HTTP/1.1 404 Not Found''" by (simp add: plain_line_def)
  ultimately show ?thesis
    using httpRecvMsg_build1 [of "''HTTP/1.1 404 Not Found''" "[]" "''{}''"]
    by (simp add: callUdm_def udm_peer_def not_found_404_def)
qed

lemma bypass_sdm: "\<exists>m. callUdm (udm_peer plmn_default r) (sdm_request plmn_default []) = Inr m"
proof -
  let ?s = "''GET /nudm-sdm/v2//am-data HTTP/1.1''"
  let ?h = "''Host: udm.5gc.'' @ plmnDomain plmn_default @ ''.3gppnetwork.org''"
  have "plain_line ?s" by (simp add: plain_line_def)
  then have r: "httpRecv (sdm_request plmn_default [])
      = Inr (Some (\<lparr> startLine = ?s, headers = http_headers ?h [], http_body = [] \<rparr>, []))"
    using httpRecv_build1 [of ?s ?h "[]"] host_ok [OF sample_ok(1)] by (simp add: sdm_request_def)
  have p: "path_of ?s = ''/nudm-sdm/v2//am-data''" by code_simp
  have "contains ''/nudm-sdm/v2//am-data'' ''/am-data''"
      "\<not> contains ''/nudm-sdm/v2//am-data'' ''/security-information/generate-auth-data''"
    by (simp_all add: contains_def)
  then have s: "udm_serve plmn_default r (sdm_request plmn_default [])
      = Inr (Some (handleSdmRequest (part (splitPath ''/nudm-sdm/v2//am-data'') 2)))"
    by (simp add: udm_serve_def r udm_dispatch_def p)
  have "part (splitPath ''/nudm-sdm/v2//am-data'') 2 = ''am-data''" by code_simp
  moreover have "length (json_obj [(''supi'', json_str ''am-data''), (''nssai'', nssai_json),
      (''subscribedUeAmbr'', ambr_json)]) < 2 ^ 32"
    by (simp add: json_obj_def json_str_def nssai_json_def ambr_json_def)
  ultimately show ?thesis
    using httpRecvMsg_build1 [OF ok_line extra_ok_nil] by (simp add: callUdm_def udm_peer_def s handleSdmRequest_def)
qed

text \<open>C40. A SUCI with a space in it makes the UDM answer 404, the access function then stores an
  empty XRES* and an AuthenticationResponse without any RES* is accepted.\<close>

theorem authentication_bypass:
  "\<exists>ctx. amf_run plmn_default [sample_event bypass_request] [] = Inr ctx \<and>
     amf_step plmn_default (sample_event bypass_response) ctx
       = Inr (ctx, [registration_accept plmn_default 7 []])"
proof -
  let ?ctx = "tbl_set [] 7 bypass_ctx :: amf_ctx"
  obtain hs where v: "callUdm (udm_peer plmn_default zero_random) (auth_request plmn_default ''a b'')
      = Inr \<lparr> startLine = ''HTTP/1.1 404 Not Found'', headers = hs, http_body = ''{}'' \<rparr>"
    using bypass_vector by blast
  obtain m where m: "callUdm (udm_peer plmn_default zero_random) (sdm_request plmn_default []) = Inr m"
    using bypass_sdm by blast
  have "core_get ''{}'' ''supi'' = []" "core_get ''{}'' ''xresStar'' = []" by code_simp+
  then have "amf_run plmn_default [sample_event bypass_request] [] = Inr ?ctx"
    using v by (simp add: amf_step_def sample_event_def handleRegistrationRequest_def bypass_fields bypass_ctx_def Let_def)
  moreover have "amf_step plmn_default (sample_event bypass_response) ?ctx
      = Inr (?ctx, [registration_accept plmn_default 7 []])"
    using m by (simp add: amf_step_def sample_event_def handleAuthResponse_def bypass_fields bypass_ctx_def)
  ultimately show ?thesis by blast
qed

subsection \<open>PDU sessions\<close>



text \<open>Addresses are distinct as long as the pool lasts: two requests get the same address
  exactly when the counter differs by a multiple of 65536.\<close>

theorem ue_addresses_distinct:
  "fst (allocateUeIp s) = fst (allocateUeIp s')
     \<longleftrightarrow> uint (s_ue_ip_counter s) mod 65536 = uint (s_ue_ip_counter s') mod 65536"
  by (simp add: allocateUeIp_def ip_text_eq)

text \<open>The access function answers a PDU session request with an acceptance even when the UE
  never registered, and when the session management function cannot be reached every UE is
  given the same address.\<close>

theorem pdu_accepted_without_registration:
  assumes "ue_ok u" and "dnn_ok dnn" and "psi_ok psi" and "map_of ctx u = None"
  shows "doPduSession u psi dnn (amf_peer n udm (\<lambda>_. None)) (Some ctx)
     = (PduEstablished ''10.45.0.2'' ''10.1.0.4'' ''0x00000101'', Some ctx)"
proof -
  have st: "stoi (json_num psi) = Inr psi" using assms(3) by (simp add: psi_ok_def stoi_json_num)
  have q: "quotefree dnn" using assms(2) by (simp add: dnn_ok_def)
  have "quotefree ''10.45.0.2''" by simp
  note a = pdu_accept_fields [OF this, of u psi dnn]
  show ?thesis
    using pdu_fields [OF assms(1) q assms(3)] a assms(4)
    by (simp add: doPduSession_def amf_peer_def amf_step_def handlePduSessionRequest_def callSmf_def st)
qed

theorem pdu_accepted_without_registration_witness:
  "doPduSession 9 1 ''internet'' (amf_peer plmn_default (\<lambda>_. None) (\<lambda>_. None)) (Some [])
     = (PduEstablished ''10.45.0.2'' ''10.1.0.4'' ''0x00000101'', Some [])"
  by (rule pdu_accepted_without_registration) (simp_all add: ue_ok_def dnn_ok_def psi_ok_def)

subsection \<open>N4\<close>




text \<open>An empty datagram ends the user plane function: whatever arrives after it is neither
  processed nor answered.\<close>

theorem upf_stops_at_empty_datagram:
  "upf_loop u (ds @ [] # rest) = upf_loop u ds"
proof (induction ds arbitrary: u)
  case Nil
  then show ?case by (simp add: upf_recv_def)
next
  case (Cons d ds)
  then show ?case by (cases "upf_recv u d") (auto split: prod.splits)
qed

end
