(* ===== verification/Epc_Tlv.thy ===== *)
theory Epc_Tlv
  imports Text_Frames Tables
begin

text \<open>
  The messages of the 4G core (\<open>4g-simulator/src/common/tlv.h\<close>, \<open>message_types.h\<close>): an
  eight-byte header and information elements \<open>[tag][length][value]\<close>, least significant byte
  first. The reader checks the room for the element header only; the readers of fixed-size
  values look at neither the length field nor the end of the buffer, so a read beyond the
  end, undefined in C++, is \<open>None\<close>. A payload is what \<open>recvFrame\<close> or a datagram delivers.
\<close>

subsection \<open>Message types and tags\<close>

abbreviation S1AP_INITIAL_UE_MSG :: u16 where "S1AP_INITIAL_UE_MSG \<equiv> 0x0001"
abbreviation S1AP_DL_NAS_TRANSPORT :: u16 where "S1AP_DL_NAS_TRANSPORT \<equiv> 0x0002"
abbreviation S1AP_UL_NAS_TRANSPORT :: u16 where "S1AP_UL_NAS_TRANSPORT \<equiv> 0x0003"
abbreviation S1AP_INITIAL_CONTEXT_SETUP_REQ :: u16 where "S1AP_INITIAL_CONTEXT_SETUP_REQ \<equiv> 0x0004"
abbreviation S1AP_INITIAL_CONTEXT_SETUP_RSP :: u16 where "S1AP_INITIAL_CONTEXT_SETUP_RSP \<equiv> 0x0005"
abbreviation S1AP_TAU_REQUEST :: u16 where "S1AP_TAU_REQUEST \<equiv> 0x0006"
abbreviation S1AP_TAU_ACCEPT :: u16 where "S1AP_TAU_ACCEPT \<equiv> 0x0007"
abbreviation S1AP_HANDOVER_REQUIRED :: u16 where "S1AP_HANDOVER_REQUIRED \<equiv> 0x0010"
abbreviation S1AP_HANDOVER_REQUEST :: u16 where "S1AP_HANDOVER_REQUEST \<equiv> 0x0011"
abbreviation S1AP_HANDOVER_REQUEST_ACK :: u16 where "S1AP_HANDOVER_REQUEST_ACK \<equiv> 0x0012"
abbreviation S1AP_HANDOVER_COMMAND :: u16 where "S1AP_HANDOVER_COMMAND \<equiv> 0x0013"
abbreviation S1AP_ENB_STATUS_TRANSFER :: u16 where "S1AP_ENB_STATUS_TRANSFER \<equiv> 0x0014"
abbreviation S1AP_MME_STATUS_TRANSFER :: u16 where "S1AP_MME_STATUS_TRANSFER \<equiv> 0x0015"
abbreviation S1AP_HANDOVER_NOTIFY :: u16 where "S1AP_HANDOVER_NOTIFY \<equiv> 0x0016"
abbreviation S1AP_UE_CONTEXT_RELEASE_CMD :: u16 where "S1AP_UE_CONTEXT_RELEASE_CMD \<equiv> 0x0017"
abbreviation S1AP_UE_CONTEXT_RELEASE_CMPL :: u16 where "S1AP_UE_CONTEXT_RELEASE_CMPL \<equiv> 0x0018"
abbreviation DIA_AIR :: u16 where "DIA_AIR \<equiv> 0x0101"
abbreviation DIA_AIA :: u16 where "DIA_AIA \<equiv> 0x0102"
abbreviation GTP_CREATE_SESSION_REQ :: u16 where "GTP_CREATE_SESSION_REQ \<equiv> 0x0201"
abbreviation GTP_CREATE_SESSION_RSP :: u16 where "GTP_CREATE_SESSION_RSP \<equiv> 0x0202"
abbreviation GTP_MODIFY_BEARER_REQ :: u16 where "GTP_MODIFY_BEARER_REQ \<equiv> 0x0203"
abbreviation GTP_MODIFY_BEARER_RSP :: u16 where "GTP_MODIFY_BEARER_RSP \<equiv> 0x0204"
abbreviation DIA_GX_CCR_I :: u16 where "DIA_GX_CCR_I \<equiv> 0x0401"
abbreviation DIA_GX_CCA_I :: u16 where "DIA_GX_CCA_I \<equiv> 0x0402"

abbreviation ENB_UE_S1AP_ID :: u16 where "ENB_UE_S1AP_ID \<equiv> 0x0010"
abbreviation MME_UE_S1AP_ID :: u16 where "MME_UE_S1AP_ID \<equiv> 0x0011"
abbreviation RRC_CAUSE :: u16 where "RRC_CAUSE \<equiv> 0x0012"
abbreviation TAI_MCC :: u16 where "TAI_MCC \<equiv> 0x0013"
abbreviation TAI_MNC :: u16 where "TAI_MNC \<equiv> 0x0014"
abbreviation TAI_TAC :: u16 where "TAI_TAC \<equiv> 0x0015"
abbreviation EUTRAN_CGI :: u16 where "EUTRAN_CGI \<equiv> 0x0016"
abbreviation ICSR_AMBR_UL :: u16 where "ICSR_AMBR_UL \<equiv> 0x0050"
abbreviation ICSR_AMBR_DL :: u16 where "ICSR_AMBR_DL \<equiv> 0x0051"
abbreviation ICSR_SGW_S1U_IP :: u16 where "ICSR_SGW_S1U_IP \<equiv> 0x0052"
abbreviation ICSR_SGW_TEID :: u16 where "ICSR_SGW_TEID \<equiv> 0x0053"
abbreviation ICSR_ENB_TEID :: u16 where "ICSR_ENB_TEID \<equiv> 0x0054"
abbreviation NAS_PROTO_DISC :: u16 where "NAS_PROTO_DISC \<equiv> 0x0100"
abbreviation NAS_SEC_HDR :: u16 where "NAS_SEC_HDR \<equiv> 0x0101"
abbreviation NAS_MSG_TYPE :: u16 where "NAS_MSG_TYPE \<equiv> 0x0102"
abbreviation NAS_ATTACH_TYPE :: u16 where "NAS_ATTACH_TYPE \<equiv> 0x0103"
abbreviation NAS_KSI :: u16 where "NAS_KSI \<equiv> 0x0104"
abbreviation NAS_ID_TYPE :: u16 where "NAS_ID_TYPE \<equiv> 0x0105"
abbreviation NAS_IMSI :: u16 where "NAS_IMSI \<equiv> 0x0106"
abbreviation NAS_UE_CAP :: u16 where "NAS_UE_CAP \<equiv> 0x0107"
abbreviation NAS_RAND :: u16 where "NAS_RAND \<equiv> 0x0108"
abbreviation NAS_AUTN :: u16 where "NAS_AUTN \<equiv> 0x0109"
abbreviation NAS_RES :: u16 where "NAS_RES \<equiv> 0x010A"
abbreviation NAS_EBI :: u16 where "NAS_EBI \<equiv> 0x010B"
abbreviation NAS_UE_IP :: u16 where "NAS_UE_IP \<equiv> 0x010C"
abbreviation DIA_IMSI :: u16 where "DIA_IMSI \<equiv> 0x0200"
abbreviation DIA_PLMN :: u16 where "DIA_PLMN \<equiv> 0x0201"
abbreviation DIA_RAND :: u16 where "DIA_RAND \<equiv> 0x0202"
abbreviation DIA_AUTN :: u16 where "DIA_AUTN \<equiv> 0x0203"
abbreviation DIA_XRES :: u16 where "DIA_XRES \<equiv> 0x0204"
abbreviation DIA_KASME :: u16 where "DIA_KASME \<equiv> 0x0205"
abbreviation GTP_IMSI :: u16 where "GTP_IMSI \<equiv> 0x0300"
abbreviation GTP_CAUSE :: u16 where "GTP_CAUSE \<equiv> 0x0301"
abbreviation GTP_APN :: u16 where "GTP_APN \<equiv> 0x0302"
abbreviation GTP_EBI :: u16 where "GTP_EBI \<equiv> 0x0304"
abbreviation GTP_QCI :: u16 where "GTP_QCI \<equiv> 0x0305"
abbreviation GTP_SENDER_TEID :: u16 where "GTP_SENDER_TEID \<equiv> 0x0306"
abbreviation GTP_BEARER_TEID :: u16 where "GTP_BEARER_TEID \<equiv> 0x0307"
abbreviation GTP_UE_IP :: u16 where "GTP_UE_IP \<equiv> 0x0308"
abbreviation GTP_ENB_TEID :: u16 where "GTP_ENB_TEID \<equiv> 0x0309"
abbreviation GTP_AMBR_UL :: u16 where "GTP_AMBR_UL \<equiv> 0x030A"
abbreviation GTP_AMBR_DL :: u16 where "GTP_AMBR_DL \<equiv> 0x030B"
abbreviation GX_IMSI :: u16 where "GX_IMSI \<equiv> 0x0400"
abbreviation GX_APN :: u16 where "GX_APN \<equiv> 0x0401"
abbreviation GX_QCI :: u16 where "GX_QCI \<equiv> 0x0402"
abbreviation GX_RULE_NAME :: u16 where "GX_RULE_NAME \<equiv> 0x0403"
abbreviation GX_MAX_UL_BPS :: u16 where "GX_MAX_UL_BPS \<equiv> 0x0404"
abbreviation GX_MAX_DL_BPS :: u16 where "GX_MAX_DL_BPS \<equiv> 0x0405"
abbreviation GX_RESULT_CODE :: u16 where "GX_RESULT_CODE \<equiv> 0x0406"
abbreviation TAU_UPDATE_TYPE :: u16 where "TAU_UPDATE_TYPE \<equiv> 0x0500"
abbreviation TAU_IMSI :: u16 where "TAU_IMSI \<equiv> 0x0501"
abbreviation HO_TYPE :: u16 where "HO_TYPE \<equiv> 0x0600"
abbreviation HO_CAUSE :: u16 where "HO_CAUSE \<equiv> 0x0601"
abbreviation HO_ENB_TEID_NEW :: u16 where "HO_ENB_TEID_NEW \<equiv> 0x0606"
abbreviation HO_PDCP_SN_UL :: u16 where "HO_PDCP_SN_UL \<equiv> 0x0607"
abbreviation HO_PDCP_SN_DL :: u16 where "HO_PDCP_SN_DL \<equiv> 0x0608"

subsection \<open>MessageWriter\<close>

text \<open>The bytes of a text (\<open>writeStr\<close>).\<close>

definition to_bytes :: "string \<Rightarrow> bytes" where
  "to_bytes s = map char_byte s"

lemma frame_to_bytes [simp]: "frame_to_text (to_bytes s) = s"
  by (simp add: frame_to_text_def to_bytes_def)

lemma length_to_bytes [simp]: "length (to_bytes s) = length s"
  by (simp add: to_bytes_def)

datatype tval = T8 byte | T16 u16 | T32 u32 | T64 u64 | TB bytes

type_synonym element = "u16 \<times> tval"

definition le64 :: "u64 \<Rightarrow> bytes" where
  "le64 w = le32 (ucast w) @ le32 (ucast (drop_bit 32 w))"

definition tlv_head :: "u16 \<Rightarrow> u16 \<Rightarrow> bytes" where
  "tlv_head t n = le16 t @ le16 n"

fun write_element :: "element \<Rightarrow> bytes" where
  "write_element (t, T8 v) = tlv_head t 1 @ [v]"
| "write_element (t, T16 v) = tlv_head t 2 @ le16 v"
| "write_element (t, T32 v) = tlv_head t 4 @ le32 v"
| "write_element (t, T64 v) = tlv_head t 8 @ le64 v"
| "write_element (t, TB d) = (let n = word_of_nat (length d) in tlv_head t n @ take (unat n) d)"

definition write_elements :: "element list \<Rightarrow> bytes" where
  "write_elements es = concat (map write_element es)"

text \<open>The payload of a message (\<open>udpPayload\<close>), and the same with the length in front (\<open>frame\<close>).\<close>

definition message :: "u16 \<Rightarrow> u32 \<Rightarrow> element list \<Rightarrow> bytes" where
  "message ty seq es = le16 ty @ le16 0 @ le32 seq @ write_elements es"

definition tcp_frame :: "bytes \<Rightarrow> bytes" where
  "tcp_frame payload = le32 (word_of_nat (length payload)) @ payload"

subsection \<open>MessageReader\<close>

definition msg_type_of :: "bytes \<Rightarrow> u16" where
  "msg_type_of p = (if length p \<ge> 8 then join16 (p ! 0) (p ! 1) else 0)"

definition seq_num_of :: "bytes \<Rightarrow> u32" where
  "seq_num_of p = (if length p \<ge> 8 then join32 (p ! 4) (p ! 5) (p ! 6) (p ! 7) else 0)"

definition body_of :: "bytes \<Rightarrow> bytes" where
  "body_of p = (if length p \<ge> 8 then drop 8 p else p)"

datatype rkind = R8 | R16 | R32 | R64 | RB

definition join64 :: "u32 \<Rightarrow> u32 \<Rightarrow> u64" where
  "join64 lo hi = ucast lo OR push_bit 32 (ucast hi)"

text \<open>One of \<open>readU8\<close> .. \<open>readBytes\<close> after the element header, with the length it announced.\<close>

fun read_value :: "rkind \<Rightarrow> nat \<Rightarrow> bytes \<Rightarrow> (tval \<times> bytes) option" where
  "read_value R8 n (a # s) = Some (T8 a, s)"
| "read_value R16 n (a # b # s) = Some (T16 (join16 a b), s)"
| "read_value R32 n (a # b # c # d # s) = Some (T32 (join32 a b c d), s)"
| "read_value R64 n (a # b # c # d # e # f # g # h # s) = Some (T64 (join64 (join32 a b c d) (join32 e f g h)), s)"
| "read_value RB n s = (if n \<le> length s then Some (TB (take n s), drop n s) else None)"
| "read_value _ n s = None"

lemma read_value_shorter: "read_value k n s = Some (v, r) \<Longrightarrow> length r \<le> length s"
  by (induction k n s rule: read_value.induct) (auto split: if_splits)

text \<open>
  The loop of every handler: read the tags it knows with their kind, skip the others, stop
  when fewer than four bytes are left.
\<close>

function (sequential) read_elements :: "(u16 \<Rightarrow> rkind option) \<Rightarrow> bytes \<Rightarrow> element list option" where
  "read_elements ks (t0 # t1 # l0 # l1 # s) =
     (let t = join16 t0 t1; n = unat (join16 l0 l1)
      in case ks t of
           None \<Rightarrow> read_elements ks (drop n s)
         | Some k \<Rightarrow>
             (case read_value k n s of None \<Rightarrow> None
              | Some (v, r) \<Rightarrow> map_option ((#) (t, v)) (read_elements ks r)))"
| "read_elements ks _ = Some []"
  by pat_completeness auto
termination
  by (relation "measure (\<lambda>(ks, s). length s)") (auto dest: read_value_shorter)

definition read_message :: "(u16 \<times> rkind) list \<Rightarrow> bytes \<Rightarrow> element list option" where
  "read_message ks p = read_elements (map_of ks) (body_of p)"

text \<open>A handler's variable: the last element with the tag, or the initial value.\<close>

definition field :: "element list \<Rightarrow> u16 \<Rightarrow> tval option" where
  "field es t = map_of (rev es) t"

definition f8 :: "byte \<Rightarrow> tval option \<Rightarrow> byte" where
  "f8 d v = (case v of Some (T8 x) \<Rightarrow> x | _ \<Rightarrow> d)"
definition f16 :: "u16 \<Rightarrow> tval option \<Rightarrow> u16" where
  "f16 d v = (case v of Some (T16 x) \<Rightarrow> x | _ \<Rightarrow> d)"
definition f32 :: "u32 \<Rightarrow> tval option \<Rightarrow> u32" where
  "f32 d v = (case v of Some (T32 x) \<Rightarrow> x | _ \<Rightarrow> d)"
definition f64 :: "u64 \<Rightarrow> tval option \<Rightarrow> u64" where
  "f64 d v = (case v of Some (T64 x) \<Rightarrow> x | _ \<Rightarrow> d)"
definition fB :: "bytes \<Rightarrow> tval option \<Rightarrow> bytes" where
  "fB d v = (case v of Some (TB x) \<Rightarrow> x | _ \<Rightarrow> d)"

lemmas field_simps = f8_def f16_def f32_def f64_def fB_def field_def

subsection \<open>What the writer writes, the reader reads\<close>

fun kind_of :: "tval \<Rightarrow> rkind" where
  "kind_of (T8 _) = R8"
| "kind_of (T16 _) = R16"
| "kind_of (T32 _) = R32"
| "kind_of (T64 _) = R64"
| "kind_of (TB _) = RB"

definition value_ok :: "tval \<Rightarrow> bool" where
  "value_ok v = (case v of TB d \<Rightarrow> length d < 2 ^ 16 | _ \<Rightarrow> True)"

definition readable :: "(u16 \<Rightarrow> rkind option) \<Rightarrow> element \<Rightarrow> bool" where
  "readable ks e \<longleftrightarrow> value_ok (snd e) \<and> (ks (fst e) = None \<or> ks (fst e) = Some (kind_of (snd e)))"

lemma join64_le64: "join64 (ucast w) (ucast (drop_bit 32 w)) = w"
proof (rule bit_word_eqI)
  fix n
  assume "n < LENGTH(64)"
  then consider "n < 32" | "32 \<le> n" "n < 64" by fastforce
  then show "bit (join64 (ucast w) (ucast (drop_bit 32 w))) n = bit w n"
    by cases (auto simp: join64_def bit_simps)
qed

fun tval_size :: "tval \<Rightarrow> nat" where
  "tval_size (T8 _) = 1"
| "tval_size (T16 _) = 2"
| "tval_size (T32 _) = 4"
| "tval_size (T64 _) = 8"
| "tval_size (TB d) = length d"

fun value_bytes :: "tval \<Rightarrow> bytes" where
  "value_bytes (T8 v) = [v]"
| "value_bytes (T16 v) = le16 v"
| "value_bytes (T32 v) = le32 v"
| "value_bytes (T64 v) = le64 v"
| "value_bytes (TB d) = d"

lemma value_bytes_length [simp]: "length (value_bytes v) = tval_size v"
  by (cases v) (simp_all add: le16_def le32_def le64_def)

lemma value_ok_size: "value_ok v \<Longrightarrow> tval_size v < 2 ^ 16"
  by (cases v) (simp_all add: value_ok_def)

lemma write_element_split:
  assumes "value_ok v"
  shows "write_element (t, v) = tlv_head t (word_of_nat (tval_size v)) @ value_bytes v"
proof (cases v)
  case (TB d)
  then have "unat (word_of_nat (length d) :: u16) = length d"
    using assms by (simp add: value_ok_def unat_of_nat take_bit_nat_eq_self)
  with TB show ?thesis by simp
qed simp_all

lemma read_value_bytes: "read_value (kind_of v) (tval_size v) (value_bytes v @ s) = Some (v, s)"
  using join16_byte_at join32_byte_at join64_le64
  by (cases v) (simp_all add: le16_def le32_def le64_def)

lemma read_elements_step:
  assumes "readable ks (t, v)"
  shows "read_elements ks (write_element (t, v) @ s) =
     (if ks t = None then read_elements ks s else map_option ((#) (t, v)) (read_elements ks s))"
proof -
  have ok: "value_ok v" "ks t = None \<or> ks t = Some (kind_of v)" using assms by (auto simp: readable_def)
  have n: "unat (word_of_nat (tval_size v) :: u16) = tval_size v"
    using value_ok_size [OF ok(1)] by (simp add: unat_of_nat take_bit_nat_eq_self)
  have h: "read_elements ks (tlv_head t m @ r) =
      (case ks t of None \<Rightarrow> read_elements ks (drop (unat m) r)
       | Some k \<Rightarrow> (case read_value k (unat m) r of None \<Rightarrow> None
          | Some (v, r) \<Rightarrow> map_option ((#) (t, v)) (read_elements ks r)))" for m r
    using join16_byte_at [of t] join16_byte_at [of m] by (simp add: tlv_head_def le16_def Let_def)
  show ?thesis
    unfolding write_element_split [OF ok(1)] append_assoc h n
    using ok(2) read_value_bytes [of v s] by auto
qed

lemma read_written:
  assumes "\<forall>e\<in>set es. readable ks e"
  shows "read_elements ks (write_elements es) = Some (filter (\<lambda>e. ks (fst e) \<noteq> None) es)"
  using assms
proof (induction es)
  case Nil
  then show ?case by (simp add: write_elements_def)
next
  case (Cons e es)
  then have "readable ks (fst e, snd e)" by simp
  from read_elements_step [OF this, of "write_elements es"] Cons show ?case
    by (cases e) (auto simp: write_elements_def)
qed

lemma message_shape:
  "length (message ty seq es) \<ge> 8" "msg_type_of (message ty seq es) = ty" "seq_num_of (message ty seq es) = seq"
  "body_of (message ty seq es) = write_elements es"
  using join16_byte_at [of ty] join32_byte_at [of seq]
  by (simp_all add: message_def msg_type_of_def seq_num_of_def body_of_def le16_def le32_def eval_nat_numeral)

lemma read_message_written:
  assumes "list_all (readable (map_of ks)) es"
  shows "read_message ks (message ty seq es) = Some (filter (\<lambda>e. map_of ks (fst e) \<noteq> None) es)"
  using assms read_written [of es "map_of ks"] by (simp add: read_message_def message_shape list_all_iff)

lemma recv_tcp_frame:
  assumes "0 < length p" and "length p \<le> 65536"
  shows "recv_frame (tcp_frame p @ rest) = Some (p, rest)"
proof -
  let ?w = "word_of_nat (length p) :: u32"
  have u: "unat ?w = length p" using assms by (simp add: unat_of_nat take_bit_nat_eq_self)
  have "?w \<noteq> 0" "\<not> ?w > 65536" using assms u by (auto simp: word_less_nat_alt)
  then show ?thesis by (simp add: tcp_frame_def recv_frame_le32 u)
qed

end
