(* ===== verification/Epc_Gateways.thy ===== *)
theory Epc_Gateways
  imports Epc_Tlv
begin

text \<open>
  The nodes of the 4G core behind the mobility entity: the subscriber profiles and the policy
  node (\<open>subscriber_profile.h\<close>, \<open>pcrf_node.cpp\<close>), the packet gateway (\<open>pgw_node.cpp\<close>), the
  serving gateway (\<open>sgw_node.cpp\<close>) and the subscriber server (\<open>hss_node.cpp\<close>). Each handler
  takes the node's counters and a payload and gives the new counters and what is sent back;
  \<open>None\<close> is a read beyond the end of the payload. The node behind is an argument, a function
  from the payload sent to the payload received (\<open>None\<close>: time-out or closed).
\<close>

type_synonym peer = "bytes \<Rightarrow> bytes option"

subsection \<open>Subscriber profiles\<close>

record SubscriberProfile =
  sp_apn :: string
  sp_qci :: byte
  max_ul_bps :: u32
  max_dl_bps :: u32
  online_charging :: bool
  offline_charging :: bool
  charging_rule :: string

type_synonym profile_registry = "(string, SubscriberProfile) table"

definition make_profile :: "string \<Rightarrow> byte \<Rightarrow> u32 \<Rightarrow> u32 \<Rightarrow> bool \<Rightarrow> bool \<Rightarrow> string \<Rightarrow> SubscriberProfile" where
  "make_profile a q ul dl online offline rule =
     \<lparr> sp_apn = a, sp_qci = q, max_ul_bps = ul, max_dl_bps = dl, online_charging = online,
       offline_charging = offline, charging_rule = rule \<rparr>"

definition profile_add :: "profile_registry \<Rightarrow> string \<Rightarrow> SubscriberProfile \<Rightarrow> profile_registry" where
  "profile_add r key p = tbl_set r key p"

definition registry_init :: profile_registry where
  "registry_init =
     profile_add (profile_add (profile_add (profile_add []
       ''internet'' (make_profile ''internet'' 9 50000000 100000000 False True ''internet_rule''))
       ''ims'' (make_profile ''ims'' 1 5000000 5000000 False False ''ims_rule''))
       ''mms'' (make_profile ''mms'' 9 1000000 2000000 False True ''mms_rule''))
       ''gaming'' (make_profile ''gaming'' 4 10000000 20000000 False True ''gaming_rule'')"

text \<open>\<open>None\<close> is the exception of \<open>profiles_.at("internet")\<close>.\<close>

definition profile_get :: "profile_registry \<Rightarrow> string \<Rightarrow> SubscriberProfile option" where
  "profile_get r a = (case map_of r a of Some p \<Rightarrow> Some p | None \<Rightarrow> map_of r ''internet'')"

subsection \<open>Policy node\<close>

definition ccr_kinds :: "(u16 \<times> rkind) list" where
  "ccr_kinds = [(GX_IMSI, R64), (GX_APN, RB), (GX_QCI, R8)]"

definition cca_message :: "u32 \<Rightarrow> u64 \<Rightarrow> SubscriberProfile \<Rightarrow> bytes" where
  "cca_message seq imsi p =
     message DIA_GX_CCA_I seq
       [(GX_RESULT_CODE, T8 1), (GX_IMSI, T64 imsi), (GX_APN, TB (to_bytes (sp_apn p))), (GX_QCI, T8 (sp_qci p)),
        (GX_MAX_UL_BPS, T32 (max_ul_bps p)), (GX_MAX_DL_BPS, T32 (max_dl_bps p)),
        (GX_RULE_NAME, TB (to_bytes (charging_rule p)))]"

definition handleCCR :: "profile_registry \<Rightarrow> u32 \<Rightarrow> bytes \<Rightarrow> (u32 \<times> bytes) option" where
  "handleCCR reg seq payload =
     (case read_message ccr_kinds payload of None \<Rightarrow> None
      | Some es \<Rightarrow>
          (let imsi = f64 0 (field es GX_IMSI); a = frame_to_text (fB [] (field es GX_APN))
           in map_option (\<lambda>p. (seq + 1, cca_message seq imsi p)) (profile_get reg (if a = [] then ''internet'' else a))))"

text \<open>One frame off the connection of the packet gateway.\<close>

definition pcrf_receive :: "profile_registry \<Rightarrow> u32 \<Rightarrow> bytes \<Rightarrow> (u32 \<times> bytes option) option" where
  "pcrf_receive reg seq payload =
     (if length payload < 8 then Some (seq, None)
      else if msg_type_of payload = DIA_GX_CCR_I
      then map_option (\<lambda>(s, r). (s, Some r)) (handleCCR reg seq payload)
      else Some (seq, None))"

subsection \<open>Dotted addresses\<close>

definition dotted :: "bytes \<Rightarrow> string" where
  "dotted bs =
     json_num (uint (bs ! 0)) @ ''.'' @ json_num (uint (bs ! 1)) @ ''.'' @ json_num (uint (bs ! 2)) @ ''.''
     @ json_num (uint (bs ! 3))"

text \<open>\<open>sscanf("%u.%u.%u.%u")\<close> on a string without signs, each number cut to eight bits.\<close>

definition scan_uint :: "string \<Rightarrow> (byte \<times> string) option" where
  "scan_uint s =
     (let t = dropWhile is_space s; ds = takeWhile is_digit t
      in if ds = [] then None else Some (word_of_nat (dec_value ds), dropWhile is_digit t))"

fun scan_dots :: "nat \<Rightarrow> string \<Rightarrow> bytes option" where
  "scan_dots 0 s = Some []"
| "scan_dots (Suc n) s =
     (case scan_uint s of None \<Rightarrow> None
      | Some (b, r) \<Rightarrow>
          if n = 0 then Some [b]
          else (case r of c # r' \<Rightarrow> if c = CHR ''.'' then map_option ((#) b) (scan_dots n r') else None | [] \<Rightarrow> None))"

definition scan_dotted :: "string \<Rightarrow> bytes option" where
  "scan_dotted s = scan_dots 4 s"

lemma scan_uint_num:
  fixes b :: byte
  assumes "s = [] \<or> hd s = CHR ''.''"
  shows "scan_uint (json_num (uint b) @ s) = Some (b, s)"
proof -
  let ?d = "nat_dec (unat b)"
  have j: "json_num (uint b) = ?d" by (simp add: json_num_def)
  have dot: "\<not> is_digit CHR ''.''" by (simp add: is_digit_def)
  obtain c cs where c: "?d = c # cs" "is_digit c" using nat_dec_hd by blast
  then have "dropWhile is_space (?d @ s) = ?d @ s" by (simp add: is_digit_space)
  moreover have "takeWhile is_digit (?d @ s) = ?d"
    using assms dot nat_dec_digits [of _ "unat b"] by (cases s) (simp_all add: takeWhile_append2)
  moreover have "dropWhile is_digit (?d @ s) = s"
    using assms dot nat_dec_digits [of _ "unat b"] by (cases s) (simp_all add: dropWhile_append2)
  ultimately show ?thesis by (simp add: scan_uint_def j)
qed

lemma scan_dotted_dotted:
  assumes "length bs = 4"
  shows "scan_dotted (dotted bs) = Some bs"
proof -
  obtain a b c d where bs: "bs = [a, b, c, d]"
    using assms by (auto simp: length_Suc_conv eval_nat_numeral)
  show ?thesis
    unfolding scan_dotted_def dotted_def bs
    by (simp add: eval_nat_numeral scan_uint_num [where s = "CHR ''.'' # t" for t] scan_uint_num [where s = "[]", simplified])
qed

subsection \<open>Packet gateway\<close>

record pgw_state =
  pgw_next_teid :: u32
  pgw_next_ip :: u32
  pgw_next_seq :: u32
  pcrf_connected :: bool

definition pgw_init :: pgw_state where
  "pgw_init = \<lparr> pgw_next_teid = 2000, pgw_next_ip = 0x0A000001, pgw_next_seq = 1, pcrf_connected = True \<rparr>"

definition allocateIP :: "pgw_state \<Rightarrow> string \<times> pgw_state" where
  "allocateIP g = (dotted (be32 (pgw_next_ip g)), g\<lparr> pgw_next_ip := pgw_next_ip g + 1 \<rparr>)"

definition ccr_message :: "u32 \<Rightarrow> u64 \<Rightarrow> string \<Rightarrow> byte \<Rightarrow> bytes" where
  "ccr_message seq imsi a q =
     message DIA_GX_CCR_I seq [(GX_IMSI, T64 imsi), (GX_APN, TB (to_bytes a)), (GX_QCI, T8 q)]"

definition cca_kinds :: "(u16 \<times> rkind) list" where
  "cca_kinds = [(GX_RESULT_CODE, R8), (GX_RULE_NAME, RB)]"

definition sendCCRandWaitCCA :: "peer \<Rightarrow> pgw_state \<Rightarrow> u64 \<Rightarrow> string \<Rightarrow> byte \<Rightarrow> (bool \<times> pgw_state) option" where
  "sendCCRandWaitCCA pcrf g imsi a q =
     (let g1 = g\<lparr> pgw_next_seq := pgw_next_seq g + 1 \<rparr>
      in case pcrf (ccr_message (pgw_next_seq g) imsi a q) of
           None \<Rightarrow> Some (False, g1)
         | Some p \<Rightarrow>
             if msg_type_of p \<noteq> DIA_GX_CCA_I then Some (False, g1)
             else map_option (\<lambda>es. (f8 0 (field es GX_RESULT_CODE) = 1, g1)) (read_message cca_kinds p))"

definition pgw_kinds :: "(u16 \<times> rkind) list" where
  "pgw_kinds = [(GTP_IMSI, R64), (GTP_APN, RB), (GTP_QCI, R8), (GTP_EBI, R8)]"

definition pgw_reject :: "u32 \<Rightarrow> bytes" where
  "pgw_reject seq = message GTP_CREATE_SESSION_RSP seq [(GTP_CAUSE, T8 64)]"

definition pgw_accept :: "u32 \<Rightarrow> u32 \<Rightarrow> bytes \<Rightarrow> byte \<Rightarrow> bytes" where
  "pgw_accept seq teid ip_b ebi =
     message GTP_CREATE_SESSION_RSP seq
       [(GTP_CAUSE, T8 16), (GTP_SENDER_TEID, T32 teid), (GTP_UE_IP, TB ip_b), (GTP_EBI, T8 ebi)]"

definition pgw_create :: "pgw_state \<Rightarrow> byte \<Rightarrow> pgw_state \<times> bytes" where
  "pgw_create g ebi =
     (let (ip, g1) = allocateIP g; teid = pgw_next_teid g1;
          ip_b = (case scan_dotted ip of Some bs \<Rightarrow> bs | None \<Rightarrow> [0, 0, 0, 0]);
          g2 = g1\<lparr> pgw_next_teid := teid + 1, pgw_next_seq := pgw_next_seq g1 + 1 \<rparr>
      in (g2, pgw_accept (pgw_next_seq g1) teid ip_b ebi))"

definition pgw_handleCreateSessionReq :: "peer \<Rightarrow> pgw_state \<Rightarrow> bytes \<Rightarrow> (pgw_state \<times> bytes) option" where
  "pgw_handleCreateSessionReq pcrf g payload =
     (case read_message pgw_kinds payload of None \<Rightarrow> None
      | Some es \<Rightarrow>
          (let imsi = f64 0 (field es GTP_IMSI); a = frame_to_text (fB [] (field es GTP_APN));
               q = f8 9 (field es GTP_QCI); ebi = f8 5 (field es GTP_EBI)
           in case (if pcrf_connected g
                    then sendCCRandWaitCCA pcrf g imsi (if a = [] then ''internet'' else a) q
                    else Some (True, g)) of
                None \<Rightarrow> None
              | Some (ok, g1) \<Rightarrow>
                  Some (if ok then pgw_create g1 ebi
                        else (g1\<lparr> pgw_next_seq := pgw_next_seq g1 + 1 \<rparr>, pgw_reject (pgw_next_seq g1)))))"

definition pgw_receive :: "peer \<Rightarrow> pgw_state \<Rightarrow> bytes \<Rightarrow> (pgw_state \<times> bytes option) option" where
  "pgw_receive pcrf g payload =
     (if length payload < 8 \<or> msg_type_of payload \<noteq> GTP_CREATE_SESSION_REQ then Some (g, None)
      else map_option (\<lambda>(g', r). (g', Some r)) (pgw_handleCreateSessionReq pcrf g payload))"

subsection \<open>Serving gateway\<close>

record sgw_state =
  sgw_next_teid :: u32
  sgw_next_seq :: u32

definition sgw_init :: sgw_state where
  "sgw_init = \<lparr> sgw_next_teid = 1000, sgw_next_seq = 1 \<rparr>"

definition sgw_kinds :: "(u16 \<times> rkind) list" where
  "sgw_kinds = [(GTP_IMSI, R64), (GTP_APN, RB), (GTP_EBI, R8), (GTP_QCI, R8), (GTP_AMBR_UL, R32), (GTP_AMBR_DL, R32)]"

definition s5_request :: "u32 \<Rightarrow> u64 \<Rightarrow> string \<Rightarrow> byte \<Rightarrow> byte \<Rightarrow> u32 \<Rightarrow> u32 \<Rightarrow> u32 \<Rightarrow> bytes" where
  "s5_request seq imsi a ebi q teid ul dl =
     message GTP_CREATE_SESSION_REQ seq
       [(GTP_IMSI, T64 imsi), (GTP_APN, TB (to_bytes a)), (GTP_EBI, T8 ebi), (GTP_QCI, T8 q),
        (GTP_SENDER_TEID, T32 teid), (GTP_AMBR_UL, T32 ul), (GTP_AMBR_DL, T32 dl)]"

definition s5_kinds :: "(u16 \<times> rkind) list" where
  "s5_kinds = [(GTP_CAUSE, R8), (GTP_UE_IP, RB)]"

definition s11_response :: "u32 \<Rightarrow> u32 \<Rightarrow> u32 \<Rightarrow> u64 \<Rightarrow> bytes \<Rightarrow> bytes" where
  "s11_response seq s11 s1u imsi ip_b =
     message GTP_CREATE_SESSION_RSP seq
       [(GTP_CAUSE, T8 16), (GTP_SENDER_TEID, T32 s11), (GTP_BEARER_TEID, T32 s1u), (GTP_IMSI, T64 imsi),
        (GTP_UE_IP, TB (take 4 ip_b))]"

definition sgw_handleCreateSessionReq :: "peer \<Rightarrow> sgw_state \<Rightarrow> bytes \<Rightarrow> (sgw_state \<times> bytes option) option" where
  "sgw_handleCreateSessionReq pgw g payload =
     (case read_message sgw_kinds payload of None \<Rightarrow> None
      | Some es \<Rightarrow>
          (let imsi = f64 0 (field es GTP_IMSI); a = frame_to_text (fB [] (field es GTP_APN));
               ebi = f8 5 (field es GTP_EBI); q = f8 9 (field es GTP_QCI);
               ul = f32 50000000 (field es GTP_AMBR_UL); dl = f32 100000000 (field es GTP_AMBR_DL);
               s11 = sgw_next_teid g; s1u = sgw_next_teid g + 1;
               g1 = g\<lparr> sgw_next_teid := sgw_next_teid g + 2, sgw_next_seq := sgw_next_seq g + 1 \<rparr>
           in case pgw (s5_request (sgw_next_seq g) imsi a ebi q s11 ul dl) of
                None \<Rightarrow> Some (g1, None)
              | Some p \<Rightarrow>
                  (case read_message s5_kinds p of None \<Rightarrow> None
                   | Some ps \<Rightarrow>
                       (let ip_b = fB [] (field ps GTP_UE_IP)
                        in if f8 0 (field ps GTP_CAUSE) \<noteq> 16 \<or> length ip_b < 4 then Some (g1, None)
                           else Some (g1\<lparr> sgw_next_seq := sgw_next_seq g1 + 1 \<rparr>,
                                      Some (s11_response (sgw_next_seq g1) s11 s1u imsi ip_b))))))"

definition modify_kinds :: "(u16 \<times> rkind) list" where
  "modify_kinds = [(GTP_ENB_TEID, R32), (GTP_IMSI, R64)]"

definition sgw_handleModifyBearerReq :: "sgw_state \<Rightarrow> bytes \<Rightarrow> (sgw_state \<times> bytes option) option" where
  "sgw_handleModifyBearerReq g payload =
     map_option (\<lambda>es. (g\<lparr> sgw_next_seq := sgw_next_seq g + 1 \<rparr>,
         Some (message GTP_MODIFY_BEARER_RSP (sgw_next_seq g) [(GTP_CAUSE, T8 16)])))
       (read_message modify_kinds payload)"

definition sgw_receive :: "peer \<Rightarrow> sgw_state \<Rightarrow> bytes \<Rightarrow> (sgw_state \<times> bytes option) option" where
  "sgw_receive pgw g payload =
     (if length payload < 8 then Some (g, None)
      else if msg_type_of payload = GTP_CREATE_SESSION_REQ then sgw_handleCreateSessionReq pgw g payload
      else if msg_type_of payload = GTP_MODIFY_BEARER_REQ then sgw_handleModifyBearerReq g payload
      else Some (g, None))"

subsection \<open>Subscriber server\<close>

text \<open>\<open>std::mt19937\<close>: the seeded state, and the outputs before the state is used up once more.\<close>

fun mt_seeded :: "u32 \<Rightarrow> nat \<Rightarrow> u32" where
  "mt_seeded s 0 = s"
| "mt_seeded s (Suc i) = (let x = mt_seeded s i in 1812433253 * (x XOR drop_bit 30 x) + word_of_nat (Suc i))"

definition mt_temper :: "u32 \<Rightarrow> u32" where
  "mt_temper y0 =
     (let y1 = y0 XOR drop_bit 11 y0;
          y2 = y1 XOR (push_bit 7 y1 AND 0x9d2c5680);
          y3 = y2 XOR (push_bit 15 y2 AND 0xefc60000)
      in y3 XOR drop_bit 18 y3)"

text \<open>The output number \<open>k < 227\<close>, which depends on the seeded state alone.\<close>

definition mt_output :: "u32 \<Rightarrow> nat \<Rightarrow> u32" where
  "mt_output s k =
     (let y = (mt_seeded s k AND 0x80000000) OR (mt_seeded s (k + 1) AND 0x7fffffff);
          m = mt_seeded s (k + 397) XOR drop_bit 1 y
      in mt_temper (if bit y 0 then m XOR 0x9908b0df else m))"

record AuthVectors =
  av_rand :: bytes
  av_autn :: bytes
  av_xres :: bytes
  av_kasme :: bytes

definition zero_vectors :: AuthVectors where
  "zero_vectors = \<lparr> av_rand = replicate 16 0, av_autn = replicate 16 0, av_xres = replicate 8 0,
     av_kasme = replicate 32 0 \<rparr>"

definition generateAuthVectors :: "u64 \<Rightarrow> AuthVectors" where
  "generateAuthVectors imsi =
     (let seed = ucast (imsi XOR drop_bit 32 imsi) :: u32;
          rnd = map (\<lambda>k. ucast (mt_output seed k)) [0..<16]
      in \<lparr> av_rand = rnd, av_autn = map (\<lambda>b. b XOR 0xAA) rnd, av_xres = map (\<lambda>b. b XOR 0x55) (take 8 rnd),
           av_kasme = replicate 32 0 \<rparr>)"

definition air_kinds :: "(u16 \<times> rkind) list" where
  "air_kinds = [(DIA_IMSI, R64), (DIA_PLMN, R32)]"

definition aia_message :: "u32 \<Rightarrow> u64 \<Rightarrow> AuthVectors \<Rightarrow> bytes" where
  "aia_message seq imsi v =
     message DIA_AIA seq
       [(DIA_IMSI, T64 imsi), (DIA_RAND, TB (av_rand v)), (DIA_AUTN, TB (av_autn v)), (DIA_XRES, TB (av_xres v)),
        (DIA_KASME, TB (av_kasme v))]"

definition handleAIR :: "u32 \<Rightarrow> bytes \<Rightarrow> (u32 \<times> bytes) option" where
  "handleAIR seq payload =
     map_option (\<lambda>es. let imsi = f64 0 (field es DIA_IMSI) in (seq + 1, aia_message seq imsi (generateAuthVectors imsi)))
       (read_message air_kinds payload)"

definition hss_receive :: "u32 \<Rightarrow> bytes \<Rightarrow> (u32 \<times> bytes option) option" where
  "hss_receive seq payload =
     (if msg_type_of payload = DIA_AIR then map_option (\<lambda>(s, r). (s, Some r)) (handleAIR seq payload)
      else Some (seq, None))"

subsection \<open>The chain behind the serving gateway\<close>

text \<open>The nodes as the peers of those in front of them.\<close>

definition pcrf_peer :: "profile_registry \<Rightarrow> u32 \<Rightarrow> peer" where
  "pcrf_peer reg seq p = (case pcrf_receive reg seq p of Some (_, r) \<Rightarrow> r | None \<Rightarrow> None)"

definition pgw_peer :: "peer \<Rightarrow> pgw_state \<Rightarrow> peer" where
  "pgw_peer pcrf g p = (case pgw_receive pcrf g p of Some (_, r) \<Rightarrow> r | None \<Rightarrow> None)"

definition sgw_peer :: "peer \<Rightarrow> sgw_state \<Rightarrow> peer" where
  "sgw_peer pgw g p = (case sgw_receive pgw g p of Some (_, r) \<Rightarrow> r | None \<Rightarrow> None)"

definition hss_peer :: "u32 \<Rightarrow> peer" where
  "hss_peer seq p = (case hss_receive seq p of Some (_, r) \<Rightarrow> r | None \<Rightarrow> None)"

lemma vectors_shape:
  "length (av_rand (generateAuthVectors i)) = 16" "length (av_autn (generateAuthVectors i)) = 16"
  "length (av_xres (generateAuthVectors i)) = 8" "length (av_kasme (generateAuthVectors i)) = 32"
  by (simp_all add: generateAuthVectors_def Let_def)

lemmas reading = read_message_written readable_def value_ok_def field_simps message_shape

lemma kinds_simps [simp]:
  "map_of ccr_kinds t = (if t = GX_IMSI then Some R64 else if t = GX_APN then Some RB
     else if t = GX_QCI then Some R8 else None)"
  "map_of cca_kinds t = (if t = GX_RESULT_CODE then Some R8 else if t = GX_RULE_NAME then Some RB else None)"
  "map_of pgw_kinds t = (if t = GTP_IMSI then Some R64 else if t = GTP_APN then Some RB
     else if t = GTP_QCI then Some R8 else if t = GTP_EBI then Some R8 else None)"
  "map_of s5_kinds t = (if t = GTP_CAUSE then Some R8 else if t = GTP_UE_IP then Some RB else None)"
  "map_of modify_kinds t = (if t = GTP_ENB_TEID then Some R32 else if t = GTP_IMSI then Some R64 else None)"
  "map_of air_kinds t = (if t = DIA_IMSI then Some R64 else if t = DIA_PLMN then Some R32 else None)"
  by (simp_all add: ccr_kinds_def cca_kinds_def pgw_kinds_def s5_kinds_def modify_kinds_def air_kinds_def)

lemma sgw_kinds_simp [simp]:
  "map_of sgw_kinds t = (if t = GTP_IMSI then Some R64 else if t = GTP_APN then Some RB else if t = GTP_EBI then Some R8
     else if t = GTP_QCI then Some R8 else if t = GTP_AMBR_UL then Some R32 else if t = GTP_AMBR_DL then Some R32
     else None)"
  by (simp add: sgw_kinds_def)

lemma not_short [simp]: "\<not> length (message ty seq es) < 8"
  using message_shape(1) [of ty seq es] by simp

definition internet_profile :: SubscriberProfile where
  "internet_profile = make_profile ''internet'' 9 50000000 100000000 False True ''internet_rule''"

lemma get_internet: "profile_get registry_init ''internet'' = Some internet_profile"
  by (simp add: profile_get_def registry_init_def profile_add_def internet_profile_def)

lemma pcrf_answers:
  "pcrf_peer registry_init seq (ccr_message n imsi ''internet'' q) = Some (cca_message seq imsi internet_profile)"
proof -
  have "read_message ccr_kinds (ccr_message n imsi ''internet'' q)
      = Some [(GX_IMSI, T64 imsi), (GX_APN, TB (to_bytes ''internet'')), (GX_QCI, T8 q)]"
    unfolding ccr_message_def by (subst read_message_written) (simp_all add: readable_def value_ok_def)
  then have "handleCCR registry_init seq (ccr_message n imsi ''internet'' q)
      = Some (seq + 1, cca_message seq imsi internet_profile)"
    by (simp add: handleCCR_def field_simps get_internet)
  then show ?thesis by (simp add: pcrf_peer_def pcrf_receive_def ccr_message_def message_shape)
qed

lemma cca_read: "read_message cca_kinds (cca_message seq imsi internet_profile)
    = Some [(GX_RESULT_CODE, T8 1), (GX_RULE_NAME, TB (to_bytes ''internet_rule''))]"
  unfolding cca_message_def
  by (subst read_message_written) (simp_all add: readable_def value_ok_def internet_profile_def make_profile_def)

lemma ccr_approved:
  "sendCCRandWaitCCA (pcrf_peer registry_init seq) g imsi ''internet'' q
     = Some (True, g\<lparr> pgw_next_seq := pgw_next_seq g + 1 \<rparr>)"
proof -
  have "msg_type_of (cca_message seq imsi internet_profile) = DIA_GX_CCA_I"
    unfolding cca_message_def by (rule message_shape)
  then show ?thesis
    using cca_read [of seq imsi] by (simp add: sendCCRandWaitCCA_def pcrf_answers field_simps)
qed

text \<open>The state of the packet gateway after one accepted session, and its address.\<close>

definition pgw_after :: "pgw_state \<Rightarrow> pgw_state" where
  "pgw_after g = \<lparr> pgw_next_teid = pgw_next_teid g + 1, pgw_next_ip = pgw_next_ip g + 1,
     pgw_next_seq = pgw_next_seq g + (if pcrf_connected g then 2 else 1), pcrf_connected = pcrf_connected g \<rparr>"

lemma be32_length [simp]: "length (be32 w) = 4"
  by (simp add: be32_def)

lemma pgw_creates:
  "pgw_create g ebi = (g\<lparr> pgw_next_ip := pgw_next_ip g + 1, pgw_next_teid := pgw_next_teid g + 1,
       pgw_next_seq := pgw_next_seq g + 1 \<rparr>,
     pgw_accept (pgw_next_seq g) (pgw_next_teid g) (be32 (pgw_next_ip g)) ebi)"
  by (simp add: pgw_create_def allocateIP_def scan_dotted_dotted Let_def)

lemma pgw_answers:
  "pgw_receive (pcrf_peer registry_init seq) g (s5_request n imsi ''internet'' ebi q teid ul dl)
     = Some (pgw_after g,
         Some (pgw_accept (pgw_next_seq g + (if pcrf_connected g then 1 else 0)) (pgw_next_teid g)
           (be32 (pgw_next_ip g)) ebi))"
proof -
  have r: "read_message pgw_kinds (s5_request n imsi ''internet'' ebi q teid ul dl)
      = Some [(GTP_IMSI, T64 imsi), (GTP_APN, TB (to_bytes ''internet'')), (GTP_EBI, T8 ebi), (GTP_QCI, T8 q)]"
    unfolding s5_request_def by (subst read_message_written) (simp_all add: readable_def value_ok_def)
  have "pgw_handleCreateSessionReq (pcrf_peer registry_init seq) g (s5_request n imsi ''internet'' ebi q teid ul dl)
      = Some (pgw_after g, pgw_accept (pgw_next_seq g + (if pcrf_connected g then 1 else 0)) (pgw_next_teid g)
           (be32 (pgw_next_ip g)) ebi)"
    by (cases g) (simp add: pgw_handleCreateSessionReq_def r field_simps ccr_approved pgw_creates pgw_after_def)
  moreover have "msg_type_of (s5_request n imsi ''internet'' ebi q teid ul dl) = GTP_CREATE_SESSION_REQ"
    "\<not> length (s5_request n imsi ''internet'' ebi q teid ul dl) < 8"
    unfolding s5_request_def by (simp_all add: message_shape)
  ultimately show ?thesis by (simp add: pgw_receive_def)
qed

definition s11_request :: "u32 \<Rightarrow> u64 \<Rightarrow> bytes" where
  "s11_request seq imsi =
     message GTP_CREATE_SESSION_REQ seq
       [(GTP_IMSI, T64 imsi), (GTP_APN, TB (to_bytes ''internet'')), (GTP_EBI, T8 5), (GTP_QCI, T8 9),
        (GTP_AMBR_UL, T32 50000000), (GTP_AMBR_DL, T32 100000000)]"

definition sgw_after :: "sgw_state \<Rightarrow> sgw_state" where
  "sgw_after g = \<lparr> sgw_next_teid = sgw_next_teid g + 2, sgw_next_seq = sgw_next_seq g + 2 \<rparr>"

lemma sgw_answers:
  "sgw_receive (pgw_peer (pcrf_peer registry_init seq) p) g (s11_request n imsi)
     = Some (sgw_after g, Some (s11_response (sgw_next_seq g + 1) (sgw_next_teid g) (sgw_next_teid g + 1) imsi
         (be32 (pgw_next_ip p))))"
proof -
  let ?accept = "\<lambda>ebi. pgw_accept (pgw_next_seq p + (if pcrf_connected p then 1 else 0)) (pgw_next_teid p)
    (be32 (pgw_next_ip p)) ebi"
  have r: "read_message sgw_kinds (s11_request n imsi)
      = Some [(GTP_IMSI, T64 imsi), (GTP_APN, TB (to_bytes ''internet'')), (GTP_EBI, T8 5), (GTP_QCI, T8 9),
        (GTP_AMBR_UL, T32 50000000), (GTP_AMBR_DL, T32 100000000)]"
    unfolding s11_request_def by (subst read_message_written) (simp_all add: readable_def value_ok_def)
  have a: "pgw_peer (pcrf_peer registry_init seq) p (s5_request k imsi ''internet'' ebi q teid ul dl) = Some (?accept ebi)"
    for k ebi q teid ul dl
    by (simp add: pgw_peer_def pgw_answers)
  have b: "read_message s5_kinds (?accept ebi) = Some [(GTP_CAUSE, T8 16), (GTP_UE_IP, TB (be32 (pgw_next_ip p)))]" for ebi
    unfolding pgw_accept_def by (subst read_message_written) (simp_all add: readable_def value_ok_def)
  have t: "msg_type_of (s11_request n imsi) = GTP_CREATE_SESSION_REQ" "\<not> length (s11_request n imsi) < 8"
    unfolding s11_request_def by (simp_all add: message_shape)
  show ?thesis
    unfolding sgw_receive_def t sgw_handleCreateSessionReq_def r option.case
    using b by (simp add: t field_simps a sgw_after_def Let_def)
qed

definition modify_request :: "u32 \<Rightarrow> u32 \<Rightarrow> u64 \<Rightarrow> bytes" where
  "modify_request seq teid imsi =
     message GTP_MODIFY_BEARER_REQ seq [(GTP_ENB_TEID, T32 teid), (GTP_IMSI, T64 imsi)]"

lemma sgw_modifies:
  "sgw_receive pgw g (modify_request n teid imsi)
     = Some (g\<lparr> sgw_next_seq := sgw_next_seq g + 1 \<rparr>,
         Some (message GTP_MODIFY_BEARER_RSP (sgw_next_seq g) [(GTP_CAUSE, T8 16)]))"
proof -
  have "read_message modify_kinds (modify_request n teid imsi)
      = Some [(GTP_ENB_TEID, T32 teid), (GTP_IMSI, T64 imsi)]"
    unfolding modify_request_def by (subst read_message_written) (simp_all add: readable_def value_ok_def)
  then show ?thesis by (simp add: sgw_receive_def sgw_handleModifyBearerReq_def modify_request_def message_shape)
qed

lemma hss_answers:
  "hss_receive seq (message DIA_AIR n [(DIA_IMSI, T64 imsi), (DIA_PLMN, T32 plmn)])
     = Some (seq + 1, Some (aia_message seq imsi (generateAuthVectors imsi)))"
proof -
  have "read_message air_kinds (message DIA_AIR n [(DIA_IMSI, T64 imsi), (DIA_PLMN, T32 plmn)])
      = Some [(DIA_IMSI, T64 imsi), (DIA_PLMN, T32 plmn)]"
    by (subst read_message_written) (simp_all add: readable_def value_ok_def)
  then show ?thesis by (simp add: hss_receive_def handleAIR_def message_shape field_simps)
qed

end
