(* ===== verification/Epc_Store.thy ===== *)
theory Epc_Store
  imports Epc_Gateways
begin

text \<open>
  The UE contexts of the mobility entity (\<open>mme/ue_context.h\<close>) and the sharded store that holds
  them (\<open>mme/ue_context_store.h\<close>): 64 maps, the identifier modulo 64 selects one. A context is
  shared by pointer and never replaced, so a change through the pointer is \<open>store_adjust\<close>.
  Each operation holds the lock of one shard, so it is one step. The time stamp of the attach
  only feeds the metrics and is left out.
\<close>

subsection \<open>Contexts\<close>

datatype EmmState =
    DEREGISTERED
  | REGISTERED_INITIATED
  | AUTH_PENDING
  | SESSION_PENDING
  | REGISTERED
  | DEREGISTERED_INITIATED

record Bearer =
  b_ebi :: byte
  b_qci :: byte
  sgw_s11_teid :: u32
  sgw_s1u_teid :: u32
  pgw_s5_teid :: u32
  enb_s1u_teid :: u32
  b_ue_ip :: string

record EpsUe =
  ue_imsi :: u64
  mme_ue_id :: u32
  enb_ue_id :: u32
  emm_state :: EmmState
  ue_auth :: AuthVectors
  bearers :: "Bearer list"
  tai_mcc :: u16
  tai_mnc :: u16
  tai_tac :: u16

definition defaultBearer :: "EpsUe \<Rightarrow> Bearer option" where
  "defaultBearer c = find (\<lambda>b. b_ebi b = 5) (bearers c)"

text \<open>A change through the pointer that \<open>defaultBearer\<close> returns.\<close>

fun set_first :: "('a \<Rightarrow> bool) \<Rightarrow> ('a \<Rightarrow> 'a) \<Rightarrow> 'a list \<Rightarrow> 'a list" where
  "set_first p f [] = []"
| "set_first p f (x # xs) = (if p x then f x # xs else x # set_first p f xs)"

definition set_default_teid :: "u32 \<Rightarrow> EpsUe \<Rightarrow> EpsUe" where
  "set_default_teid teid c =
     c\<lparr> bearers := set_first (\<lambda>b. b_ebi b = 5) (\<lambda>b. b\<lparr> enb_s1u_teid := teid \<rparr>) (bearers c) \<rparr>"

subsection \<open>The sharded store\<close>

record ue_store =
  shards :: "(u32, EpsUe) table list"
  next_id :: u32

definition NUM_SHARDS :: nat where "NUM_SHARDS = 64"

definition store_init :: ue_store where
  "store_init = \<lparr> shards = replicate NUM_SHARDS [], next_id = 1 \<rparr>"

definition shard_of :: "u32 \<Rightarrow> nat" where
  "shard_of uid = unat uid mod NUM_SHARDS"

definition store_find :: "ue_store \<Rightarrow> u32 \<Rightarrow> EpsUe option" where
  "store_find s uid = map_of (shards s ! shard_of uid) uid"

definition store_put :: "ue_store \<Rightarrow> u32 \<Rightarrow> EpsUe \<Rightarrow> ue_store" where
  "store_put s uid c = s\<lparr> shards := (shards s)[shard_of uid := tbl_set (shards s ! shard_of uid) uid c] \<rparr>"

definition store_insert :: "ue_store \<Rightarrow> EpsUe \<Rightarrow> u32 \<times> ue_store" where
  "store_insert s c =
     (let uid = next_id s in (uid, store_put (s\<lparr> next_id := uid + 1 \<rparr>) uid (c\<lparr> mme_ue_id := uid \<rparr>)))"

definition store_remove :: "ue_store \<Rightarrow> u32 \<Rightarrow> ue_store" where
  "store_remove s uid = s\<lparr> shards := (shards s)[shard_of uid := tbl_del (shards s ! shard_of uid) uid] \<rparr>"

definition store_adjust :: "ue_store \<Rightarrow> u32 \<Rightarrow> (EpsUe \<Rightarrow> EpsUe) \<Rightarrow> ue_store" where
  "store_adjust s uid f = (case store_find s uid of None \<Rightarrow> s | Some c \<Rightarrow> store_put s uid (f c))"

definition store_size :: "ue_store \<Rightarrow> nat" where
  "store_size s = sum_list (map length (shards s))"

text \<open>The contexts in the order \<open>forEach\<close> visits them, shard by shard.\<close>

definition store_contexts :: "ue_store \<Rightarrow> EpsUe list" where
  "store_contexts s = concat (map (map snd) (shards s))"

definition store_ok :: "ue_store \<Rightarrow> bool" where
  "store_ok s \<longleftrightarrow> length (shards s) = NUM_SHARDS \<and>
     (\<forall>i < length (shards s). tbl_ok (shards s ! i) \<and> (\<forall>uid \<in> dom (map_of (shards s ! i)). shard_of uid = i))"

lemma shard_of_less [simp]: "shard_of uid < 64"
  by (simp add: shard_of_def NUM_SHARDS_def)

lemma store_init_ok [simp]: "store_ok store_init"
  by (simp add: store_ok_def store_init_def NUM_SHARDS_def)

lemma store_put_ok: "store_ok s \<Longrightarrow> store_ok (store_put s uid c)"
  by (auto simp: store_ok_def store_put_def nth_list_update NUM_SHARDS_def)

lemma store_remove_ok: "store_ok s \<Longrightarrow> store_ok (store_remove s uid)"
  by (auto simp: store_ok_def store_remove_def nth_list_update NUM_SHARDS_def)

lemma find_put: "store_ok s \<Longrightarrow> store_find (store_put s uid c) = (store_find s)(uid := Some c)"
  by (auto simp: store_ok_def store_find_def store_put_def nth_list_update NUM_SHARDS_def fun_eq_iff)

lemma find_remove: "store_ok s \<Longrightarrow> store_find (store_remove s uid) = (store_find s)(uid := None)"
  by (auto simp: store_ok_def store_find_def store_remove_def nth_list_update NUM_SHARDS_def fun_eq_iff)

interpretation ues: keyed_store store_find store_put store_remove store_init store_ok
proof unfold_locales
  show "store_find store_init uid = None" for uid
    using shard_of_less [of uid] by (simp add: store_find_def store_init_def NUM_SHARDS_def)
qed (simp_all add: find_put find_remove store_put_ok store_remove_ok)

lemma store_adjust_ok: "store_ok s \<Longrightarrow> store_ok (store_adjust s uid f)"
  by (simp add: store_adjust_def store_put_ok split: option.splits)

lemma find_adjust: "store_ok s \<Longrightarrow> store_find (store_adjust s uid f) = (store_find s)(uid := map_option f (store_find s uid))"
  by (auto simp: store_adjust_def find_put fun_eq_iff split: option.splits)

lemma store_ok_next [simp]: "store_ok (s\<lparr> next_id := n \<rparr>) = store_ok s"
  by (simp add: store_ok_def)

lemma find_next [simp]: "store_find (s\<lparr> next_id := n \<rparr>) = store_find s"
  by (simp add: store_find_def fun_eq_iff)

lemma store_insert_ok: "store_ok s \<Longrightarrow> store_ok (snd (store_insert s c))"
  by (simp add: store_insert_def Let_def store_put_ok)

lemma find_insert:
  "store_ok s \<Longrightarrow> store_find (snd (store_insert s c)) = (store_find s)(next_id s := Some (c\<lparr> mme_ue_id := next_id s \<rparr>))"
  by (simp add: store_insert_def Let_def find_put)

text \<open>The size is the number of contexts, whatever shards they are in.\<close>

lemma length_shard: "store_ok s \<Longrightarrow> i < 64 \<Longrightarrow>
    length (shards s ! i) = card {uid. shard_of uid = i \<and> store_find s uid \<noteq> None}"
proof -
  assume ok: "store_ok s" and i: "i < 64"
  then have t: "tbl_ok (shards s ! i)" and k: "\<forall>uid \<in> dom (map_of (shards s ! i)). shard_of uid = i"
    by (auto simp: store_ok_def NUM_SHARDS_def)
  have "dom (map_of (shards s ! i)) = {uid. shard_of uid = i \<and> store_find s uid \<noteq> None}"
    using k by (auto simp: store_find_def)
  with length_tbl [OF t] show ?thesis by simp
qed

lemma store_size_card: "store_ok s \<Longrightarrow> store_size s = card (dom (store_find s))"
proof -
  assume ok: "store_ok s"
  let ?A = "\<lambda>i. {uid. shard_of uid = i \<and> store_find s uid \<noteq> None}"
  have "store_size s = (\<Sum>i<64. length (shards s ! i))"
    using ok by (simp add: store_size_def sum_list_sum_nth atLeast0LessThan store_ok_def NUM_SHARDS_def)
  also have "\<dots> = (\<Sum>i<64. card (?A i))" using length_shard [OF ok] by simp
  also have "\<dots> = card (\<Union>i\<in>{..<64}. ?A i)" by (rule card_UN_disjoint [symmetric]) auto
  also have "(\<Union>i\<in>{..<64}. ?A i) = dom (store_find s)" by auto
  finally show ?thesis .
qed

end
