(* ===== verification/Turns.thy ===== *)
theory Turns
  imports Prelude
begin

text \<open>
  Systems of nodes that take turns: a turn is one handler run by one thread, and a schedule
  is any sequence of turns. The interface \<open>turn_system\<close> asks that two different turns
  commute inside a region that no turn leaves; the theory concludes that whatever one
  schedule reaches with nothing left to do, every fair schedule reaches too. Before the
  region the turns may be forced one after the other (\<open>orderly\<close>).
\<close>

subsection \<open>What a handler comes to\<close>

text \<open>\<open>Overread\<close> is a read beyond the end of the payload, \<open>Blocked\<close> a wait without end.\<close>

datatype 'a outcome = Done 'a | Overread | Blocked

definition from_read :: "'a option \<Rightarrow> ('a \<Rightarrow> 'b outcome) \<Rightarrow> 'b outcome" where
  "from_read r f = (case r of None \<Rightarrow> Overread | Some x \<Rightarrow> f x)"

lemma from_read_Some [simp]: "from_read (Some x) f = f x"
  by (simp add: from_read_def)

fun run_turns :: "('s \<Rightarrow> 't \<Rightarrow> 's outcome) \<Rightarrow> 's \<Rightarrow> 't list \<Rightarrow> 's outcome" where
  "run_turns turn s [] = Done s"
| "run_turns turn s (t # ts) =
     (case turn s t of Done s' \<Rightarrow> run_turns turn s' ts | Overread \<Rightarrow> Overread | Blocked \<Rightarrow> Blocked)"

lemma run_turns_append:
  "run_turns turn s (ts @ us) = (case run_turns turn s ts of Done s' \<Rightarrow> run_turns turn s' us
     | Overread \<Rightarrow> Overread | Blocked \<Rightarrow> Blocked)"
  by (induction ts arbitrary: s) (auto split: outcome.splits)

text \<open>An invariant of the turns holds after every schedule.\<close>

lemma run_turns_inv:
  assumes "\<And>s t s'. I s \<Longrightarrow> turn s t = Done s' \<Longrightarrow> I s'" and "I s" and "run_turns turn s ts = Done s'"
  shows "I s'"
  using assms(2,3) by (induction ts arbitrary: s) (auto split: outcome.splits intro: assms(1))

subsection \<open>Paths of effective turns\<close>

definition idle :: "('s \<Rightarrow> 't \<Rightarrow> bool) \<Rightarrow> 's \<Rightarrow> bool" where
  "idle enabled s \<longleftrightarrow> (\<forall>t. \<not> enabled s t)"

inductive turn_path :: "('s \<Rightarrow> 't \<Rightarrow> 's outcome) \<Rightarrow> ('s \<Rightarrow> 't \<Rightarrow> bool) \<Rightarrow> 't set \<Rightarrow> nat \<Rightarrow> 's \<Rightarrow> 's \<Rightarrow> bool"
  for turn enabled T where
  path_nil: "turn_path turn enabled T 0 s s"
| path_step: "\<lbrakk> t \<in> T; enabled s t; turn s t = Done s'; turn_path turn enabled T n s' f \<rbrakk>
    \<Longrightarrow> turn_path turn enabled T (Suc n) s f"

inductive_cases path_zeroE: "turn_path turn enabled T 0 s f"
inductive_cases path_SucE: "turn_path turn enabled T (Suc n) s f"

inductive orderly :: "('s \<Rightarrow> 't \<Rightarrow> 's outcome) \<Rightarrow> ('s \<Rightarrow> 't \<Rightarrow> bool) \<Rightarrow> ('s \<Rightarrow> bool) \<Rightarrow> 's \<Rightarrow> bool"
  for turn enabled region where
  in_region: "region s \<Longrightarrow> orderly turn enabled region s"
| one_turn: "\<lbrakk> \<And>u. enabled s u \<Longrightarrow> u = t; turn s t = Done s'; orderly turn enabled region s' \<rbrakk>
    \<Longrightarrow> orderly turn enabled region s"

locale turn_system =
  fixes turn :: "'s \<Rightarrow> 't \<Rightarrow> 's outcome" and enabled :: "'s \<Rightarrow> 't \<Rightarrow> bool" and region :: "'s \<Rightarrow> bool"
  assumes turn_idle: "\<not> enabled s t \<Longrightarrow> turn s t = Done s"
    and region_turn: "\<lbrakk> region s; turn s t = Done s' \<rbrakk> \<Longrightarrow> region s'"
    and stays_enabled: "\<lbrakk> region s; t \<noteq> t'; enabled s t; enabled s t'; turn s t' = Done s' \<rbrakk> \<Longrightarrow> enabled s' t"
    and turns_commute: "\<lbrakk> region s; t \<noteq> t'; enabled s t; enabled s t'; turn s t' = Done s1; turn s1 t = Done u \<rbrakk>
      \<Longrightarrow> \<exists>s'. turn s t = Done s' \<and> turn s' t' = Done u"
begin

lemma orderly_turn:
  assumes "orderly turn enabled region s" "enabled s t" "turn s t = Done s'"
  shows "orderly turn enabled region s'"
  using assms(1)
proof cases
  case in_region
  from region_turn [OF this assms(3)] show ?thesis by (rule orderly.in_region)
next
  case (one_turn t' s1)
  have "t = t'" using one_turn(1) assms(2) by blast
  with one_turn assms(3) show ?thesis by simp
qed

lemma path_any_turn:
  "\<lbrakk> turn_path turn enabled T n s f; orderly turn enabled region s; idle enabled f; enabled s t \<rbrakk>
    \<Longrightarrow> \<exists>k s'. n = Suc k \<and> turn s t = Done s' \<and> turn_path turn enabled T k s' f"
proof (induction rule: turn_path.induct)
  case (path_nil s)
  then show ?case by (simp add: idle_def)
next
  case (path_step t' s s1 n f)
  show ?case
  proof (cases "t = t'")
    case True
    with path_step show ?thesis by blast
  next
    case False
    have r: "region s"
      using path_step.prems(1)
    proof cases
      case (one_turn u s2)
      with path_step.prems(3) path_step.hyps(2) False show ?thesis by metis
    qed
    note com = turns_commute [OF r False path_step.prems(3) path_step.hyps(2,3)]
    have "enabled s1 t" using stays_enabled [OF r False path_step.prems(3) path_step.hyps(2,3)] .
    moreover have "orderly turn enabled region s1"
      using region_turn [OF r path_step.hyps(3)] by (rule in_region)
    ultimately obtain k u where k: "n = Suc k" "turn s1 t = Done u" "turn_path turn enabled T k u f"
      using path_step.IH path_step.prems(2) by blast
    obtain s' where s': "turn s t = Done s'" "turn s' t' = Done u" using com [OF k(2)] by blast
    have "enabled s' t'"
      using False stays_enabled [OF r _ path_step.hyps(2) path_step.prems(3) s'(1)] by blast
    with s' k path_step.hyps(1) show ?thesis by (auto intro: turn_path.path_step)
  qed
qed

lemma run_path:
  assumes "turn_path turn enabled T n s f" "orderly turn enabled region s" "idle enabled f"
  shows "\<exists>k s'. run_turns turn s ts = Done s' \<and> turn_path turn enabled T k s' f
     \<and> orderly turn enabled region s' \<and> k \<le> n \<and> ((\<exists>t\<in>set ts. enabled s t) \<longrightarrow> k < n)"
  using assms(1,2)
proof (induction ts arbitrary: n s)
  case (Cons t ts)
  have "\<exists>k s1. turn s t = Done s1 \<and> turn_path turn enabled T k s1 f \<and> orderly turn enabled region s1
      \<and> k \<le> n \<and> (enabled s t \<longrightarrow> k < n) \<and> (enabled s t \<or> s1 = s)"
  proof (cases "enabled s t")
    case True
    from path_any_turn [OF Cons.prems assms(3) True] obtain k s1 where
      "n = Suc k" "turn s t = Done s1" "turn_path turn enabled T k s1 f" by blast
    with orderly_turn [OF Cons.prems(2) True] True show ?thesis by (intro exI [of _ k] exI [of _ s1]) simp
  next
    case False
    with Cons.prems turn_idle show ?thesis by auto
  qed
  then obtain k s1 where s1: "turn s t = Done s1" "turn_path turn enabled T k s1 f" "orderly turn enabled region s1"
      "k \<le> n" "enabled s t \<longrightarrow> k < n" "enabled s t \<or> s1 = s" by blast
  from Cons.IH [OF s1(2,3)] obtain l s2 where s2: "run_turns turn s1 ts = Done s2" "turn_path turn enabled T l s2 f"
      "orderly turn enabled region s2" "l \<le> k" "(\<exists>t\<in>set ts. enabled s1 t) \<longrightarrow> l < k" by blast
  have "l < n" if "\<exists>u\<in>set (t # ts). enabled s u"
    using that s1 s2 by (cases "enabled s t") auto
  with s1 s2 show ?case by (intro exI [of _ l] exI [of _ s2]) auto
qed auto

text \<open>A schedule of at least \<open>n\<close> rounds, each with every turn of \<open>T\<close>, reaches what the path reaches.\<close>

lemma fair_run:
  assumes "turn_path turn enabled T n s f" "orderly turn enabled region s" "idle enabled f"
    "n \<le> length bs" "\<forall>b\<in>set bs. T \<subseteq> set b"
  shows "run_turns turn s (concat bs) = Done f"
  using assms(1,2,4,5)
proof (induction bs arbitrary: n s)
  case Nil
  then show ?case by (auto elim: path_zeroE)
next
  case (Cons b bs)
  obtain k s' where k: "run_turns turn s b = Done s'" "turn_path turn enabled T k s' f"
      "orderly turn enabled region s'" "k \<le> n" "(\<exists>t\<in>set b. enabled s t) \<longrightarrow> k < n"
    using run_path [OF Cons.prems(1,2) assms(3)] by blast
  have "k \<le> length bs"
  proof (cases n)
    case 0
    with k show ?thesis by simp
  next
    case (Suc m)
    with Cons.prems(1) obtain t where "t \<in> T" "enabled s t" by (auto elim: path_SucE)
    moreover from this have "t \<in> set b" using Cons.prems(4) by auto
    ultimately show ?thesis using k(5) Cons.prems(3) Suc by fastforce
  qed
  with Cons.IH [OF k(2,3)] Cons.prems(4) k(1) show ?case by (simp add: run_turns_append)
qed

end

end
