(* ===== verification/Epc_Mme.thy ===== *)
theory Epc_Mme
  imports Epc_Store Turns
begin

text \<open>
  The mobility management entity (\<open>mme/mme_node.cpp\<close>): attach, tracking area update and S1
  handover. A handler takes the state and a payload from the base station and gives the new
  state and the payloads sent back, in order. It can also read beyond a payload
  (\<open>Overread\<close>) or wait for ever for the answer of the subscriber server (\<open>Blocked\<close>). The
  subscriber server, the serving gateway and the outcome of \<open>Chaos::rollDrop\<close> are arguments.
\<close>

subsection \<open>State\<close>

record mme_state =
  ues :: ue_store
  mme_next_seq :: u32
  pending_auth :: "(u64, AuthVectors) table"

definition mme_init :: mme_state where
  "mme_init = \<lparr> ues = store_init, mme_next_seq = 1, pending_auth = [] \<rparr>"

definition next_seq :: "mme_state \<Rightarrow> mme_state" where
  "next_seq m = m\<lparr> mme_next_seq := mme_next_seq m + 1 \<rparr>"

definition with_ue :: "mme_state \<Rightarrow> u32 \<Rightarrow> (EpsUe \<Rightarrow> EpsUe) \<Rightarrow> mme_state" where
  "with_ue m uid f = m\<lparr> ues := store_adjust (ues m) uid f \<rparr>"

definition find_ue :: "mme_state \<Rightarrow> u32 \<Rightarrow> EpsUe option" where
  "find_ue m uid = store_find (ues m) uid"

subsection \<open>Authentication vectors\<close>

definition aia_kinds :: "(u16 \<times> rkind) list" where
  "aia_kinds = [(DIA_IMSI, R64), (DIA_RAND, RB), (DIA_AUTN, RB), (DIA_XRES, RB), (DIA_KASME, RB)]"

text \<open>Each array keeps its zeros unless an element of exactly its size arrived (the last such one).\<close>

definition sized :: "nat \<Rightarrow> element list \<Rightarrow> u16 \<Rightarrow> bytes" where
  "sized n es t =
     fB (replicate n 0) (field (filter (\<lambda>e. case snd e of TB d \<Rightarrow> length d = n | _ \<Rightarrow> False) es) t)"

text \<open>One round of \<open>hssReceiveLoop\<close>.\<close>

definition hss_rx :: "mme_state \<Rightarrow> bytes \<Rightarrow> mme_state outcome" where
  "hss_rx m payload =
     (if length payload < 8 \<or> msg_type_of payload \<noteq> DIA_AIA then Done m
      else from_read (read_message aia_kinds payload) (\<lambda>es.
        Done (m\<lparr> pending_auth := tbl_set (pending_auth m) (f64 0 (field es DIA_IMSI))
          \<lparr> av_rand = sized 16 es DIA_RAND, av_autn = sized 16 es DIA_AUTN, av_xres = sized 8 es DIA_XRES,
            av_kasme = sized 32 es DIA_KASME \<rparr> \<rparr>)))"

definition air_message :: "u32 \<Rightarrow> u64 \<Rightarrow> u16 \<Rightarrow> u16 \<Rightarrow> bytes" where
  "air_message seq imsi mcc mnc =
     message DIA_AIR seq [(DIA_IMSI, T64 imsi), (DIA_PLMN, T32 (push_bit 16 (ucast mcc) OR ucast mnc))]"

text \<open>Send the request, let the receiving thread take the answer, then wait for the vectors.\<close>

definition fetch_vectors :: "peer \<Rightarrow> mme_state \<Rightarrow> u64 \<Rightarrow> u16 \<Rightarrow> u16 \<Rightarrow> (AuthVectors \<times> mme_state) outcome" where
  "fetch_vectors hss m imsi mcc mnc =
     (let m1 = next_seq m
      in case (case hss (air_message (mme_next_seq m) imsi mcc mnc) of None \<Rightarrow> Done m1 | Some p \<Rightarrow> hss_rx m1 p) of
           Overread \<Rightarrow> Overread
         | Blocked \<Rightarrow> Blocked
         | Done m2 \<Rightarrow>
             (case map_of (pending_auth m2) imsi of None \<Rightarrow> Blocked
              | Some v \<Rightarrow> Done (v, m2\<lparr> pending_auth := tbl_del (pending_auth m2) imsi \<rparr>)))"

subsection \<open>Attach\<close>

definition initial_kinds :: "(u16 \<times> rkind) list" where
  "initial_kinds = [(ENB_UE_S1AP_ID, R32), (TAI_MCC, R16), (TAI_MNC, R16), (TAI_TAC, R16), (NAS_IMSI, R64), (NAS_KSI, R8)]"

definition auth_request_message :: "u32 \<Rightarrow> u32 \<Rightarrow> u32 \<Rightarrow> AuthVectors \<Rightarrow> bytes" where
  "auth_request_message seq mme_id enb_id v =
     message S1AP_DL_NAS_TRANSPORT seq
       [(MME_UE_S1AP_ID, T32 mme_id), (ENB_UE_S1AP_ID, T32 enb_id), (NAS_MSG_TYPE, T8 0x52),
        (NAS_RAND, TB (av_rand v)), (NAS_AUTN, TB (av_autn v))]"

definition new_context :: "u64 \<Rightarrow> u32 \<Rightarrow> u16 \<Rightarrow> u16 \<Rightarrow> u16 \<Rightarrow> EpsUe" where
  "new_context imsi enb_id mcc mnc tac =
     \<lparr> ue_imsi = imsi, mme_ue_id = 0, enb_ue_id = enb_id, emm_state = REGISTERED_INITIATED, ue_auth = zero_vectors,
       bearers = [], tai_mcc = mcc, tai_mnc = mnc, tai_tac = tac \<rparr>"

definition handleInitialUEMsg :: "peer \<Rightarrow> bool \<Rightarrow> mme_state \<Rightarrow> bytes \<Rightarrow> (mme_state \<times> bytes list) outcome" where
  "handleInitialUEMsg hss dropped m payload =
     from_read (read_message initial_kinds payload) (\<lambda>es.
       let enb_id = f32 0 (field es ENB_UE_S1AP_ID); imsi = f64 0 (field es NAS_IMSI);
           mcc = f16 0 (field es TAI_MCC); mnc = f16 0 (field es TAI_MNC); tac = f16 0 (field es TAI_TAC);
           (mme_id, st) = store_insert (ues m) (new_context imsi enb_id mcc mnc tac)
       in case fetch_vectors hss (m\<lparr> ues := st \<rparr>) imsi mcc mnc of
            Overread \<Rightarrow> Overread
          | Blocked \<Rightarrow> Blocked
          | Done (v, m1) \<Rightarrow>
              (let m2 = with_ue m1 mme_id (\<lambda>c. c\<lparr> ue_auth := v, emm_state := AUTH_PENDING \<rparr>)
               in if dropped then Done (m2, [])
                  else Done (next_seq m2, [auth_request_message (mme_next_seq m2) mme_id enb_id v])))"

definition create_rsp_kinds :: "(u16 \<times> rkind) list" where
  "create_rsp_kinds = [(GTP_CAUSE, R8), (GTP_SENDER_TEID, R32), (GTP_BEARER_TEID, R32), (GTP_IMSI, R64), (GTP_UE_IP, RB)]"

definition new_bearer :: "u32 \<Rightarrow> u32 \<Rightarrow> bytes \<Rightarrow> Bearer" where
  "new_bearer s11 s1u ip_b =
     \<lparr> b_ebi = 5, b_qci = 9, sgw_s11_teid = s11, sgw_s1u_teid = s1u, pgw_s5_teid = 0, enb_s1u_teid = 0,
       b_ue_ip = dotted ip_b \<rparr>"

definition sendCreateSession :: "peer \<Rightarrow> mme_state \<Rightarrow> u32 \<Rightarrow> u64 \<Rightarrow> (bool \<times> mme_state) outcome" where
  "sendCreateSession sgw m mme_id imsi =
     (let m1 = next_seq m
      in case sgw (s11_request (mme_next_seq m) imsi) of
           None \<Rightarrow> Done (False, m1)
         | Some p \<Rightarrow>
             from_read (read_message create_rsp_kinds p) (\<lambda>es.
               let ip_b = fB [] (field es GTP_UE_IP)
               in if f8 0 (field es GTP_CAUSE) \<noteq> 16 \<or> length ip_b < 4 then Done (False, m1)
                  else Done (True, with_ue m1 mme_id (\<lambda>c. c\<lparr> bearers := bearers c @
                         [new_bearer (f32 0 (field es GTP_SENDER_TEID)) (f32 0 (field es GTP_BEARER_TEID)) ip_b] \<rparr>))))"

definition setup_request_message :: "u32 \<Rightarrow> u32 \<Rightarrow> EpsUe \<Rightarrow> Bearer \<Rightarrow> bytes" where
  "setup_request_message seq mme_id c b =
     message S1AP_INITIAL_CONTEXT_SETUP_REQ seq
       ([(MME_UE_S1AP_ID, T32 mme_id), (ENB_UE_S1AP_ID, T32 (enb_ue_id c)), (ICSR_AMBR_UL, T32 50000000),
         (ICSR_AMBR_DL, T32 100000000), (ICSR_SGW_S1U_IP, TB [127, 0, 0, 1]), (ICSR_SGW_TEID, T32 (sgw_s1u_teid b)),
         (NAS_EBI, T8 (b_ebi b)), (NAS_MSG_TYPE, T8 0x42)]
        @ (case scan_dotted (b_ue_ip b) of Some ip_b \<Rightarrow> [(NAS_UE_IP, TB ip_b)] | None \<Rightarrow> []))"

definition handleAuthSuccess :: "peer \<Rightarrow> mme_state \<Rightarrow> u32 \<Rightarrow> (mme_state \<times> bytes list) outcome" where
  "handleAuthSuccess sgw m mme_id =
     (case find_ue m mme_id of None \<Rightarrow> Done (m, [])
      | Some c \<Rightarrow>
          (case sendCreateSession sgw m mme_id (ue_imsi c) of
             Overread \<Rightarrow> Overread
           | Blocked \<Rightarrow> Blocked
           | Done (ok, m1) \<Rightarrow>
               if \<not> ok then Done (m1, [])
               else (case find_ue m1 mme_id of None \<Rightarrow> Done (m1, [])
                     | Some c1 \<Rightarrow>
                         (case defaultBearer c1 of None \<Rightarrow> Done (m1, [])
                          | Some b \<Rightarrow> Done (next_seq m1, [setup_request_message (mme_next_seq m1) mme_id c1 b])))))"

definition security_mode_command :: "u32 \<Rightarrow> u32 \<Rightarrow> u32 \<Rightarrow> bytes" where
  "security_mode_command seq mme_id enb_id =
     message S1AP_DL_NAS_TRANSPORT seq
       [(MME_UE_S1AP_ID, T32 mme_id), (ENB_UE_S1AP_ID, T32 enb_id), (NAS_MSG_TYPE, T8 0x5D)]"

definition ul_nas_kinds :: "(u16 \<times> rkind) list" where
  "ul_nas_kinds = [(MME_UE_S1AP_ID, R32), (ENB_UE_S1AP_ID, R32), (NAS_MSG_TYPE, R8), (NAS_RES, RB)]"

definition nas_auth_response :: "peer \<Rightarrow> mme_state \<Rightarrow> u32 \<Rightarrow> bytes \<Rightarrow> (mme_state \<times> bytes list) outcome" where
  "nas_auth_response sgw m mme_id res =
     (case find_ue m mme_id of None \<Rightarrow> Done (m, [])
      | Some c \<Rightarrow>
          if length res \<ge> 8 \<and> take 8 res = av_xres (ue_auth c)
          then (let smc = security_mode_command (mme_next_seq m) mme_id (enb_ue_id c);
                    m1 = with_ue (next_seq m) mme_id (\<lambda>c. c\<lparr> emm_state := SESSION_PENDING \<rparr>)
                in case handleAuthSuccess sgw m1 mme_id of
                     Overread \<Rightarrow> Overread
                   | Blocked \<Rightarrow> Blocked
                   | Done (m2, out) \<Rightarrow> Done (m2, smc # out))
          else Done (m, []))"

definition handleULNasTransport :: "peer \<Rightarrow> mme_state \<Rightarrow> bytes \<Rightarrow> (mme_state \<times> bytes list) outcome" where
  "handleULNasTransport sgw m payload =
     from_read (read_message ul_nas_kinds payload) (\<lambda>es.
       let mme_id = f32 0 (field es MME_UE_S1AP_ID); nas = f8 0 (field es NAS_MSG_TYPE)
       in if nas = 0x53 then nas_auth_response sgw m mme_id (fB [] (field es NAS_RES))
          else if nas = 0x5E then Done (m, [])
          else if nas = 0x46 then Done (with_ue m mme_id (\<lambda>c. c\<lparr> emm_state := REGISTERED \<rparr>), [])
          else Done (m, []))"

definition setup_rsp_kinds :: "(u16 \<times> rkind) list" where
  "setup_rsp_kinds = [(MME_UE_S1AP_ID, R32), (ICSR_ENB_TEID, R32)]"

text \<open>The answer to the Modify Bearer Request only decides about a log line.\<close>

definition handleICSetupResponse :: "mme_state \<Rightarrow> bytes \<Rightarrow> (mme_state \<times> bytes list) outcome" where
  "handleICSetupResponse m payload =
     from_read (read_message setup_rsp_kinds payload) (\<lambda>es.
       let mme_id = f32 0 (field es MME_UE_S1AP_ID); teid = f32 0 (field es ICSR_ENB_TEID)
       in Done (next_seq (with_ue m mme_id (set_default_teid teid)), []))"

text \<open>What it sends to the serving gateway: the tunnel of the base station for the subscriber.\<close>

definition setup_path_switch :: "mme_state \<Rightarrow> bytes \<Rightarrow> bytes outcome" where
  "setup_path_switch m payload =
     from_read (read_message setup_rsp_kinds payload) (\<lambda>es.
       let mme_id = f32 0 (field es MME_UE_S1AP_ID)
       in Done (modify_request (mme_next_seq m) (f32 0 (field es ICSR_ENB_TEID))
            (case find_ue m mme_id of Some c \<Rightarrow> ue_imsi c | None \<Rightarrow> 0)))"

subsection \<open>Tracking area update and handover\<close>

definition tau_kinds :: "(u16 \<times> rkind) list" where
  "tau_kinds = [(MME_UE_S1AP_ID, R32), (ENB_UE_S1AP_ID, R32), (TAU_IMSI, R64), (TAU_UPDATE_TYPE, R8)]"

definition handleTauRequest :: "mme_state \<Rightarrow> bytes \<Rightarrow> (mme_state \<times> bytes list) outcome" where
  "handleTauRequest m payload =
     from_read (read_message tau_kinds payload) (\<lambda>es.
       Done (next_seq m, [message S1AP_TAU_ACCEPT (mme_next_seq m)
         [(MME_UE_S1AP_ID, T32 (f32 0 (field es MME_UE_S1AP_ID))), (ENB_UE_S1AP_ID, T32 (f32 0 (field es ENB_UE_S1AP_ID))),
          (TAU_UPDATE_TYPE, T8 0x00)]]))"

definition ho_required_kinds :: "(u16 \<times> rkind) list" where
  "ho_required_kinds = [(MME_UE_S1AP_ID, R32), (ENB_UE_S1AP_ID, R32), (TAU_IMSI, R64)]"

definition handleHandoverRequired :: "mme_state \<Rightarrow> bytes \<Rightarrow> (mme_state \<times> bytes list) outcome" where
  "handleHandoverRequired m payload =
     from_read (read_message ho_required_kinds payload) (\<lambda>es.
       Done (next_seq m, [message S1AP_HANDOVER_REQUEST (mme_next_seq m)
         [(MME_UE_S1AP_ID, T32 (f32 0 (field es MME_UE_S1AP_ID))), (ENB_UE_S1AP_ID, T32 (f32 0 (field es ENB_UE_S1AP_ID))),
          (HO_TYPE, T8 0)]]))"

definition ho_teid_kinds :: "(u16 \<times> rkind) list" where
  "ho_teid_kinds = [(MME_UE_S1AP_ID, R32), (ENB_UE_S1AP_ID, R32), (HO_ENB_TEID_NEW, R32)]"

definition handleHandoverRequestAck :: "mme_state \<Rightarrow> bytes \<Rightarrow> (mme_state \<times> bytes list) outcome" where
  "handleHandoverRequestAck m payload =
     from_read (read_message ho_teid_kinds payload) (\<lambda>es.
       let mme_id = f32 0 (field es MME_UE_S1AP_ID); enb_id = f32 0 (field es ENB_UE_S1AP_ID);
           m1 = with_ue m mme_id (set_default_teid (f32 0 (field es HO_ENB_TEID_NEW)))
       in Done (next_seq m1, [message S1AP_HANDOVER_COMMAND (mme_next_seq m1)
            [(MME_UE_S1AP_ID, T32 mme_id), (ENB_UE_S1AP_ID, T32 enb_id)]]))"

definition status_kinds :: "(u16 \<times> rkind) list" where
  "status_kinds = [(MME_UE_S1AP_ID, R32), (ENB_UE_S1AP_ID, R32), (HO_PDCP_SN_UL, R32), (HO_PDCP_SN_DL, R32)]"

definition handleEnbStatusTransfer :: "mme_state \<Rightarrow> bytes \<Rightarrow> (mme_state \<times> bytes list) outcome" where
  "handleEnbStatusTransfer m payload =
     from_read (read_message status_kinds payload) (\<lambda>es.
       Done (next_seq m, [message S1AP_MME_STATUS_TRANSFER (mme_next_seq m)
         [(MME_UE_S1AP_ID, T32 (f32 0 (field es MME_UE_S1AP_ID))), (ENB_UE_S1AP_ID, T32 (f32 0 (field es ENB_UE_S1AP_ID))),
          (HO_PDCP_SN_UL, T32 (f32 0 (field es HO_PDCP_SN_UL))), (HO_PDCP_SN_DL, T32 (f32 0 (field es HO_PDCP_SN_DL)))]]))"

text \<open>The tunnel the path is switched to: of the message, else of the context, else 200.\<close>

definition final_teid :: "mme_state \<Rightarrow> u32 \<Rightarrow> u32 \<Rightarrow> u32" where
  "final_teid m mme_id teid =
     (if teid \<noteq> 0 then teid
      else case find_ue m mme_id of None \<Rightarrow> 200
           | Some c \<Rightarrow> (case defaultBearer c of None \<Rightarrow> 200 | Some b \<Rightarrow> enb_s1u_teid b))"

definition path_switch :: "mme_state \<Rightarrow> u32 \<Rightarrow> u32 \<Rightarrow> bytes" where
  "path_switch m mme_id teid =
     modify_request (mme_next_seq m) teid (case find_ue m mme_id of Some c \<Rightarrow> ue_imsi c | None \<Rightarrow> 0)"

definition handleHandoverNotify :: "mme_state \<Rightarrow> bytes \<Rightarrow> (mme_state \<times> bytes list) outcome" where
  "handleHandoverNotify m payload =
     from_read (read_message ho_teid_kinds payload) (\<lambda>es.
       let mme_id = f32 0 (field es MME_UE_S1AP_ID); enb_id = f32 0 (field es ENB_UE_S1AP_ID);
           m1 = next_seq m
       in Done (next_seq m1, [message S1AP_UE_CONTEXT_RELEASE_CMD (mme_next_seq m1)
            [(MME_UE_S1AP_ID, T32 mme_id), (ENB_UE_S1AP_ID, T32 enb_id), (HO_CAUSE, T8 0)]]))"

text \<open>What the notification sends to the serving gateway before that.\<close>

definition handover_path_switch :: "mme_state \<Rightarrow> bytes \<Rightarrow> bytes outcome" where
  "handover_path_switch m payload =
     from_read (read_message ho_teid_kinds payload) (\<lambda>es.
       let mme_id = f32 0 (field es MME_UE_S1AP_ID)
       in Done (path_switch m mme_id (final_teid m mme_id (f32 0 (field es HO_ENB_TEID_NEW)))))"

definition ids_kinds :: "(u16 \<times> rkind) list" where
  "ids_kinds = [(MME_UE_S1AP_ID, R32), (ENB_UE_S1AP_ID, R32)]"

definition handleUeContextRelCmpl :: "mme_state \<Rightarrow> bytes \<Rightarrow> (mme_state \<times> bytes list) outcome" where
  "handleUeContextRelCmpl m payload = from_read (read_message ids_kinds payload) (\<lambda>es. Done (m, []))"

subsection \<open>Dispatch\<close>

record mme_env =
  env_hss :: peer
  env_sgw :: peer
  env_drop :: bool

definition mme_receive :: "mme_env \<Rightarrow> mme_state \<Rightarrow> bytes \<Rightarrow> (mme_state \<times> bytes list) outcome" where
  "mme_receive e m payload =
     (if length payload < 8 then Done (m, [])
      else let t = msg_type_of payload
           in if t = S1AP_INITIAL_UE_MSG then handleInitialUEMsg (env_hss e) (env_drop e) m payload
              else if t = S1AP_UL_NAS_TRANSPORT then handleULNasTransport (env_sgw e) m payload
              else if t = S1AP_INITIAL_CONTEXT_SETUP_RSP then handleICSetupResponse m payload
              else if t = S1AP_TAU_REQUEST then handleTauRequest m payload
              else if t = S1AP_HANDOVER_REQUIRED then handleHandoverRequired m payload
              else if t = S1AP_HANDOVER_REQUEST_ACK then handleHandoverRequestAck m payload
              else if t = S1AP_ENB_STATUS_TRANSFER then handleEnbStatusTransfer m payload
              else if t = S1AP_HANDOVER_NOTIFY then handleHandoverNotify m payload
              else if t = S1AP_UE_CONTEXT_RELEASE_CMPL then handleUeContextRelCmpl m payload
              else Done (m, []))"

fun mme_run :: "mme_state \<Rightarrow> (mme_env \<times> bytes) list \<Rightarrow> mme_state outcome" where
  "mme_run m [] = Done m"
| "mme_run m ((e, p) # ps) =
     (case mme_receive e m p of Done (m', _) \<Rightarrow> mme_run m' ps | Overread \<Rightarrow> Overread | Blocked \<Rightarrow> Blocked)"

end
