(* ===== verification/Epc_Enb.thy ===== *)
theory Epc_Enb
  imports Epc_Mme
begin

text \<open>
  The base station with its UEs (\<open>enb/enb_node.cpp\<close>): the commands that start a procedure and
  the handlers of the messages of the mobility entity. Both threads hold the send lock while
  they take a sequence number and send, so each handler is one step. A handler gives the
  new counters and the payloads sent, in order.
\<close>

subsection \<open>State and commands\<close>

record enb_state =
  next_enb_teid :: u32
  next_enb_ue_id :: u32
  enb_next_seq :: u32

definition enb_init :: enb_state where
  "enb_init = \<lparr> next_enb_teid = 100, next_enb_ue_id = 1, enb_next_seq = 1 \<rparr>"

definition BASE_IMSI :: u64 where "BASE_IMSI = 404100000000000"

definition bump :: "enb_state \<Rightarrow> enb_state" where
  "bump e = e\<lparr> enb_next_seq := enb_next_seq e + 1 \<rparr>"

definition initial_message :: "u32 \<Rightarrow> u32 \<Rightarrow> bytes" where
  "initial_message seq ue_index =
     message S1AP_INITIAL_UE_MSG seq
       [(ENB_UE_S1AP_ID, T32 ue_index), (RRC_CAUSE, T8 3), (TAI_MCC, T16 404), (TAI_MNC, T16 10), (TAI_TAC, T16 1),
        (EUTRAN_CGI, T32 1), (NAS_PROTO_DISC, T8 0x07), (NAS_SEC_HDR, T8 0x00), (NAS_MSG_TYPE, T8 0x41),
        (NAS_ATTACH_TYPE, T8 1), (NAS_KSI, T8 7), (NAS_ID_TYPE, T8 1), (NAS_IMSI, T64 (BASE_IMSI + ucast ue_index)),
        (NAS_UE_CAP, T8 0xE0)]"

definition sendInitialUEMessage :: "enb_state \<Rightarrow> u32 \<Rightarrow> enb_state \<times> bytes list" where
  "sendInitialUEMessage e ue_index = (bump e, [initial_message (enb_next_seq e) ue_index])"

definition sendTauRequest :: "enb_state \<Rightarrow> u32 \<Rightarrow> u32 \<Rightarrow> u64 \<Rightarrow> enb_state \<times> bytes list" where
  "sendTauRequest e mme_id enb_id imsi =
     (bump e, [message S1AP_TAU_REQUEST (enb_next_seq e)
        [(MME_UE_S1AP_ID, T32 mme_id), (ENB_UE_S1AP_ID, T32 enb_id), (TAU_IMSI, T64 imsi), (TAU_UPDATE_TYPE, T8 0x00)]])"

definition sendHandoverRequired :: "enb_state \<Rightarrow> u32 \<Rightarrow> u32 \<Rightarrow> enb_state \<times> bytes list" where
  "sendHandoverRequired e mme_id enb_id =
     (bump e, [message S1AP_HANDOVER_REQUIRED (enb_next_seq e)
        [(MME_UE_S1AP_ID, T32 mme_id), (ENB_UE_S1AP_ID, T32 enb_id), (TAU_IMSI, T64 (BASE_IMSI + ucast mme_id)),
         (HO_TYPE, T8 0), (HO_CAUSE, T8 0)]])"

fun attach_many :: "nat \<Rightarrow> enb_state \<Rightarrow> enb_state \<times> bytes list" where
  "attach_many 0 e = (e, [])"
| "attach_many (Suc n) e =
     (let (e1, out1) = sendInitialUEMessage (e\<lparr> next_enb_ue_id := next_enb_ue_id e + 1 \<rparr>) (next_enb_ue_id e);
          (e2, out2) = attach_many n e1
      in (e2, out1 @ out2))"

text \<open>The number after a command, 1 when there is none or \<open>std::stoi\<close> throws.\<close>

definition command_number :: "nat \<Rightarrow> string \<Rightarrow> int" where
  "command_number n cmd = (if length cmd > n then (case stoi (drop n cmd) of Inr i \<Rightarrow> i | Inl _ \<Rightarrow> 1) else 1)"

definition processCommand :: "enb_state \<Rightarrow> string \<Rightarrow> enb_state \<times> bytes list" where
  "processCommand e cmd =
     (if take 2 cmd = ''CR'' then attach_many (nat (command_number 3 cmd)) e
      else if take 3 cmd = ''TAU''
      then (let ue_id = word_of_int (command_number 4 cmd) in sendTauRequest e ue_id ue_id (BASE_IMSI + ucast ue_id))
      else if take 2 cmd = ''HO''
      then (let ue_id = word_of_int (command_number 3 cmd) in sendHandoverRequired e ue_id ue_id)
      else (e, []))"

subsection \<open>Handlers\<close>

definition dl_nas_kinds :: "(u16 \<times> rkind) list" where
  "dl_nas_kinds = [(MME_UE_S1AP_ID, R32), (ENB_UE_S1AP_ID, R32), (NAS_MSG_TYPE, R8), (NAS_RAND, RB), (NAS_AUTN, RB)]"

definition smc_complete_message :: "u32 \<Rightarrow> u32 \<Rightarrow> u32 \<Rightarrow> bytes" where
  "smc_complete_message seq mme_id enb_id =
     message S1AP_UL_NAS_TRANSPORT seq
       [(MME_UE_S1AP_ID, T32 mme_id), (ENB_UE_S1AP_ID, T32 enb_id), (NAS_MSG_TYPE, T8 0x5E)]"

definition auth_response_message :: "u32 \<Rightarrow> u32 \<Rightarrow> u32 \<Rightarrow> bytes \<Rightarrow> bytes" where
  "auth_response_message seq mme_id enb_id res =
     message S1AP_UL_NAS_TRANSPORT seq
       [(MME_UE_S1AP_ID, T32 mme_id), (ENB_UE_S1AP_ID, T32 enb_id), (NAS_MSG_TYPE, T8 0x53), (NAS_RES, TB res)]"

definition handleDLNas :: "enb_state \<Rightarrow> bytes \<Rightarrow> (enb_state \<times> bytes list) outcome" where
  "handleDLNas e payload =
     from_read (read_message dl_nas_kinds payload) (\<lambda>es.
       let mme_id = f32 0 (field es MME_UE_S1AP_ID); enb_id = f32 0 (field es ENB_UE_S1AP_ID);
           nas = f8 0 (field es NAS_MSG_TYPE); rnd = fB [] (field es NAS_RAND)
       in if nas = 0x5D then Done (bump e, [smc_complete_message (enb_next_seq e) mme_id enb_id])
          else if nas = 0x52 \<and> length rnd \<ge> 8
          then Done (bump e, [auth_response_message (enb_next_seq e) mme_id enb_id (map (\<lambda>b. b XOR 0x55) (take 8 rnd))])
          else Done (e, []))"

definition icsr_kinds :: "(u16 \<times> rkind) list" where
  "icsr_kinds = [(MME_UE_S1AP_ID, R32), (ENB_UE_S1AP_ID, R32), (ICSR_SGW_TEID, R32), (NAS_MSG_TYPE, R8), (NAS_UE_IP, RB)]"

definition setup_response_message :: "u32 \<Rightarrow> u32 \<Rightarrow> u32 \<Rightarrow> u32 \<Rightarrow> bytes" where
  "setup_response_message seq mme_id enb_id teid =
     message S1AP_INITIAL_CONTEXT_SETUP_RSP seq
       [(MME_UE_S1AP_ID, T32 mme_id), (ENB_UE_S1AP_ID, T32 enb_id), (ICSR_ENB_TEID, T32 teid)]"

definition attach_complete_message :: "u32 \<Rightarrow> u32 \<Rightarrow> u32 \<Rightarrow> bytes" where
  "attach_complete_message seq mme_id enb_id =
     message S1AP_UL_NAS_TRANSPORT seq
       [(MME_UE_S1AP_ID, T32 mme_id), (ENB_UE_S1AP_ID, T32 enb_id), (NAS_MSG_TYPE, T8 0x46)]"

definition handleICSR :: "enb_state \<Rightarrow> bytes \<Rightarrow> (enb_state \<times> bytes list) outcome" where
  "handleICSR e payload =
     from_read (read_message icsr_kinds payload) (\<lambda>es.
       let mme_id = f32 0 (field es MME_UE_S1AP_ID); enb_id = f32 0 (field es ENB_UE_S1AP_ID);
           teid = next_enb_teid e; e1 = e\<lparr> next_enb_teid := teid + 1 \<rparr>; e2 = bump e1
       in Done (bump e2, [setup_response_message (enb_next_seq e1) mme_id enb_id teid,
                          attach_complete_message (enb_next_seq e2) mme_id enb_id]))"

definition handleTauAccept :: "enb_state \<Rightarrow> bytes \<Rightarrow> (enb_state \<times> bytes list) outcome" where
  "handleTauAccept e payload = from_read (read_message ids_kinds payload) (\<lambda>es. Done (e, []))"

definition handleHoRequest :: "enb_state \<Rightarrow> bytes \<Rightarrow> (enb_state \<times> bytes list) outcome" where
  "handleHoRequest e payload =
     from_read (read_message ids_kinds payload) (\<lambda>es.
       let teid = next_enb_teid e; e1 = e\<lparr> next_enb_teid := teid + 1 \<rparr>
       in Done (bump e1, [message S1AP_HANDOVER_REQUEST_ACK (enb_next_seq e1)
            [(MME_UE_S1AP_ID, T32 (f32 0 (field es MME_UE_S1AP_ID))), (ENB_UE_S1AP_ID, T32 (f32 0 (field es ENB_UE_S1AP_ID))),
             (HO_ENB_TEID_NEW, T32 teid)]]))"

definition handleHoCommand :: "enb_state \<Rightarrow> bytes \<Rightarrow> (enb_state \<times> bytes list) outcome" where
  "handleHoCommand e payload =
     from_read (read_message ids_kinds payload) (\<lambda>es.
       Done (bump e, [message S1AP_ENB_STATUS_TRANSFER (enb_next_seq e)
         [(MME_UE_S1AP_ID, T32 (f32 0 (field es MME_UE_S1AP_ID))), (ENB_UE_S1AP_ID, T32 (f32 0 (field es ENB_UE_S1AP_ID))),
          (HO_PDCP_SN_UL, T32 42), (HO_PDCP_SN_DL, T32 37)]]))"

definition handleMmeStatusXfer :: "enb_state \<Rightarrow> bytes \<Rightarrow> (enb_state \<times> bytes list) outcome" where
  "handleMmeStatusXfer e payload =
     from_read (read_message status_kinds payload) (\<lambda>es.
       Done (bump e, [message S1AP_HANDOVER_NOTIFY (enb_next_seq e)
         [(MME_UE_S1AP_ID, T32 (f32 0 (field es MME_UE_S1AP_ID))), (ENB_UE_S1AP_ID, T32 (f32 0 (field es ENB_UE_S1AP_ID))),
          (HO_ENB_TEID_NEW, T32 (next_enb_teid e - 1))]]))"

definition handleUeCtxRelCmd :: "enb_state \<Rightarrow> bytes \<Rightarrow> (enb_state \<times> bytes list) outcome" where
  "handleUeCtxRelCmd e payload =
     from_read (read_message ids_kinds payload) (\<lambda>es.
       Done (bump e, [message S1AP_UE_CONTEXT_RELEASE_CMPL (enb_next_seq e)
         [(MME_UE_S1AP_ID, T32 (f32 0 (field es MME_UE_S1AP_ID))), (ENB_UE_S1AP_ID, T32 (f32 0 (field es ENB_UE_S1AP_ID)))]]))"

definition enb_receive :: "enb_state \<Rightarrow> bytes \<Rightarrow> (enb_state \<times> bytes list) outcome" where
  "enb_receive e payload =
     (if length payload < 8 then Done (e, [])
      else let t = msg_type_of payload
           in if t = S1AP_DL_NAS_TRANSPORT then handleDLNas e payload
              else if t = S1AP_INITIAL_CONTEXT_SETUP_REQ then handleICSR e payload
              else if t = S1AP_TAU_ACCEPT then handleTauAccept e payload
              else if t = S1AP_HANDOVER_REQUEST then handleHoRequest e payload
              else if t = S1AP_HANDOVER_COMMAND then handleHoCommand e payload
              else if t = S1AP_MME_STATUS_TRANSFER then handleMmeStatusXfer e payload
              else if t = S1AP_UE_CONTEXT_RELEASE_CMD then handleUeCtxRelCmd e payload
              else Done (e, []))"

subsection \<open>Base station and mobility entity over the S1 connection\<close>

record s1_state =
  s1_enb :: enb_state
  s1_mme :: mme_state
  to_mme :: "bytes list"
  to_enb :: "bytes list"

text \<open>Either end takes the first payload waiting for it.\<close>

datatype s1_turn = EnbTurn | MmeTurn

definition s1_step :: "mme_env \<Rightarrow> s1_state \<Rightarrow> s1_turn \<Rightarrow> s1_state outcome" where
  "s1_step env s t =
     (case t of
        MmeTurn \<Rightarrow>
          (case to_mme s of [] \<Rightarrow> Done s
           | p # ps \<Rightarrow>
               (case mme_receive env (s1_mme s) p of Overread \<Rightarrow> Overread | Blocked \<Rightarrow> Blocked
                | Done (m, out) \<Rightarrow> Done (s\<lparr> s1_mme := m, to_mme := ps, to_enb := to_enb s @ out \<rparr>)))
      | EnbTurn \<Rightarrow>
          (case to_enb s of [] \<Rightarrow> Done s
           | p # ps \<Rightarrow>
               (case enb_receive (s1_enb s) p of Overread \<Rightarrow> Overread | Blocked \<Rightarrow> Blocked
                | Done (e, out) \<Rightarrow> Done (s\<lparr> s1_enb := e, to_enb := ps, to_mme := to_mme s @ out \<rparr>))))"

abbreviation s1_run :: "mme_env \<Rightarrow> s1_state \<Rightarrow> s1_turn list \<Rightarrow> s1_state outcome" where
  "s1_run env \<equiv> run_turns (s1_step env)"

end
