(* ===== verification/Epc_Flow.thy ===== *)
theory Epc_Flow
  imports Epc_Enb
begin

text \<open>
  What each handler of the base station and of the mobility entity makes of the messages that
  the other one builds. The lemmas are stated on the contexts that the store returns, so that
  the end-to-end flows follow step by step.
\<close>

subsection \<open>The elements that each handler reads\<close>

lemma s1_kinds_simps [simp]:
  "map_of initial_kinds t = (if t = ENB_UE_S1AP_ID then Some R32 else if t = TAI_MCC then Some R16
     else if t = TAI_MNC then Some R16 else if t = TAI_TAC then Some R16 else if t = NAS_IMSI then Some R64
     else if t = NAS_KSI then Some R8 else None)"
  "map_of aia_kinds t = (if t = DIA_IMSI then Some R64 else if t = DIA_RAND then Some RB
     else if t = DIA_AUTN then Some RB else if t = DIA_XRES then Some RB else if t = DIA_KASME then Some RB else None)"
  "map_of create_rsp_kinds t = (if t = GTP_CAUSE then Some R8 else if t = GTP_SENDER_TEID then Some R32
     else if t = GTP_BEARER_TEID then Some R32 else if t = GTP_IMSI then Some R64 else if t = GTP_UE_IP then Some RB
     else None)"
  "map_of ul_nas_kinds t = (if t = MME_UE_S1AP_ID then Some R32 else if t = ENB_UE_S1AP_ID then Some R32
     else if t = NAS_MSG_TYPE then Some R8 else if t = NAS_RES then Some RB else None)"
  "map_of setup_rsp_kinds t = (if t = MME_UE_S1AP_ID then Some R32 else if t = ICSR_ENB_TEID then Some R32 else None)"
  by (simp_all add: initial_kinds_def aia_kinds_def create_rsp_kinds_def ul_nas_kinds_def setup_rsp_kinds_def)

lemma s1_kinds_simps2 [simp]:
  "map_of tau_kinds t = (if t = MME_UE_S1AP_ID then Some R32 else if t = ENB_UE_S1AP_ID then Some R32
     else if t = TAU_IMSI then Some R64 else if t = TAU_UPDATE_TYPE then Some R8 else None)"
  "map_of ho_required_kinds t = (if t = MME_UE_S1AP_ID then Some R32 else if t = ENB_UE_S1AP_ID then Some R32
     else if t = TAU_IMSI then Some R64 else None)"
  "map_of ho_teid_kinds t = (if t = MME_UE_S1AP_ID then Some R32 else if t = ENB_UE_S1AP_ID then Some R32
     else if t = HO_ENB_TEID_NEW then Some R32 else None)"
  "map_of status_kinds t = (if t = MME_UE_S1AP_ID then Some R32 else if t = ENB_UE_S1AP_ID then Some R32
     else if t = HO_PDCP_SN_UL then Some R32 else if t = HO_PDCP_SN_DL then Some R32 else None)"
  "map_of ids_kinds t = (if t = MME_UE_S1AP_ID then Some R32 else if t = ENB_UE_S1AP_ID then Some R32 else None)"
  "map_of dl_nas_kinds t = (if t = MME_UE_S1AP_ID then Some R32 else if t = ENB_UE_S1AP_ID then Some R32
     else if t = NAS_MSG_TYPE then Some R8 else if t = NAS_RAND then Some RB else if t = NAS_AUTN then Some RB
     else None)"
  "map_of icsr_kinds t = (if t = MME_UE_S1AP_ID then Some R32 else if t = ENB_UE_S1AP_ID then Some R32
     else if t = ICSR_SGW_TEID then Some R32 else if t = NAS_MSG_TYPE then Some R8 else if t = NAS_UE_IP then Some RB
     else None)"
  by (simp_all add: tau_kinds_def ho_required_kinds_def ho_teid_kinds_def status_kinds_def ids_kinds_def
      dl_nas_kinds_def icsr_kinds_def)

lemma read_initial: "read_message initial_kinds (initial_message seq i)
    = Some [(ENB_UE_S1AP_ID, T32 i), (TAI_MCC, T16 404), (TAI_MNC, T16 10), (TAI_TAC, T16 1), (NAS_KSI, T8 7),
            (NAS_IMSI, T64 (BASE_IMSI + ucast i))]"
  unfolding initial_message_def by (subst read_message_written) (simp_all add: readable_def value_ok_def)

lemma read_aia: "read_message aia_kinds (aia_message seq i (generateAuthVectors i))
    = Some [(DIA_IMSI, T64 i), (DIA_RAND, TB (av_rand (generateAuthVectors i))),
            (DIA_AUTN, TB (av_autn (generateAuthVectors i))), (DIA_XRES, TB (av_xres (generateAuthVectors i))),
            (DIA_KASME, TB (av_kasme (generateAuthVectors i)))]"
  unfolding aia_message_def
  by (subst read_message_written) (simp_all add: readable_def value_ok_def vectors_shape)

lemma read_auth_request: "read_message dl_nas_kinds (auth_request_message seq a b (generateAuthVectors i))
    = Some [(MME_UE_S1AP_ID, T32 a), (ENB_UE_S1AP_ID, T32 b), (NAS_MSG_TYPE, T8 0x52),
            (NAS_RAND, TB (av_rand (generateAuthVectors i))), (NAS_AUTN, TB (av_autn (generateAuthVectors i)))]"
  unfolding auth_request_message_def
  by (subst read_message_written) (simp_all add: readable_def value_ok_def vectors_shape)

lemma read_smc: "read_message dl_nas_kinds (security_mode_command seq a b)
    = Some [(MME_UE_S1AP_ID, T32 a), (ENB_UE_S1AP_ID, T32 b), (NAS_MSG_TYPE, T8 0x5D)]"
  unfolding security_mode_command_def by (subst read_message_written) (simp_all add: readable_def value_ok_def)

lemma read_auth_response:
  assumes "length res < 2 ^ 16"
  shows "read_message ul_nas_kinds (auth_response_message seq a b res)
    = Some [(MME_UE_S1AP_ID, T32 a), (ENB_UE_S1AP_ID, T32 b), (NAS_MSG_TYPE, T8 0x53), (NAS_RES, TB res)]"
  using assms unfolding auth_response_message_def
  by (subst read_message_written) (simp_all add: readable_def value_ok_def)

lemma read_smc_complete: "read_message ul_nas_kinds (smc_complete_message seq a b)
    = Some [(MME_UE_S1AP_ID, T32 a), (ENB_UE_S1AP_ID, T32 b), (NAS_MSG_TYPE, T8 0x5E)]"
  unfolding smc_complete_message_def by (subst read_message_written) (simp_all add: readable_def value_ok_def)

lemma read_attach_complete: "read_message ul_nas_kinds (attach_complete_message seq a b)
    = Some [(MME_UE_S1AP_ID, T32 a), (ENB_UE_S1AP_ID, T32 b), (NAS_MSG_TYPE, T8 0x46)]"
  unfolding attach_complete_message_def by (subst read_message_written) (simp_all add: readable_def value_ok_def)

lemma read_setup_response: "read_message setup_rsp_kinds (setup_response_message seq a b teid)
    = Some [(MME_UE_S1AP_ID, T32 a), (ICSR_ENB_TEID, T32 teid)]"
  unfolding setup_response_message_def by (subst read_message_written) (simp_all add: readable_def value_ok_def)

lemma read_create_response: "read_message create_rsp_kinds (s11_response seq s11 s1u i (be32 w))
    = Some [(GTP_CAUSE, T8 16), (GTP_SENDER_TEID, T32 s11), (GTP_BEARER_TEID, T32 s1u), (GTP_IMSI, T64 i),
            (GTP_UE_IP, TB (be32 w))]"
  unfolding s11_response_def by (subst read_message_written) (simp_all add: readable_def value_ok_def)

lemma read_setup_request: "\<exists>es. read_message icsr_kinds (setup_request_message seq a c b)
    = Some ([(MME_UE_S1AP_ID, T32 a), (ENB_UE_S1AP_ID, T32 (enb_ue_id c))] @ es)
     \<and> field es MME_UE_S1AP_ID = None \<and> field es ENB_UE_S1AP_ID = None"
proof -
  have len: "length ip \<le> 4" if "scan_dotted s = Some ip" for s ip
  proof -
    have "scan_dots n s = Some ip \<Longrightarrow> length ip \<le> n" for n s ip
      by (induction n arbitrary: s ip) (auto split: option.splits if_splits list.splits)
    then show ?thesis using that by (auto simp: scan_dotted_def)
  qed
  show ?thesis
    unfolding setup_request_message_def using len
    by (subst read_message_written)
      (auto simp: readable_def value_ok_def field_def split: option.splits dest!: len)
qed

subsection \<open>The store under the handlers\<close>

definition mme_ok :: "mme_state \<Rightarrow> bool" where
  "mme_ok m \<longleftrightarrow> store_ok (ues m)"

lemma mme_ok_simps [simp]:
  "mme_ok (next_seq m) = mme_ok m" "mme_ok (m\<lparr> pending_auth := p \<rparr>) = mme_ok m"
  "mme_ok m \<Longrightarrow> mme_ok (with_ue m uid f)"
  by (simp_all add: mme_ok_def next_seq_def with_ue_def store_adjust_ok)

lemma find_ue_simps [simp]:
  "find_ue (next_seq m) = find_ue m" "find_ue (m\<lparr> pending_auth := p \<rparr>) = find_ue m"
  by (simp_all add: find_ue_def next_seq_def fun_eq_iff)

lemma find_with_ue: "mme_ok m \<Longrightarrow> find_ue (with_ue m uid f) = (find_ue m)(uid := map_option f (find_ue m uid))"
  by (simp add: mme_ok_def find_ue_def [abs_def] with_ue_def find_adjust)

lemma next_id_ues [simp]:
  "next_id (ues (with_ue m uid f)) = next_id (ues m)" "ues (next_seq m) = ues m"
  by (auto simp: with_ue_def store_adjust_def store_put_def next_seq_def split: option.splits)

lemma hss_rx_answer:
  "hss_rx m (aia_message seq i (generateAuthVectors i))
     = Done (m\<lparr> pending_auth := tbl_set (pending_auth m) i (generateAuthVectors i) \<rparr>)"
proof -
  have t: "msg_type_of (aia_message seq i (generateAuthVectors i)) = DIA_AIA"
    "\<not> length (aia_message seq i (generateAuthVectors i)) < 8"
    unfolding aia_message_def by (simp_all add: message_shape)
  have v: "\<lparr> av_rand = av_rand v, av_autn = av_autn v, av_xres = av_xres v, av_kasme = av_kasme v \<rparr> = v"
    for v :: AuthVectors
    by (cases v) simp
  show ?thesis
    by (simp add: v hss_rx_def t read_aia from_read_def sized_def field_simps vectors_shape)
qed

lemma fetch_vectors_hss:
  "fetch_vectors (hss_peer q) m i mcc mnc
     = Done (generateAuthVectors i,
         (next_seq m)\<lparr> pending_auth := tbl_del (tbl_set (pending_auth m) i (generateAuthVectors i)) i \<rparr>)"
  by (simp add: fetch_vectors_def hss_peer_def air_message_def hss_answers hss_rx_answer Let_def next_seq_def)

subsection \<open>Attach: the steps of the mobility entity\<close>

definition attach_imsi :: "u32 \<Rightarrow> u64" where
  "attach_imsi i = BASE_IMSI + ucast i"

definition challenged_context :: "u32 \<Rightarrow> u32 \<Rightarrow> EpsUe" where
  "challenged_context uid i =
     (new_context (attach_imsi i) i 404 10 1)
       \<lparr> mme_ue_id := uid, ue_auth := generateAuthVectors (attach_imsi i), emm_state := AUTH_PENDING \<rparr>"

lemma mme_initial:
  assumes "mme_ok m"
  shows "\<exists>m'. handleInitialUEMsg (hss_peer q) False m (initial_message s i)
       = Done (m', [auth_request_message (mme_next_seq m + 1) (next_id (ues m)) i (generateAuthVectors (attach_imsi i))])
     \<and> mme_ok m' \<and> find_ue m' = (find_ue m)(next_id (ues m) := Some (challenged_context (next_id (ues m)) i))"
proof -
  let ?c = "new_context (attach_imsi i) i 404 10 1" and ?u = "next_id (ues m)"
  obtain st where st: "st = snd (store_insert (ues m) ?c)" by blast
  let ?v = "generateAuthVectors (attach_imsi i)"
  let ?m1 = "(next_seq (m\<lparr> ues := st \<rparr>))\<lparr> pending_auth := tbl_del (tbl_set (pending_auth m) (attach_imsi i) ?v) (attach_imsi i) \<rparr>"
  let ?m2 = "with_ue ?m1 ?u (\<lambda>c. c\<lparr> ue_auth := ?v, emm_state := AUTH_PENDING \<rparr>)"
  have ins: "store_insert (ues m) ?c = (?u, st)" by (simp add: st store_insert_def Let_def)
  have ok: "mme_ok ?m1"
    using assms by (simp add: mme_ok_def store_insert_ok next_seq_def st)
  have f: "find_ue ?m1 = (find_ue m)(?u := Some (?c\<lparr> mme_ue_id := ?u \<rparr>))"
    using assms find_insert [of "ues m" ?c] by (simp add: st find_ue_def [abs_def] mme_ok_def next_seq_def)
  have seq: "mme_next_seq ?m2 = mme_next_seq m + 1" by (simp add: with_ue_def next_seq_def)
  have "handleInitialUEMsg (hss_peer q) False m (initial_message s i)
      = Done (next_seq ?m2, [auth_request_message (mme_next_seq m + 1) ?u i ?v])"
    using seq
    by (simp add: handleInitialUEMsg_def read_initial from_read_def field_simps ins fetch_vectors_hss
        attach_imsi_def [symmetric] Let_def)
  moreover have "find_ue (next_seq ?m2) = (find_ue m)(?u := Some (challenged_context ?u i))"
    using find_with_ue [OF ok] f by (simp add: challenged_context_def)
  ultimately show ?thesis using ok by (intro exI [of _ "next_seq ?m2"]) simp
qed

subsection \<open>Attach: the answer to the challenge\<close>

text \<open>A bearer as the serving gateway in state \<open>g\<close> and the packet gateway in state \<open>p\<close> grant it.\<close>

definition granted_bearer :: "sgw_state \<Rightarrow> pgw_state \<Rightarrow> Bearer" where
  "granted_bearer g p = new_bearer (sgw_next_teid g) (sgw_next_teid g + 1) (be32 (pgw_next_ip p))"

abbreviation core_peer :: "u32 \<Rightarrow> pgw_state \<Rightarrow> sgw_state \<Rightarrow> peer" where
  "core_peer seq p g \<equiv> sgw_peer (pgw_peer (pcrf_peer registry_init seq) p) g"

lemma create_session:
  "sendCreateSession (core_peer seq p g) m uid imsi
     = Done (True, with_ue (next_seq m) uid (\<lambda>c. c\<lparr> bearers := bearers c @ [granted_bearer g p] \<rparr>))"
  by (simp add: sendCreateSession_def sgw_peer_def sgw_answers read_create_response from_read_def field_simps
      granted_bearer_def)

lemma granted_default: "bearers c = [granted_bearer g p] \<Longrightarrow> defaultBearer c = Some (granted_bearer g p)"
  by (simp add: defaultBearer_def granted_bearer_def new_bearer_def)

definition session_context :: "u32 \<Rightarrow> u32 \<Rightarrow> sgw_state \<Rightarrow> pgw_state \<Rightarrow> EpsUe" where
  "session_context uid i g p =
     (challenged_context uid i)\<lparr> emm_state := SESSION_PENDING, bearers := [granted_bearer g p] \<rparr>"

definition attach_answer :: "u32 \<Rightarrow> bytes" where
  "attach_answer i = map (\<lambda>b. b XOR 0x55) (take 8 (av_rand (generateAuthVectors (attach_imsi i))))"

lemma attach_answer: "attach_answer i = av_xres (ue_auth (challenged_context uid i))" "length (attach_answer i) = 8"
  by (simp_all add: attach_answer_def challenged_context_def generateAuthVectors_def Let_def)

lemma challenged_simps [simp]:
  "ue_imsi (challenged_context uid i) = attach_imsi i" "enb_ue_id (challenged_context uid i) = i"
  "bearers (challenged_context uid i) = []"
  by (simp_all add: challenged_context_def new_context_def)

lemma mme_auth_response:
  assumes "mme_ok m" and "find_ue m uid = Some (challenged_context uid i)"
  shows "\<exists>m'. handleULNasTransport (core_peer q p g) m (auth_response_message s uid i (attach_answer i))
       = Done (m', [security_mode_command (mme_next_seq m) uid i,
                    setup_request_message (mme_next_seq m + 2) uid (session_context uid i g p) (granted_bearer g p)])
     \<and> mme_ok m' \<and> find_ue m' = (find_ue m)(uid := Some (session_context uid i g p))"
proof -
  let ?c = "challenged_context uid i"
  let ?m1 = "with_ue (next_seq m) uid (\<lambda>c. c\<lparr> emm_state := SESSION_PENDING \<rparr>)"
  let ?m2 = "with_ue (next_seq ?m1) uid (\<lambda>c. c\<lparr> bearers := bearers c @ [granted_bearer g p] \<rparr>)"
  have f1: "find_ue ?m1 uid = Some (?c\<lparr> emm_state := SESSION_PENDING \<rparr>)"
    using assms by (simp add: find_with_ue)
  have f2: "find_ue ?m2 = (find_ue m)(uid := Some (session_context uid i g p))"
    using assms f1 by (simp add: find_with_ue session_context_def)
  have d: "defaultBearer (session_context uid i g p) = Some (granted_bearer g p)"
    by (rule granted_default) (simp add: session_context_def)
  have seq: "mme_next_seq ?m2 = mme_next_seq m + 2" by (simp add: with_ue_def next_seq_def)
  have a: "handleAuthSuccess (core_peer q p g) ?m1 uid = Done (next_seq ?m2,
      [setup_request_message (mme_next_seq m + 2) uid (session_context uid i g p) (granted_bearer g p)])"
    using f1 f2 d seq by (simp add: handleAuthSuccess_def create_session)
  have "nas_auth_response (core_peer q p g) m uid (attach_answer i) = Done (next_seq ?m2,
      [security_mode_command (mme_next_seq m) uid i,
       setup_request_message (mme_next_seq m + 2) uid (session_context uid i g p) (granted_bearer g p)])"
    using assms(2) a attach_answer(1) [of i uid] attach_answer(2) [of i] by (simp add: nas_auth_response_def)
  then show ?thesis
    using f2 assms(1)
    by (intro exI [of _ "next_seq ?m2"])
      (simp add: handleULNasTransport_def read_auth_response attach_answer from_read_def field_simps)
qed

lemma mme_smc_complete: "handleULNasTransport sgw m (smc_complete_message s uid i) = Done (m, [])"
  by (simp add: handleULNasTransport_def read_smc_complete from_read_def field_simps Let_def)

lemma mme_setup_response:
  "handleICSetupResponse m (setup_response_message s uid i teid) = Done (next_seq (with_ue m uid (set_default_teid teid)), [])"
  by (simp add: handleICSetupResponse_def read_setup_response from_read_def field_simps Let_def)

lemma mme_attach_complete:
  "handleULNasTransport sgw m (attach_complete_message s uid i)
     = Done (with_ue m uid (\<lambda>c. c\<lparr> emm_state := REGISTERED \<rparr>), [])"
  by (simp add: handleULNasTransport_def read_attach_complete from_read_def field_simps Let_def)

subsection \<open>Attach: the steps of the base station\<close>

lemma enb_auth_request:
  "handleDLNas e (auth_request_message s uid i (generateAuthVectors (attach_imsi i)))
     = Done (bump e, [auth_response_message (enb_next_seq e) uid i (attach_answer i)])"
  by (simp add: handleDLNas_def read_auth_request from_read_def field_simps Let_def vectors_shape attach_answer_def)

lemma enb_smc: "handleDLNas e (security_mode_command s uid i)
    = Done (bump e, [smc_complete_message (enb_next_seq e) uid i])"
  by (simp add: handleDLNas_def read_smc from_read_def field_simps Let_def)

lemma enb_setup_request:
  assumes "enb_ue_id c = i"
  shows "handleICSR e (setup_request_message s uid c b)
     = Done (bump (bump (e\<lparr> next_enb_teid := next_enb_teid e + 1 \<rparr>)),
         [setup_response_message (enb_next_seq e) uid i (next_enb_teid e),
          attach_complete_message (enb_next_seq e + 1) uid i])"
proof -
  obtain es where r: "read_message icsr_kinds (setup_request_message s uid c b)
      = Some ([(MME_UE_S1AP_ID, T32 uid), (ENB_UE_S1AP_ID, T32 i)] @ es)"
    and n: "field es MME_UE_S1AP_ID = None" "field es ENB_UE_S1AP_ID = None"
    using read_setup_request [of s uid c b] assms by auto
  have "f32 0 (field ([(MME_UE_S1AP_ID, T32 uid), (ENB_UE_S1AP_ID, T32 i)] @ es) MME_UE_S1AP_ID) = uid"
    "f32 0 (field ([(MME_UE_S1AP_ID, T32 uid), (ENB_UE_S1AP_ID, T32 i)] @ es) ENB_UE_S1AP_ID) = i"
    using n by (simp_all add: field_simps map_add_def)
  then show ?thesis
    unfolding handleICSR_def r from_read_def option.case by (simp add: Let_def bump_def)
qed

end
