(* ===== verification/Epc_Schedule.thy ===== *)
theory Epc_Schedule
  imports Epc_Flow
begin

text \<open>
  The order in which the base station and the mobility entity take their turns does not
  matter: the S1 connection is a pair of queues and each end reads only its own, so the
  steps of the two ends commute, in every state. Whatever one schedule reaches with the
  queues empty, every fair schedule reaches too (\<open>turn_system\<close>).
\<close>

subsection \<open>Turns that find a payload\<close>

definition enabled :: "s1_state \<Rightarrow> s1_turn \<Rightarrow> bool" where
  "enabled s t = (case t of MmeTurn \<Rightarrow> to_mme s \<noteq> [] | EnbTurn \<Rightarrow> to_enb s \<noteq> [])"

definition quiet :: "s1_state \<Rightarrow> bool" where
  "quiet s \<longleftrightarrow> to_mme s = [] \<and> to_enb s = []"

lemma quiet_idle: "quiet s \<longleftrightarrow> idle enabled s"
  by (auto simp: quiet_def idle_def enabled_def split: s1_turn.splits)

lemma step_idle: "\<not> enabled s t \<Longrightarrow> s1_step env s t = Done s"
  by (simp add: enabled_def s1_step_def split: s1_turn.splits)

lemma step_mme:
  "s1_step env s MmeTurn = Done s' \<and> enabled s MmeTurn \<longleftrightarrow>
     (\<exists>p ps m out. to_mme s = p # ps \<and> mme_receive env (s1_mme s) p = Done (m, out)
        \<and> s' = s\<lparr> s1_mme := m, to_mme := ps, to_enb := to_enb s @ out \<rparr>)"
  by (cases "to_mme s") (auto simp: s1_step_def enabled_def split: outcome.splits)

lemma step_enb:
  "s1_step env s EnbTurn = Done s' \<and> enabled s EnbTurn \<longleftrightarrow>
     (\<exists>p ps e out. to_enb s = p # ps \<and> enb_receive (s1_enb s) p = Done (e, out)
        \<and> s' = s\<lparr> s1_enb := e, to_enb := ps, to_mme := to_mme s @ out \<rparr>)"
  by (cases "to_enb s") (auto simp: s1_step_def enabled_def split: outcome.splits)

text \<open>A turn leaves the other end's turn enabled.\<close>

lemma s1_stays_enabled: "\<lbrakk> t \<noteq> t'; enabled s t; s1_step env s t' = Done s' \<rbrakk> \<Longrightarrow> enabled s' t"
  by (cases t; cases t') (auto simp: enabled_def s1_step_def split: list.splits outcome.splits)

lemma steps_commute:
  assumes "t \<noteq> t'" "enabled s t" "enabled s t'" "s1_step env s t' = Done s1" "s1_step env s1 t = Done u"
  shows "\<exists>s'. s1_step env s t = Done s' \<and> s1_step env s' t' = Done u"
proof (cases t)
  case MmeTurn
  then have t': "t' = EnbTurn" using assms(1) by (cases t') auto
  obtain q qs e out where e: "to_enb s = q # qs" "enb_receive (s1_enb s) q = Done (e, out)"
      "s1 = s\<lparr> s1_enb := e, to_enb := qs, to_mme := to_mme s @ out \<rparr>"
    using assms(3,4) t' step_enb [of env s s1] by auto
  obtain p ps where p: "to_mme s = p # ps" using assms(2) MmeTurn by (cases "to_mme s") (auto simp: enabled_def)
  show ?thesis
    using assms(5) e p MmeTurn t' by (auto simp: s1_step_def split: outcome.splits)
next
  case EnbTurn
  then have t': "t' = MmeTurn" using assms(1) by (cases t') auto
  obtain p ps m out where m: "to_mme s = p # ps" "mme_receive env (s1_mme s) p = Done (m, out)"
      "s1 = s\<lparr> s1_mme := m, to_mme := ps, to_enb := to_enb s @ out \<rparr>"
    using assms(3,4) t' step_mme [of env s s1] by auto
  obtain q qs where q: "to_enb s = q # qs" using assms(2) EnbTurn by (cases "to_enb s") (auto simp: enabled_def)
  show ?thesis
    using assms(5) m q EnbTurn t' by (auto simp: s1_step_def split: outcome.splits)
qed

lemma both_turns: "set b = UNIV \<longleftrightarrow> MmeTurn \<in> set b \<and> EnbTurn \<in> set b"
  by (auto, metis s1_turn.exhaust)

subsection \<open>Any fair schedule\<close>

abbreviation s1_path :: "mme_env \<Rightarrow> nat \<Rightarrow> s1_state \<Rightarrow> s1_state \<Rightarrow> bool" where
  "s1_path env \<equiv> turn_path (s1_step env) enabled UNIV"

interpretation s1: turn_system "s1_step env" enabled "\<lambda>s. True"
  for env
  by unfold_locales (simp_all add: step_idle s1_stays_enabled steps_commute)

lemma s1_fair_run:
  assumes "s1_path env n s f" "quiet f" "n \<le> length bs" "\<forall>b\<in>set bs. set b = UNIV"
  shows "s1_run env s (concat bs) = Done f"
  using s1.fair_run [OF assms(1) in_region] assms(2-4) by (auto simp: quiet_idle)

end
