(* ===== verification/Epc_Attach.thy ===== *)
theory Epc_Attach
  imports Epc_Schedule
begin

text \<open>
  The attach procedure and the S1 handover as paths of effective turns of the base station
  and the mobility entity, on the messages that the two really exchange.
\<close>

subsection \<open>Dispatch\<close>

lemma message_types [simp]:
  "msg_type_of (initial_message s i) = S1AP_INITIAL_UE_MSG"
  "msg_type_of (auth_request_message s a b v) = S1AP_DL_NAS_TRANSPORT"
  "msg_type_of (auth_response_message s a b r) = S1AP_UL_NAS_TRANSPORT"
  "msg_type_of (security_mode_command s a b) = S1AP_DL_NAS_TRANSPORT"
  "msg_type_of (smc_complete_message s a b) = S1AP_UL_NAS_TRANSPORT"
  "msg_type_of (setup_request_message s a c d) = S1AP_INITIAL_CONTEXT_SETUP_REQ"
  "msg_type_of (setup_response_message s a b t) = S1AP_INITIAL_CONTEXT_SETUP_RSP"
  "msg_type_of (attach_complete_message s a b) = S1AP_UL_NAS_TRANSPORT"
  by (simp_all add: initial_message_def auth_request_message_def auth_response_message_def security_mode_command_def
      smc_complete_message_def setup_request_message_def setup_response_message_def attach_complete_message_def
      message_shape)

lemma message_long [simp]:
  "\<not> length (initial_message s i) < 8" "\<not> length (auth_request_message s a b v) < 8"
  "\<not> length (auth_response_message s a b r) < 8" "\<not> length (security_mode_command s a b) < 8"
  "\<not> length (smc_complete_message s a b) < 8" "\<not> length (setup_request_message s a c d) < 8"
  "\<not> length (setup_response_message s a b t) < 8" "\<not> length (attach_complete_message s a b) < 8"
  by (simp_all add: initial_message_def auth_request_message_def auth_response_message_def security_mode_command_def
      smc_complete_message_def setup_request_message_def setup_response_message_def attach_complete_message_def)

lemma mme_turn:
  assumes "mme_receive env m p = Done (m', out)"
    and "s1_path env n \<lparr> s1_enb = e, s1_mme = m', to_mme = ps, to_enb = qs @ out \<rparr> f"
  shows "s1_path env (Suc n) \<lparr> s1_enb = e, s1_mme = m, to_mme = p # ps, to_enb = qs \<rparr> f"
  using assms by (intro path_step [where t = MmeTurn] UNIV_I) (simp_all add: enabled_def s1_step_def)

lemma enb_turn:
  assumes "enb_receive e q = Done (e', out)"
    and "s1_path env n \<lparr> s1_enb = e', s1_mme = m, to_mme = ps @ out, to_enb = qs \<rparr> f"
  shows "s1_path env (Suc n) \<lparr> s1_enb = e, s1_mme = m, to_mme = ps, to_enb = q # qs \<rparr> f"
  using assms by (intro path_step [where t = EnbTurn] UNIV_I) (simp_all add: enabled_def s1_step_def)

subsection \<open>Attach\<close>

definition core_env :: "u32 \<Rightarrow> u32 \<Rightarrow> pgw_state \<Rightarrow> sgw_state \<Rightarrow> mme_env" where
  "core_env q r p g = \<lparr> env_hss = hss_peer q, env_sgw = core_peer r p g, env_drop = False \<rparr>"

lemma core_env_simps [simp]:
  "env_hss (core_env q r p g) = hss_peer q" "env_sgw (core_env q r p g) = core_peer r p g"
  "\<not> env_drop (core_env q r p g)"
  by (simp_all add: core_env_def)

definition attached_context :: "u32 \<Rightarrow> u32 \<Rightarrow> u32 \<Rightarrow> sgw_state \<Rightarrow> pgw_state \<Rightarrow> EpsUe" where
  "attached_context uid i teid g p =
     \<lparr> ue_imsi = attach_imsi i, mme_ue_id = uid, enb_ue_id = i, emm_state = REGISTERED,
       ue_auth = generateAuthVectors (attach_imsi i),
       bearers = [\<lparr> b_ebi = 5, b_qci = 9, sgw_s11_teid = sgw_next_teid g, sgw_s1u_teid = sgw_next_teid g + 1,
                   pgw_s5_teid = 0, enb_s1u_teid = teid, b_ue_ip = dotted (be32 (pgw_next_ip p)) \<rparr>],
       tai_mcc = 404, tai_mnc = 10, tai_tac = 1 \<rparr>"

lemma attached_context:
  "(set_default_teid teid (session_context uid i g p))\<lparr> emm_state := REGISTERED \<rparr> = attached_context uid i teid g p"
  by (simp add: attached_context_def session_context_def set_default_teid_def granted_bearer_def new_bearer_def
      challenged_context_def new_context_def)

lemma attach_path:
  assumes m: "mme_ok m"
  shows "\<exists>f. s1_path (core_env q r p g) 8
       \<lparr> s1_enb = bump e, s1_mme = m, to_mme = [initial_message (enb_next_seq e) i], to_enb = [] \<rparr> f
     \<and> quiet f \<and> mme_ok (s1_mme f)
     \<and> find_ue (s1_mme f)
         = (find_ue m)(next_id (ues m) := Some (attached_context (next_id (ues m)) i (next_enb_teid e) g p))"
proof -
  let ?E = "core_env q r p g" and ?u = "next_id (ues m)" and ?i = "initial_message (enb_next_seq e) i"
  obtain m1 a where m1: "mme_receive ?E m ?i = Done (m1, [a])" "mme_ok m1"
      "a = auth_request_message (mme_next_seq m + 1) ?u i (generateAuthVectors (attach_imsi i))"
      "find_ue m1 = (find_ue m)(?u := Some (challenged_context ?u i))"
    using mme_initial [OF m, of q "enb_next_seq e" i] by (auto simp: mme_receive_def)
  obtain e1 b where e1: "enb_receive (bump e) a = Done (e1, [b])" "next_enb_teid e1 = next_enb_teid e"
      "b = auth_response_message (enb_next_seq (bump e)) ?u i (attach_answer i)"
    by (auto simp: enb_receive_def m1(3) enb_auth_request bump_def)
  have "find_ue m1 ?u = Some (challenged_context ?u i)" by (simp add: m1)
  from mme_auth_response [OF m1(2) this, of r p g "enb_next_seq (bump e)"] obtain m2 c d where
    m2: "mme_receive ?E m1 b = Done (m2, [c, d])" "mme_ok m2" "c = security_mode_command (mme_next_seq m1) ?u i"
      "d = setup_request_message (mme_next_seq m1 + 2) ?u (session_context ?u i g p) (granted_bearer g p)"
      "find_ue m2 = (find_ue m)(?u := Some (session_context ?u i g p))"
    by (auto simp: mme_receive_def e1(3) m1(4))
  obtain e2 x where e2: "enb_receive e1 c = Done (e2, [x])" "next_enb_teid e2 = next_enb_teid e"
      "x = smc_complete_message (enb_next_seq e1) ?u i"
    by (auto simp: enb_receive_def m2(3) enb_smc bump_def e1(2))
  have "enb_ue_id (session_context ?u i g p) = i" by (simp add: session_context_def)
  then obtain e3 y z where e3: "enb_receive e2 d = Done (e3, [y, z])"
      "y = setup_response_message (enb_next_seq e2) ?u i (next_enb_teid e)"
      "z = attach_complete_message (enb_next_seq e2 + 1) ?u i"
    by (auto simp: enb_receive_def m2(4) enb_setup_request e2(2))
  let ?m3 = "next_seq (with_ue m2 ?u (set_default_teid (next_enb_teid e)))"
  let ?m4 = "with_ue ?m3 ?u (\<lambda>c. c\<lparr> emm_state := REGISTERED \<rparr>)"
  have m3: "mme_receive ?E m2 x = Done (m2, [])" "mme_receive ?E m2 y = Done (?m3, [])"
      "mme_receive ?E ?m3 z = Done (?m4, [])"
    by (simp_all add: mme_receive_def e2(3) e3(2,3) mme_smc_complete mme_setup_response mme_attach_complete)
  let ?f = "\<lparr> s1_enb = e3, s1_mme = ?m4, to_mme = [], to_enb = [] \<rparr>"
  have "s1_path ?E 8 \<lparr> s1_enb = bump e, s1_mme = m, to_mme = [?i], to_enb = [] \<rparr> ?f"
    unfolding eval_nat_numeral BitM.simps
    by (rule mme_turn [OF m1(1)], unfold append_Nil, rule enb_turn [OF e1(1)], unfold append_Nil,
        rule mme_turn [OF m2(1)], unfold append_Nil, rule enb_turn [OF e2(1)], unfold append_Nil,
        rule mme_turn [OF m3(1)], unfold append_Nil2, rule enb_turn [OF e3(1)], unfold append_Nil,
        rule mme_turn [OF m3(2)], unfold append_Nil2, rule mme_turn [OF m3(3)], unfold append_Nil2, rule path_nil)
  moreover have "find_ue ?m4 = (find_ue m)(?u := Some (attached_context ?u i (next_enb_teid e) g p))"
    using m2(2,5) by (simp add: find_with_ue attached_context)
  ultimately show ?thesis using m2(2) by (intro exI [of _ ?f]) (simp add: quiet_def)
qed

subsection \<open>Handover\<close>

text \<open>What each end makes of the handover messages, whatever elements the others ignore.\<close>

lemma mme_ho_required:
  "mme_receive env m (message S1AP_HANDOVER_REQUIRED s
     [(MME_UE_S1AP_ID, T32 a), (ENB_UE_S1AP_ID, T32 b), (TAU_IMSI, T64 x), (HO_TYPE, T8 t), (HO_CAUSE, T8 c)])
   = Done (next_seq m, [message S1AP_HANDOVER_REQUEST (mme_next_seq m)
       [(MME_UE_S1AP_ID, T32 a), (ENB_UE_S1AP_ID, T32 b), (HO_TYPE, T8 0)]])"
  by (simp add: mme_receive_def message_shape handleHandoverRequired_def read_message_written readable_def value_ok_def
      from_read_def field_simps)

lemma enb_ho_request:
  "enb_receive e (message S1AP_HANDOVER_REQUEST s
     [(MME_UE_S1AP_ID, T32 a), (ENB_UE_S1AP_ID, T32 b), (HO_TYPE, T8 t)])
   = Done (bump (e\<lparr> next_enb_teid := next_enb_teid e + 1 \<rparr>), [message S1AP_HANDOVER_REQUEST_ACK (enb_next_seq e)
       [(MME_UE_S1AP_ID, T32 a), (ENB_UE_S1AP_ID, T32 b), (HO_ENB_TEID_NEW, T32 (next_enb_teid e))]])"
  by (simp add: enb_receive_def message_shape handleHoRequest_def read_message_written readable_def value_ok_def
      from_read_def field_simps Let_def)

lemma mme_ho_ack:
  "mme_receive env m (message S1AP_HANDOVER_REQUEST_ACK s
     [(MME_UE_S1AP_ID, T32 a), (ENB_UE_S1AP_ID, T32 b), (HO_ENB_TEID_NEW, T32 t)])
   = Done (next_seq (with_ue m a (set_default_teid t)), [message S1AP_HANDOVER_COMMAND (mme_next_seq m)
       [(MME_UE_S1AP_ID, T32 a), (ENB_UE_S1AP_ID, T32 b)]])"
  by (simp add: mme_receive_def message_shape handleHandoverRequestAck_def read_message_written readable_def value_ok_def
      from_read_def field_simps Let_def with_ue_def)

lemma enb_ho_command:
  "enb_receive e (message S1AP_HANDOVER_COMMAND s [(MME_UE_S1AP_ID, T32 a), (ENB_UE_S1AP_ID, T32 b)])
   = Done (bump e, [message S1AP_ENB_STATUS_TRANSFER (enb_next_seq e)
       [(MME_UE_S1AP_ID, T32 a), (ENB_UE_S1AP_ID, T32 b), (HO_PDCP_SN_UL, T32 42), (HO_PDCP_SN_DL, T32 37)]])"
  by (simp add: enb_receive_def message_shape handleHoCommand_def read_message_written readable_def value_ok_def
      from_read_def field_simps)

lemma mme_ho_status:
  "mme_receive env m (message S1AP_ENB_STATUS_TRANSFER s
     [(MME_UE_S1AP_ID, T32 a), (ENB_UE_S1AP_ID, T32 b), (HO_PDCP_SN_UL, T32 u), (HO_PDCP_SN_DL, T32 d)])
   = Done (next_seq m, [message S1AP_MME_STATUS_TRANSFER (mme_next_seq m)
       [(MME_UE_S1AP_ID, T32 a), (ENB_UE_S1AP_ID, T32 b), (HO_PDCP_SN_UL, T32 u), (HO_PDCP_SN_DL, T32 d)]])"
  by (simp add: mme_receive_def message_shape handleEnbStatusTransfer_def read_message_written readable_def value_ok_def
      from_read_def field_simps)

lemma enb_ho_status:
  "enb_receive e (message S1AP_MME_STATUS_TRANSFER s
     [(MME_UE_S1AP_ID, T32 a), (ENB_UE_S1AP_ID, T32 b), (HO_PDCP_SN_UL, T32 u), (HO_PDCP_SN_DL, T32 d)])
   = Done (bump e, [message S1AP_HANDOVER_NOTIFY (enb_next_seq e)
       [(MME_UE_S1AP_ID, T32 a), (ENB_UE_S1AP_ID, T32 b), (HO_ENB_TEID_NEW, T32 (next_enb_teid e - 1))]])"
  by (simp add: enb_receive_def message_shape handleMmeStatusXfer_def read_message_written readable_def value_ok_def
      from_read_def field_simps)

lemma mme_ho_notify:
  "mme_receive env m (message S1AP_HANDOVER_NOTIFY s
     [(MME_UE_S1AP_ID, T32 a), (ENB_UE_S1AP_ID, T32 b), (HO_ENB_TEID_NEW, T32 t)])
   = Done (next_seq (next_seq m), [message S1AP_UE_CONTEXT_RELEASE_CMD (mme_next_seq m + 1)
       [(MME_UE_S1AP_ID, T32 a), (ENB_UE_S1AP_ID, T32 b), (HO_CAUSE, T8 0)]])"
  "handover_path_switch m (message S1AP_HANDOVER_NOTIFY s
     [(MME_UE_S1AP_ID, T32 a), (ENB_UE_S1AP_ID, T32 b), (HO_ENB_TEID_NEW, T32 t)])
   = Done (path_switch m a (final_teid m a t))"
  by (simp_all add: mme_receive_def message_shape handleHandoverNotify_def handover_path_switch_def read_message_written
      readable_def value_ok_def from_read_def field_simps Let_def next_seq_def)

lemma enb_ho_release:
  "enb_receive e (message S1AP_UE_CONTEXT_RELEASE_CMD s
     [(MME_UE_S1AP_ID, T32 a), (ENB_UE_S1AP_ID, T32 b), (HO_CAUSE, T8 c)])
   = Done (bump e, [message S1AP_UE_CONTEXT_RELEASE_CMPL (enb_next_seq e)
       [(MME_UE_S1AP_ID, T32 a), (ENB_UE_S1AP_ID, T32 b)]])"
  by (simp add: enb_receive_def message_shape handleUeCtxRelCmd_def read_message_written readable_def value_ok_def
      from_read_def field_simps)

lemma mme_ho_complete:
  "mme_receive env m (message S1AP_UE_CONTEXT_RELEASE_CMPL s [(MME_UE_S1AP_ID, T32 a), (ENB_UE_S1AP_ID, T32 b)])
     = Done (m, [])"
  by (simp add: mme_receive_def message_shape handleUeContextRelCmpl_def read_message_written readable_def value_ok_def
      from_read_def)

lemmas handover_steps = mme_ho_required enb_ho_request mme_ho_ack enb_ho_command mme_ho_status enb_ho_status
  mme_ho_notify enb_ho_release mme_ho_complete

lemma bump_teid [simp]: "next_enb_teid (bump e) = next_enb_teid e"
  by (simp add: bump_def)

lemma handover_path:
  assumes m: "mme_ok m"
  shows "\<exists>f. s1_path env 9
       \<lparr> s1_enb = fst (sendHandoverRequired e a b), s1_mme = m, to_mme = snd (sendHandoverRequired e a b), to_enb = [] \<rparr> f
     \<and> quiet f \<and> find_ue (s1_mme f) = (find_ue m)(a := map_option (set_default_teid (next_enb_teid e)) (find_ue m a))"
  (is "\<exists>f. s1_path env 9 ?s f \<and> quiet f \<and> find_ue (s1_mme f) = ?g")
proof -
  let ?t = "next_enb_teid e"
  let ?e1 = "bump ((bump e)\<lparr> next_enb_teid := ?t + 1 \<rparr>)"
  let ?m1 = "next_seq (with_ue (next_seq m) a (set_default_teid ?t))"
  let ?m2 = "next_seq (next_seq (next_seq ?m1))"
  let ?f = "\<lparr> s1_enb = bump (bump (bump ?e1)), s1_mme = ?m2, to_mme = [], to_enb = [] \<rparr>"
  have "s1_path env 9 ?s ?f"
    unfolding sendHandoverRequired_def fst_conv snd_conv eval_nat_numeral BitM.simps
    by (rule mme_turn, rule mme_ho_required, unfold append_Nil, rule enb_turn, rule enb_ho_request, unfold append_Nil,
        rule mme_turn, rule mme_ho_ack, unfold append_Nil, rule enb_turn, rule enb_ho_command, unfold append_Nil,
        rule mme_turn, rule mme_ho_status, unfold append_Nil, rule enb_turn, rule enb_ho_status, unfold append_Nil,
        rule mme_turn, rule mme_ho_notify, unfold append_Nil, rule enb_turn, rule enb_ho_release, unfold append_Nil,
        rule mme_turn, rule mme_ho_complete, unfold append_Nil bump_teid, rule path_nil)
  moreover have "find_ue ?m2 = ?g" using m by (simp add: find_with_ue)
  ultimately show ?thesis by (intro exI [of _ ?f]) (simp add: quiet_def)
qed

end
