(* ===== verification/Epc_Safety.thy ===== *)
theory Epc_Safety
  imports Epc_Flow
begin

text \<open>
  What one payload can change in the contexts of the mobility entity, whatever it contains
  and whatever the other nodes answer, and the invariants of every run that follow from it.
\<close>

subsection \<open>One payload\<close>

text \<open>The payload is an Authentication Response for the context with the response expected.\<close>

definition answers :: "bytes \<Rightarrow> u32 \<Rightarrow> AuthVectors \<Rightarrow> bool" where
  "answers p uid v \<longleftrightarrow>
     (case read_message ul_nas_kinds p of None \<Rightarrow> False
      | Some es \<Rightarrow> msg_type_of p = S1AP_UL_NAS_TRANSPORT \<and> f32 0 (field es MME_UE_S1AP_ID) = uid
          \<and> f8 0 (field es NAS_MSG_TYPE) = 0x53 \<and> take 8 (fB [] (field es NAS_RES)) = av_xres v)"

definition idle_context :: "EpsUe \<Rightarrow> bool" where
  "idle_context c \<longleftrightarrow> bearers c = [] \<and> emm_state c \<noteq> SESSION_PENDING"

text \<open>A change of a context that grants nothing.\<close>

definition harmless :: "(EpsUe \<Rightarrow> EpsUe) \<Rightarrow> bool" where
  "harmless f \<longleftrightarrow> (\<forall>c. ue_auth (f c) = ue_auth c \<and> mme_ue_id (f c) = mme_ue_id c
     \<and> (idle_context c \<longrightarrow> idle_context (f c)))"

definition evolves :: "bytes \<Rightarrow> mme_state \<Rightarrow> mme_state \<Rightarrow> bool" where
  "evolves p m m' \<longleftrightarrow> mme_ok m' \<and>
     (\<forall>uid c'. find_ue m' uid = Some c' \<longrightarrow>
        (\<exists>c. find_ue m uid = Some c \<and> ue_auth c' = ue_auth c \<and> mme_ue_id c' = mme_ue_id c
           \<and> (idle_context c \<longrightarrow> idle_context c' \<or> answers p uid (ue_auth c')))
        \<or> (mme_ue_id c' = uid \<and> idle_context c'))"

lemma evolves_refl: "mme_ok m \<Longrightarrow> evolves p m m"
  by (auto simp: evolves_def)

lemma evolves_seq [simp]: "evolves p m (next_seq m') = evolves p m m'"
  by (simp add: evolves_def)

lemma evolves_with_ue:
  assumes "mme_ok m" "harmless f"
  shows "evolves p m (with_ue m uid f)"
  using assms by (auto simp: evolves_def find_with_ue harmless_def)

lemma harmless_teid: "harmless (set_default_teid t)"
proof -
  have "set_first P g xs = [] \<longleftrightarrow> xs = []" for P and g :: "Bearer \<Rightarrow> Bearer" and xs
    by (cases xs) auto
  then show ?thesis by (auto simp: harmless_def set_default_teid_def idle_context_def)
qed

lemma harmless_registered: "harmless (\<lambda>c. c\<lparr> emm_state := REGISTERED \<rparr>)"
  by (simp add: harmless_def idle_context_def)

lemma from_readE:
  assumes "from_read r f = Done x"
  obtains y where "r = Some y" "f y = Done x"
  using assms by (auto simp: from_read_def split: option.splits)

lemma hss_rx_ues: "hss_rx m p = Done m' \<Longrightarrow> ues m' = ues m"
  by (auto simp: hss_rx_def from_read_def split: if_splits option.splits)

lemma fetch_ues: "fetch_vectors hss m i a b = Done (v, m') \<Longrightarrow> ues m' = ues m"
  by (auto simp: fetch_vectors_def Let_def split: option.splits outcome.splits dest!: hss_rx_ues)

lemma evolves_initial:
  assumes ok: "mme_ok m" and h: "handleInitialUEMsg hss d m p = Done (m', out)"
  shows "evolves p m m'"
proof -
  obtain es where es: "read_message initial_kinds p = Some es"
    using h by (auto simp: handleInitialUEMsg_def elim: from_readE)
  let ?c = "new_context (f64 0 (field es NAS_IMSI)) (f32 0 (field es ENB_UE_S1AP_ID)) (f16 0 (field es TAI_MCC))
    (f16 0 (field es TAI_MNC)) (f16 0 (field es TAI_TAC))"
  obtain u st where st: "store_insert (ues m) ?c = (u, st)" by (cases "store_insert (ues m) ?c")
  have u: "u = next_id (ues m)" using st by (simp add: store_insert_def Let_def)
  obtain v m1 where m1: "fetch_vectors hss (m\<lparr> ues := st \<rparr>) (f64 0 (field es NAS_IMSI)) (f16 0 (field es TAI_MCC))
      (f16 0 (field es TAI_MNC)) = Done (v, m1)"
    and m': "ues m' = ues (with_ue m1 u (\<lambda>c. c\<lparr> ue_auth := v, emm_state := AUTH_PENDING \<rparr>))"
    using h by (auto simp: handleInitialUEMsg_def from_read_def es st Let_def split: outcome.splits if_splits)
  have s1: "ues m1 = st" using fetch_ues [OF m1] by simp
  have sok: "store_ok (ues m)" using ok by (simp add: mme_ok_def)
  have ok1: "mme_ok m1" using store_insert_ok [OF sok, of ?c] st s1 by (simp add: mme_ok_def)
  have f1: "find_ue m1 = (find_ue m)(u := Some (?c\<lparr> mme_ue_id := u \<rparr>))"
    using find_insert [OF sok, of ?c] st s1 u by (simp add: find_ue_def [abs_def])
  have f: "find_ue m' = (find_ue m)(u := Some (?c\<lparr> mme_ue_id := u, ue_auth := v, emm_state := AUTH_PENDING \<rparr>))"
    using find_with_ue [OF ok1] f1 m' by (simp add: find_ue_def [abs_def])
  have "mme_ok m'" using ok1 m' by (simp add: mme_ok_def with_ue_def store_adjust_ok)
  then show ?thesis by (auto simp: evolves_def f idle_context_def new_context_def)
qed

lemma create_session_bearer:
  assumes "sendCreateSession sgw m uid imsi = Done (ok, m')"
  obtains f where "m' = with_ue (next_seq m) uid f \<or> m' = next_seq m"
    "\<forall>c. ue_auth (f c) = ue_auth c \<and> mme_ue_id (f c) = mme_ue_id c"
proof -
  obtain b where "m' = with_ue (next_seq m) uid (\<lambda>c. c\<lparr> bearers := bearers c @ b \<rparr>) \<or> m' = next_seq m"
    using assms by (auto simp: sendCreateSession_def Let_def from_read_def split: option.splits if_splits)
  then show thesis by (intro that [of "\<lambda>c. c\<lparr> bearers := bearers c @ b \<rparr>"]) simp_all
qed

lemma auth_success_effect:
  assumes ok: "mme_ok m" and h: "handleAuthSuccess sgw m uid = Done (m', out)"
  shows "mme_ok m' \<and> (\<forall>k. k \<noteq> uid \<longrightarrow> find_ue m' k = find_ue m k)
     \<and> (\<forall>c'. find_ue m' uid = Some c' \<longrightarrow> (\<exists>c. find_ue m uid = Some c \<and> ue_auth c' = ue_auth c \<and> mme_ue_id c' = mme_ue_id c))"
proof (cases "find_ue m uid")
  case None
  with ok h show ?thesis by (auto simp: handleAuthSuccess_def)
next
  case (Some c)
  obtain b m1 where s: "sendCreateSession sgw m uid (ue_imsi c) = Done (b, m1)"
    and m1: "ues m' = ues m1"
    using h Some by (auto simp: handleAuthSuccess_def split: outcome.splits if_splits option.splits)
  obtain f where f: "m1 = with_ue (next_seq m) uid f \<or> m1 = next_seq m"
      "\<forall>c. ue_auth (f c) = ue_auth c \<and> mme_ue_id (f c) = mme_ue_id c"
    using create_session_bearer [OF s] by blast
  have "mme_ok m1" using f ok by auto
  moreover have "find_ue m' = find_ue m1" using m1 by (simp add: find_ue_def fun_eq_iff)
  ultimately show ?thesis using f ok m1 by (auto simp: find_with_ue mme_ok_def)
qed

lemma evolves_ul_nas:
  assumes ok: "mme_ok m" and t: "msg_type_of p = S1AP_UL_NAS_TRANSPORT"
    and h: "handleULNasTransport sgw m p = Done (m', out)"
  shows "evolves p m m'"
proof -
  obtain es where es: "read_message ul_nas_kinds p = Some es"
    using h by (auto simp: handleULNasTransport_def elim: from_readE)
  let ?u = "f32 0 (field es MME_UE_S1AP_ID)" and ?n = "f8 0 (field es NAS_MSG_TYPE)" and ?r = "fB [] (field es NAS_RES)"
  consider "?n = 0x53" "nas_auth_response sgw m ?u ?r = Done (m', out)"
    | "m' = m" | "m' = with_ue m ?u (\<lambda>c. c\<lparr> emm_state := REGISTERED \<rparr>)"
    using h by (auto simp: handleULNasTransport_def from_read_def es Let_def split: if_splits)
  then show ?thesis
  proof cases
    case 1
    show ?thesis
    proof (cases "\<exists>c. find_ue m ?u = Some c \<and> length ?r \<ge> 8 \<and> take 8 ?r = av_xres (ue_auth c)")
      case False
      with 1(2) ok show ?thesis
        by (auto simp: nas_auth_response_def evolves_refl split: option.splits if_splits)
    next
      case True
      then obtain c where c: "find_ue m ?u = Some c" "length ?r \<ge> 8" "take 8 ?r = av_xres (ue_auth c)" by blast
      let ?m1 = "with_ue (next_seq m) ?u (\<lambda>c. c\<lparr> emm_state := SESSION_PENDING \<rparr>)"
      have ok1: "mme_ok ?m1" using ok by simp
      obtain out' where s: "handleAuthSuccess sgw ?m1 ?u = Done (m', out')"
        using 1(2) c by (auto simp: nas_auth_response_def Let_def split: outcome.splits)
      have f: "find_ue ?m1 = (find_ue m)(?u := Some (c\<lparr> emm_state := SESSION_PENDING \<rparr>))"
        using ok c by (simp add: find_with_ue)
      have a: "answers p ?u (ue_auth c)" using c(3) 1(1) by (simp add: answers_def es t)
      have eff: "mme_ok m'" "\<And>k. k \<noteq> ?u \<Longrightarrow> find_ue m' k = find_ue m k"
        "\<And>c'. find_ue m' ?u = Some c' \<Longrightarrow> ue_auth c' = ue_auth c \<and> mme_ue_id c' = mme_ue_id c"
        using auth_success_effect [OF ok1 s] f by auto
      show ?thesis
        unfolding evolves_def
      proof (intro conjI allI impI disjI1)
        fix k c'
        assume k: "find_ue m' k = Some c'"
        show "\<exists>c. find_ue m k = Some c \<and> ue_auth c' = ue_auth c \<and> mme_ue_id c' = mme_ue_id c
            \<and> (idle_context c \<longrightarrow> idle_context c' \<or> answers p k (ue_auth c'))"
        proof (cases "k = ?u")
          case True
          with k eff(3) c(1) a show ?thesis by (intro exI [of _ c]) simp
        next
          case False
          with k eff(2) show ?thesis by (intro exI [of _ c']) simp
        qed
      qed (rule eff)
    qed
  qed (use ok in \<open>auto intro: evolves_refl evolves_with_ue harmless_registered\<close>)
qed

lemma evolves_receive:
  assumes ok: "mme_ok m" and h: "mme_receive env m p = Done (m', out)"
  shows "evolves p m m'"
proof -
  have teid: "evolves p m (next_seq (with_ue m u (set_default_teid t)))" for u t
    using evolves_with_ue [OF ok harmless_teid] by simp
  have same: "evolves p m (next_seq m)" "evolves p m (next_seq (next_seq m))" "evolves p m m"
    using evolves_refl [OF ok] by simp_all
  note handlers = handleICSetupResponse_def handleTauRequest_def handleHandoverRequired_def
    handleHandoverRequestAck_def handleEnbStatusTransfer_def handleHandoverNotify_def handleUeContextRelCmpl_def
  show ?thesis
    using h teid same evolves_initial [OF ok] evolves_ul_nas [OF ok]
    unfolding mme_receive_def Let_def
    by (auto simp: handlers Let_def elim!: from_readE split: if_splits)
qed

subsection \<open>Every run\<close>

definition contexts_ok :: "bytes list \<Rightarrow> mme_state \<Rightarrow> bool" where
  "contexts_ok ps m \<longleftrightarrow> mme_ok m \<and>
     (\<forall>uid c. find_ue m uid = Some c \<longrightarrow> mme_ue_id c = uid
        \<and> (idle_context c \<or> (\<exists>p\<in>set ps. answers p uid (ue_auth c))))"

lemma contexts_step:
  assumes "contexts_ok ps m" "mme_receive env m p = Done (m', out)"
  shows "contexts_ok (ps @ [p]) m'"
proof -
  have e: "evolves p m m'" using assms evolves_receive by (simp add: contexts_ok_def)
  show ?thesis
    unfolding contexts_ok_def
  proof (intro conjI allI impI)
    show "mme_ok m'" using e by (simp add: evolves_def)
    fix uid c'
    assume "find_ue m' uid = Some c'"
    with e consider (old) c where "find_ue m uid = Some c" "ue_auth c' = ue_auth c" "mme_ue_id c' = mme_ue_id c"
        "idle_context c \<longrightarrow> idle_context c' \<or> answers p uid (ue_auth c')"
      | (new) "mme_ue_id c' = uid" "idle_context c'"
      unfolding evolves_def by blast
    then show "mme_ue_id c' = uid" "idle_context c' \<or> (\<exists>q\<in>set (ps @ [p]). answers q uid (ue_auth c'))"
      using assms(1) by (cases; fastforce simp: contexts_ok_def)+
  qed
qed

lemma contexts_run:
  "\<lbrakk> contexts_ok ps m; mme_run m evs = Done m' \<rbrakk> \<Longrightarrow> contexts_ok (ps @ map snd evs) m'"
proof (induction m evs arbitrary: ps rule: mme_run.induct)
  case (2 m e p evs)
  then obtain m1 out where m1: "mme_receive e m p = Done (m1, out)" "mme_run m1 evs = Done m'"
    by (auto split: outcome.splits)
  with 2 contexts_step [OF 2(2) m1(1)] show ?case by force
qed simp

lemma contexts_init: "contexts_ok [] mme_init"
proof -
  have "find_ue mme_init uid = None" for uid
    by (simp add: find_ue_def mme_init_def ues.lookup_empty)
  then show ?thesis by (simp add: contexts_ok_def mme_ok_def mme_init_def ues.inv_empty)
qed

lemmas run_from_init = contexts_run [OF contexts_init, simplified append_Nil]

end
