(* ===== verification/Epc_S1ap.thy ===== *)
theory Epc_S1ap
  imports Text_Frames Byte_Order
begin

text \<open>
  The NAS and S1AP messages that the nodes of the 4G core write into the capture file
  (\<open>common/nas_eps.cpp\<close>, \<open>common/s1ap_codec.cpp\<close>): byte templates with fields written over
  fixed places, and a parser of the information elements after the comment of the code.
\<close>

subsection \<open>NAS messages\<close>

definition digit_byte :: "char \<Rightarrow> byte" where
  "digit_byte c = char_byte c - char_byte CHR ''0''"

fun bcd_pairs :: "string \<Rightarrow> bytes" where
  "bcd_pairs (a # b # s) = (push_bit 4 (digit_byte b) OR digit_byte a) # bcd_pairs s"
| "bcd_pairs _ = []"

definition encodeEpsIdImsi :: "u64 \<Rightarrow> bytes" where
  "encodeEpsIdImsi imsi =
     (let digits = nat_dec (unat imsi)
      in (push_bit 4 (digit_byte (hd digits)) OR 8 OR 1) # bcd_pairs (tl digits))"

definition esm_connectivity :: bytes where
  "esm_connectivity = [0x02, 0x01, 0xd0, 0x11]"

text \<open>The length of a part of the message in the given number of bytes.\<close>

definition len8 :: "bytes \<Rightarrow> byte" where
  "len8 bs = word_of_nat (length bs)"

definition len16 :: "bytes \<Rightarrow> bytes" where
  "len16 bs = be16 (word_of_nat (length bs))"

definition buildAttachRequest :: "u64 \<Rightarrow> bytes" where
  "buildAttachRequest imsi =
     (let epsid = encodeEpsIdImsi imsi
      in [0x07, 0x41, 0x71] @ [len8 epsid] @ epsid @ [0x02, 0xe0, 0xe0] @ len16 esm_connectivity @ esm_connectivity)"

definition buildAuthRequest :: "bytes \<Rightarrow> bytes \<Rightarrow> bytes" where
  "buildAuthRequest rand16 autn16 = [0x07, 0x52, 0x00] @ take 16 rand16 @ [0x10] @ take 16 autn16"

definition buildAuthResponse :: "bytes \<Rightarrow> bytes" where
  "buildAuthResponse res8 = [0x07, 0x53, 0x08] @ take 8 res8"

definition SECURITY_MODE_COMMAND :: bytes where
  "SECURITY_MODE_COMMAND = [0x07, 0x5d, 0x22, 0x07, 0x02, 0xe0, 0xe0]"

definition SECURITY_MODE_COMPLETE :: bytes where
  "SECURITY_MODE_COMPLETE = [0x07, 0x5e]"

definition ATTACH_COMPLETE :: bytes where
  "ATTACH_COMPLETE = [0x07, 0x43, 0x00, 0x03, 0x52, 0x01, 0xc2]"

definition esm_activate :: "bytes \<Rightarrow> bytes" where
  "esm_activate ue_ip =
     [0x52, 0x01, 0xc1, 0x01, 0x09, 0x09, 0x08] @ map char_byte ''internet'' @ [0x05, 0x01] @ take 4 ue_ip"

definition buildAttachAccept :: "bytes \<Rightarrow> bytes" where
  "buildAttachAccept ue_ip =
     [0x07, 0x42, 0x01, 0x1e, 0x06, 0x00, 0x04, 0xf4, 0x01, 0x00, 0x01] @ len16 (esm_activate ue_ip) @ esm_activate ue_ip"

definition buildTauRequest :: "u64 \<Rightarrow> bytes" where
  "buildTauRequest imsi =
     (let epsid = encodeEpsIdImsi imsi in [0x07, 0x48, 0x00] @ [len8 epsid] @ epsid @ [0x58, 0x02, 0xe0, 0xe0])"

definition buildTauAccept :: bytes where
  "buildTauAccept = [0x07, 0x49, 0x00, 0x5A, 0x49, 0x54, 0x07, 0x00, 0x01, 0x04, 0xF4, 0x01, 0x00, 0x02]"

subsection \<open>Templates\<close>

definition nibble :: "char \<Rightarrow> byte" where
  "nibble c = (if is_digit c then digit_byte c else char_byte c - char_byte CHR ''a'' + 10)"

text \<open>The templates consist of digits and the small letters a to f.\<close>

fun hex2bytes :: "string \<Rightarrow> bytes" where
  "hex2bytes (a # b # s) = (push_bit 4 (nibble a) OR nibble b) # hex2bytes s"
| "hex2bytes _ = []"

definition splice :: "nat \<Rightarrow> bytes \<Rightarrow> bytes \<Rightarrow> bytes" where
  "splice i bs pdu = fold (\<lambda>k p. p[i + k := bs ! k]) [0..<length bs] pdu"

definition buildInitialUEMessage :: "u32 \<Rightarrow> u64 \<Rightarrow> bytes" where
  "buildInitialUEMessage enb_ue_id imsi =
     (let pdu = hex2bytes (''000c403e000005000800020001001a00161507417108494001000000001002e0e0''
                        @ ''00040201d011004300060004f4010001006400080004f401000000100086400130'')
      in splice 22 (encodeEpsIdImsi imsi) (pdu[12 := ucast enb_ue_id]))"

definition buildNasTransport :: "byte \<Rightarrow> byte \<Rightarrow> u32 \<Rightarrow> u32 \<Rightarrow> bytes \<Rightarrow> bytes" where
  "buildNasTransport proc0 proc1 mme_id enb_id nas =
     (hex2bytes ''000b4038000003000000020000000800020001001a002524'')
       [0 := proc0, 1 := proc1, 3 := word_of_nat (20 + length nas), 12 := ucast mme_id, 18 := ucast enb_id,
        22 := word_of_nat (length nas + 1), 23 := word_of_nat (length nas)] @ nas"

definition buildDlNasTransport :: "u32 \<Rightarrow> u32 \<Rightarrow> bytes \<Rightarrow> bytes" where
  "buildDlNasTransport = buildNasTransport 0x00 0x0b"

definition buildUlNasTransport :: "u32 \<Rightarrow> u32 \<Rightarrow> bytes \<Rightarrow> bytes" where
  "buildUlNasTransport = buildNasTransport 0x00 0x0d"

definition buildInitialContextSetupRequest :: "u32 \<Rightarrow> u32 \<Rightarrow> u32 \<Rightarrow> bytes \<Rightarrow> bytes \<Rightarrow> bytes" where
  "buildInitialContextSetupRequest mme_id enb_id sgw_s1u_teid ue_ip kenb32 =
     (let pdu = hex2bytes (''00090080840000060000000200000008000200010018003600003440314500093c0f80''
            @ ''0a00000512345678220742011e060004f401000100155201c101090908696e7465726e''
            @ ''657405010a2d00020042000a1805f5e1006002faf08000490020111111111111111111''
            @ ''1111111111111111111111111111111111111111111111006b00051c000e0000'')
      in splice 96 (take 32 kenb32) (splice 74 (take 4 ue_ip)
           (splice 39 (be32 sgw_s1u_teid) (pdu[13 := ucast mme_id, 19 := ucast enb_id]))))"

definition buildInitialContextSetupResponse :: "u32 \<Rightarrow> u32 \<Rightarrow> u32 \<Rightarrow> bytes" where
  "buildInitialContextSetupResponse mme_id enb_id enb_s1u_teid =
     splice 34 (be32 enb_s1u_teid)
       ((hex2bytes ''200900220000030000000200000008000200010033400f000032400a0a1f0a00000287654321'')
          [12 := ucast mme_id, 18 := ucast enb_id])"

subsection \<open>Handover messages\<close>

definition buildHoPdu :: "byte \<Rightarrow> byte \<Rightarrow> byte \<Rightarrow> u32 \<Rightarrow> u32 \<Rightarrow> bytes \<Rightarrow> bytes" where
  "buildHoPdu pdu_type proc_code criticality mme_id enb_id extra_ies =
     (let ies = [0x00, 0x00, 0x00, 0x02] @ be16 (ucast mme_id) @ [0x00, 0x08, 0x00, 0x02] @ be16 (ucast enb_id) @ extra_ies;
          body = [0x00, 0x00, word_of_nat (2 + length extra_ies div 6)] @ ies
      in [pdu_type, proc_code, criticality, len8 body] @ body)"

definition ho_extra :: bytes where
  "ho_extra = [0x00, 0x01, 0x00, 0x01, 0x00, 0x00, 0x02, 0x40, 0x02, 0x00, 0x00]"

definition buildHandoverRequired :: "u32 \<Rightarrow> u32 \<Rightarrow> bytes" where
  "buildHandoverRequired mme_id enb_id = buildHoPdu 0x00 0x00 0x00 mme_id enb_id ho_extra"
definition buildHandoverRequest :: "u32 \<Rightarrow> u32 \<Rightarrow> bytes" where
  "buildHandoverRequest mme_id enb_id = buildHoPdu 0x00 0x01 0x00 mme_id enb_id ho_extra"
definition buildHandoverRequestAck :: "u32 \<Rightarrow> u32 \<Rightarrow> bytes" where
  "buildHandoverRequestAck mme_id enb_id = buildHoPdu 0x20 0x01 0x40 mme_id enb_id []"
definition buildHandoverCommand :: "u32 \<Rightarrow> u32 \<Rightarrow> bytes" where
  "buildHandoverCommand mme_id enb_id = buildHoPdu 0x20 0x00 0x00 mme_id enb_id []"
definition buildENBStatusTransfer :: "u32 \<Rightarrow> u32 \<Rightarrow> bytes" where
  "buildENBStatusTransfer mme_id enb_id = buildHoPdu 0x00 0x18 0x40 mme_id enb_id []"
definition buildMMEStatusTransfer :: "u32 \<Rightarrow> u32 \<Rightarrow> bytes" where
  "buildMMEStatusTransfer mme_id enb_id = buildHoPdu 0x00 0x19 0x40 mme_id enb_id []"
definition buildHandoverNotify :: "u32 \<Rightarrow> u32 \<Rightarrow> bytes" where
  "buildHandoverNotify mme_id enb_id = buildHoPdu 0x00 0x02 0x40 mme_id enb_id []"
definition buildUEContextReleaseCommand :: "u32 \<Rightarrow> u32 \<Rightarrow> bytes" where
  "buildUEContextReleaseCommand mme_id enb_id = buildHoPdu 0x00 0x17 0x00 mme_id enb_id []"
definition buildUEContextReleaseComplete :: "u32 \<Rightarrow> u32 \<Rightarrow> bytes" where
  "buildUEContextReleaseComplete mme_id enb_id = buildHoPdu 0x20 0x17 0x40 mme_id enb_id []"

subsection \<open>Reading the messages back\<close>

text \<open>The elements of a message, each identifier, criticality, length, value; then the message.\<close>

function (sequential) s1ap_elements :: "bytes \<Rightarrow> (u16 \<times> byte \<times> bytes) list option" where
  "s1ap_elements [] = Some []"
| "s1ap_elements (a # b # c # n # s) =
     (if unat n \<le> length s then map_option ((#) (join16 b a, c, take (unat n) s)) (s1ap_elements (drop (unat n) s))
      else None)"
| "s1ap_elements _ = None"
  by pat_completeness auto
termination by (relation "measure length") auto

text \<open>Type, procedure, criticality, the number of elements announced, the elements.\<close>

fun s1ap_parse :: "bytes \<Rightarrow> (byte \<times> byte \<times> byte \<times> u16 \<times> (u16 \<times> byte \<times> bytes) list) option" where
  "s1ap_parse (t # p # c # n # x # c1 # c0 # s) =
     (if unat n = length s + 3 \<and> n < 128 then map_option (\<lambda>es. (t, p, c, join16 c0 c1, es)) (s1ap_elements s) else None)"
| "s1ap_parse _ = None"

definition imsi_digits :: "bytes \<Rightarrow> nat list" where
  "imsi_digits bs = unat (hd bs) div 16 # concat (map (\<lambda>b. [unat b mod 16, unat b div 16]) (tl bs))"

definition decode_imsi :: "bytes \<Rightarrow> nat" where
  "decode_imsi bs = foldl (\<lambda>a d. 10 * a + d) 0 (imsi_digits bs)"

lemma length_nat_dec: "10 ^ k \<le> n \<Longrightarrow> n < 10 ^ Suc k \<Longrightarrow> length (nat_dec n) = Suc k"
proof (induction k arbitrary: n)
  case 0
  then show ?case by (simp add: nat_dec.simps [of n])
next
  case (Suc k)
  then have "length (nat_dec (n div 10)) = Suc k" by (intro Suc.IH) simp_all
  moreover have "(1 :: nat) \<le> 10 ^ k" by (rule one_le_power) simp
  then have "\<not> n < 10" using Suc.prems(1) unfolding power_Suc by linarith
  ultimately show ?case by (subst nat_dec.simps) simp
qed

lemma digit_range: "is_digit c \<Longrightarrow> c \<in> set ''0123456789''"
proof -
  assume "is_digit c"
  then have "of_char c \<in> {48..<58 :: nat}" by (auto simp: is_digit_def)
  then have "of_char c \<in> set [48..<58 :: nat]" by (simp only: set_upt)
  then have "c \<in> char_of ` set [48..<58 :: nat]" by (metis char_of_char image_eqI)
  also have "char_of ` set [48..<58 :: nat] = set ''0123456789''" by code_simp
  finally show ?thesis .
qed

lemma bcd_byte_all: "list_all (\<lambda>a. list_all (\<lambda>b.
     unat (push_bit 4 (digit_byte b) OR digit_byte a) = 16 * digit_val b + digit_val a) ''0123456789'') ''0123456789''"
  by code_simp

lemma bcd_first_all: "list_all (\<lambda>a. unat (push_bit 4 (digit_byte a) OR 8 OR 1) div 16 = digit_val a) ''0123456789''"
  by code_simp

lemma digit_val_small: "is_digit c \<Longrightarrow> digit_val c < 10"
  by (auto simp: is_digit_def digit_val_def)

lemma bcd_byte:
  assumes "is_digit a" "is_digit b"
  shows "unat (push_bit 4 (digit_byte b) OR digit_byte a) = 16 * digit_val b + digit_val a"
  using bcd_byte_all digit_range [OF assms(1)] digit_range [OF assms(2)] unfolding list_all_iff by blast

lemma bcd_first:
  assumes "is_digit a"
  shows "unat (push_bit 4 (digit_byte a) OR 8 OR 1) div 16 = digit_val a"
  using bcd_first_all digit_range [OF assms] unfolding list_all_iff by blast

lemma bcd_pairs_digits:
  "\<lbrakk> even (length s); \<forall>c\<in>set s. is_digit c \<rbrakk> \<Longrightarrow>
     concat (map (\<lambda>b. [unat b mod 16, unat b div 16]) (bcd_pairs s)) = map digit_val s"
  by (induction s rule: bcd_pairs.induct) (auto simp: bcd_byte digit_val_small less_trans [OF digit_val_small])

lemma length_bcd_pairs: "length (bcd_pairs s) = length s div 2"
  by (induction s rule: bcd_pairs.induct) auto

lemma decode_encode_imsi:
  assumes "10 ^ 14 \<le> unat imsi" "unat imsi < 10 ^ 15"
  shows "length (encodeEpsIdImsi imsi) = 8" "decode_imsi (encodeEpsIdImsi imsi) = unat imsi"
proof -
  have len: "length (nat_dec (unat imsi)) = 15" using length_nat_dec [of 14 "unat imsi"] assms by simp
  then obtain c s where s: "nat_dec (unat imsi) = c # s" "length s = 14"
    by (cases "nat_dec (unat imsi)") auto
  have d: "is_digit c" "\<forall>x\<in>set s. is_digit x" using nat_dec_digits [of _ "unat imsi"] s by auto
  show "length (encodeEpsIdImsi imsi) = 8" using s by (simp add: encodeEpsIdImsi_def length_bcd_pairs)
  have "imsi_digits (encodeEpsIdImsi imsi) = map digit_val (c # s)"
    using s d bcd_pairs_digits [of s] bcd_first [of c] by (simp add: imsi_digits_def encodeEpsIdImsi_def)
  then have "decode_imsi (encodeEpsIdImsi imsi) = dec_value (c # s)"
    by (simp add: decode_imsi_def dec_value_def foldl_map)
  with s show "decode_imsi (encodeEpsIdImsi imsi) = unat imsi"
    using dec_value_nat_dec [of "unat imsi"] by simp
qed

subsection \<open>The shape of the messages\<close>

lemma unat_byte: "n < 256 \<Longrightarrow> unat (word_of_nat n :: byte) = n"
  by (simp add: unat_of_nat take_bit_nat_eq_self)

lemma nas_transport_parses:
  assumes "length nas < 108"
  shows "s1ap_parse (buildNasTransport p0 p1 mme_id enb_id nas)
     = Some (p0, p1, 0x40, 3,
         [(0, 0, [0, ucast mme_id]), (8, 0, [0, ucast enb_id]), (26, 0, word_of_nat (length nas) # nas)])"
proof -
  have u: "unat (word_of_nat (20 + length nas) :: byte) = 20 + length nas"
    "unat (word_of_nat (length nas + 1) :: byte) = length nas + 1"
    by (rule unat_byte, use assms in simp)+
  have l: "(word_of_nat (20 + length nas) :: byte) < 128"
    using u(1) assms by (simp add: word_less_nat_alt del: of_nat_add)
  have t: "hex2bytes ''000b4038000003000000020000000800020001001a002524''
     = [0x00, 0x0b, 0x40, 0x38, 0x00, 0x00, 0x03, 0x00, 0x00, 0x00, 0x02, 0x00, 0x00, 0x00, 0x08, 0x00, 0x02, 0x00, 0x01,
        0x00, 0x1a, 0x00, 0x25, 0x24]"
    by code_simp
  have j: "join16 3 0 = 3" "join16 0 0 = 0" "join16 8 0 = 8" "join16 26 0 = 26" by code_simp+
  show ?thesis
    unfolding buildNasTransport_def t
    using u l by (simp add: j del: of_nat_add of_nat_Suc)
qed

lemma splice_4: "splice i [a, b, c, d] p = p[i := a, i + 1 := b, i + 2 := c, i + 3 := d]"
  by (simp add: splice_def upt_rec numeral_eq_Suc)

lemma splice_8:
  "splice i [a, b, c, d, e, f, g, h] p
     = p[i := a, i + 1 := b, i + 2 := c, i + 3 := d, i + 4 := e, i + 5 := f, i + 6 := g, i + 7 := h]"
  by (simp add: splice_def upt_rec numeral_eq_Suc)

lemma splice_eq:
  assumes "i + length bs \<le> length p"
  shows "splice i bs p = take i p @ bs @ drop (i + length bs) p"
proof -
  have "m \<le> length bs \<Longrightarrow>
      fold (\<lambda>k p. p[i + k := bs ! k]) [0..<m] p = take i p @ take m bs @ drop (i + m) p" for m
  proof (induction m)
    case (Suc m)
    then have "drop (i + m) p = p ! (i + m) # drop (i + Suc m) p"
      using assms Cons_nth_drop_Suc [of "i + m" p] by simp
    with Suc assms show ?case by (simp add: list_update_append take_Suc_conv_app_nth min_def)
  qed simp
  from this [of "length bs"] show ?thesis by (simp add: splice_def)
qed

lemma initial_template:
  "hex2bytes (''000c403e000005000800020001001a00161507417108494001000000001002e0e0''
        @ ''00040201d011004300060004f4010001006400080004f401000000100086400130'')
     = [0x00, 0x0c, 0x40, 0x3e, 0x00, 0x00, 0x05, 0x00, 0x08, 0x00, 0x02, 0x00, 0x01, 0x00, 0x1a, 0x00, 0x16, 0x15,
        0x07, 0x41, 0x71, 0x08, 0x49, 0x40, 0x01, 0x00, 0x00, 0x00, 0x00, 0x10, 0x02, 0xe0, 0xe0,
        0x00, 0x04, 0x02, 0x01, 0xd0, 0x11, 0x00, 0x43, 0x00, 0x06, 0x00, 0x04, 0xf4, 0x01, 0x00, 0x01,
        0x00, 0x64, 0x00, 0x08, 0x00, 0x04, 0xf4, 0x01, 0x00, 0x00, 0x00, 0x10, 0x00, 0x86, 0x40, 0x01, 0x30]"
  by code_simp

lemma length_8: "length xs = 8 \<Longrightarrow> \<exists>a b c d e f g h. xs = [a, b, c, d, e, f, g, h]"
  by (auto simp: length_Suc_conv eval_nat_numeral)

lemma initial_message_embeds:
  assumes "length (encodeEpsIdImsi imsi) = 8"
  shows "length (buildInitialUEMessage i imsi) = 66"
    "take 21 (drop 18 (buildInitialUEMessage i imsi)) = buildAttachRequest imsi"
proof -
  obtain a b c d e f g h where x: "encodeEpsIdImsi imsi = [a, b, c, d, e, f, g, h]"
    using length_8 [OF assms] by blast
  have l: "len16 esm_connectivity = [0, 4]" by code_simp
  show "length (buildInitialUEMessage i imsi) = 66"
    unfolding buildInitialUEMessage_def x initial_template Let_def splice_8 by simp
  show "take 21 (drop 18 (buildInitialUEMessage i imsi)) = buildAttachRequest imsi"
    unfolding buildInitialUEMessage_def buildAttachRequest_def x initial_template Let_def splice_8 l
    by (simp add: len8_def esm_connectivity_def)
qed

lemma initial_message_parses:
  assumes "length (encodeEpsIdImsi imsi) = 8"
  shows "\<exists>es. s1ap_parse (buildInitialUEMessage i imsi) = Some (0x00, 0x0c, 0x40, 5, es) \<and>
     es = [(8, 0, [0, ucast i]), (26, 0, 21 # buildAttachRequest imsi), (67, 0, [0x00, 0x04, 0xf4, 0x01, 0x00, 0x01]),
       (100, 0, [0x00, 0x04, 0xf4, 0x01, 0x00, 0x00, 0x00, 0x10]), (134, 0x40, [0x30])]"
proof -
  obtain a b c d e f g h where x: "encodeEpsIdImsi imsi = [a, b, c, d, e, f, g, h]"
    using length_8 [OF assms] by blast
  have l: "len16 esm_connectivity = [0, 4]" by code_simp
  have j: "join16 5 0 = 5" "join16 8 0 = 8" "join16 26 0 = 26" "join16 67 0 = 67" "join16 100 0 = 100"
      "join16 134 0 = 134"
    by code_simp+
  show ?thesis
    unfolding buildInitialUEMessage_def buildAttachRequest_def x initial_template Let_def splice_8 l
    by (simp add: len8_def esm_connectivity_def j)
qed

text \<open>The handover messages announce two elements, or three where they carry four.\<close>

lemma ho_parses:
  "s1ap_parse (buildHoPdu t p c mme_id enb_id [])
     = Some (t, p, c, 2, [(0, 0, be16 (ucast mme_id)), (8, 0, be16 (ucast enb_id))])"
  "s1ap_parse (buildHoPdu t p c mme_id enb_id ho_extra)
     = Some (t, p, c, 3, [(0, 0, be16 (ucast mme_id)), (8, 0, be16 (ucast enb_id)), (1, 0, [0]), (2, 0x40, [0, 0])])"
proof -
  have j: "join16 2 0 = 2" "join16 3 0 = 3" "join16 8 0 = 8" "join16 0 0 = 0" "join16 1 0 = 1" by code_simp+
  show "s1ap_parse (buildHoPdu t p c mme_id enb_id [])
     = Some (t, p, c, 2, [(0, 0, be16 (ucast mme_id)), (8, 0, be16 (ucast enb_id))])"
    by (simp add: buildHoPdu_def be16_def len8_def j)
  show "s1ap_parse (buildHoPdu t p c mme_id enb_id ho_extra)
     = Some (t, p, c, 3, [(0, 0, be16 (ucast mme_id)), (8, 0, be16 (ucast enb_id)), (1, 0, [0]), (2, 0x40, [0, 0])])"
    by (simp add: buildHoPdu_def be16_def len8_def ho_extra_def j)
qed

subsection \<open>Initial context setup\<close>

definition setup_template :: bytes where
  "setup_template =
     [0x00, 0x09, 0x00, 0x80, 0x84, 0x00, 0x00, 0x06, 0x00, 0x00, 0x00, 0x02, 0x00, 0x00, 0x00, 0x08, 0x00, 0x02,
      0x00, 0x01, 0x00, 0x18, 0x00, 0x36, 0x00, 0x00, 0x34, 0x40, 0x31, 0x45, 0x00, 0x09, 0x3c, 0x0f, 0x80,
      0x0a, 0x00, 0x00, 0x05, 0x12, 0x34, 0x56, 0x78, 0x22, 0x07, 0x42, 0x01, 0x1e, 0x06, 0x00, 0x04, 0xf4, 0x01,
      0x00, 0x01, 0x00, 0x15, 0x52, 0x01, 0xc1, 0x01, 0x09, 0x09, 0x08, 0x69, 0x6e, 0x74, 0x65, 0x72, 0x6e, 0x65,
      0x74, 0x05, 0x01, 0x0a, 0x2d, 0x00, 0x02, 0x00, 0x42, 0x00, 0x0a, 0x18, 0x05, 0xf5, 0xe1, 0x00, 0x60, 0x02,
      0xfa, 0xf0, 0x80, 0x00, 0x49, 0x00, 0x20] @ replicate 32 0x11 @ [0x00, 0x6b, 0x00, 0x05, 0x1c, 0x00, 0x0e, 0x00, 0x00]"

lemma setup_template:
  "hex2bytes (''00090080840000060000000200000008000200010018003600003440314500093c0f80''
            @ ''0a00000512345678220742011e060004f401000100155201c101090908696e7465726e''
            @ ''657405010a2d00020042000a1805f5e1006002faf08000490020111111111111111111''
            @ ''1111111111111111111111111111111111111111111111006b00051c000e0000'') = setup_template"
  by code_simp

lemma length_4: "length xs = 4 \<Longrightarrow> \<exists>a b c d. xs = [a, b, c, d]"
  by (auto simp: length_Suc_conv eval_nat_numeral)

lemma setup_request_embeds:
  assumes "length ip = 4" "length kenb = 32"
  shows "take 34 (drop 44 (buildInitialContextSetupRequest mme_id enb_id teid ip kenb)) = buildAttachAccept ip"
    "take 32 (drop 96 (buildInitialContextSetupRequest mme_id enb_id teid ip kenb)) = kenb"
    "take 4 (drop 39 (buildInitialContextSetupRequest mme_id enb_id teid ip kenb)) = be32 teid"
proof -
  obtain a b c d where ip: "ip = [a, b, c, d]" using length_4 [OF assms(1)] by blast
  obtain w x y z where t: "be32 teid = [w, x, y, z]" by (simp add: be32_def)
  have l: "len16 (esm_activate ip) = [0, 21]" by (simp add: len16_def esm_activate_def ip be16_def byte_at_def)
  have n: "map char_byte ''internet'' = [0x69, 0x6e, 0x74, 0x65, 0x72, 0x6e, 0x65, 0x74]" by code_simp
  let ?p = "splice 74 (take 4 ip) (splice 39 (be32 teid) (setup_template[13 := ucast mme_id, 19 := ucast enb_id]))"
  have k: "take 32 kenb = kenb" using assms(2) by simp
  have "length ?p = 137" unfolding t ip by (simp add: splice_4 setup_template_def)
  then have e: "buildInitialContextSetupRequest mme_id enb_id teid ip kenb = take 96 ?p @ kenb @ drop 128 ?p"
    unfolding buildInitialContextSetupRequest_def Let_def setup_template k using assms(2) by (simp add: splice_eq)
  show "take 34 (drop 44 (buildInitialContextSetupRequest mme_id enb_id teid ip kenb)) = buildAttachAccept ip"
    unfolding e buildAttachAccept_def l unfolding t ip esm_activate_def n
    by (simp add: splice_4 setup_template_def)
  show "take 32 (drop 96 (buildInitialContextSetupRequest mme_id enb_id teid ip kenb)) = kenb"
    unfolding e using \<open>length ?p = 137\<close> assms(2) by simp
  show "take 4 (drop 39 (buildInitialContextSetupRequest mme_id enb_id teid ip kenb)) = be32 teid"
    unfolding e unfolding t ip by (simp add: splice_4 setup_template_def)
qed

end
