(* ===== verification/Epc_System.thy ===== *)
theory Epc_System
  imports Epc_Attach Epc_Safety Epc_S1ap
begin

text \<open>
  The properties of the 4G core: the attach procedure and the handover end to end, the
  contexts of the mobility entity, the messages on the wire and in the capture file, and the
  places where the code falls short of its purpose.
\<close>

subsection \<open>Attach\<close>

text \<open>C8. Attach completes: the Initial UE Message of the base station leads, under every schedule of
  the two ends that lets each of them act at least eight times in turn, to a state with empty
  queues in which the UE is registered, with one bearer that carries the address granted by the
  packet gateway and the tunnels of both ends, and in which no other context has changed.\<close>

theorem attach_completes:
  assumes "mme_ok m" and "8 \<le> length rounds" and "\<forall>r\<in>set rounds. MmeTurn \<in> set r \<and> EnbTurn \<in> set r"
  shows "\<exists>f. s1_run (core_env q r p g)
         \<lparr> s1_enb = fst (sendInitialUEMessage e i), s1_mme = m, to_mme = snd (sendInitialUEMessage e i), to_enb = [] \<rparr>
         (concat rounds) = Done f
     \<and> to_mme f = [] \<and> to_enb f = []
     \<and> find_ue (s1_mme f)
         = (find_ue m)(next_id (ues m) := Some (attached_context (next_id (ues m)) i (next_enb_teid e) g p))"
proof -
  obtain f where f: "s1_path (core_env q r p g) 8
       \<lparr> s1_enb = bump e, s1_mme = m, to_mme = [initial_message (enb_next_seq e) i], to_enb = [] \<rparr> f" "quiet f"
     "find_ue (s1_mme f)
         = (find_ue m)(next_id (ues m) := Some (attached_context (next_id (ues m)) i (next_enb_teid e) g p))"
    using attach_path [OF assms(1)] by blast
  have "\<forall>b\<in>set rounds. set b = UNIV" using assms(3) by (simp add: both_turns)
  from s1_fair_run [OF f(1,2) assms(2) this] f show ?thesis
    by (auto simp: sendInitialUEMessage_def quiet_def)
qed

theorem attach_completes_witness:
  "\<exists>f. s1_run (core_env 1 1 pgw_init sgw_init)
         \<lparr> s1_enb = fst (sendInitialUEMessage enb_init 1), s1_mme = mme_init,
           to_mme = snd (sendInitialUEMessage enb_init 1), to_enb = [] \<rparr>
         (concat (replicate 8 [EnbTurn, MmeTurn])) = Done f
     \<and> to_mme f = [] \<and> to_enb f = []
     \<and> find_ue (s1_mme f) = (find_ue mme_init)(next_id (ues mme_init) :=
         Some (attached_context (next_id (ues mme_init)) 1 (next_enb_teid enb_init) sgw_init pgw_init))"
proof (rule attach_completes)
  show "mme_ok mme_init" using contexts_init by (simp add: contexts_ok_def)
qed simp_all

text \<open>C10. No bearer without authentication: whatever payloads arrive and whatever the other nodes
  answer, a context has a bearer or waits for its session only after an Authentication Response
  for it whose response equals the expected one.\<close>

theorem bearer_needs_matching_response:
  assumes "mme_run mme_init evs = Done m" and "find_ue m uid = Some c"
    and "bearers c \<noteq> [] \<or> emm_state c = SESSION_PENDING"
  shows "\<exists>p\<in>snd ` set evs. answers p uid (ue_auth c)"
  using run_from_init [OF assms(1)] assms(2,3) unfolding contexts_ok_def idle_context_def by force

definition attach_events :: "(mme_env \<times> bytes) list" where
  "attach_events =
     [(core_env 1 1 pgw_init sgw_init, initial_message 1 1),
      (core_env 1 1 pgw_init sgw_init, auth_response_message 2 1 1 (attach_answer 1))]"

lemma attach_events_run:
  "\<exists>m. mme_run mme_init attach_events = Done m \<and> find_ue m 1 = Some (session_context 1 1 sgw_init pgw_init)"
proof -
  have ok: "mme_ok mme_init" using contexts_init by (simp add: contexts_ok_def)
  have n: "next_id (ues mme_init) = 1" by (simp add: mme_init_def store_init_def)
  obtain m1 out1 where m1: "mme_receive (core_env 1 1 pgw_init sgw_init) mme_init (initial_message 1 1) = Done (m1, out1)"
      "mme_ok m1" "find_ue m1 1 = Some (challenged_context 1 1)"
    using mme_initial [OF ok, of 1 1 1] by (auto simp: mme_receive_def n)
  from mme_auth_response [OF m1(2,3), of 1 pgw_init sgw_init 2] obtain m2 out2 where
    "mme_receive (core_env 1 1 pgw_init sgw_init) m1 (auth_response_message 2 1 1 (attach_answer 1)) = Done (m2, out2)"
    "find_ue m2 1 = Some (session_context 1 1 sgw_init pgw_init)"
    by (auto simp: mme_receive_def)
  with m1(1) show ?thesis by (auto simp: attach_events_def)
qed

theorem bearer_needs_matching_response_witness:
  "\<exists>p\<in>snd ` set attach_events. answers p 1 (ue_auth (session_context 1 1 sgw_init pgw_init))"
proof -
  obtain m where m: "mme_run mme_init attach_events = Done m" "find_ue m 1 = Some (session_context 1 1 sgw_init pgw_init)"
    using attach_events_run by blast
  show ?thesis by (rule bearer_needs_matching_response [OF m]) (simp add: session_context_def)
qed

text \<open>C27. The store stays consistent: in every run each context is found under its own identifier and
  the size of the 64 shards together is the number of contexts.\<close>

theorem mme_contexts_consistent:
  assumes "mme_run mme_init evs = Done m"
  shows "(\<forall>uid c. find_ue m uid = Some c \<longrightarrow> mme_ue_id c = uid) \<and> store_size (ues m) = card (dom (find_ue m))"
  using run_from_init [OF assms] store_size_card [of "ues m"]
  by (auto simp: contexts_ok_def mme_ok_def find_ue_def [abs_def])

theorem mme_contexts_consistent_witness:
  "\<exists>m. mme_run mme_init attach_events = Done m \<and> find_ue m 1 \<noteq> None \<and>
     (\<forall>uid c. find_ue m uid = Some c \<longrightarrow> mme_ue_id c = uid) \<and> store_size (ues m) = card (dom (find_ue m))"
  using attach_events_run mme_contexts_consistent [of attach_events] by blast

text \<open>An Attach Complete registers a UE that has never been authenticated and has no bearer: the
  handler looks at the message type only.\<close>

theorem attach_complete_without_authentication:
  "\<exists>m c. mme_run mme_init [(core_env q r p g, initial_message 1 i), (core_env q r p g, attach_complete_message 2 1 i)]
       = Done m
     \<and> find_ue m 1 = Some c \<and> emm_state c = REGISTERED \<and> bearers c = []"
proof -
  have ok: "mme_ok mme_init" using contexts_init by (simp add: contexts_ok_def)
  have n: "next_id (ues mme_init) = 1" by (simp add: mme_init_def store_init_def)
  obtain m1 out1 where m1: "mme_receive (core_env q r p g) mme_init (initial_message 1 i) = Done (m1, out1)"
      "mme_ok m1" "find_ue m1 1 = Some (challenged_context 1 i)"
    using mme_initial [OF ok, of q 1 i] by (auto simp: mme_receive_def n)
  let ?m2 = "with_ue m1 1 (\<lambda>c. c\<lparr> emm_state := REGISTERED \<rparr>)"
  have "mme_receive (core_env q r p g) m1 (attach_complete_message 2 1 i) = Done (?m2, [])"
    by (simp add: mme_receive_def mme_attach_complete)
  with m1 show ?thesis
    by (intro exI [of _ ?m2] exI [of _ "(challenged_context 1 i)\<lparr> emm_state := REGISTERED \<rparr>"]) (simp add: find_with_ue)
qed

subsection \<open>Handover\<close>



text \<open>Two handovers at a time, the ends taking two payloads each in turn.\<close>

definition two_handovers :: "mme_state \<Rightarrow> u32 \<Rightarrow> u32 \<Rightarrow> s1_state" where
  "two_handovers m a b =
     (let (e1, out1) = sendHandoverRequired enb_init a a; (e2, out2) = sendHandoverRequired e1 b b
      in \<lparr> s1_enb = e2, s1_mme = m, to_mme = out1 @ out2, to_enb = [] \<rparr>)"

text \<open>Two handovers at the same time are mixed up: the first UE is given tunnel 100 and the second
  one 101, but both notifications name the tunnel allocated last, and the mobility entity switches
  the path of the first UE to the tunnel of the second.\<close>

theorem handovers_mixed_up:
  "\<exists>f n1 n2 s. s1_run env (two_handovers m a b) (concat (replicate 3 [MmeTurn, MmeTurn, EnbTurn, EnbTurn])) = Done f
     \<and> to_mme f = [n1, n2] \<and> ues (s1_mme f) = store_adjust (store_adjust (ues m) a (set_default_teid 100)) b (set_default_teid 101)
     \<and> handover_path_switch (s1_mme f) n1
         = Done (modify_request s 101 (case find_ue (s1_mme f) a of Some c \<Rightarrow> ue_imsi c | None \<Rightarrow> 0))"
  by (simp add: two_handovers_def sendHandoverRequired_def enb_init_def bump_def numeral_3_eq_3 s1_step_def handover_steps
      with_ue_def next_seq_def final_teid_def path_switch_def)
    (rule exI, rule refl)

subsection \<open>Messages\<close>

text \<open>C37. What \<open>MessageWriter\<close> writes, a handler's \<open>MessageReader\<close> loop reads: the type, the sequence
  number, and of the elements exactly those it knows, in order, whatever other tags stand between
  them, as long as the kinds agree and no string is longer than its 16-bit length can say.\<close>

theorem tlv_round_trip:
  assumes "list_all (readable (map_of ks)) es"
  shows "msg_type_of (message ty seq es) = ty \<and> seq_num_of (message ty seq es) = seq
     \<and> read_message ks (message ty seq es) = Some (filter (\<lambda>e. map_of ks (fst e) \<noteq> None) es)"
  using read_message_written [OF assms] by (simp add: message_shape)

theorem tlv_round_trip_witness:
  "msg_type_of (message S1AP_TAU_REQUEST 7 [(MME_UE_S1AP_ID, T32 1), (NAS_RES, TB [1, 2]), (ENB_UE_S1AP_ID, T32 9)])
       = S1AP_TAU_REQUEST
     \<and> seq_num_of (message S1AP_TAU_REQUEST 7 [(MME_UE_S1AP_ID, T32 1), (NAS_RES, TB [1, 2]), (ENB_UE_S1AP_ID, T32 9)]) = 7
     \<and> read_message ids_kinds
         (message S1AP_TAU_REQUEST 7 [(MME_UE_S1AP_ID, T32 1), (NAS_RES, TB [1, 2]), (ENB_UE_S1AP_ID, T32 9)])
       = Some [(MME_UE_S1AP_ID, T32 1), (ENB_UE_S1AP_ID, T32 9)]"
  using tlv_round_trip [of ids_kinds
      "[(MME_UE_S1AP_ID, T32 1), (NAS_RES, TB [1, 2]), (ENB_UE_S1AP_ID, T32 9)]" S1AP_TAU_REQUEST 7]
  by (simp add: readable_def value_ok_def)

text \<open>An Initial UE Message that ends inside the IMSI.\<close>

definition cut_message :: "nat \<Rightarrow> bytes" where
  "cut_message n = take (8 + 4 + n) (message S1AP_INITIAL_UE_MSG 1 [(NAS_IMSI, T64 404100000000001)])"

text \<open>The reader of fixed-size values does not look at the room left: every Initial UE Message that
  ends inside the IMSI makes the mobility entity read beyond the end of the payload, while a payload
  that ends inside an element header is just taken as finished.\<close>

theorem cut_message_overread:
  "n < 8 \<longleftrightarrow> mme_receive (core_env q r p g) m (cut_message n) = Overread"
proof -
  have t: "msg_type_of (cut_message n) = S1AP_INITIAL_UE_MSG" "length (cut_message n) \<ge> 8"
    "body_of (cut_message n) = take (4 + n) (write_elements [(NAS_IMSI, T64 404100000000001)])"
    using message_shape [of S1AP_INITIAL_UE_MSG 1 "[(NAS_IMSI, T64 404100000000001)]"]
    by (simp_all add: cut_message_def msg_type_of_def body_of_def drop_take)
  have j: "join16 6 1 = NAS_IMSI" by code_simp
  have w: "write_elements [(NAS_IMSI, T64 404100000000001)] = [6, 1, 8, 0, 1, 40, 244, 220, 134, 111, 1, 0]"
    by code_simp
  have cut: "read_elements (map_of initial_kinds) (take (4 + n) [6, 1, 8, 0, 1, 40, 244, 220, 134, 111, 1, 0]) = None"
    if "n < 8"
  proof -
    have "n \<in> {0, 1, 2, 3, 4, 5, 6, 7}" using that by auto
    then show ?thesis by (elim insertE emptyE) (simp_all add: j)
  qed
  have full: "read_message initial_kinds (cut_message n) \<noteq> None" if "\<not> n < 8"
  proof -
    have "take (4 + n) [6, 1, 8, 0, 1, 40, 244, 220, 134, 111, 1, 0 :: byte] = [6, 1, 8, 0, 1, 40, 244, 220, 134, 111, 1, 0]"
      using that by (intro take_all) simp
    then show ?thesis by (simp add: read_message_def t w j)
  qed
  show ?thesis
  proof (cases "n < 8")
    case True
    then show ?thesis
      using t cut by (simp add: mme_receive_def handleInitialUEMsg_def read_message_def w from_read_def)
  next
    case False
    then obtain es where es: "read_message initial_kinds (cut_message n) = Some es" using full by blast
    show ?thesis
      using False t
      by (simp add: mme_receive_def handleInitialUEMsg_def es from_read_def fetch_vectors_hss Let_def split: prod.split)
  qed
qed

subsection \<open>The capture file\<close>

text \<open>The identity in the capture is the subscriber's: an IMSI of fifteen digits takes eight bytes
  and decoding the digits gives it back.\<close>

theorem imsi_in_capture:
  assumes "10 ^ 14 \<le> unat imsi" and "unat imsi < 10 ^ 15"
  shows "length (encodeEpsIdImsi imsi) = 8 \<and> decode_imsi (encodeEpsIdImsi imsi) = unat imsi"
  using decode_encode_imsi [OF assms] by blast

theorem imsi_in_capture_witness:
  "length (encodeEpsIdImsi 404100000000001) = 8
     \<and> decode_imsi (encodeEpsIdImsi 404100000000001) = unat (404100000000001 :: u64)"
  by (rule imsi_in_capture) simp_all

text \<open>C28. The captured messages embed the NAS messages of \<open>nas_eps.cpp\<close> byte for byte: the templates of
  the Initial UE Message and of the Initial Context Setup Request, with their fields written over,
  equal the separately built Attach Request and Attach Accept at their places.\<close>

theorem capture_embeds_nas:
  assumes "10 ^ 14 \<le> unat imsi" and "unat imsi < 10 ^ 15" and "length ip = 4" and "length kenb = 32"
  shows "take 21 (drop 18 (buildInitialUEMessage i imsi)) = buildAttachRequest imsi
     \<and> take 34 (drop 44 (buildInitialContextSetupRequest a b teid ip kenb)) = buildAttachAccept ip
     \<and> take 32 (drop 96 (buildInitialContextSetupRequest a b teid ip kenb)) = kenb
     \<and> take 4 (drop 39 (buildInitialContextSetupRequest a b teid ip kenb)) = be32 teid"
  using initial_message_embeds [OF decode_encode_imsi(1) [OF assms(1,2)]] setup_request_embeds [OF assms(3,4)] by blast

theorem capture_embeds_nas_witness:
  "take 21 (drop 18 (buildInitialUEMessage 1 404100000000001)) = buildAttachRequest 404100000000001
     \<and> take 34 (drop 44 (buildInitialContextSetupRequest 1 1 1001 [10, 0, 0, 1] (replicate 32 7))) = buildAttachAccept [10, 0, 0, 1]
     \<and> take 32 (drop 96 (buildInitialContextSetupRequest 1 1 1001 [10, 0, 0, 1] (replicate 32 7))) = replicate 32 7
     \<and> take 4 (drop 39 (buildInitialContextSetupRequest 1 1 1001 [10, 0, 0, 1] (replicate 32 7))) = be32 1001"
  by (rule capture_embeds_nas) simp_all

text \<open>The captured transports of NAS messages are well formed: for a message of fewer than 108 bytes
  the parser finds the announced length, three elements with the two identifiers cut to a byte, and
  the whole message. The handover preparation announces three elements but carries four.\<close>

theorem capture_parses:
  assumes "length nas < 108"
  shows "s1ap_parse (buildDlNasTransport a b nas)
       = Some (0x00, 0x0b, 0x40, 3, [(0, 0, [0, ucast a]), (8, 0, [0, ucast b]), (26, 0, word_of_nat (length nas) # nas)])
     \<and> s1ap_parse (buildUlNasTransport a b nas)
       = Some (0x00, 0x0d, 0x40, 3, [(0, 0, [0, ucast a]), (8, 0, [0, ucast b]), (26, 0, word_of_nat (length nas) # nas)])
     \<and> s1ap_parse (buildHandoverRequired a b)
       = Some (0x00, 0x00, 0x00, 3, [(0, 0, be16 (ucast a)), (8, 0, be16 (ucast b)), (1, 0, [0]), (2, 0x40, [0, 0])])"
  using nas_transport_parses [OF assms] ho_parses
  by (simp add: buildDlNasTransport_def buildUlNasTransport_def buildHandoverRequired_def)

theorem capture_parses_witness:
  "s1ap_parse (buildDlNasTransport 1 300 SECURITY_MODE_COMMAND)
       = Some (0x00, 0x0b, 0x40, 3, [(0, 0, [0, ucast (1 :: u32)]), (8, 0, [0, ucast (300 :: u32)]),
           (26, 0, word_of_nat (length SECURITY_MODE_COMMAND) # SECURITY_MODE_COMMAND)])"
  using capture_parses [of SECURITY_MODE_COMMAND 1 300] by (simp add: SECURITY_MODE_COMMAND_def)

end
