(* ===== verification/Ims_Sip.thy ===== *)
theory Ims_Sip
  imports Epc_Tlv Turns Json_Wire
begin

text \<open>
  The messages of the IMS simulator (\<open>ims-simulator/src/ims/sip.h\<close>): SIP requests and
  responses and the Diameter Cx messages in the header-and-elements format of the 4G core
  (\<open>common/tlv.h\<close> is the same code), every element a text. A handler reads the tags it
  knows and skips the others; an element that announces more bytes than the payload has is
  an over-read.
\<close>

subsection \<open>Message types and tags\<close>

abbreviation SIP_REGISTER :: u16 where "SIP_REGISTER \<equiv> 0x0501"
abbreviation SIP_INVITE :: u16 where "SIP_INVITE \<equiv> 0x0502"
abbreviation SIP_ACK :: u16 where "SIP_ACK \<equiv> 0x0503"
abbreviation SIP_BYE :: u16 where "SIP_BYE \<equiv> 0x0504"
abbreviation SIP_CANCEL :: u16 where "SIP_CANCEL \<equiv> 0x0505"
abbreviation SIP_100_TRYING :: u16 where "SIP_100_TRYING \<equiv> 0x0510"
abbreviation SIP_180_RINGING :: u16 where "SIP_180_RINGING \<equiv> 0x0511"
abbreviation SIP_183_PROGRESS :: u16 where "SIP_183_PROGRESS \<equiv> 0x0512"
abbreviation SIP_200_OK :: u16 where "SIP_200_OK \<equiv> 0x0513"
abbreviation DIA_CX_SAR :: u16 where "DIA_CX_SAR \<equiv> 0x0603"
abbreviation DIA_CX_SAA :: u16 where "DIA_CX_SAA \<equiv> 0x0604"

abbreviation SIP_FROM :: u16 where "SIP_FROM \<equiv> 0x0500"
abbreviation SIP_TO :: u16 where "SIP_TO \<equiv> 0x0501"
abbreviation SIP_CONTACT :: u16 where "SIP_CONTACT \<equiv> 0x0502"
abbreviation SIP_CALL_ID :: u16 where "SIP_CALL_ID \<equiv> 0x0503"
abbreviation SIP_IMPU :: u16 where "SIP_IMPU \<equiv> 0x0507"
abbreviation SIP_IMPI :: u16 where "SIP_IMPI \<equiv> 0x0508"
abbreviation SIP_SDP :: u16 where "SIP_SDP \<equiv> 0x050A"
abbreviation SIP_REASON :: u16 where "SIP_REASON \<equiv> 0x050C"
abbreviation CX_IMPU :: u16 where "CX_IMPU \<equiv> 0x0600"
abbreviation CX_IMPI :: u16 where "CX_IMPI \<equiv> 0x0601"
abbreviation CX_SCSCF_NAME :: u16 where "CX_SCSCF_NAME \<equiv> 0x0603"

subsection \<open>Writing\<close>

definition sip_elements :: "(u16 \<times> string) list \<Rightarrow> element list" where
  "sip_elements fs = map (\<lambda>(t, s). (t, TB (to_bytes s))) fs"

definition sip_message :: "u16 \<Rightarrow> u32 \<Rightarrow> (u16 \<times> string) list \<Rightarrow> bytes" where
  "sip_message ty seq fs = message ty seq (sip_elements fs)"

subsection \<open>Reading\<close>

definition sip_fields :: "u16 list \<Rightarrow> bytes \<Rightarrow> (u16 \<times> string) list option" where
  "sip_fields ks p =
     map_option (map (\<lambda>(t, v). (t, frame_to_text (fB [] (Some v))))) (read_message (map (\<lambda>k. (k, RB)) ks) p)"

text \<open>The variable a reading loop leaves for a tag: the last text with it, or the empty one.\<close>

definition text_of :: "(u16 \<times> string) list \<Rightarrow> u16 \<Rightarrow> string" where
  "text_of fs t = (case map_of (rev fs) t of None \<Rightarrow> [] | Some s \<Rightarrow> s)"

lemma text_of_simps [simp]:
  "text_of [] t = []"
  "text_of ((k, v) # fs) t = (if k = t \<and> t \<notin> fst ` set fs then v else text_of fs t)"
proof -
  show "text_of ((k, v) # fs) t = (if k = t \<and> t \<notin> fst ` set fs then v else text_of fs t)"
  proof (cases "t \<in> fst ` set fs")
    case True
    then obtain w where "map_of (rev fs) t = Some w" 
      using map_of_eq_None_iff [of "rev fs" t] by (cases "map_of (rev fs) t") auto
    with True show ?thesis by (simp add: text_of_def map_add_def)
  next
    case False
    then have "map_of (rev fs) t = None" by (simp add: map_of_eq_None_iff)
    with False show ?thesis by (simp add: text_of_def map_add_def)
  qed
qed (simp add: text_of_def)

text \<open>A loop that leaves at the first text with the tag.\<close>

function (sequential) first_text :: "u16 \<Rightarrow> bytes \<Rightarrow> string option" where
  "first_text k (t0 # t1 # l0 # l1 # s) =
     (let n = unat (join16 l0 l1)
      in if join16 t0 t1 = k then (if n \<le> length s then Some (frame_to_text (take n s)) else None)
         else first_text k (drop n s))"
| "first_text k _ = Some []"
  by pat_completeness auto
termination
  by (relation "measure (\<lambda>(k, s). length s)") auto

text \<open>\<open>text.find(sub) != npos\<close>\<close>

definition has_text :: "string \<Rightarrow> string \<Rightarrow> bool" where
  "has_text s sub \<longleftrightarrow> find_sub sub s \<noteq> None"

subsection \<open>What is written is read\<close>

definition text_ok :: "string \<Rightarrow> bool" where
  "text_ok s \<longleftrightarrow> length s < 65536"

definition texts_ok :: "(u16 \<times> string) list \<Rightarrow> bool" where
  "texts_ok fs \<longleftrightarrow> (\<forall>f\<in>set fs. text_ok (snd f))"

lemma texts_ok_simps [simp]:
  "texts_ok []" "texts_ok ((t, s) # fs) \<longleftrightarrow> text_ok s \<and> texts_ok fs"
  "texts_ok (fs @ gs) \<longleftrightarrow> texts_ok fs \<and> texts_ok gs"
  by (auto simp: texts_ok_def)

lemma text_ok_code [code]: "text_ok s \<longleftrightarrow> len_int s < 65536"
  by (auto simp: text_ok_def len_int_length)

lemma kinds_of_tags: "map_of (map (\<lambda>k. (k, RB)) ks) t = (if t \<in> set ks then Some RB else None)"
  by (induction ks) auto

lemma message_type [simp]: "msg_type_of (sip_message ty seq fs) = ty"
  by (simp add: sip_message_def message_shape)

lemma sip_fields_written:
  assumes "texts_ok fs"
  shows "sip_fields ks (sip_message ty seq fs) = Some (filter (\<lambda>f. fst f \<in> set ks) fs)"
proof -
  have "list_all (readable (map_of (map (\<lambda>k. (k, RB)) ks))) (sip_elements fs)"
    using assms by (induction fs) (auto simp: sip_elements_def readable_def value_ok_def kinds_of_tags text_ok_def)
  note read_message_written [OF this, of ty seq]
  moreover have "map (\<lambda>(t, v). (t, frame_to_text (fB [] (Some v))))
       (filter (\<lambda>e. map_of (map (\<lambda>k. (k, RB)) ks) (fst e) \<noteq> None) (sip_elements fs))
     = filter (\<lambda>f. fst f \<in> set ks) fs"
    by (induction fs) (auto simp: sip_elements_def kinds_of_tags fB_def)
  ultimately show ?thesis by (simp add: sip_fields_def sip_message_def)
qed

lemma first_text_step:
  assumes "text_ok s"
  shows "first_text k (write_element (t, TB (to_bytes s)) @ r) = (if t = k then Some s else first_text k r)"
proof -
  have u: "unat (word_of_nat (length s) :: u16) = length s"
    using assms by (simp add: text_ok_def unat_of_nat take_bit_nat_eq_self)
  have "first_text k (tlv_head t n @ q) = (if t = k
       then (if unat n \<le> length q then Some (frame_to_text (take (unat n) q)) else None)
       else first_text k (drop (unat n) q))" for n q
    using join16_byte_at [of t] join16_byte_at [of n] by (simp add: tlv_head_def le16_def Let_def)
  then show ?thesis by (simp add: u)
qed

lemma first_text_written:
  assumes "texts_ok fs"
  shows "first_text k (body_of (sip_message ty seq fs)) = Some (case map_of fs k of None \<Rightarrow> [] | Some s \<Rightarrow> s)"
proof -
  have "first_text k (write_elements (sip_elements fs)) = Some (case map_of fs k of None \<Rightarrow> [] | Some s \<Rightarrow> s)"
    using assms
  proof (induction fs)
    case Nil
    then show ?case by (simp add: sip_elements_def write_elements_def)
  next
    case (Cons f fs)
    then show ?case
      using first_text_step [of "snd f" k "fst f" "write_elements (sip_elements fs)"]
      by (cases f) (simp add: sip_elements_def write_elements_def)
  qed
  then show ?thesis by (simp add: sip_message_def message_shape)
qed

end
