(* ===== verification/Ims_Scscf.thy ===== *)
theory Ims_Scscf
  imports Ims_Sip
begin

text \<open>
  The server side of the IMS core: the subscriber server's Cx interface (\<open>ims_hss.cpp\<close>), the
  barring flags of the application server (\<open>mtas_state.h\<close>) and the serving call session
  control function (\<open>scscf_node.cpp\<close>), which runs one thread on the connection from the
  proxy. A handler takes the state and a payload and gives the new state and the payloads
  sent to the proxy, in order. Logs, diagrams and the packet capture are left out.
\<close>

subsection \<open>IMS-HSS\<close>

record hss_node =
  hss_seq :: u32

definition hss_profile :: string where
  "hss_profile = ''MMTEL-VoLTE; iFC=[REGISTER->MTAS,INVITE->MTAS]; MSISDN=+919000000001''"

definition handleSAR :: "hss_node \<Rightarrow> bytes \<Rightarrow> (hss_node \<times> bytes list) outcome" where
  "handleSAR h p = from_read (sip_fields [CX_IMPU, CX_IMPI] p) (\<lambda>fs.
     Done (h\<lparr> hss_seq := hss_seq h + 1 \<rparr>, [sip_message DIA_CX_SAA (hss_seq h) [(CX_SCSCF_NAME, hss_profile)]]))"

definition cx_receive :: "hss_node \<Rightarrow> bytes \<Rightarrow> (hss_node \<times> bytes list) outcome" where
  "cx_receive h p = (if msg_type_of p = DIA_CX_SAR then handleSAR h p else Done (h, []))"

subsection \<open>Barring flags\<close>

type_synonym barring = "string set"

definition isBarred :: "barring \<Rightarrow> string \<Rightarrow> bool" where
  "isBarred b impu \<longleftrightarrow> impu \<in> b"

definition setBarred :: "barring \<Rightarrow> string \<Rightarrow> bool \<Rightarrow> barring" where
  "setBarred b impu on = (if on then insert impu b else b - {impu})"

text \<open>The only check of \<open>invokeMtas\<close> that can stop a call is the barring of the callee.\<close>

definition invokeMtas :: "barring \<Rightarrow> string \<Rightarrow> string \<Rightarrow> string \<Rightarrow> string \<Rightarrow> bool" where
  "invokeMtas b caller callee cid sdp \<longleftrightarrow> \<not> isBarred b callee"

subsection \<open>S-CSCF: state and sending\<close>

record ImsSubscriber =
  sub_impu :: string
  sub_impi :: string
  sub_contact :: string
  sub_scscf_name :: string
  sub_registered :: bool

record CallState =
  caller_impu :: string
  callee_impu :: string
  cs_call_id :: string
  on_hold :: bool
  in_conference :: bool

record scscf_state =
  registrar :: "string \<rightharpoonup> ImsSubscriber"
  calls :: "string \<rightharpoonup> CallState"
  scscf_seq :: u32

definition scscf_init :: scscf_state where
  "scscf_init = \<lparr> registrar = Map.empty, calls = Map.empty, scscf_seq = 1 \<rparr>"

definition sip_response_fields :: "string \<Rightarrow> string \<Rightarrow> string \<Rightarrow> string \<Rightarrow> (u16 \<times> string) list" where
  "sip_response_fields cid from to reason =
     [(SIP_CALL_ID, cid), (SIP_FROM, from), (SIP_TO, to), (SIP_REASON, reason)]"

definition sendSipResponse ::
    "u16 \<Rightarrow> string \<Rightarrow> string \<Rightarrow> string \<Rightarrow> string \<Rightarrow> string \<Rightarrow> scscf_state \<Rightarrow> scscf_state \<times> bytes" where
  "sendSipResponse ty cid from to reason sdp s =
     (s\<lparr> scscf_seq := scscf_seq s + 1 \<rparr>,
      sip_message ty (scscf_seq s)
        (sip_response_fields cid from to reason @ (if sdp = [] then [] else [(SIP_SDP, sdp)])))"

text \<open>The request to the subscriber server.\<close>

definition sendCxSAR :: "scscf_state \<Rightarrow> string \<Rightarrow> string \<Rightarrow> scscf_state \<times> bytes" where
  "sendCxSAR s impu impi =
     (s\<lparr> scscf_seq := scscf_seq s + 1 \<rparr>,
      sip_message DIA_CX_SAR (scscf_seq s) [(CX_IMPU, impu), (CX_IMPI, impi)])"

text \<open>The answer read within three seconds, if any; the profile in it is logged only.\<close>

definition waitCxSAA :: "bytes option \<Rightarrow> string option outcome" where
  "waitCxSAA a = (case a of None \<Rightarrow> Done None
     | Some p \<Rightarrow> from_read (sip_fields [CX_SCSCF_NAME] p) (\<lambda>fs. Done (Some (text_of fs CX_SCSCF_NAME))))"

subsection \<open>REGISTER and INVITE\<close>

text \<open>
  The registration sends to the subscriber server and waits: the answer is an argument.
  \<open>register_request\<close> is the handler up to that point, \<open>handleRegister\<close> all of it.
\<close>

definition register_request :: "scscf_state \<Rightarrow> bytes \<Rightarrow> ((u16 \<times> string) list \<times> scscf_state \<times> bytes) outcome" where
  "register_request s p = from_read (sip_fields [SIP_IMPU, SIP_IMPI, SIP_CONTACT] p) (\<lambda>fs.
     Done (fs, sendCxSAR s (text_of fs SIP_IMPU) (text_of fs SIP_IMPI)))"

definition handleRegister :: "(bytes \<Rightarrow> bytes option) \<Rightarrow> scscf_state \<Rightarrow> bytes \<Rightarrow> (scscf_state \<times> bytes list) outcome" where
  "handleRegister cx s p =
     (case register_request s p of Overread \<Rightarrow> Overread | Blocked \<Rightarrow> Blocked
      | Done (fs, s1, sar) \<Rightarrow>
          (case waitCxSAA (cx sar) of Overread \<Rightarrow> Overread | Blocked \<Rightarrow> Blocked
           | Done _ \<Rightarrow>
               (let impu = text_of fs SIP_IMPU;
                    sub = \<lparr> sub_impu = impu, sub_impi = text_of fs SIP_IMPI,
                            sub_contact = text_of fs SIP_CONTACT, sub_scscf_name = [], sub_registered = True \<rparr>;
                    s2 = s1\<lparr> registrar := (registrar s1)(impu \<mapsto> sub) \<rparr>;
                    (s3, ok) = sendSipResponse SIP_200_OK (''reg-'' @ impu) impu impu ''REGISTER'' [] s2
                in Done (s3, [ok]))))"

text \<open>\<open>calls_[call_id]\<close>, which makes an empty entry when there is none.\<close>

definition call_entry :: "scscf_state \<Rightarrow> string \<Rightarrow> CallState" where
  "call_entry s cid = (case calls s cid of Some c \<Rightarrow> c
     | None \<Rightarrow> \<lparr> caller_impu = [], callee_impu = [], cs_call_id = [], on_hold = False, in_conference = False \<rparr>)"

definition set_call :: "scscf_state \<Rightarrow> string \<Rightarrow> CallState \<Rightarrow> scscf_state" where
  "set_call s cid c = s\<lparr> calls := (calls s)(cid \<mapsto> c) \<rparr>"

definition conference_invite :: "scscf_state \<Rightarrow> string \<Rightarrow> string \<Rightarrow> string \<Rightarrow> scscf_state \<times> bytes" where
  "conference_invite s caller third cid =
     (s\<lparr> scscf_seq := scscf_seq s + 1 \<rparr>,
      sip_message SIP_INVITE (scscf_seq s)
        [(SIP_FROM, caller), (SIP_TO, third), (SIP_CALL_ID, cid @ ''-conf''),
         (SIP_SDP, ''audio:50000/AMR-WB/16000;conf;a=sendrecv'')])"

definition is_hold :: "string \<Rightarrow> bool" where
  "is_hold sdp \<longleftrightarrow> has_text sdp ''inactive'' \<or> has_text sdp ''sendonly''"

definition is_video :: "string \<Rightarrow> bool" where
  "is_video sdp \<longleftrightarrow> has_text sdp ''video'' \<and> has_text sdp ''H264''"

definition handleReInvite :: "scscf_state \<Rightarrow> bytes \<Rightarrow> string \<Rightarrow> string \<Rightarrow> (scscf_state \<times> bytes list) outcome" where
  "handleReInvite s p cid sdp = from_read (first_text SIP_TO (body_of p)) (\<lambda>to.
     let c = call_entry s cid;
         ok = (\<lambda>reason st. sendSipResponse SIP_200_OK cid (caller_impu c) (callee_impu c) reason [] st)
     in if is_hold sdp then
          (let (s1, r) = ok ''re-INVITE-HOLD'' (set_call s cid (c\<lparr> on_hold := True \<rparr>)) in Done (s1, [p, r]))
        else if has_text sdp ''conf'' then
          (let s1 = set_call s cid (c\<lparr> in_conference := True \<rparr>);
               (s2, inv) = (if to = [] then (s1, []) else
                  (let (s2, m) = conference_invite s1 (caller_impu c) to cid in (s2, [m])));
               (s3, r) = ok ''CONFERENCE'' s2
           in Done (s3, inv @ [r]))
        else if is_video sdp then
          (let (s1, r) = ok (if has_text sdp ''port=0'' then ''VIDEO-REMOVE'' else ''VIDEO-ADD'') (set_call s cid c)
           in Done (s1, [p, r]))
        else
          (let (s1, r) = ok ''re-INVITE-RESUME'' (set_call s cid (c\<lparr> on_hold := False \<rparr>)) in Done (s1, [p, r])))"

definition handleInvite :: "barring \<Rightarrow> scscf_state \<Rightarrow> bytes \<Rightarrow> (scscf_state \<times> bytes list) outcome" where
  "handleInvite b s p = from_read (sip_fields [SIP_FROM, SIP_TO, SIP_CALL_ID, SIP_SDP] p) (\<lambda>fs.
     let from = text_of fs SIP_FROM; to = text_of fs SIP_TO;
         cid = text_of fs SIP_CALL_ID; sdp = text_of fs SIP_SDP
     in if calls s cid \<noteq> None then handleReInvite s p cid sdp
        else
          (let (s1, trying) = sendSipResponse SIP_100_TRYING cid from to ''INVITE'' [] s
           in if \<not> invokeMtas b from to cid sdp then
                (let (s2, r) = sendSipResponse SIP_200_OK cid from to ''BARRED'' [] s1 in Done (s2, [trying, r]))
              else
                (let s2 = set_call s1 cid \<lparr> caller_impu = from, callee_impu = to, cs_call_id = cid,
                                           on_hold = False, in_conference = False \<rparr>;
                     (s3, progress) = sendSipResponse SIP_183_PROGRESS cid from to ''INVITE'' [] s2
                 in Done (s3, [trying, p, progress]))))"

subsection \<open>The other requests\<close>

definition handleAck :: "scscf_state \<Rightarrow> bytes \<Rightarrow> (scscf_state \<times> bytes list) outcome" where
  "handleAck s p = from_read (first_text SIP_CALL_ID (body_of p)) (\<lambda>cid.
     Done (s, if calls s cid \<noteq> None then [p] else []))"

definition handle200Ok :: "scscf_state \<Rightarrow> bytes \<Rightarrow> (scscf_state \<times> bytes list) outcome" where
  "handle200Ok s p = from_read (sip_fields [SIP_CALL_ID, SIP_REASON, SIP_SDP] p) (\<lambda>_. Done (s, [p]))"

definition handleBye :: "scscf_state \<Rightarrow> bytes \<Rightarrow> (scscf_state \<times> bytes list) outcome" where
  "handleBye s p = from_read (sip_fields [SIP_CALL_ID, SIP_FROM] p) (\<lambda>fs.
     let cid = text_of fs SIP_CALL_ID;
         (s1, ok) = sendSipResponse SIP_200_OK cid (text_of fs SIP_FROM) [] ''BYE'' []
                      (s\<lparr> calls := (calls s)(cid := None) \<rparr>)
     in Done (s1, [ok, p]))"

definition handleUpdate :: "scscf_state \<Rightarrow> bytes \<Rightarrow> (scscf_state \<times> bytes list) outcome" where
  "handleUpdate s p = from_read (sip_fields [SIP_FROM, SIP_CALL_ID, SIP_SDP] p) (\<lambda>fs.
     let cid = text_of fs SIP_CALL_ID;
         (s1, ok) = sendSipResponse SIP_200_OK cid (text_of fs SIP_FROM) [] ''UPDATE'' [] s
     in Done (s1, (if calls s cid \<noteq> None then [p] else []) @ [ok]))"

text \<open>An unknown type raises an exception that the receive loop catches.\<close>

definition scscf_receive :: "(bytes \<Rightarrow> bytes option) \<Rightarrow> barring \<Rightarrow> scscf_state \<Rightarrow> bytes \<Rightarrow> (scscf_state \<times> bytes list) outcome" where
  "scscf_receive cx b s p =
     (let ty = msg_type_of p
      in if ty = SIP_REGISTER then handleRegister cx s p
         else if ty = SIP_INVITE then handleInvite b s p
         else if ty = SIP_ACK then handleAck s p
         else if ty = SIP_200_OK then handle200Ok s p
         else if ty = SIP_BYE then handleBye s p
         else if ty = SIP_CANCEL then handleUpdate s p
         else Done (s, []))"

end
