(* ===== verification/Ims_Pcscf.thy ===== *)
theory Ims_Pcscf
  imports Ims_Sip
begin

text \<open>
  The proxy call session control function (\<open>pcscf_node.cpp\<close>): the connections of the phones,
  the phone of every public identity, and the caller and callee of every call. One thread
  per phone runs \<open>handleFromUe\<close>, one thread runs \<open>handleFromScscf\<close>; a handler is one turn
  of its thread, except that \<open>handleFromUe\<close> clears the routing of a BYE after it has sent
  the BYE on, in a turn of its own. Logs, diagrams, the packet capture and the Rx request,
  which is a log and a capture, are left out.
\<close>

subsection \<open>State\<close>

record UeSession =
  ses_impu :: string
  ses_ip :: string
  ses_registered :: bool

record pcscf_state =
  ue_sessions :: "UeSession list"
  ue_by_impu :: "string \<rightharpoonup> nat"
  call_to_caller :: "string \<rightharpoonup> string"
  call_to_callee :: "string \<rightharpoonup> string"
  invite_delivered :: "string set"
  pcscf_seq :: u32

definition pcscf_init :: pcscf_state where
  "pcscf_init = \<lparr> ue_sessions = [], ue_by_impu = Map.empty, call_to_caller = Map.empty,
     call_to_callee = Map.empty, invite_delivered = {}, pcscf_seq = 1 \<rparr>"

text \<open>A new connection: its session is the last of the list, its index names it.\<close>

definition acceptUe :: "pcscf_state \<Rightarrow> pcscf_state" where
  "acceptUe s = s\<lparr> ue_sessions := ue_sessions s @ [\<lparr> ses_impu = [], ses_ip = [], ses_registered = False \<rparr>] \<rparr>"

definition or_else :: "string \<Rightarrow> string \<Rightarrow> string" where
  "or_else a b = (if a = [] then b else a)"

definition caller_of :: "pcscf_state \<Rightarrow> string \<Rightarrow> string" where
  "caller_of s cid = (case call_to_caller s cid of None \<Rightarrow> [] | Some c \<Rightarrow> c)"

definition callee_of :: "pcscf_state \<Rightarrow> string \<Rightarrow> string" where
  "callee_of s cid = (case call_to_callee s cid of None \<Rightarrow> [] | Some c \<Rightarrow> c)"

text \<open>\<open>sendToUe\<close>: the connection and the payload, or nothing when no phone has the identity.\<close>

definition sendToUe :: "pcscf_state \<Rightarrow> string \<Rightarrow> bytes \<Rightarrow> (nat \<times> bytes) list" where
  "sendToUe s impu p = (case ue_by_impu s impu of None \<Rightarrow> [] | Some i \<Rightarrow> [(i, p)])"

definition send_known :: "pcscf_state \<Rightarrow> string \<Rightarrow> bytes \<Rightarrow> (nat \<times> bytes) list" where
  "send_known s impu p = (if impu = [] then [] else sendToUe s impu p)"

subsection \<open>From a phone\<close>

definition note_register :: "pcscf_state \<Rightarrow> nat \<Rightarrow> string \<Rightarrow> string \<Rightarrow> pcscf_state" where
  "note_register s i impu contact = s\<lparr>
     ue_sessions := (ue_sessions s)[i := (ue_sessions s ! i)\<lparr> ses_impu := impu, ses_ip := contact \<rparr>],
     ue_by_impu := (ue_by_impu s)(impu \<mapsto> i) \<rparr>"

definition note_invite :: "pcscf_state \<Rightarrow> string \<Rightarrow> string \<Rightarrow> string \<Rightarrow> pcscf_state" where
  "note_invite s cid caller callee = s\<lparr>
     call_to_caller := (call_to_caller s)(cid \<mapsto> caller),
     call_to_callee := (call_to_callee s)(cid \<mapsto> callee) \<rparr>"

definition forget_call :: "pcscf_state \<Rightarrow> string \<Rightarrow> pcscf_state" where
  "forget_call s cid = s\<lparr>
     call_to_caller := (call_to_caller s)(cid := None),
     call_to_callee := (call_to_callee s)(cid := None),
     invite_delivered := invite_delivered s - {cid} \<rparr>"

text \<open>
  The new state, the payloads for the S-CSCF, and the call to forget once they are sent.
  The session of a connection exists from \<open>acceptUe\<close> on.
\<close>

definition handleFromUe :: "pcscf_state \<Rightarrow> nat \<Rightarrow> bytes \<Rightarrow> (pcscf_state \<times> bytes list \<times> string option) outcome" where
  "handleFromUe s i p =
     from_read (sip_fields [SIP_FROM, SIP_TO, SIP_IMPU, SIP_IMPI, SIP_CONTACT, SIP_CALL_ID, SIP_SDP] p) (\<lambda>fs.
       let ty = msg_type_of p; cid = text_of fs SIP_CALL_ID
       in if ty = SIP_REGISTER then
            Done (note_register s i (text_of fs SIP_IMPU) (text_of fs SIP_CONTACT), [p], None)
          else if ty = SIP_INVITE then
            Done (note_invite s cid (or_else (text_of fs SIP_FROM) (ses_impu (ue_sessions s ! i))) (text_of fs SIP_TO),
                  [p], None)
          else if ty = SIP_BYE then Done (s, [p], Some cid)
          else Done (s, [p], None))"

subsection \<open>From the S-CSCF\<close>

text \<open>An INVITE that goes to the callee the first time is followed by 180 Ringing to the caller.\<close>

definition note_delivery :: "pcscf_state \<Rightarrow> string \<Rightarrow> string \<Rightarrow> string \<Rightarrow> pcscf_state" where
  "note_delivery s cid from to = s\<lparr>
     invite_delivered := insert cid (invite_delivered s),
     call_to_caller := (if call_to_caller s cid = None \<and> from \<noteq> [] then (call_to_caller s)(cid \<mapsto> from)
                        else call_to_caller s),
     call_to_callee := (if call_to_callee s cid = None \<and> to \<noteq> [] then (call_to_callee s)(cid \<mapsto> to)
                        else call_to_callee s) \<rparr>"

definition ringing :: "pcscf_state \<Rightarrow> string \<Rightarrow> string \<Rightarrow> string \<Rightarrow> pcscf_state \<times> bytes" where
  "ringing s cid from to =
     (s\<lparr> pcscf_seq := pcscf_seq s + 1 \<rparr>,
      sip_message SIP_180_RINGING (pcscf_seq s)
        [(SIP_CALL_ID, cid), (SIP_FROM, from), (SIP_TO, to), (SIP_REASON, ''INVITE'')])"

definition deliver_invite :: "pcscf_state \<Rightarrow> bytes \<Rightarrow> string \<Rightarrow> string \<Rightarrow> string \<Rightarrow> pcscf_state \<times> (nat \<times> bytes) list" where
  "deliver_invite s p cid from to =
     (if cid \<in> invite_delivered s then (s, sendToUe s to p)
      else (let s1 = note_delivery s cid from to;
                (s2, ring) = ringing s1 cid from to
            in (s2, sendToUe s1 to p @ sendToUe s1 from ring)))"

text \<open>The responses that are also shown to the callee of the call.\<close>

definition to_both :: "string \<Rightarrow> bool" where
  "to_both reason \<longleftrightarrow> reason \<in> {''re-INVITE-HOLD'', ''re-INVITE-RESUME'', ''VIDEO-ADD'', ''VIDEO-REMOVE''}"

definition mark_registered :: "pcscf_state \<Rightarrow> string \<Rightarrow> pcscf_state" where
  "mark_registered s impu = (case ue_by_impu s impu of None \<Rightarrow> s
     | Some i \<Rightarrow> s\<lparr> ue_sessions := (ue_sessions s)[i := (ue_sessions s ! i)\<lparr> ses_registered := True \<rparr>] \<rparr>)"

definition deliver_ok :: "pcscf_state \<Rightarrow> bytes \<Rightarrow> string \<Rightarrow> string \<Rightarrow> string \<Rightarrow> string \<Rightarrow> pcscf_state \<times> (nat \<times> bytes) list" where
  "deliver_ok s p cid from to reason =
     (if reason = ''REGISTER'' then
        (let target = or_else from to in (mark_registered s target, send_known s target p))
      else
        (let target = or_else (caller_of s cid) from
         in (s, (if to_both reason then send_known s (callee_of s cid) p else []) @ send_known s target p)))"

definition handleFromScscf :: "pcscf_state \<Rightarrow> bytes \<Rightarrow> (pcscf_state \<times> (nat \<times> bytes) list) outcome" where
  "handleFromScscf s p =
     from_read (sip_fields [SIP_TO, SIP_FROM, SIP_CALL_ID, SIP_REASON, SIP_SDP] p) (\<lambda>fs.
       let ty = msg_type_of p; from = text_of fs SIP_FROM; to = text_of fs SIP_TO; cid = text_of fs SIP_CALL_ID
       in if ty = SIP_INVITE then Done (deliver_invite s p cid from to)
          else if ty \<in> {SIP_100_TRYING, SIP_183_PROGRESS, SIP_180_RINGING} then
            Done (s, send_known s (or_else (caller_of s cid) from) p)
          else if ty = SIP_200_OK then Done (deliver_ok s p cid from to (text_of fs SIP_REASON))
          else if ty = SIP_ACK then Done (s, send_known s (or_else (callee_of s cid) to) p)
          else Done (s, send_known s (or_else (caller_of s cid) (or_else from to)) p))"

end
