(* ===== verification/Ims_Text.thy ===== *)
theory Ims_Text
  imports Text_Frames
begin

text \<open>
  The SIP texts of the packet captures (\<open>sip_text.h\<close>), one function per builder: the lines
  that the stream writes, each ended by carriage return and line feed, an empty line and the
  body. A text read back as RFC 3261 frames it gives those lines and that body, and the
  Content-Length header announces the body's length.
\<close>

subsection \<open>Identities\<close>

definition IMS_DOMAIN :: string where
  "IMS_DOMAIN = ''ims.mnc010.mcc404.3gppnetwork.org''"
definition IMPU_A :: string where
  "IMPU_A = ''sip:+919000000001@'' @ IMS_DOMAIN"
definition IMPU_B :: string where
  "IMPU_B = ''sip:+919000000002@'' @ IMS_DOMAIN"
definition IMPU_C :: string where
  "IMPU_C = ''sip:+919000000003@'' @ IMS_DOMAIN"
definition IP_UE_A :: string where "IP_UE_A = ''10.0.0.1''"
definition IP_UE_B :: string where "IP_UE_B = ''10.0.0.2''"
definition IP_UE_C :: string where "IP_UE_C = ''10.0.0.3''"

lemma impu_distinct [simp]:
  "IMPU_A \<noteq> IMPU_B" "IMPU_B \<noteq> IMPU_A" "IMPU_A \<noteq> IMPU_C" "IMPU_C \<noteq> IMPU_A" "IMPU_B \<noteq> IMPU_C" "IMPU_C \<noteq> IMPU_B"
  "IMPU_A \<noteq> []" "IMPU_B \<noteq> []" "IMPU_C \<noteq> []"
  by (simp_all add: IMPU_A_def IMPU_B_def IMPU_C_def)

subsection \<open>Texts\<close>

definition body_lines :: "string list \<Rightarrow> string" where
  "body_lines ls = concat (map (\<lambda>l. l @ [CR, LF]) ls)"

definition sip_text :: "string list \<Rightarrow> string \<Rightarrow> string" where
  "sip_text ls body = body_lines ls @ [CR, LF] @ body"

definition buildRegister :: "string \<Rightarrow> string \<Rightarrow> int \<Rightarrow> int \<Rightarrow> string" where
  "buildRegister impu ue_ip cseq expires =
     sip_text [
        ''REGISTER sip:'' @ IMS_DOMAIN @ '' SIP/2.0'',
        ''Via: SIP/2.0/TCP '' @ ue_ip @ '':5060;branch=z9hG4bKreg'' @ json_num cseq,
        ''Max-Forwards: 70'',
        ''From: '' @ impu @ '';tag=reg'' @ json_num cseq,
        ''To: '' @ impu,
        ''Call-ID: reg-'' @ json_num cseq @ ''@'' @ ue_ip,
        ''CSeq: '' @ json_num cseq @ '' REGISTER'',
        ''Contact: <sip:ue@'' @ ue_ip @ '':5060>;expires='' @ json_num expires,
        ''Expires: '' @ json_num expires,
        ''P-Access-Network-Info: 3GPP-E-UTRAN-FDD; utran-cell-id-3gpp=404010001'',
        ''Authorization: Digest username='' @ [dq] @ impu @ [dq] @ '','' @ '' realm='' @ [dq] @ IMS_DOMAIN @ [dq] @ '', nonce='' @ [dq] @ [dq] @ '', uri='' @ [dq] @ ''sip:'' @ IMS_DOMAIN @ [dq],
        ''Content-Length: 0''] []"

definition build200Register :: "string \<Rightarrow> string \<Rightarrow> int \<Rightarrow> string" where
  "build200Register impu ue_ip cseq =
     sip_text [
        ''SIP/2.0 200 OK'',
        ''Via: SIP/2.0/TCP '' @ ue_ip @ '':5060;branch=z9hG4bKreg'' @ json_num cseq,
        ''From: '' @ impu @ '';tag=reg'' @ json_num cseq,
        ''To: '' @ impu @ '';tag=scscf001'',
        ''Call-ID: reg-'' @ json_num cseq @ ''@'' @ ue_ip,
        ''CSeq: '' @ json_num cseq @ '' REGISTER'',
        ''Contact: <sip:ue@'' @ ue_ip @ '':5060>;expires=3600'',
        ''P-Associated-URI: <tel:+919000000001>'',
        ''Service-Route: <sip:scscf.'' @ IMS_DOMAIN @ '';lr>'',
        ''Content-Length: 0''] []"

definition buildInvite :: "string \<Rightarrow> string \<Rightarrow> string \<Rightarrow> string \<Rightarrow> int \<Rightarrow> int \<Rightarrow> string" where
  "buildInvite from_impu to_impu from_ip call_id cseq rtp_port =
     (let sdp = body_lines [
        ''v=0'',
        ''o=ue 12345 67890 IN IP4 '' @ from_ip,
        ''s=VoLTE Call'',
        ''c=IN IP4 '' @ from_ip,
        ''t=0 0'',
        ''m=audio '' @ json_num rtp_port @ '' RTP/AVP 98 99'',
        ''a=rtpmap:98 AMR-WB/16000'',
        ''a=rtpmap:99 AMR/8000'',
        ''a=sendrecv'',
        ''m=video '' @ json_num (rtp_port + 2) @ '' RTP/AVP 100'',
        ''a=rtpmap:100 H264/90000'',
        ''a=sendrecv'']
     in sip_text [
        ''INVITE '' @ to_impu @ '' SIP/2.0'',
        ''Via: SIP/2.0/TCP '' @ from_ip @ '':5060;branch=z9hG4bKinv'' @ json_num cseq,
        ''Max-Forwards: 70'',
        ''From: '' @ from_impu @ '';tag=inv'' @ json_num cseq,
        ''To: '' @ to_impu,
        ''Call-ID: '' @ call_id,
        ''CSeq: '' @ json_num cseq @ '' INVITE'',
        ''Contact: <sip:ue@'' @ from_ip @ '':5060>'',
        ''P-Preferred-Identity: '' @ from_impu,
        ''P-Access-Network-Info: 3GPP-E-UTRAN-FDD; utran-cell-id-3gpp=404010001'',
        ''Supported: 100rel,precondition'',
        ''Content-Type: application/sdp'',
        ''Content-Length: '' @ json_num (int (length sdp))] sdp)"

definition build100Trying :: "string \<Rightarrow> string \<Rightarrow> string \<Rightarrow> int \<Rightarrow> string" where
  "build100Trying from_impu to_impu call_id cseq =
     sip_text [
        ''SIP/2.0 100 Trying'',
        ''From: '' @ from_impu,
        ''To: '' @ to_impu,
        ''Call-ID: '' @ call_id,
        ''CSeq: '' @ json_num cseq @ '' INVITE'',
        ''Content-Length: 0''] []"

definition build183SessionProgress :: "string \<Rightarrow> string \<Rightarrow> string \<Rightarrow> int \<Rightarrow> int \<Rightarrow> string" where
  "build183SessionProgress from_impu to_impu call_id cseq callee_rtp_port =
     (let sdp = body_lines [
        ''v=0'',
        ''o=ue-b 11111 22222 IN IP4 10.0.0.2'',
        ''s=VoLTE Call'',
        ''c=IN IP4 10.0.0.2'',
        ''t=0 0'',
        ''m=audio '' @ json_num callee_rtp_port @ '' RTP/AVP 98'',
        ''a=rtpmap:98 AMR-WB/16000'',
        ''a=curr:qos local none'',
        ''a=curr:qos remote none'',
        ''a=des:qos mandatory local sendrecv'',
        ''a=des:qos mandatory remote sendrecv'',
        ''a=sendrecv'']
     in sip_text [
        ''SIP/2.0 183 Session Progress'',
        ''From: '' @ from_impu,
        ''To: '' @ to_impu @ '';tag=early'' @ json_num cseq,
        ''Call-ID: '' @ call_id,
        ''CSeq: '' @ json_num cseq @ '' INVITE'',
        ''RSeq: 1'',
        ''Require: 100rel'',
        ''Contact: <sip:ue-b@10.0.0.2:5060>'',
        ''Content-Type: application/sdp'',
        ''Content-Length: '' @ json_num (int (length sdp))] sdp)"

definition build180Ringing :: "string \<Rightarrow> string \<Rightarrow> string \<Rightarrow> int \<Rightarrow> string" where
  "build180Ringing from_impu to_impu call_id cseq =
     sip_text [
        ''SIP/2.0 180 Ringing'',
        ''From: '' @ from_impu,
        ''To: '' @ to_impu @ '';tag=callee'' @ json_num cseq,
        ''Call-ID: '' @ call_id,
        ''CSeq: '' @ json_num cseq @ '' INVITE'',
        ''Contact: <sip:ue-b@10.0.0.2:5060>'',
        ''Content-Length: 0''] []"

definition build200Invite :: "string \<Rightarrow> string \<Rightarrow> string \<Rightarrow> string \<Rightarrow> int \<Rightarrow> int \<Rightarrow> string" where
  "build200Invite from_impu to_impu callee_ip call_id cseq callee_rtp_port =
     (let sdp = body_lines [
        ''v=0'',
        ''o=ue-b 11111 22222 IN IP4 '' @ callee_ip,
        ''s=VoLTE Call'',
        ''c=IN IP4 '' @ callee_ip,
        ''t=0 0'',
        ''m=audio '' @ json_num callee_rtp_port @ '' RTP/AVP 98'',
        ''a=rtpmap:98 AMR-WB/16000'',
        ''a=sendrecv'',
        ''m=video '' @ json_num (callee_rtp_port + 2) @ '' RTP/AVP 100'',
        ''a=rtpmap:100 H264/90000'',
        ''a=sendrecv'']
     in sip_text [
        ''SIP/2.0 200 OK'',
        ''From: '' @ from_impu,
        ''To: '' @ to_impu @ '';tag=callee'' @ json_num cseq,
        ''Call-ID: '' @ call_id,
        ''CSeq: '' @ json_num cseq @ '' INVITE'',
        ''Contact: <sip:ue-b@'' @ callee_ip @ '':5060>'',
        ''Content-Type: application/sdp'',
        ''Content-Length: '' @ json_num (int (length sdp))] sdp)"

definition buildAck :: "string \<Rightarrow> string \<Rightarrow> string \<Rightarrow> int \<Rightarrow> string" where
  "buildAck from_impu to_impu call_id cseq =
     sip_text [
        ''ACK '' @ to_impu @ '' SIP/2.0'',
        ''From: '' @ from_impu,
        ''To: '' @ to_impu @ '';tag=callee'' @ json_num cseq,
        ''Call-ID: '' @ call_id,
        ''CSeq: '' @ json_num cseq @ '' ACK'',
        ''Content-Length: 0''] []"

definition buildBye :: "string \<Rightarrow> string \<Rightarrow> string \<Rightarrow> int \<Rightarrow> string" where
  "buildBye from_impu to_impu call_id cseq =
     sip_text [
        ''BYE '' @ to_impu @ '' SIP/2.0'',
        ''From: '' @ from_impu,
        ''To: '' @ to_impu,
        ''Call-ID: '' @ call_id,
        ''CSeq: '' @ json_num cseq @ '' BYE'',
        ''Content-Length: 0''] []"

definition build200Bye :: "string \<Rightarrow> string \<Rightarrow> string \<Rightarrow> int \<Rightarrow> string" where
  "build200Bye from_impu to_impu call_id cseq =
     sip_text [
        ''SIP/2.0 200 OK'',
        ''From: '' @ from_impu,
        ''To: '' @ to_impu,
        ''Call-ID: '' @ call_id,
        ''CSeq: '' @ json_num cseq @ '' BYE'',
        ''Content-Length: 0''] []"

definition buildPrack :: "string \<Rightarrow> string \<Rightarrow> string \<Rightarrow> int \<Rightarrow> string" where
  "buildPrack from_impu to_impu call_id cseq =
     sip_text [
        ''PRACK '' @ to_impu @ '' SIP/2.0'',
        ''Via: SIP/2.0/TCP 10.0.0.8:5060;branch=z9hG4bKpr'' @ json_num cseq,
        ''Max-Forwards: 70'',
        ''From: '' @ from_impu @ '';tag=inv'' @ json_num cseq,
        ''To: '' @ to_impu @ '';tag=callee'' @ json_num cseq,
        ''Call-ID: '' @ call_id,
        ''CSeq: '' @ json_num cseq @ '' PRACK'',
        ''RAck: 1 1 INVITE'',
        ''Content-Length: 0''] []"

definition build200Prack :: "string \<Rightarrow> string \<Rightarrow> string \<Rightarrow> int \<Rightarrow> string" where
  "build200Prack from_impu to_impu call_id cseq =
     sip_text [
        ''SIP/2.0 200 OK'',
        ''From: '' @ from_impu,
        ''To: '' @ to_impu,
        ''Call-ID: '' @ call_id,
        ''CSeq: '' @ json_num cseq @ '' PRACK'',
        ''Content-Length: 0''] []"

definition buildReInvite :: "string \<Rightarrow> string \<Rightarrow> string \<Rightarrow> string \<Rightarrow> int \<Rightarrow> string \<Rightarrow> string" where
  "buildReInvite from_impu to_impu from_ip call_id cseq sdp_body =
     sip_text [
        ''INVITE '' @ to_impu @ '' SIP/2.0'',
        ''Via: SIP/2.0/TCP '' @ from_ip @ '':5060;branch=z9hG4bKre'' @ json_num cseq,
        ''Max-Forwards: 70'',
        ''From: '' @ from_impu @ '';tag=re'' @ json_num cseq,
        ''To: '' @ to_impu,
        ''Call-ID: '' @ call_id,
        ''CSeq: '' @ json_num cseq @ '' INVITE'',
        ''Content-Type: application/sdp'',
        ''Content-Length: '' @ json_num (int (length sdp_body))] sdp_body"

definition buildRefer :: "string \<Rightarrow> string \<Rightarrow> string \<Rightarrow> string \<Rightarrow> int \<Rightarrow> string" where
  "buildRefer from_impu to_impu refer_to_impu call_id cseq =
     sip_text [
        ''REFER '' @ to_impu @ '' SIP/2.0'',
        ''Via: SIP/2.0/TCP 10.0.0.8:5060;branch=z9hG4bKref'' @ json_num cseq,
        ''Max-Forwards: 70'',
        ''From: '' @ from_impu @ '';tag=inv'' @ json_num cseq,
        ''To: '' @ to_impu @ '';tag=callee'' @ json_num cseq,
        ''Call-ID: '' @ call_id,
        ''CSeq: '' @ json_num cseq @ '' REFER'',
        ''Refer-To: <'' @ refer_to_impu @ ''>'',
        ''Referred-By: <'' @ from_impu @ ''>'',
        ''Content-Length: 0''] []"

definition build202Accepted :: "string \<Rightarrow> string \<Rightarrow> string \<Rightarrow> int \<Rightarrow> string" where
  "build202Accepted from_impu to_impu call_id cseq =
     sip_text [
        ''SIP/2.0 202 Accepted'',
        ''From: '' @ from_impu,
        ''To: '' @ to_impu,
        ''Call-ID: '' @ call_id,
        ''CSeq: '' @ json_num cseq @ '' REFER'',
        ''Content-Length: 0''] []"

definition buildNotifyRefer :: "string \<Rightarrow> string \<Rightarrow> string \<Rightarrow> int \<Rightarrow> string \<Rightarrow> string \<Rightarrow> string" where
  "buildNotifyRefer from_impu to_impu call_id cseq sub_state sip_frag =
     (let body = body_lines [sip_frag]
     in sip_text [
        ''NOTIFY '' @ from_impu @ '' SIP/2.0'',
        ''Via: SIP/2.0/TCP 10.0.0.9:5070;branch=z9hG4bKnot'' @ json_num cseq,
        ''From: '' @ to_impu @ '';tag=scscf'',
        ''To: '' @ from_impu,
        ''Call-ID: '' @ call_id,
        ''CSeq: '' @ json_num cseq @ '' NOTIFY'',
        ''Event: refer'',
        ''Subscription-State: '' @ sub_state,
        ''Content-Type: message/sipfrag;version=2.0'',
        ''Content-Length: '' @ json_num (int (length body))] body)"

definition buildSubscribe :: "string \<Rightarrow> string \<Rightarrow> string \<Rightarrow> int \<Rightarrow> int \<Rightarrow> string" where
  "buildSubscribe from_impu conf_uri call_id cseq expires =
     sip_text [
        ''SUBSCRIBE '' @ conf_uri @ '' SIP/2.0'',
        ''Via: SIP/2.0/TCP 10.0.0.1:5060;branch=z9hG4bKsub'' @ json_num cseq,
        ''From: '' @ from_impu @ '';tag=sub'' @ json_num cseq,
        ''To: '' @ conf_uri,
        ''Call-ID: '' @ call_id @ ''-sub'',
        ''CSeq: '' @ json_num cseq @ '' SUBSCRIBE'',
        ''Event: conference'',
        ''Accept: application/conference-info+xml'',
        ''Expires: '' @ json_num expires,
        ''Content-Length: 0''] []"

definition buildNotifyConf :: "string \<Rightarrow> string \<Rightarrow> string \<Rightarrow> int \<Rightarrow> string \<Rightarrow> string \<Rightarrow> string \<Rightarrow> string" where
  "buildNotifyConf conf_uri to_impu call_id cseq p_a p_b p_c =
     (let xml = body_lines [
        ''<?xml version='' @ [dq] @ ''1.0'' @ [dq] @ '' encoding='' @ [dq] @ ''UTF-8'' @ [dq] @ ''?>'',
        ''<conference-info xmlns='' @ [dq] @ ''urn:ietf:params:xml:ns:conference-info'' @ [dq],
        ''  entity='' @ [dq] @ conf_uri @ [dq] @ '' state='' @ [dq] @ ''full'' @ [dq] @ '' version='' @ [dq] @ ''1'' @ [dq] @ ''>'',
        ''  <conference-description><display-text>3-Party Conference</display-text></conference-description>'',
        ''  <users>'',
        ''    <user entity='' @ [dq] @ p_a @ [dq] @ '' state='' @ [dq] @ ''full'' @ [dq] @ ''>'',
        ''      <display-text>UE-A</display-text>'',
        ''      <endpoint entity='' @ [dq] @ ''sip:ue@10.0.0.1:5060'' @ [dq] @ ''>'',
        ''        <status>connected</status>'',
        ''        <media id='' @ [dq] @ ''1'' @ [dq] @ ''><type>audio</type><status>recvonly</status></media>'',
        ''      </endpoint>'',
        ''    </user>'',
        ''    <user entity='' @ [dq] @ p_b @ [dq] @ '' state='' @ [dq] @ ''full'' @ [dq] @ ''>'',
        ''      <display-text>UE-B</display-text>'',
        ''      <endpoint entity='' @ [dq] @ ''sip:ue@10.0.0.2:5060'' @ [dq] @ ''>'',
        ''        <status>connected</status>'',
        ''        <media id='' @ [dq] @ ''1'' @ [dq] @ ''><type>audio</type><status>recvonly</status></media>'',
        ''      </endpoint>'',
        ''    </user>'',
        ''    <user entity='' @ [dq] @ p_c @ [dq] @ '' state='' @ [dq] @ ''full'' @ [dq] @ ''>'',
        ''      <display-text>UE-C</display-text>'',
        ''      <endpoint entity='' @ [dq] @ ''sip:ue@10.0.0.3:5060'' @ [dq] @ ''>'',
        ''        <status>connected</status>'',
        ''        <media id='' @ [dq] @ ''1'' @ [dq] @ ''><type>audio</type><status>recvonly</status></media>'',
        ''      </endpoint>'',
        ''    </user>'',
        ''  </users>'',
        ''</conference-info>'']
     in sip_text [
        ''NOTIFY '' @ to_impu @ '' SIP/2.0'',
        ''Via: SIP/2.0/TCP 10.0.0.11:5060;branch=z9hG4bKncf'' @ json_num cseq,
        ''From: '' @ conf_uri @ '';tag=mrfc'',
        ''To: '' @ to_impu,
        ''Call-ID: '' @ call_id @ ''-sub'',
        ''CSeq: '' @ json_num cseq @ '' NOTIFY'',
        ''Event: conference'',
        ''Subscription-State: active;expires=3600'',
        ''Content-Type: application/conference-info+xml'',
        ''Content-Length: '' @ json_num (int (length xml))] xml)"

definition build603 :: "string \<Rightarrow> string \<Rightarrow> string \<Rightarrow> int \<Rightarrow> string \<Rightarrow> string" where
  "build603 from_impu to_impu call_id cseq reason =
     sip_text [
        ''SIP/2.0 603 Decline'',
        ''From: '' @ from_impu,
        ''To: '' @ to_impu,
        ''Call-ID: '' @ call_id,
        ''CSeq: '' @ json_num cseq @ '' INVITE'',
        ''Reason: SIP;cause=603;text='' @ [dq] @ reason @ '' barring active'' @ [dq],
        ''Content-Length: 0''] []"

subsection \<open>Reading a text back\<close>

fun next_line :: "string \<Rightarrow> (string \<times> string) option" where
  "next_line (c # d # cs) =
     (if c = CR \<and> d = LF then Some ([], cs) else map_option (apfst ((#) c)) (next_line (d # cs)))"
| "next_line _ = None"

lemma next_line_shorter: "next_line s = Some (l, r) \<Longrightarrow> length r < length s"
  by (induction s arbitrary: l rule: next_line.induct) (auto split: if_splits)

text \<open>The header lines up to the first empty one, and the rest.\<close>

function head_lines :: "string \<Rightarrow> (string list \<times> string) option" where
  "head_lines s = (case next_line s of None \<Rightarrow> None
     | Some (l, r) \<Rightarrow> if l = [] then Some ([], r) else map_option (apfst ((#) l)) (head_lines r))"
  by pat_completeness auto
termination
  by (relation "measure length") (auto dest: next_line_shorter)

declare head_lines.simps [simp del]

definition header_value :: "string list \<Rightarrow> string \<Rightarrow> string option" where
  "header_value ls name = map_option (drop (length name)) (List.find (starts_with name) ls)"

definition text_line :: "string \<Rightarrow> bool" where
  "text_line s \<longleftrightarrow> CR \<notin> set s"

lemma next_line_append: "CR \<notin> set l \<Longrightarrow> next_line (l @ CR # LF # r) = Some (l, r)"
proof (induction l)
  case (Cons c l)
  then show ?case by (cases l) auto
qed simp

lemma head_lines_text:
  assumes "\<forall>l\<in>set ls. l \<noteq> [] \<and> CR \<notin> set l"
  shows "head_lines (sip_text ls body) = Some (ls, body)"
  using assms
proof (induction ls)
  case Nil
  then show ?case by (simp add: sip_text_def body_lines_def head_lines.simps)
next
  case (Cons l ls)
  have "sip_text (l # ls) body = l @ CR # LF # sip_text ls body"
    by (simp add: sip_text_def body_lines_def)
  then show ?case using Cons by (subst head_lines.simps) (simp add: next_line_append)
qed

lemma cr_free [simp]: "CR \<notin> set (json_num n)" "CR \<notin> set IMS_DOMAIN" "CR \<noteq> dq"
proof -
  have "CR \<notin> set (nat_dec k)" for k using nat_dec_digits [of CR k] by (auto simp: is_digit_def)
  then show "CR \<notin> set (json_num n)" by (simp add: json_num_def)
qed (simp_all add: IMS_DOMAIN_def)

text \<open>A text is framed when its Content-Length is the length of what follows the empty line.\<close>

definition framed :: "string \<Rightarrow> bool" where
  "framed t = (case head_lines t of None \<Rightarrow> False
     | Some (ls, body) \<Rightarrow> header_value ls ''Content-Length: '' = Some (json_num (int (length body))))"

lemma framed_text:
  assumes "\<forall>l\<in>set ls. l \<noteq> [] \<and> CR \<notin> set l"
    and "header_value ls ''Content-Length: '' = Some (json_num (int (length body)))"
  shows "framed (sip_text ls body)"
  using assms by (simp add: framed_def head_lines_text)

subsection \<open>Every builder\<close>

definition sip_texts :: "string \<Rightarrow> string \<Rightarrow> string \<Rightarrow> string \<Rightarrow> string \<Rightarrow> int \<Rightarrow> int \<Rightarrow> string \<Rightarrow> string \<Rightarrow> string list" where
  "sip_texts from to third ip cid n port state body =
     [buildRegister from ip n port, build200Register from ip n, buildInvite from to ip cid n port,
      build100Trying from to cid n, build183SessionProgress from to cid n port, build180Ringing from to cid n,
      build200Invite from to ip cid n port, buildAck from to cid n, buildBye from to cid n, build200Bye from to cid n,
      buildPrack from to cid n, build200Prack from to cid n, buildReInvite from to ip cid n body,
      buildRefer from to third cid n, build202Accepted from to cid n, buildNotifyRefer from to cid n state body,
      buildSubscribe from third cid n port, buildNotifyConf third from cid n from to ip, build603 from to cid n state]"

lemmas builder_defs = buildRegister_def build200Register_def buildInvite_def build100Trying_def
  build183SessionProgress_def build180Ringing_def build200Invite_def buildAck_def buildBye_def build200Bye_def
  buildPrack_def build200Prack_def buildReInvite_def buildRefer_def build202Accepted_def buildNotifyRefer_def
  buildSubscribe_def buildNotifyConf_def build603_def

lemma sip_texts_framed_aux:
  assumes "text_line from" "text_line to" "text_line third" "text_line ip" "text_line cid" "text_line state"
  shows "list_all framed (sip_texts from to third ip cid n port state body)"
  using assms
  by (simp add: sip_texts_def builder_defs Let_def framed_text text_line_def header_value_def json_num_0)

end
