(* ===== verification/Ims_Ue.thy ===== *)
theory Ims_Ue
  imports Ims_Sip Ims_Text
begin

text \<open>
  The phone (\<open>ue_sim.cpp\<close>): the commands of its terminal and what it makes of the payloads
  from the proxy. The two run in threads of their own on shared variables without a lock;
  here a command and a received payload are each one turn. Screen output and the packet
  capture are left out.
\<close>

subsection \<open>Configuration and state\<close>

record UeConfig =
  ue_label :: string
  ue_impu :: string
  ue_impi :: string
  ue_ip :: string
  rtp_port :: int

definition UE_CONFIGS :: "string \<rightharpoonup> UeConfig" where
  "UE_CONFIGS =
     [''A'' \<mapsto> \<lparr> ue_label = ''UE-A'', ue_impu = IMPU_A, ue_impi = ''919000000001@'' @ IMS_DOMAIN,
               ue_ip = IP_UE_A, rtp_port = 50000 \<rparr>,
      ''B'' \<mapsto> \<lparr> ue_label = ''UE-B'', ue_impu = IMPU_B, ue_impi = ''919000000002@'' @ IMS_DOMAIN,
               ue_ip = IP_UE_B, rtp_port = 60000 \<rparr>,
      ''C'' \<mapsto> \<lparr> ue_label = ''UE-C'', ue_impu = IMPU_C, ue_impi = ''919000000003@'' @ IMS_DOMAIN,
               ue_ip = IP_UE_C, rtp_port = 70000 \<rparr>]"

definition ID_TO_IMPU :: "string \<rightharpoonup> string" where
  "ID_TO_IMPU = [''A'' \<mapsto> IMPU_A, ''B'' \<mapsto> IMPU_B, ''C'' \<mapsto> IMPU_C]"

datatype UeState = IDLE | REGISTERING | REGISTERED | CALLING | RINGING | IN_CALL | ON_HOLD

record UeSimulator =
  cfg :: UeConfig
  ue_state :: UeState
  ue_seq :: u32
  current_call_id :: string
  ue_callee :: string
  ue_caller :: string

definition ue_init :: "UeConfig \<Rightarrow> UeSimulator" where
  "ue_init c = \<lparr> cfg = c, ue_state = IDLE, ue_seq = 1, current_call_id = [], ue_callee = [], ue_caller = [] \<rparr>"

text \<open>A frame with the next sequence number.\<close>

definition ue_send :: "UeSimulator \<Rightarrow> u16 \<Rightarrow> (u16 \<times> string) list \<Rightarrow> UeSimulator \<times> bytes list" where
  "ue_send u ty fs = (u\<lparr> ue_seq := ue_seq u + 1 \<rparr>, [sip_message ty (ue_seq u) fs])"

definition seq_text :: "UeSimulator \<Rightarrow> string" where
  "seq_text u = json_num (uint (ue_seq u))"

definition contact_of :: "UeConfig \<Rightarrow> string" where
  "contact_of c = ''sip:ue@'' @ ue_ip c @ '':5060''"

text \<open>The requests inside a call: Call-ID, From, To and the media offer.\<close>

definition in_dialog :: "UeSimulator \<Rightarrow> string \<Rightarrow> string \<Rightarrow> (u16 \<times> string) list" where
  "in_dialog u to sdp =
     [(SIP_CALL_ID, current_call_id u), (SIP_FROM, ue_impu (cfg u)), (SIP_TO, to), (SIP_SDP, sdp)]"

definition audio :: "UeSimulator \<Rightarrow> string" where
  "audio u = ''audio:'' @ json_num (rtp_port (cfg u)) @ ''/AMR-WB''"

subsection \<open>Commands\<close>

definition doRegister :: "UeSimulator \<Rightarrow> UeSimulator \<times> bytes list" where
  "doRegister u = (if ue_state u = IN_CALL then (u, [])
     else ue_send (u\<lparr> ue_state := REGISTERING \<rparr>) SIP_REGISTER
       [(SIP_FROM, ue_impu (cfg u)), (SIP_IMPU, ue_impu (cfg u)), (SIP_IMPI, ue_impi (cfg u)),
        (SIP_CONTACT, contact_of (cfg u))])"

text \<open>
  The Call-ID is meant to start with \<open>call-\<close> and the letter of the phone, but the source adds
  the letter to the address of the literal: \<open>"call-" + cfg_.label.back()\<close> points some 65 bytes
  beyond it. What text lies there is not defined by the language; it is the argument \<open>mem\<close>.
\<close>

type_synonym stray = "char \<Rightarrow> string"

definition new_call_id :: "stray \<Rightarrow> UeSimulator \<Rightarrow> string \<Rightarrow> string" where
  "new_call_id mem u target = mem (last (ue_label (cfg u))) @ target @ ''-'' @ seq_text u"

definition doCall :: "stray \<Rightarrow> UeSimulator \<Rightarrow> string \<Rightarrow> UeSimulator \<times> bytes list" where
  "doCall mem u target =
     (if ue_state u \<noteq> REGISTERED then (u, [])
      else case ID_TO_IMPU target of None \<Rightarrow> (u, [])
      | Some impu \<Rightarrow>
          (let cid = new_call_id mem u target
           in ue_send (u\<lparr> current_call_id := cid, ue_callee := impu, ue_state := CALLING \<rparr>) SIP_INVITE
                [(SIP_FROM, ue_impu (cfg u)), (SIP_TO, impu), (SIP_CALL_ID, cid),
                 (SIP_SDP, audio u @ '',video:'' @ json_num (rtp_port (cfg u) + 2) @ ''/H264'')]))"

definition doAccept :: "UeSimulator \<Rightarrow> UeSimulator \<times> bytes list" where
  "doAccept u = (if ue_state u \<noteq> RINGING then (u, [])
     else ue_send (u\<lparr> ue_state := IN_CALL \<rparr>) SIP_200_OK
       [(SIP_CALL_ID, current_call_id u), (SIP_REASON, ''INVITE''), (SIP_SDP, audio u @ ''/16000'')])"

definition doReject :: "UeSimulator \<Rightarrow> UeSimulator \<times> bytes list" where
  "doReject u = (if ue_state u \<noteq> RINGING then (u, [])
     else ue_send (u\<lparr> ue_state := REGISTERED \<rparr>) SIP_CANCEL [(SIP_CALL_ID, current_call_id u)])"

definition doHold :: "UeSimulator \<Rightarrow> UeSimulator \<times> bytes list" where
  "doHold u = (if ue_state u \<noteq> IN_CALL then (u, [])
     else ue_send (u\<lparr> ue_state := ON_HOLD \<rparr>) SIP_INVITE (in_dialog u (ue_callee u) (audio u @ '';a=sendonly'')))"

definition doResume :: "UeSimulator \<Rightarrow> UeSimulator \<times> bytes list" where
  "doResume u = (if ue_state u \<noteq> ON_HOLD then (u, [])
     else ue_send (u\<lparr> ue_state := IN_CALL \<rparr>) SIP_INVITE (in_dialog u (ue_callee u) (audio u @ '';a=sendrecv'')))"

definition doConference :: "UeSimulator \<Rightarrow> string \<Rightarrow> UeSimulator \<times> bytes list" where
  "doConference u third =
     (if ue_state u \<noteq> IN_CALL then (u, [])
      else case ID_TO_IMPU third of None \<Rightarrow> (u, [])
      | Some impu \<Rightarrow> ue_send u SIP_INVITE
          (in_dialog u impu (''sip:conf-'' @ seq_text u @ ''@mrfc.'' @ IMS_DOMAIN @ '';a=sendrecv;conf'')))"

definition doUpdate :: "UeSimulator \<Rightarrow> UeSimulator \<times> bytes list" where
  "doUpdate u = (if ue_state u \<noteq> IN_CALL \<and> ue_state u \<noteq> ON_HOLD then (u, [])
     else ue_send u SIP_INVITE (in_dialog u (ue_callee u)
       (audio u @ '';a=curr:qos local sendrecv;a=des:qos mandatory local sendrecv'')))"

definition doVideo :: "UeSimulator \<Rightarrow> UeSimulator \<times> bytes list" where
  "doVideo u = (if ue_state u \<noteq> IN_CALL then (u, [])
     else ue_send u SIP_INVITE (in_dialog u (ue_callee u)
       (audio u @ '';video:'' @ json_num (rtp_port (cfg u) + 2) @ ''/H264/90000;a=sendrecv'')))"

definition doVoice :: "UeSimulator \<Rightarrow> UeSimulator \<times> bytes list" where
  "doVoice u = (if ue_state u \<noteq> IN_CALL then (u, [])
     else ue_send u SIP_INVITE (in_dialog u (ue_callee u) (audio u @ '';video:0/H264/90000;port=0;a=sendrecv'')))"

definition doBye :: "UeSimulator \<Rightarrow> UeSimulator \<times> bytes list" where
  "doBye u = (if ue_state u \<noteq> IN_CALL \<and> ue_state u \<noteq> ON_HOLD then (u, [])
     else ue_send (u\<lparr> ue_state := REGISTERED \<rparr>) SIP_BYE [(SIP_CALL_ID, current_call_id u)])"

text \<open>
  The terminal: the first word of a line in capitals, the second one too. QUIT, which ends
  the process, and STATUS, which prints, change nothing here; an unknown word neither.
\<close>

definition is_blank :: "char \<Rightarrow> bool" where
  "is_blank c \<longleftrightarrow> c \<in> {CHR '' '', CHR 0x09, CHR 0x0A, CHR 0x0B, CHR 0x0C, CHR 0x0D}"

definition next_word :: "string \<Rightarrow> string \<times> string" where
  "next_word s = (let r = dropWhile is_blank s
     in (map upper_char (takeWhile (\<lambda>c. \<not> is_blank c) r), dropWhile (\<lambda>c. \<not> is_blank c) r))"

definition ue_command :: "stray \<Rightarrow> UeSimulator \<Rightarrow> string \<Rightarrow> UeSimulator \<times> bytes list" where
  "ue_command mem u line =
     (let (cmd, rest) = next_word line; arg = fst (next_word rest)
      in if cmd = ''REG'' then doRegister u
         else if cmd = ''ACCEPT'' then doAccept u
         else if cmd = ''REJECT'' then doReject u
         else if cmd = ''HOLD'' then doHold u
         else if cmd = ''RESUME'' then doResume u
         else if cmd = ''BYE'' then doBye u
         else if cmd = ''CALL'' then doCall mem u arg
         else if cmd = ''CONF'' then doConference u arg
         else if cmd = ''UPDATE'' then doUpdate u
         else if cmd = ''VIDEO'' then doVideo u
         else if cmd = ''VOICE'' then doVoice u
         else (u, []))"

subsection \<open>What the proxy sends\<close>

definition ue_ack :: "UeSimulator \<Rightarrow> UeSimulator \<times> bytes list" where
  "ue_ack u = ue_send u SIP_ACK [(SIP_CALL_ID, current_call_id u), (SIP_FROM, ue_impu (cfg u)), (SIP_TO, ue_callee u)]"

definition ue_200_ok :: "UeSimulator \<Rightarrow> string \<Rightarrow> UeSimulator \<times> bytes list" where
  "ue_200_ok u reason =
     (if reason = ''REGISTER'' then (u\<lparr> ue_state := REGISTERED \<rparr>, [])
      else if reason = ''INVITE'' \<or> reason = [] then ue_ack (u\<lparr> ue_state := IN_CALL \<rparr>)
      else if reason = ''re-INVITE-RESUME'' then (u\<lparr> ue_state := IN_CALL \<rparr>, [])
      else if reason = ''BYE'' then (u\<lparr> ue_state := REGISTERED \<rparr>, [])
      else (u, []))"

text \<open>Only a hold of the call in hand is a change of that call; any other INVITE rings.\<close>

definition ue_invite :: "UeSimulator \<Rightarrow> string \<Rightarrow> string \<Rightarrow> string \<Rightarrow> UeSimulator" where
  "ue_invite u from cid sdp =
     (let hold = has_text sdp ''sendonly'' \<or> has_text sdp ''inactive'';
          again = current_call_id u \<noteq> [] \<and> cid = current_call_id u
      in if hold \<and> again then u
         else u\<lparr> current_call_id := (if cid = [] then current_call_id u else cid),
                 ue_caller := (if from = [] then ue_caller u else from), ue_state := RINGING \<rparr>)"

definition handleIncoming :: "UeSimulator \<Rightarrow> bytes \<Rightarrow> (UeSimulator \<times> bytes list) outcome" where
  "handleIncoming u p =
     from_read (sip_fields [SIP_FROM, SIP_TO, SIP_CALL_ID, SIP_REASON, SIP_SDP] p) (\<lambda>fs.
       let ty = msg_type_of p
       in if ty = SIP_200_OK then Done (ue_200_ok u (text_of fs SIP_REASON))
          else if ty = SIP_INVITE then
            Done (ue_invite u (text_of fs SIP_FROM) (text_of fs SIP_CALL_ID) (text_of fs SIP_SDP), [])
          else Done (u, []))"

end
