(* ===== verification/Ims_Net.thy ===== *)
theory Ims_Net
  imports Ims_Scscf Ims_Pcscf Ims_Ue
begin

text \<open>
  The IMS server and its phones (\<open>ims_server_main.cpp\<close>, \<open>ue_sim.cpp\<close>): every connection is a
  queue of payloads in each direction, the phones are named by their connection. A turn is
  one payload taken by one thread: the receive thread of a phone, the proxy's thread for a
  phone, the proxy's thread for the S-CSCF, the S-CSCF with the subscriber server behind it.
  A payload that \<open>recvFrame\<close> refuses (empty or over 65536 bytes) ends the reading of its queue.
\<close>

subsection \<open>State\<close>

record ims_net =
  n_ue :: "nat \<Rightarrow> UeSimulator"
  n_up :: "nat \<Rightarrow> bytes list"
  n_down :: "nat \<Rightarrow> bytes list"
  n_forget :: "nat \<Rightarrow> string option"
  n_pcscf :: pcscf_state
  to_scscf :: "bytes list"
  to_pcscf :: "bytes list"
  n_scscf :: scscf_state
  n_hss :: hss_node
  n_barred :: barring

datatype ims_turn = UeRx nat | UeThread nat | ScscfRx | ScscfTurn

definition frame_fits :: "bytes \<Rightarrow> bool" where
  "frame_fits p \<longleftrightarrow> 0 < length p \<and> length p \<le> 65536"

definition waiting :: "bytes list \<Rightarrow> bool" where
  "waiting q \<longleftrightarrow> (case q of [] \<Rightarrow> False | p # _ \<Rightarrow> frame_fits p)"

definition connected :: "ims_net \<Rightarrow> nat \<Rightarrow> bool" where
  "connected n i \<longleftrightarrow> i < length (ue_sessions (n_pcscf n))"

definition ims_enabled :: "ims_net \<Rightarrow> ims_turn \<Rightarrow> bool" where
  "ims_enabled n t = (case t of
      UeRx i \<Rightarrow> connected n i \<and> waiting (n_down n i)
    | UeThread i \<Rightarrow> connected n i \<and> (n_forget n i \<noteq> None \<or> waiting (n_up n i))
    | ScscfRx \<Rightarrow> waiting (to_pcscf n)
    | ScscfTurn \<Rightarrow> waiting (to_scscf n))"

subsection \<open>Turns\<close>

definition deliver :: "(nat \<times> bytes) list \<Rightarrow> (nat \<Rightarrow> bytes list) \<Rightarrow> nat \<Rightarrow> bytes list" where
  "deliver out q i = q i @ map snd (filter (\<lambda>d. fst d = i) out)"

text \<open>The subscriber server answers the request of a registration at once.\<close>

definition hss_answer :: "hss_node \<Rightarrow> bytes \<Rightarrow> bytes option" where
  "hss_answer h sar = (case cx_receive h sar of Done (_, [a]) \<Rightarrow> Some a | _ \<Rightarrow> None)"

definition hss_after :: "hss_node \<Rightarrow> scscf_state \<Rightarrow> bytes \<Rightarrow> hss_node" where
  "hss_after h s p =
     (if msg_type_of p = SIP_REGISTER then
        (case register_request s p of
           Done (_, _, sar) \<Rightarrow> (case cx_receive h sar of Done (h', _) \<Rightarrow> h' | _ \<Rightarrow> h)
         | _ \<Rightarrow> h)
      else h)"

definition ims_step :: "ims_net \<Rightarrow> ims_turn \<Rightarrow> ims_net outcome" where
  "ims_step n t =
     (if \<not> ims_enabled n t then Done n
      else case t of
        UeRx i \<Rightarrow>
          (case handleIncoming (n_ue n i) (hd (n_down n i)) of Overread \<Rightarrow> Overread | Blocked \<Rightarrow> Blocked
           | Done (u, out) \<Rightarrow> Done (n\<lparr> n_ue := (n_ue n)(i := u), n_down := (n_down n)(i := tl (n_down n i)),
                                     n_up := (n_up n)(i := n_up n i @ out) \<rparr>))
      | UeThread i \<Rightarrow>
          (case n_forget n i of
             Some cid \<Rightarrow> Done (n\<lparr> n_pcscf := forget_call (n_pcscf n) cid, n_forget := (n_forget n)(i := None) \<rparr>)
           | None \<Rightarrow>
               (case handleFromUe (n_pcscf n) i (hd (n_up n i)) of Overread \<Rightarrow> Overread | Blocked \<Rightarrow> Blocked
                | Done (s, out, fgt) \<Rightarrow>
                    Done (n\<lparr> n_pcscf := s, n_up := (n_up n)(i := tl (n_up n i)),
                            to_scscf := to_scscf n @ out, n_forget := (n_forget n)(i := fgt) \<rparr>)))
      | ScscfRx \<Rightarrow>
          (case handleFromScscf (n_pcscf n) (hd (to_pcscf n)) of Overread \<Rightarrow> Overread | Blocked \<Rightarrow> Blocked
           | Done (s, out) \<Rightarrow>
               Done (n\<lparr> n_pcscf := s, to_pcscf := tl (to_pcscf n), n_down := deliver out (n_down n) \<rparr>))
      | ScscfTurn \<Rightarrow>
          (let p = hd (to_scscf n)
           in case scscf_receive (hss_answer (n_hss n)) (n_barred n) (n_scscf n) p of
                Overread \<Rightarrow> Overread | Blocked \<Rightarrow> Blocked
              | Done (s, out) \<Rightarrow>
                  Done (n\<lparr> n_scscf := s, n_hss := hss_after (n_hss n) (n_scscf n) p,
                          to_scscf := tl (to_scscf n), to_pcscf := to_pcscf n @ out \<rparr>)))"

abbreviation ims_run :: "ims_net \<Rightarrow> ims_turn list \<Rightarrow> ims_net outcome" where
  "ims_run \<equiv> run_turns ims_step"

text \<open>A line typed at the terminal of phone \<open>i\<close>, and at the server's.\<close>

definition ims_command :: "stray \<Rightarrow> ims_net \<Rightarrow> nat \<Rightarrow> string \<Rightarrow> ims_net" where
  "ims_command mem n i line =
     (let (u, out) = ue_command mem (n_ue n i) line
      in n\<lparr> n_ue := (n_ue n)(i := u), n_up := (n_up n)(i := n_up n i @ out) \<rparr>)"

definition impu_of_id :: "string \<Rightarrow> string" where
  "impu_of_id i = (if i = ''A'' then IMPU_A else if i = ''B'' then IMPU_B else IMPU_C)"

definition server_command :: "ims_net \<Rightarrow> string \<Rightarrow> ims_net" where
  "server_command n line =
     (if starts_with ''BARR '' line then
        n\<lparr> n_barred := setBarred (n_barred n) (impu_of_id (drop 5 line)) True \<rparr>
      else if starts_with ''UNBARR '' line then
        n\<lparr> n_barred := setBarred (n_barred n) (impu_of_id (drop 7 line)) False \<rparr>
      else n)"

text \<open>The server with its phones connected and nothing sent yet.\<close>

definition ims_init :: "(nat \<Rightarrow> UeConfig) \<Rightarrow> nat \<Rightarrow> ims_net" where
  "ims_init cs k = \<lparr> n_ue = (\<lambda>i. ue_init (cs i)), n_up = (\<lambda>i. []), n_down = (\<lambda>i. []), n_forget = (\<lambda>i. None),
     n_pcscf = (acceptUe ^^ k) pcscf_init, to_scscf = [], to_pcscf = [], n_scscf = scscf_init,
     n_hss = \<lparr> hss_seq = 1 \<rparr>, n_barred = {} \<rparr>"

end
