(* ===== verification/Ims_Schedule.thy ===== *)
theory Ims_Schedule
  imports Ims_Net
begin

text \<open>
  Which turns of the IMS commute. The proxy's threads share its tables, so in general the
  order of two payloads matters. While no phone has anything to send and nothing on the way
  makes a phone answer (\<open>calm\<close>), only the S-CSCF's payloads and the deliveries to the phones
  are left, and those commute: from a calm state every fair schedule ends alike.
\<close>

subsection \<open>Calm states\<close>

text \<open>A phone answers only the 200 OK of an INVITE.\<close>

definition answered :: "bytes \<Rightarrow> bool" where
  "answered p \<longleftrightarrow> msg_type_of p = SIP_200_OK \<and>
     (case sip_fields [SIP_FROM, SIP_TO, SIP_CALL_ID, SIP_REASON, SIP_SDP] p of None \<Rightarrow> False
      | Some fs \<Rightarrow> text_of fs SIP_REASON \<in> {''INVITE'', []})"

definition calm :: "ims_net \<Rightarrow> bool" where
  "calm n \<longleftrightarrow> (\<forall>i. n_up n i = [] \<and> n_forget n i = None) \<and> to_scscf n = []
     \<and> (\<forall>p\<in>set (to_pcscf n). \<not> answered p) \<and> (\<forall>i. \<forall>p\<in>set (n_down n i). \<not> answered p)"

lemma waiting_Nil [simp]: "\<not> waiting []"
  by (simp add: waiting_def)

lemma waiting_Cons [simp]: "waiting (p # q) \<longleftrightarrow> frame_fits p"
  by (simp add: waiting_def)

lemma waiting_split: "waiting q \<Longrightarrow> \<exists>p r. q = p # r \<and> frame_fits p"
  by (cases q) auto

lemma waiting_append [simp]: "waiting q \<Longrightarrow> waiting (q @ r)"
  by (cases q) auto

lemma waiting_hd_append [simp]: "waiting q \<Longrightarrow> hd (q @ r) = hd q \<and> tl (q @ r) = tl q @ r"
  by (cases q) auto

lemma deliver_simps [simp]:
  "deliver [] q = q" "deliver ((i, p) # out) q = deliver out (q(i := q i @ [p]))"
  by (auto simp: deliver_def fun_eq_iff)

lemma set_deliver: "p \<in> set (deliver out q i) \<longleftrightarrow> p \<in> set (q i) \<or> (i, p) \<in> set out"
  by (auto simp: deliver_def image_iff)

lemma deliver_waiting [simp]: "waiting (q i) \<Longrightarrow> waiting (deliver out q i)"
  by (simp add: deliver_def)

lemma deliver_hd: "waiting (q i) \<Longrightarrow> hd (deliver out q i) = hd (q i)"
  by (simp add: deliver_def)

lemma deliver_tl: "waiting (q i) \<Longrightarrow> deliver out (q(i := tl (q i))) = (deliver out q)(i := tl (deliver out q i))"
  by (auto simp: deliver_def fun_eq_iff)

lemma silent_phone:
  "\<lbrakk> \<not> answered p; handleIncoming u p = Done (u', out) \<rbrakk> \<Longrightarrow> out = []"
  by (auto simp: handleIncoming_def from_read_def answered_def ue_200_ok_def Let_def split: option.splits if_splits)

lemma ring_silent: "\<not> answered (sip_message SIP_180_RINGING q fs)"
  by (simp add: answered_def)

lemma scscf_delivers:
  assumes "handleFromScscf s p = Done (s', out)" "(i, m) \<in> set out"
  shows "m = p \<or> (\<exists>q fs. m = sip_message SIP_180_RINGING q fs)"
  using assms
  by (clarsimp simp: handleFromScscf_def from_read_def deliver_invite_def deliver_ok_def ringing_def send_known_def
      sendToUe_def Let_def split: option.splits if_splits; blast)

lemma sessions_kept: "handleFromScscf s p = Done (s', out) \<Longrightarrow> length (ue_sessions s') = length (ue_sessions s)"
  by (auto simp: handleFromScscf_def from_read_def deliver_invite_def deliver_ok_def ringing_def note_delivery_def
      mark_registered_def Let_def split: option.splits if_splits)

subsection \<open>The interface\<close>

lemma ims_idle_step: "\<not> ims_enabled n t \<Longrightarrow> ims_step n t = Done n"
  by (simp add: ims_step_def)

lemma calm_enabled: "\<lbrakk> calm n; ims_enabled n t \<rbrakk> \<Longrightarrow> (\<exists>i. t = UeRx i) \<or> t = ScscfRx"
  by (auto simp: calm_def ims_enabled_def waiting_def split: ims_turn.splits)

lemma step_UeRx:
  assumes "ims_enabled n (UeRx i)" "calm n"
  shows "ims_step n (UeRx i) = Done n' \<longleftrightarrow>
     (\<exists>u. handleIncoming (n_ue n i) (hd (n_down n i)) = Done (u, [])
       \<and> n' = n\<lparr> n_ue := (n_ue n)(i := u), n_down := (n_down n)(i := tl (n_down n i)) \<rparr>)"
proof -
  have "hd (n_down n i) \<in> set (n_down n i)"
    using assms(1) by (auto simp: ims_enabled_def dest: waiting_split)
  then have "\<not> answered (hd (n_down n i))" using assms(2) by (auto simp: calm_def)
  from silent_phone [OF this, of "n_ue n i"]
  have "handleIncoming (n_ue n i) (hd (n_down n i)) = Done (u, out) \<Longrightarrow> out = []" for u out by blast
  moreover have "n\<lparr> n_ue := a, n_down := b, n_up := (n_up n)(i := n_up n i @ []) \<rparr> = n\<lparr> n_ue := a, n_down := b \<rparr>" for a b
    by (cases n) simp
  ultimately show ?thesis
    using assms by (fastforce simp: ims_step_def split: outcome.splits)
qed

lemma step_ScscfRx:
  assumes "ims_enabled n ScscfRx"
  shows "ims_step n ScscfRx = Done n' \<longleftrightarrow>
     (\<exists>s out. handleFromScscf (n_pcscf n) (hd (to_pcscf n)) = Done (s, out)
       \<and> n' = n\<lparr> n_pcscf := s, to_pcscf := tl (to_pcscf n), n_down := deliver out (n_down n) \<rparr>)"
  using assms by (auto simp: ims_step_def split: outcome.splits)

lemma calm_step:
  assumes "calm n" "ims_step n t = Done n'"
  shows "calm n'"
proof (cases "ims_enabled n t")
  case False
  with assms ims_idle_step show ?thesis by simp
next
  case True
  from calm_enabled [OF assms(1) True] show ?thesis
  proof
    assume "\<exists>i. t = UeRx i"
    then obtain i where t: "t = UeRx i" by blast
    have "waiting (n_down n i)" using True t by (simp add: ims_enabled_def)
    then have "set (tl (n_down n i)) \<subseteq> set (n_down n i)" by (auto dest: waiting_split)
    then have down: "\<forall>j. \<forall>p\<in>set (((n_down n)(i := tl (n_down n i))) j). \<not> answered p"
      using assms(1) by (auto simp: calm_def)
    from assms True t obtain u where "n' = n\<lparr> n_ue := u, n_down := (n_down n)(i := tl (n_down n i)) \<rparr>"
      by (auto simp: step_UeRx)
    with assms(1) down show ?thesis by (simp add: calm_def)
  next
    assume t: "t = ScscfRx"
    with True obtain p r where q: "to_pcscf n = p # r" by (auto simp: ims_enabled_def dest: waiting_split)
    from assms(2) True t obtain s out where
      s: "handleFromScscf (n_pcscf n) p = Done (s, out)"
      "n' = n\<lparr> n_pcscf := s, to_pcscf := r, n_down := deliver out (n_down n) \<rparr>"
      by (auto simp: step_ScscfRx q)
    have "\<not> answered m" if "(i, m) \<in> set out" for i m
      using scscf_delivers [OF s(1) that] assms(1) q ring_silent by (auto simp: calm_def)
    with assms(1) s(2) q show ?thesis by (auto simp: calm_def set_deliver)
  qed
qed

lemma calm_stays:
  assumes "calm n" "t \<noteq> t'" "ims_enabled n t" "ims_enabled n t'" "ims_step n t' = Done n'"
  shows "ims_enabled n' t"
  using calm_enabled [OF assms(1,3)] calm_enabled [OF assms(1,4)] assms
  by (fastforce simp: step_UeRx step_ScscfRx ims_enabled_def connected_def sessions_kept split: if_splits)

lemma calm_commute:
  assumes "calm n" "t \<noteq> t'" "ims_enabled n t" "ims_enabled n t'" "ims_step n t' = Done n1" "ims_step n1 t = Done u"
  shows "\<exists>n'. ims_step n t = Done n' \<and> ims_step n' t' = Done u"
proof -
  have c1: "calm n1" and e1: "ims_enabled n1 t"
    using calm_step calm_stays assms by blast+
  have other: "ims_enabled n' t'" "calm n'" if "ims_step n t = Done n'" for n'
    using calm_stays [OF assms(1) _ assms(4,3) that] calm_step [OF assms(1) that] assms(2) by auto
  consider i j where "t = UeRx i" "t' = UeRx j" "i \<noteq> j" | i where "t = UeRx i" "t' = ScscfRx"
    | j where "t = ScscfRx" "t' = UeRx j"
    using calm_enabled [OF assms(1,3)] calm_enabled [OF assms(1,4)] assms(2) by blast
  then show ?thesis
  proof cases
    case (1 i j)
    then show ?thesis
      using assms c1 e1 other by (auto simp: step_UeRx fun_upd_twist)
  next
    case (2 i)
    have w: "waiting (n_down n i)" using assms(3) 2 by (simp add: ims_enabled_def)
    show ?thesis
      using 2 assms c1 e1 other w by (auto simp: step_UeRx step_ScscfRx deliver_hd deliver_tl)
  next
    case (3 j)
    have w: "waiting (n_down n j)" using assms(4) 3 by (simp add: ims_enabled_def)
    show ?thesis
      using 3 assms c1 e1 other w by (auto simp: step_UeRx step_ScscfRx deliver_hd deliver_tl)
  qed
qed

interpretation ims: turn_system ims_step ims_enabled calm
  by unfold_locales (fact ims_idle_step calm_step calm_stays calm_commute)+

abbreviation ims_path :: "ims_turn set \<Rightarrow> nat \<Rightarrow> ims_net \<Rightarrow> ims_net \<Rightarrow> bool" where
  "ims_path \<equiv> turn_path ims_step ims_enabled"

end
