(* ===== verification/Ims_Flow.thy ===== *)
theory Ims_Flow
  imports Ims_Schedule
begin

text \<open>
  Procedures of the IMS as paths of turns: rules for a state with one payload on the way,
  where only one turn is possible, and for calm states; then the registration, the call and
  its changes, on the messages that the nodes really exchange.
\<close>

subsection \<open>States with one payload on the way\<close>

definition ims_quiet :: "ims_net \<Rightarrow> bool" where
  "ims_quiet n \<longleftrightarrow> (\<forall>i. n_up n i = [] \<and> n_down n i = [] \<and> n_forget n i = None) \<and> to_scscf n = [] \<and> to_pcscf n = []"

definition from_ue :: "ims_net \<Rightarrow> nat \<Rightarrow> bytes \<Rightarrow> ims_net" where
  "from_ue n i p = n\<lparr> n_up := (n_up n)(i := [p]) \<rparr>"

definition at_ue :: "ims_net \<Rightarrow> nat \<Rightarrow> bytes \<Rightarrow> ims_net" where
  "at_ue n i p = n\<lparr> n_down := (n_down n)(i := [p]) \<rparr>"

lemma ims_quiet_idle: "ims_quiet n \<Longrightarrow> idle ims_enabled n"
  by (auto simp: ims_quiet_def idle_def ims_enabled_def split: ims_turn.splits)

lemma quiet_queues:
  assumes "ims_quiet n"
  shows "n_up n i = []" "n_down n i = []" "n_forget n i = None" "to_scscf n = []" "to_pcscf n = []"
  using assms by (simp_all add: ims_quiet_def)

lemma quiet_upd [simp]:
  "ims_quiet (n\<lparr> n_ue := u \<rparr>) = ims_quiet n" "ims_quiet (n\<lparr> n_pcscf := s \<rparr>) = ims_quiet n"
  "ims_quiet (n\<lparr> n_scscf := c \<rparr>) = ims_quiet n" "ims_quiet (n\<lparr> n_hss := h \<rparr>) = ims_quiet n"
  by (simp_all add: ims_quiet_def)

text \<open>A path together with the reason why every fair schedule follows it.\<close>

definition leads :: "ims_turn set \<Rightarrow> nat \<Rightarrow> ims_net \<Rightarrow> ims_net \<Rightarrow> bool" where
  "leads T k n f \<longleftrightarrow> ims_path T k n f \<and> orderly ims_step ims_enabled calm n"

lemma leads_fair:
  assumes "leads T k n f" "ims_quiet f" "k \<le> length rounds" "\<forall>r\<in>set rounds. T \<subseteq> set r"
  shows "ims_run n (concat rounds) = Done f"
  using ims.fair_run [OF _ _ ims_quiet_idle] assms by (auto simp: leads_def)

lemma leads_one:
  assumes "t \<in> T" "ims_enabled n t" "\<And>u. ims_enabled n u \<Longrightarrow> u = t" "ims_step n t = Done n'" "leads T k n' f"
  shows "leads T (Suc k) n f"
  using assms(5) path_step [where turn = ims_step and enabled = ims_enabled, OF assms(1,2,4)]
    one_turn [where turn = ims_step and enabled = ims_enabled and region = calm, OF assms(3,4)]
  unfolding leads_def by blast

lemma leads_calm: "\<lbrakk> calm n; ims_path T k n f \<rbrakk> \<Longrightarrow> leads T k n f"
  by (simp add: leads_def in_region)

lemma leads_end: "ims_quiet n \<Longrightarrow> leads T 0 n n"
  by (rule leads_calm) (simp_all add: calm_def path_nil quiet_queues)

lemma quiet_upds:
  assumes "ims_quiet n"
  shows "(n_up n)(i := []) = n_up n" "(n_down n)(i := []) = n_down n" "(n_forget n)(i := None) = n_forget n"
    "n\<lparr> n_up := n_up n \<rparr> = n" "n\<lparr> n_down := n_down n \<rparr> = n" "n\<lparr> n_forget := n_forget n \<rparr> = n"
    "n\<lparr> to_scscf := [] \<rparr> = n" "n\<lparr> to_pcscf := [] \<rparr> = n"
  using assms by (simp_all add: ims_quiet_def fun_upd_idem)

lemma leads_from_ue:
  assumes "ims_quiet n" "connected n i" "frame_fits p" "UeThread i \<in> T"
    and "handleFromUe (n_pcscf n) i p = Done (s, [p], None)"
    and "leads T k (n\<lparr> n_pcscf := s, to_scscf := [p] \<rparr>) f"
  shows "leads T (Suc k) (from_ue n i p) f"
proof (rule leads_one [where t = "UeThread i"])
  note q = quiet_queues [OF assms(1)] quiet_upds [OF assms(1)]
  show "ims_step (from_ue n i p) (UeThread i) = Done (n\<lparr> n_pcscf := s, to_scscf := [p] \<rparr>)"
    using assms(2-5) by (simp add: ims_step_def ims_enabled_def connected_def from_ue_def q)
qed (use assms quiet_queues [OF assms(1)] in \<open>auto simp: ims_enabled_def connected_def from_ue_def split: ims_turn.splits if_splits\<close>)

lemma leads_scscf:
  assumes "ims_quiet n" "frame_fits p" "ScscfTurn \<in> T"
    and "scscf_receive (hss_answer (n_hss n)) (n_barred n) (n_scscf n) p = Done (s, out)"
    and "leads T k (n\<lparr> n_scscf := s, n_hss := hss_after (n_hss n) (n_scscf n) p, to_pcscf := out \<rparr>) f"
  shows "leads T (Suc k) (n\<lparr> to_scscf := [p] \<rparr>) f"
proof (rule leads_one [where t = ScscfTurn])
  note q = quiet_queues [OF assms(1)] quiet_upds [OF assms(1)]
  show "ims_step (n\<lparr> to_scscf := [p] \<rparr>) ScscfTurn
      = Done (n\<lparr> n_scscf := s, n_hss := hss_after (n_hss n) (n_scscf n) p, to_pcscf := out \<rparr>)"
    using assms(2-4) by (simp add: ims_step_def ims_enabled_def q)
qed (use assms quiet_queues [OF assms(1)] in \<open>auto simp: ims_enabled_def connected_def split: ims_turn.splits if_splits\<close>)

lemma leads_rx:
  assumes "ims_quiet n" "frame_fits p" "ScscfRx \<in> T"
    and "handleFromScscf (n_pcscf n) p = Done (s, [(i, m)])"
    and "leads T k (at_ue (n\<lparr> n_pcscf := s \<rparr>) i m) f"
  shows "leads T (Suc k) (n\<lparr> to_pcscf := [p] \<rparr>) f"
proof (rule leads_one [where t = ScscfRx])
  note q = quiet_queues [OF assms(1)] quiet_upds [OF assms(1)]
  show "ims_step (n\<lparr> to_pcscf := [p] \<rparr>) ScscfRx = Done (at_ue (n\<lparr> n_pcscf := s \<rparr>) i m)"
    using assms(2-4) by (simp add: ims_step_def ims_enabled_def at_ue_def q)
qed (use assms quiet_queues [OF assms(1)] in \<open>auto simp: ims_enabled_def connected_def split: ims_turn.splits if_splits\<close>)

lemma leads_at_ue:
  assumes "ims_quiet n" "connected n i" "frame_fits p" "UeRx i \<in> T"
    and "handleIncoming (n_ue n i) p = Done (u, out)"
    and "leads T k (n\<lparr> n_ue := (n_ue n)(i := u), n_up := (n_up n)(i := out) \<rparr>) f"
  shows "leads T (Suc k) (at_ue n i p) f"
proof (rule leads_one [where t = "UeRx i"])
  note q = quiet_queues [OF assms(1)] quiet_upds [OF assms(1)]
  show "ims_step (at_ue n i p) (UeRx i) = Done (n\<lparr> n_ue := (n_ue n)(i := u), n_up := (n_up n)(i := out) \<rparr>)"
    using assms(2-5) by (simp add: ims_step_def ims_enabled_def connected_def at_ue_def q)
qed (use assms quiet_queues [OF assms(1)] in \<open>auto simp: ims_enabled_def connected_def at_ue_def split: ims_turn.splits if_splits\<close>)

subsection \<open>Sizes\<close>

lemma length_sip_message:
  "texts_ok fs \<Longrightarrow> length (sip_message ty seq fs) = 8 + sum_list (map (\<lambda>f. 4 + length (snd f)) fs)"
proof -
  assume "texts_ok fs"
  then have "length (write_elements (sip_elements fs)) = sum_list (map (\<lambda>f. 4 + length (snd f)) fs)"
    by (induction fs) (auto simp: write_elements_def sip_elements_def write_element_split value_ok_def text_ok_def
        tlv_head_def le16_def simp del: write_element.simps)
  then show ?thesis by (simp add: sip_message_def message_def le16_def le32_def)
qed

lemma fits_sip_message:
  "\<lbrakk> texts_ok fs; sum_list (map (\<lambda>f. 4 + length (snd f)) fs) \<le> 65528 \<rbrakk> \<Longrightarrow> frame_fits (sip_message ty seq fs)"
  by (simp add: frame_fits_def length_sip_message)

text \<open>Identities and addresses short enough for every message that carries them.\<close>

definition ue_cfg_ok :: "UeConfig \<Rightarrow> bool" where
  "ue_cfg_ok c \<longleftrightarrow> ue_impu c \<noteq> [] \<and> length (ue_impu c) \<le> 1000 \<and> length (ue_impi c) \<le> 1000 \<and> length (ue_ip c) \<le> 1000
     \<and> length (json_num (rtp_port c)) \<le> 20 \<and> length (json_num (rtp_port c + 2)) \<le> 20"

lemma UE_CONFIGS_ok: "UE_CONFIGS x = Some c \<Longrightarrow> ue_cfg_ok c"
proof -
  have "list_all (\<lambda>n. length (json_num n) \<le> 20) [50000, 50002, 60000, 60002, 70000, 70002]"
    by code_simp
  then show "UE_CONFIGS x = Some c \<Longrightarrow> ue_cfg_ok c"
    by (auto simp: UE_CONFIGS_def ue_cfg_ok_def IMPU_A_def IMPU_B_def IMPU_C_def IMS_DOMAIN_def IP_UE_A_def IP_UE_B_def
        IP_UE_C_def split: if_splits)
qed

subsection \<open>Registration\<close>

definition register_fields :: "UeConfig \<Rightarrow> (u16 \<times> string) list" where
  "register_fields c = [(SIP_FROM, ue_impu c), (SIP_IMPU, ue_impu c), (SIP_IMPI, ue_impi c), (SIP_CONTACT, contact_of c)]"

lemma register_texts: "ue_cfg_ok c \<Longrightarrow> texts_ok (register_fields c)"
  by (simp add: register_fields_def ue_cfg_ok_def text_ok_def contact_of_def)

lemma register_fits: "ue_cfg_ok c \<Longrightarrow> frame_fits (sip_message ty q (register_fields c))"
  by (rule fits_sip_message [OF register_texts]) (auto simp: register_fields_def ue_cfg_ok_def contact_of_def)

definition subscriber :: "UeConfig \<Rightarrow> ImsSubscriber" where
  "subscriber c = \<lparr> sub_impu = ue_impu c, sub_impi = ue_impi c, sub_contact = contact_of c, sub_scscf_name = [], sub_registered = True \<rparr>"

definition registered_ok :: "u32 \<Rightarrow> string \<Rightarrow> bytes" where
  "registered_ok q impu = sip_message SIP_200_OK q (sip_response_fields (''reg-'' @ impu) impu impu ''REGISTER'')"

lemma register_at_pcscf:
  assumes "ue_cfg_ok c"
  shows "handleFromUe s i (sip_message SIP_REGISTER q (register_fields c))
     = Done (note_register s i (ue_impu c) (contact_of c), [sip_message SIP_REGISTER q (register_fields c)], None)"
  using register_texts [OF assms]
  by (simp add: handleFromUe_def sip_fields_written) (simp add: register_fields_def text_of_def)

lemma sar_answered:
  assumes "text_ok a" "text_ok b"
  shows "\<exists>h' q'. cx_receive h (sip_message DIA_CX_SAR q [(CX_IMPU, a), (CX_IMPI, b)])
     = Done (h', [sip_message DIA_CX_SAA q' [(CX_SCSCF_NAME, hss_profile)]])"
  using assms by (auto simp: cx_receive_def handleSAR_def sip_fields_written)

lemma hss_profile_ok [simp]: "text_ok hss_profile"
  by (simp add: text_ok_def hss_profile_def)

lemma register_at_scscf:
  assumes "ue_cfg_ok c"
  shows "\<exists>s'. scscf_receive (hss_answer h) b s (sip_message SIP_REGISTER q (register_fields c))
       = Done (s', [registered_ok (scscf_seq s + 1) (ue_impu c)])
     \<and> registrar s' = (registrar s)(ue_impu c \<mapsto> subscriber c) \<and> calls s' = calls s"
proof -
  have t: "text_ok (ue_impu c)" "text_ok (ue_impi c)" using assms by (auto simp: ue_cfg_ok_def text_ok_def)
  from sar_answered [OF this] obtain q' where
    "hss_answer h (sip_message DIA_CX_SAR (scscf_seq s) [(CX_IMPU, ue_impu c), (CX_IMPI, ue_impi c)])
      = Some (sip_message DIA_CX_SAA q' [(CX_SCSCF_NAME, hss_profile)])"
    by (metis (no_types, lifting) hss_answer_def outcome.case(1) list.case prod.case)
  then show ?thesis
    using register_texts [OF assms]
    by (simp add: scscf_receive_def handleRegister_def register_request_def sip_fields_written waitCxSAA_def)
      (simp add: register_fields_def text_of_def sendCxSAR_def sip_fields_written sendSipResponse_def
        registered_ok_def sip_response_fields_def subscriber_def Let_def)
qed

lemma registered_texts:
  "ue_cfg_ok c \<Longrightarrow> texts_ok (sip_response_fields (''reg-'' @ ue_impu c) (ue_impu c) (ue_impu c) ''REGISTER'')"
  by (simp add: sip_response_fields_def ue_cfg_ok_def text_ok_def)

lemma registered_fits: "ue_cfg_ok c \<Longrightarrow> frame_fits (registered_ok q (ue_impu c))"
  unfolding registered_ok_def
  by (rule fits_sip_message [OF registered_texts]) (auto simp: sip_response_fields_def ue_cfg_ok_def)

lemma registered_at_pcscf:
  assumes "ue_cfg_ok c" "ue_by_impu s (ue_impu c) = Some i"
  shows "handleFromScscf s (registered_ok q (ue_impu c))
     = Done (mark_registered s (ue_impu c), [(i, registered_ok q (ue_impu c))])"
  using assms registered_texts [OF assms(1)]
  by (simp add: handleFromScscf_def registered_ok_def sip_fields_written)
    (simp add: sip_response_fields_def text_of_def deliver_ok_def or_else_def send_known_def ue_cfg_ok_def sendToUe_def
      mark_registered_def Let_def)

lemma registered_at_ue:
  assumes "ue_cfg_ok c"
  shows "handleIncoming u (registered_ok q (ue_impu c)) = Done (u\<lparr> ue_state := REGISTERED \<rparr>, [])"
  using registered_texts [OF assms]
  by (simp add: handleIncoming_def registered_ok_def sip_fields_written)
    (simp add: sip_response_fields_def text_of_def ue_200_ok_def)

lemma command_words:
  "next_word ''REG'' = (''REG'', [])" "next_word ''ACCEPT'' = (''ACCEPT'', [])" "next_word ''HOLD'' = (''HOLD'', [])"
  "next_word ''RESUME'' = (''RESUME'', [])" "next_word ''BYE'' = (''BYE'', [])" "next_word ''VIDEO'' = (''VIDEO'', [])"
  by code_simp+

lemma register_command:
  assumes "ims_quiet n" "ue_state (n_ue n i) \<noteq> IN_CALL"
  shows "ims_command mem n i ''REG''
     = from_ue (n\<lparr> n_ue := (n_ue n)(i := (n_ue n i)\<lparr> ue_state := REGISTERING, ue_seq := ue_seq (n_ue n i) + 1 \<rparr>) \<rparr>) i
         (sip_message SIP_REGISTER (ue_seq (n_ue n i)) (register_fields (cfg (n_ue n i))))"
  using assms
  by (simp add: ims_command_def ue_command_def command_words doRegister_def ue_send_def from_ue_def quiet_queues
      register_fields_def)

text \<open>A registration of phone \<open>i\<close> leaves every call as it is.\<close>

definition same_calls :: "ims_net \<Rightarrow> ims_net \<Rightarrow> nat \<Rightarrow> bool" where
  "same_calls n f i \<longleftrightarrow> calls (n_scscf f) = calls (n_scscf n) \<and> n_barred f = n_barred n
     \<and> invite_delivered (n_pcscf f) = invite_delivered (n_pcscf n)
     \<and> length (ue_sessions (n_pcscf f)) = length (ue_sessions (n_pcscf n))
     \<and> current_call_id (n_ue f i) = current_call_id (n_ue n i) \<and> ue_seq (n_ue f i) = ue_seq (n_ue n i) + 1"

lemma registration_leads:
  assumes "ims_quiet n" "connected n i" "ue_cfg_ok (cfg (n_ue n i))" "ue_state (n_ue n i) \<noteq> IN_CALL"
    and "{UeThread i, ScscfTurn, ScscfRx, UeRx i} \<subseteq> T"
  shows "\<exists>f c. c = cfg (n_ue n i) \<and> leads T 4 (ims_command mem n i ''REG'') f \<and> ims_quiet f
     \<and> cfg (n_ue f i) = c \<and> ue_state (n_ue f i) = REGISTERED
     \<and> ue_by_impu (n_pcscf f) = (ue_by_impu (n_pcscf n))(ue_impu c \<mapsto> i)
     \<and> ses_registered (ue_sessions (n_pcscf f) ! i)
     \<and> registrar (n_scscf f) = (registrar (n_scscf n))(ue_impu c \<mapsto> subscriber c)
     \<and> (\<forall>k. k \<noteq> i \<longrightarrow> n_ue f k = n_ue n k) \<and> same_calls n f i"
proof -
  let ?c = "cfg (n_ue n i)" and ?q = "ue_seq (n_ue n i)"
  let ?u = "(n_ue n i)\<lparr> ue_state := REGISTERING, ue_seq := ?q + 1 \<rparr>"
  let ?n = "n\<lparr> n_ue := (n_ue n)(i := ?u) \<rparr>" and ?p = "sip_message SIP_REGISTER ?q (register_fields ?c)"
  let ?s = "note_register (n_pcscf n) i (ue_impu ?c) (contact_of ?c)"
  let ?ok = "registered_ok (scscf_seq (n_scscf n) + 1) (ue_impu ?c)"
  obtain x where x: "scscf_receive (hss_answer (n_hss n)) (n_barred n) (n_scscf n) ?p = Done (x, [?ok])"
      "registrar x = (registrar (n_scscf n))(ue_impu ?c \<mapsto> subscriber ?c)" "calls x = calls (n_scscf n)"
    using register_at_scscf [OF assms(3)] by blast
  let ?h = "hss_after (n_hss n) (n_scscf n) ?p"
  let ?m = "?n\<lparr> n_pcscf := ?s, n_scscf := x, n_hss := ?h \<rparr>"
  let ?s' = "mark_registered ?s (ue_impu ?c)"
  let ?f = "?m\<lparr> n_pcscf := ?s', n_ue := (n_ue ?m)(i := ?u\<lparr> ue_state := REGISTERED \<rparr>) \<rparr>"
  have route: "ue_by_impu ?s (ue_impu ?c) = Some i" by (simp add: note_register_def)
  have conn: "connected m i" if "n_pcscf m = ?s'" for m
    using assms(2) route that by (simp add: connected_def mark_registered_def note_register_def)
  have f: "ims_quiet ?f" using assms(1) by simp
  have "leads T 1 (at_ue (?m\<lparr> n_pcscf := ?s' \<rparr>) i ?ok) ?f"
    using leads_end [OF f] assms(1,3,5) conn
    by (auto intro!: leads_at_ue registered_fits registered_at_ue conn simp: quiet_upds)
  then have "leads T 2 (?m\<lparr> to_pcscf := [?ok] \<rparr>) ?f"
    unfolding numeral_2_eq_2 One_nat_def
    using assms registered_at_pcscf [OF assms(3) route] by (intro leads_rx registered_fits) auto
  then have "leads T 3 (?n\<lparr> n_pcscf := ?s, to_scscf := [?p] \<rparr>) ?f"
    unfolding numeral_3_eq_3 numeral_2_eq_2
    using assms x by (intro leads_scscf [where s = x] register_fits) (auto simp: ac_simps)
  then have "leads T 4 (from_ue ?n i ?p) ?f"
    unfolding numeral_3_eq_3 eval_nat_numeral BitM.simps
    using assms register_at_pcscf [OF assms(3)] by (intro leads_from_ue register_fits) (auto simp: connected_def)
  moreover have "ses_registered (ue_sessions ?s' ! i)"
    using assms(2) route by (simp add: mark_registered_def connected_def note_register_def)
  ultimately show ?thesis
    using f x(2,3) route assms(1,4) by (intro exI [of _ ?f] exI [of _ ?c])
      (simp add: register_command mark_registered_def note_register_def same_calls_def)
qed

end
