(* ===== verification/Ims_Call.thy ===== *)
theory Ims_Call
  imports Ims_Flow
begin

text \<open>
  A call between two registered phones: its set-up, hold, resumption and a change to video,
  as paths that every fair schedule follows.
\<close>

subsection \<open>Deliveries in calm states\<close>

lemma path_rx:
  assumes "to_pcscf n = p # qs" "frame_fits p" "ScscfRx \<in> T" "handleFromScscf (n_pcscf n) p = Done (s, out)"
    and "ims_path T k (n\<lparr> n_pcscf := s, to_pcscf := qs, n_down := deliver out (n_down n) \<rparr>) f"
  shows "ims_path T (Suc k) n f"
  using assms by (intro path_step [where t = ScscfRx]) (auto simp: ims_enabled_def ims_step_def)

lemma path_ue:
  assumes "connected n i" "n_down n i = p # r" "frame_fits p" "UeRx i \<in> T"
    and "handleIncoming (n_ue n i) p = Done (u, [])"
    and "ims_path T k (n\<lparr> n_ue := (n_ue n)(i := u), n_down := (n_down n)(i := r), n_up := (n_up n)(i := n_up n i @ []) \<rparr>) f"
  shows "ims_path T (Suc k) n f"
  using assms by (intro path_step [where t = "UeRx i"]) (auto simp: ims_enabled_def ims_step_def)

text \<open>One payload of the S-CSCF, delivered to one phone or to two, that takes it in silence.\<close>

lemma connected_upd: "\<lbrakk> handleFromScscf (n_pcscf n) p = Done (n_pcscf m, out); connected n i \<rbrakk> \<Longrightarrow> connected m i"
  by (simp add: connected_def sessions_kept)

lemma path_single:
  assumes "ims_quiet n" "frame_fits p" "frame_fits m" "ScscfRx \<in> T" "UeRx i \<in> T" "connected n i"
    and h: "handleFromScscf (n_pcscf n) p = Done (s, [(i, m)])"
    and "handleIncoming (n_ue n i) m = Done (u, [])"
    and e: "m' = n\<lparr> n_pcscf := s, to_pcscf := qs, n_ue := (n_ue n)(i := u) \<rparr>" and "ims_path T k m' f"
  shows "ims_path T (Suc (Suc k)) (n\<lparr> to_pcscf := p # qs \<rparr>) f"
proof (rule path_rx)
  note q = quiet_queues [OF assms(1)] quiet_upds [OF assms(1)]
  show "ims_path T (Suc k) (n\<lparr> to_pcscf := p # qs, n_pcscf := s, to_pcscf := qs,
      n_down := deliver [(i, m)] (n_down (n\<lparr> to_pcscf := p # qs \<rparr>)) \<rparr>) f"
  proof (rule path_ue)
    show "connected (n\<lparr> to_pcscf := p # qs, n_pcscf := s, to_pcscf := qs,
        n_down := deliver [(i, m)] (n_down (n\<lparr> to_pcscf := p # qs \<rparr>)) \<rparr>) i"
      using connected_upd [of n p] h assms(6) by simp
  qed (use assms q in auto)
qed (use assms in auto)

lemma path_pair:
  assumes "ims_quiet n" "frame_fits p" "frame_fits a" "frame_fits b" "ScscfRx \<in> T" "UeRx i \<in> T" "UeRx j \<in> T"
    and "connected n i" "connected n j" "i \<noteq> j"
    and h: "handleFromScscf (n_pcscf n) p = Done (s, [(j, a), (i, b)])"
    and "handleIncoming (n_ue n j) a = Done (v, [])" "handleIncoming (n_ue n i) b = Done (u, [])"
    and e: "m' = n\<lparr> n_pcscf := s, to_pcscf := qs, n_ue := (n_ue n)(i := u, j := v) \<rparr>" and "ims_path T k m' f"
  shows "ims_path T (Suc (Suc (Suc k))) (n\<lparr> to_pcscf := p # qs \<rparr>) f"
proof (rule path_rx)
  note q = quiet_queues [OF assms(1)] quiet_upds [OF assms(1)]
  have c: "connected m i" "connected m j" if "n_pcscf m = s" for m
    using connected_upd [of n p m] h assms(8,9) that by auto
  show "ims_path T (Suc (Suc k)) (n\<lparr> to_pcscf := p # qs, n_pcscf := s, to_pcscf := qs,
      n_down := deliver [(j, a), (i, b)] (n_down (n\<lparr> to_pcscf := p # qs \<rparr>)) \<rparr>) f"
    by (rule path_ue [where i = j and p = a and r = "[]" and u = v],
        use assms q c in \<open>simp_all add: fun_upd_twist\<close>,
        rule path_ue [where i = i and p = b and r = "[]" and u = u],
        use assms q c in \<open>simp_all add: fun_upd_twist\<close>)
qed (use assms in auto)

subsection \<open>Handlers on written messages\<close>

definition only :: "u16 list \<Rightarrow> (u16 \<times> string) list \<Rightarrow> (u16 \<times> string) list" where
  "only ks fs = filter (\<lambda>f. fst f \<in> set ks) fs"

lemma sip_fields_only: "texts_ok fs \<Longrightarrow> sip_fields ks (sip_message ty q fs) = Some (only ks fs)"
  by (simp add: sip_fields_written only_def)

lemma text_of_only [simp]: "t \<in> set ks \<Longrightarrow> text_of (only ks fs) t = text_of fs t"
proof -
  assume t: "t \<in> set ks"
  have "map_of (filter (\<lambda>f. fst f \<in> set ks) gs) t = map_of gs t" for gs :: "(u16 \<times> string) list"
    using t by (induction gs) auto
  then show ?thesis by (simp add: text_of_def only_def rev_filter)
qed

lemma from_ue_written:
  assumes "texts_ok fs"
  shows "handleFromUe s i (sip_message ty q fs) =
     (let p = sip_message ty q fs; cid = text_of fs SIP_CALL_ID
      in if ty = SIP_REGISTER then Done (note_register s i (text_of fs SIP_IMPU) (text_of fs SIP_CONTACT), [p], None)
         else if ty = SIP_INVITE then
           Done (note_invite s cid (or_else (text_of fs SIP_FROM) (ses_impu (ue_sessions s ! i))) (text_of fs SIP_TO),
                 [p], None)
         else if ty = SIP_BYE then Done (s, [p], Some cid)
         else Done (s, [p], None))"
  using assms by (simp add: handleFromUe_def sip_fields_only Let_def)

lemma from_scscf_written:
  assumes "texts_ok fs"
  shows "handleFromScscf s (sip_message ty q fs) =
     (let p = sip_message ty q fs; from = text_of fs SIP_FROM; to = text_of fs SIP_TO; cid = text_of fs SIP_CALL_ID
      in if ty = SIP_INVITE then Done (deliver_invite s p cid from to)
         else if ty \<in> {SIP_100_TRYING, SIP_183_PROGRESS, SIP_180_RINGING} then
           Done (s, send_known s (or_else (caller_of s cid) from) p)
         else if ty = SIP_200_OK then Done (deliver_ok s p cid from to (text_of fs SIP_REASON))
         else if ty = SIP_ACK then Done (s, send_known s (or_else (callee_of s cid) to) p)
         else Done (s, send_known s (or_else (caller_of s cid) (or_else from to)) p))"
  using assms by (simp add: handleFromScscf_def sip_fields_only Let_def)

lemma at_ue_written:
  assumes "texts_ok fs"
  shows "handleIncoming u (sip_message ty q fs) =
     (if ty = SIP_200_OK then Done (ue_200_ok u (text_of fs SIP_REASON))
      else if ty = SIP_INVITE then
        Done (ue_invite u (text_of fs SIP_FROM) (text_of fs SIP_CALL_ID) (text_of fs SIP_SDP), [])
      else Done (u, []))"
  using assms by (simp add: handleIncoming_def sip_fields_only Let_def)

text \<open>Short texts: every message of a few of them is read as written and fits a frame.\<close>

definition shorts :: "(u16 \<times> string) list \<Rightarrow> bool" where
  "shorts fs \<longleftrightarrow> list_all (\<lambda>f. length (snd f) \<le> 2000) fs \<and> length fs \<le> 10"

lemma shorts_texts: "shorts fs \<Longrightarrow> texts_ok fs"
  by (auto simp: shorts_def texts_ok_def text_ok_def list_all_iff)

lemma shorts_fits: "shorts fs \<Longrightarrow> frame_fits (sip_message ty q fs)"
proof (rule fits_sip_message [OF shorts_texts])
  assume "shorts fs"
  then have "sum_list (map (\<lambda>f. 4 + length (snd f)) fs) \<le> length fs * 2004"
    unfolding shorts_def by (induction fs) auto
  moreover have "length fs * 2004 \<le> 10 * 2004" using \<open>shorts fs\<close> by (simp add: shorts_def)
  ultimately show "sum_list (map (\<lambda>f. 4 + length (snd f)) fs) \<le> 65528" by simp
qed

subsection \<open>Phones that can be reached and calls that stand\<close>

definition reachable_ue :: "ims_net \<Rightarrow> nat \<Rightarrow> bool" where
  "reachable_ue n i \<longleftrightarrow> connected n i \<and> ue_cfg_ok (cfg (n_ue n i)) \<and> ue_by_impu (n_pcscf n) (ue_impu (cfg (n_ue n i))) = Some i"

definition fresh_call :: "ims_net \<Rightarrow> string \<Rightarrow> bool" where
  "fresh_call n cid \<longleftrightarrow> cid \<noteq> [] \<and> length cid \<le> 1000 \<and> calls (n_scscf n) cid = None
     \<and> cid \<notin> invite_delivered (n_pcscf n) \<and> (\<forall>i. current_call_id (n_ue n i) \<noteq> cid)"

text \<open>Phone \<open>i\<close> calls or has called phone \<open>j\<close>, with the call in these states at the two phones.\<close>

definition dialog :: "ims_net \<Rightarrow> string \<Rightarrow> nat \<Rightarrow> nat \<Rightarrow> UeState \<Rightarrow> UeState \<Rightarrow> bool \<Rightarrow> bool" where
  "dialog n cid i j si sj held \<longleftrightarrow>
     ims_quiet n \<and> i \<noteq> j \<and> reachable_ue n i \<and> reachable_ue n j \<and> cid \<noteq> [] \<and> length cid \<le> 1000
     \<and> ue_state (n_ue n i) = si \<and> ue_state (n_ue n j) = sj
     \<and> current_call_id (n_ue n i) = cid \<and> current_call_id (n_ue n j) = cid
     \<and> ue_callee (n_ue n i) = ue_impu (cfg (n_ue n j)) \<and> ue_caller (n_ue n j) = ue_impu (cfg (n_ue n i))
     \<and> calls (n_scscf n) cid = Some \<lparr> caller_impu = ue_impu (cfg (n_ue n i)), callee_impu = ue_impu (cfg (n_ue n j)),
                                    cs_call_id = cid, on_hold = held, in_conference = False \<rparr>
     \<and> call_to_caller (n_pcscf n) cid = Some (ue_impu (cfg (n_ue n i)))
     \<and> call_to_callee (n_pcscf n) cid = Some (ue_impu (cfg (n_ue n j))) \<and> cid \<in> invite_delivered (n_pcscf n)"

subsection \<open>The INVITE\<close>

definition call_fields :: "UeSimulator \<Rightarrow> string \<Rightarrow> string \<Rightarrow> (u16 \<times> string) list" where
  "call_fields u impu cid = [(SIP_FROM, ue_impu (cfg u)), (SIP_TO, impu), (SIP_CALL_ID, cid),
     (SIP_SDP, audio u @ '',video:'' @ json_num (rtp_port (cfg u) + 2) @ ''/H264'')]"

lemma call_shorts:
  "\<lbrakk> ue_cfg_ok (cfg u); length impu \<le> 1000; length cid \<le> 1000 \<rbrakk> \<Longrightarrow> shorts (call_fields u impu cid)"
  by (auto simp: shorts_def call_fields_def ue_cfg_ok_def audio_def)

lemma response_shorts:
  "\<lbrakk> length cid \<le> 1000; length a \<le> 1000; length b \<le> 1000; length r \<le> 1000 \<rbrakk> \<Longrightarrow> shorts (sip_response_fields cid a b r)"
  by (simp add: shorts_def sip_response_fields_def)

lemma texts_of_messages [simp]:
  "text_of (sip_response_fields cid a b r) SIP_CALL_ID = cid" "text_of (sip_response_fields cid a b r) SIP_FROM = a"
  "text_of (sip_response_fields cid a b r) SIP_TO = b" "text_of (sip_response_fields cid a b r) SIP_REASON = r"
  "text_of (call_fields u b cid) SIP_CALL_ID = cid" "text_of (call_fields u b cid) SIP_FROM = ue_impu (cfg u)"
  "text_of (call_fields u b cid) SIP_TO = b"
  "text_of (in_dialog u b sdp) SIP_CALL_ID = current_call_id u" "text_of (in_dialog u b sdp) SIP_FROM = ue_impu (cfg u)"
  "text_of (in_dialog u b sdp) SIP_TO = b" "text_of (in_dialog u b sdp) SIP_SDP = sdp"
  by (simp_all add: sip_response_fields_def call_fields_def in_dialog_def)

lemma ringing_fields:
  "ringing s cid a b = (s\<lparr> pcscf_seq := pcscf_seq s + 1 \<rparr>,
     sip_message SIP_180_RINGING (pcscf_seq s) (sip_response_fields cid a b ''INVITE''))"
  by (simp add: ringing_def sip_response_fields_def)

lemma call_at_scscf:
  assumes "texts_ok (call_fields u b cid)" "calls s cid = None" "\<not> isBarred br b"
  shows "\<exists>s' q1 q2. scscf_receive cx br s (sip_message SIP_INVITE q (call_fields u b cid))
      = Done (s', [sip_message SIP_100_TRYING q1 (sip_response_fields cid (ue_impu (cfg u)) b ''INVITE''),
                   sip_message SIP_INVITE q (call_fields u b cid),
                   sip_message SIP_183_PROGRESS q2 (sip_response_fields cid (ue_impu (cfg u)) b ''INVITE'')])
    \<and> calls s' = (calls s)(cid \<mapsto> \<lparr> caller_impu = ue_impu (cfg u), callee_impu = b, cs_call_id = cid,
                                  on_hold = False, in_conference = False \<rparr>) \<and> registrar s' = registrar s"
  using assms
  by (simp add: scscf_receive_def handleInvite_def sip_fields_only Let_def)
    (auto simp: call_fields_def invokeMtas_def sendSipResponse_def set_call_def)

lemma call_words:
  assumes "ID_TO_IMPU t = Some x"
  shows "next_word (''CALL '' @ t) = (''CALL'', '' '' @ t)" "next_word ('' '' @ t) = (t, [])"
proof -
  have "list_all (\<lambda>t. next_word (''CALL '' @ t) = (''CALL'', '' '' @ t) \<and> next_word ('' '' @ t) = (t, [])) [''A'', ''B'', ''C'']"
    by code_simp
  then show "next_word (''CALL '' @ t) = (''CALL'', '' '' @ t)" "next_word ('' '' @ t) = (t, [])"
    using assms by (auto simp: ID_TO_IMPU_def split: if_splits)
qed

definition calling :: "UeSimulator \<Rightarrow> string \<Rightarrow> string \<Rightarrow> UeSimulator" where
  "calling u impu cid = u\<lparr> current_call_id := cid, ue_callee := impu, ue_state := CALLING, ue_seq := ue_seq u + 1 \<rparr>"

lemma call_line: "ID_TO_IMPU t = Some x \<Longrightarrow> ue_command mem u (''CALL '' @ t) = doCall mem u t"
  unfolding ue_command_def call_words by (simp del: append.simps add: call_words)

lemma call_command:
  assumes "ims_quiet n" "ue_state (n_ue n i) = REGISTERED" "ID_TO_IMPU t = Some impu"
    and "cid = new_call_id mem (n_ue n i) t"
  shows "ims_command mem n i (''CALL '' @ t)
     = from_ue (n\<lparr> n_ue := (n_ue n)(i := calling (n_ue n i) impu cid) \<rparr>) i
         (sip_message SIP_INVITE (ue_seq (n_ue n i)) (call_fields (n_ue n i) impu cid))"
  unfolding ims_command_def call_line [OF assms(3)]
  using assms by (simp add: doCall_def ue_send_def from_ue_def quiet_queues call_fields_def calling_def Let_def)

lemma reachable_upd:
  "\<lbrakk> reachable_ue n i; ue_by_impu (n_pcscf m) = ue_by_impu (n_pcscf n); cfg (n_ue m i) = cfg (n_ue n i);
     length (ue_sessions (n_pcscf m)) = length (ue_sessions (n_pcscf n)) \<rbrakk> \<Longrightarrow> reachable_ue m i"
  by (simp add: reachable_ue_def connected_def)

lemma reachable_facts:
  assumes "reachable_ue n i"
  shows "ue_cfg_ok (cfg (n_ue n i))" "connected n i" "ue_impu (cfg (n_ue n i)) \<noteq> []"
    "length (ue_impu (cfg (n_ue n i))) \<le> 1000" "ue_by_impu (n_pcscf n) (ue_impu (cfg (n_ue n i))) = Some i"
  using assms by (auto simp: reachable_ue_def ue_cfg_ok_def)

lemmas pcscf_simps = note_invite_def deliver_invite_def note_delivery_def ringing_fields sendToUe_def send_known_def
  or_else_def caller_of_def callee_of_def deliver_ok_def to_both_def Let_def

lemma call_leads:
  assumes n: "ims_quiet n" "i \<noteq> j" "reachable_ue n i" "reachable_ue n j" "ue_state (n_ue n i) = REGISTERED"
    and t: "ID_TO_IMPU t = Some (ue_impu (cfg (n_ue n j)))" "\<not> isBarred (n_barred n) (ue_impu (cfg (n_ue n j)))"
    and cid: "cid = new_call_id mem (n_ue n i) t" "fresh_call n cid"
    and T: "{UeThread i, ScscfTurn, ScscfRx, UeRx i, UeRx j} \<subseteq> T"
  shows "\<exists>f. leads T 9 (ims_command mem n i (''CALL '' @ t)) f \<and> dialog f cid i j CALLING RINGING False
     \<and> n_barred f = n_barred n"
proof -
  let ?u = "n_ue n i" and ?v = "n_ue n j"
  let ?a = "ue_impu (cfg ?u)" and ?b = "ue_impu (cfg ?v)" and ?q = "ue_seq (n_ue n i)"
  note ri = reachable_facts [OF n(3)] and rj = reachable_facts [OF n(4)]
  let ?fs = "call_fields ?u ?b cid"
  let ?p = "sip_message SIP_INVITE ?q ?fs"
  have sh: "shorts ?fs" using ri rj cid(2) by (auto intro!: call_shorts simp: fresh_call_def)
  let ?s = "note_invite (n_pcscf n) cid ?a ?b"
  let ?rf = "sip_response_fields cid ?a ?b ''INVITE''"
  have shr: "shorts ?rf" using ri rj cid(2) by (auto intro!: response_shorts simp: fresh_call_def)
  obtain x q1 q2 where x: "scscf_receive (hss_answer (n_hss n)) (n_barred n) (n_scscf n) ?p
      = Done (x, [sip_message SIP_100_TRYING q1 ?rf, ?p, sip_message SIP_183_PROGRESS q2 ?rf])"
      "calls x = (calls (n_scscf n))(cid \<mapsto> \<lparr> caller_impu = ?a, callee_impu = ?b, cs_call_id = cid,
                                         on_hold = False, in_conference = False \<rparr>)"
    using call_at_scscf [OF shorts_texts [OF sh] _ t(2)] cid(2) unfolding fresh_call_def by blast
  let ?n = "n\<lparr> n_ue := (n_ue n)(i := calling ?u ?b cid) \<rparr>"
  let ?m = "?n\<lparr> n_pcscf := ?s, n_scscf := x, n_hss := hss_after (n_hss n) (n_scscf n) ?p \<rparr>"
  let ?s' = "fst (deliver_invite ?s ?p cid ?a ?b)" and ?v' = "ue_invite ?v ?a cid (text_of ?fs SIP_SDP)"
  let ?f = "?m\<lparr> n_pcscf := ?s', n_ue := (n_ue ?m)(i := calling ?u ?b cid, j := ?v') \<rparr>"
  have v': "?v' = ?v\<lparr> current_call_id := cid, ue_caller := ?a, ue_state := RINGING \<rparr>"
    using cid(2) ri by (auto simp: ue_invite_def fresh_call_def)
  have q: "ims_quiet ?n" "ims_quiet ?m" "ims_quiet ?f" using n(1) by simp_all
  have conn: "connected m k" if "n_pcscf m = n_pcscf n \<or> n_pcscf m = ?s \<or> n_pcscf m = ?s'" "k \<in> {i, j}" for m k
    using ri rj that by (auto simp: connected_def pcscf_simps)
  have h1: "handleFromScscf ?s (sip_message SIP_100_TRYING q1 ?rf) = Done (?s, [(i, sip_message SIP_100_TRYING q1 ?rf)])"
    using ri by (simp add: from_scscf_written [OF shorts_texts [OF shr]] pcscf_simps)
  have h2: "handleFromScscf ?s ?p = Done (?s', [(j, ?p), (i, sip_message SIP_180_RINGING (pcscf_seq (n_pcscf n)) ?rf)])"
    using ri rj cid(2) by (simp add: from_scscf_written [OF shorts_texts [OF sh]] pcscf_simps fresh_call_def)
  have h3: "handleFromScscf ?s' (sip_message SIP_183_PROGRESS q2 ?rf) = Done (?s', [(i, sip_message SIP_183_PROGRESS q2 ?rf)])"
    using ri by (simp add: from_scscf_written [OF shorts_texts [OF shr]] pcscf_simps)
  have u: "handleIncoming w (sip_message SIP_100_TRYING q' ?rf) = Done (w, [])"
      "handleIncoming w (sip_message SIP_180_RINGING q' ?rf) = Done (w, [])"
      "handleIncoming w (sip_message SIP_183_PROGRESS q' ?rf) = Done (w, [])" for w q'
    by (auto simp: at_ue_written [OF shorts_texts [OF shr]])
  have v: "handleIncoming ?v ?p = Done (?v', [])"
    by (simp add: at_ue_written [OF shorts_texts [OF sh]])
  let ?q3 = "[sip_message SIP_183_PROGRESS q2 ?rf]"
  note fits = shorts_fits [OF shr] shorts_fits [OF sh]
  have "ims_path T 2 (?f\<lparr> to_pcscf := ?q3 \<rparr>) ?f"
    unfolding numeral_2_eq_2
    by (rule path_single [where i = i and s = ?s' and u = "calling ?u ?b cid" and m' = ?f])
      (use T conn q h3 u fits n(2) in \<open>auto simp: quiet_upds path_nil fun_upd_twist\<close>)
  then have "ims_path T 5 (?m\<lparr> to_pcscf := ?p # ?q3 \<rparr>) ?f"
    unfolding eval_nat_numeral BitM.simps
    by (rule path_pair [rotated -1, where i = i and j = j and s = ?s' and u = "calling ?u ?b cid" and v = ?v'])
      (use T conn h2 u v n(2) q fits in simp_all)
  then have "ims_path T 7 (?m\<lparr> to_pcscf := sip_message SIP_100_TRYING q1 ?rf # ?p # ?q3 \<rparr>) ?f"
    unfolding eval_nat_numeral BitM.simps
    by (rule path_single [rotated -1, where i = i and s = ?s and u = "calling ?u ?b cid"])
      (use T conn h1 u q fits in \<open>simp_all add: fun_upd_idem\<close>)
  then have "leads T 7 (?m\<lparr> to_pcscf := [sip_message SIP_100_TRYING q1 ?rf, ?p, sip_message SIP_183_PROGRESS q2 ?rf] \<rparr>) ?f"
    using q(2) by (intro leads_calm) (auto simp: calm_def quiet_queues answered_def)
  then have "leads T 8 (?n\<lparr> n_pcscf := ?s, to_scscf := [?p] \<rparr>) ?f"
    unfolding eval_nat_numeral BitM.simps
    by (intro leads_scscf [OF _ shorts_fits [OF sh]]) (use T x q in auto)
  then have "leads T 9 (from_ue ?n i ?p) ?f"
    unfolding eval_nat_numeral BitM.simps
    by (intro leads_from_ue [OF q(1) _ shorts_fits [OF sh]])
      (use T conn ri in \<open>auto simp: from_ue_written [OF shorts_texts [OF sh]] or_else_def\<close>)
  moreover have "dialog ?f cid i j CALLING RINGING False"
    using n cid(2) q(3) x(2) v' ri rj
    by (auto simp: dialog_def reachable_ue_def connected_def pcscf_simps calling_def fresh_call_def)
  ultimately show ?thesis
    unfolding call_command [OF n(1,5) t(1) cid(1)] by (intro exI [of _ ?f]) simp
qed

subsection \<open>The answer\<close>

text \<open>A payload that both servers pass on unchanged travels from one phone to the other in four turns.\<close>

lemma leads_relay:
  assumes n: "ims_quiet n" "connected n i" "connected n j" "frame_fits p" "msg_type_of p \<noteq> SIP_REGISTER"
    and T: "{UeThread i, ScscfTurn, ScscfRx, UeRx j} \<subseteq> T"
    and h: "handleFromUe (n_pcscf n) i p = Done (n_pcscf n, [p], None)"
      "scscf_receive (hss_answer (n_hss n)) (n_barred n) (n_scscf n) p = Done (n_scscf n, [p])"
      "handleFromScscf (n_pcscf n) p = Done (n_pcscf n, [(j, p)])"
      "handleIncoming (n_ue n j) p = Done (v, out)"
    and l: "leads T k (n\<lparr> n_ue := (n_ue n)(j := v), n_up := (n_up n)(j := out) \<rparr>) f"
  shows "leads T (k + 4) (from_ue n i p) f"
proof -
  have e: "n\<lparr> n_pcscf := n_pcscf n, to_scscf := x \<rparr> = n\<lparr> to_scscf := x \<rparr>"
    "n\<lparr> n_hss := hss_after (n_hss n) (n_scscf n) p, to_pcscf := x \<rparr> = n\<lparr> to_pcscf := x \<rparr>"
    "n\<lparr> n_scscf := n_scscf n, n_hss := h, to_pcscf := x \<rparr> = n\<lparr> n_hss := h, to_pcscf := x \<rparr>"
    "n\<lparr> n_pcscf := n_pcscf n \<rparr> = n" for x h
    using n(5) by (simp_all add: hss_after_def)
  have "leads T (k + 1) (at_ue n j p) f"
    using leads_at_ue [OF n(1,3,4) _ h(4) l] T by simp
  then have "leads T (k + 2) (n\<lparr> to_pcscf := [p] \<rparr>) f"
    using leads_rx [OF n(1,4) _ h(3), of T "k + 1" f] T by (simp add: e)
  then have "leads T (k + 3) (n\<lparr> to_scscf := [p] \<rparr>) f"
    using leads_scscf [OF n(1,4) _ h(2), of T "k + 2" f] T by (simp add: e numeral_3_eq_3)
  then show ?thesis
    using leads_from_ue [OF n(1,2,4) _ h(1), of T "k + 3" f] T by (simp add: e eval_nat_numeral)
qed

definition accept_fields :: "UeSimulator \<Rightarrow> (u16 \<times> string) list" where
  "accept_fields u = [(SIP_CALL_ID, current_call_id u), (SIP_REASON, ''INVITE''), (SIP_SDP, audio u @ ''/16000'')]"

definition ack_fields :: "UeSimulator \<Rightarrow> (u16 \<times> string) list" where
  "ack_fields u = [(SIP_CALL_ID, current_call_id u), (SIP_FROM, ue_impu (cfg u)), (SIP_TO, ue_callee u)]"

lemma dialog_facts:
  assumes "dialog n cid i j si sj held"
  shows "ims_quiet n" "i \<noteq> j" "ue_cfg_ok (cfg (n_ue n i))" "ue_cfg_ok (cfg (n_ue n j))" "connected n i" "connected n j"
    "current_call_id (n_ue n i) = cid" "current_call_id (n_ue n j) = cid" "cid \<noteq> []" "length cid \<le> 1000"
    "ue_callee (n_ue n i) = ue_impu (cfg (n_ue n j))" "caller_of (n_pcscf n) cid = ue_impu (cfg (n_ue n i))"
    "callee_of (n_pcscf n) cid = ue_impu (cfg (n_ue n j))"
    "\<And>x. send_known (n_pcscf n) (ue_impu (cfg (n_ue n i))) x = [(i, x)]"
    "\<And>x. send_known (n_pcscf n) (ue_impu (cfg (n_ue n j))) x = [(j, x)]"
    "calls (n_scscf n) cid = Some \<lparr> caller_impu = ue_impu (cfg (n_ue n i)), callee_impu = ue_impu (cfg (n_ue n j)),
                                    cs_call_id = cid, on_hold = held, in_conference = False \<rparr>"
    "ue_state (n_ue n i) = si" "ue_state (n_ue n j) = sj" "cid \<in> invite_delivered (n_pcscf n)"
    "ue_impu (cfg (n_ue n i)) \<noteq> []" "ue_impu (cfg (n_ue n j)) \<noteq> []"
    "length (ue_impu (cfg (n_ue n i))) \<le> 1000" "length (ue_impu (cfg (n_ue n j))) \<le> 1000"
  using assms by (auto simp: dialog_def reachable_ue_def ue_cfg_ok_def pcscf_simps)

lemma accept_command:
  assumes "ims_quiet n" "ue_state (n_ue n i) = RINGING"
  shows "ims_command mem n i ''ACCEPT''
     = from_ue (n\<lparr> n_ue := (n_ue n)(i := (n_ue n i)\<lparr> ue_state := IN_CALL, ue_seq := ue_seq (n_ue n i) + 1 \<rparr>) \<rparr>) i
         (sip_message SIP_200_OK (ue_seq (n_ue n i)) (accept_fields (n_ue n i)))"
  using assms
  by (simp add: ims_command_def ue_command_def command_words doAccept_def ue_send_def from_ue_def quiet_queues
      accept_fields_def audio_def)

lemma accept_leads:
  assumes d: "dialog n cid i j CALLING RINGING held" and T: "{UeThread i, UeThread j, ScscfTurn, ScscfRx, UeRx i, UeRx j} \<subseteq> T"
  shows "\<exists>f. leads T 8 (ims_command mem n j ''ACCEPT'') f \<and> dialog f cid i j IN_CALL IN_CALL held"
proof -
  note D = dialog_facts [OF d]
  let ?u = "n_ue n i" and ?v = "n_ue n j"
  let ?p = "sip_message SIP_200_OK (ue_seq ?v) (accept_fields ?v)"
  let ?n = "n\<lparr> n_ue := (n_ue n)(j := ?v\<lparr> ue_state := IN_CALL, ue_seq := ue_seq ?v + 1 \<rparr>) \<rparr>"
  let ?k = "sip_message SIP_ACK (ue_seq ?u) (ack_fields ?u)"
  let ?u' = "?u\<lparr> ue_state := IN_CALL, ue_seq := ue_seq ?u + 1 \<rparr>"
  let ?f = "?n\<lparr> n_ue := (n_ue ?n)(i := ?u') \<rparr>"
  have sh: "shorts (accept_fields ?v)" "shorts (ack_fields ?u)"
    using D(3,4,7,8,10,11) by (auto simp: shorts_def accept_fields_def ack_fields_def ue_cfg_ok_def audio_def)
  note t = shorts_texts [OF sh(1)] shorts_texts [OF sh(2)] and fits = shorts_fits [OF sh(1)] shorts_fits [OF sh(2)]
  have q: "ims_quiet ?n" "ims_quiet ?f" using D(1) by simp_all
  have conn: "connected m k" if "n_pcscf m = n_pcscf n" "k \<in> {i, j}" for m k
    using D(5,6) that by (auto simp: connected_def)
  have ack: "scscf_receive cx b (n_scscf n) ?k = Done (n_scscf n, [?k])" for cx b
    using D(7,16) by (simp add: scscf_receive_def handleAck_def first_text_written [OF t(2)]) (simp add: ack_fields_def)
  have to_caller: "handleFromScscf (n_pcscf n) ?p = Done (n_pcscf n, [(i, ?p)])"
    using D(8,12,14,20) by (simp add: from_scscf_written [OF t(1)] deliver_ok_def or_else_def to_both_def)
      (simp add: accept_fields_def or_else_def to_both_def Let_def)
  have to_callee: "handleFromScscf (n_pcscf n) ?k = Done (n_pcscf n, [(j, ?k)])"
    using D(7,13,15,21) by (simp add: from_scscf_written [OF t(2)] or_else_def) (simp add: ack_fields_def or_else_def Let_def)
  have answer: "handleIncoming ?u ?p = Done (?u', [?k])"
    by (simp add: at_ue_written [OF t(1)]) (simp add: accept_fields_def ack_fields_def ue_200_ok_def ue_ack_def ue_send_def)
  have "leads T (0 + 4) (from_ue ?f i ?k) ?f"
    by (rule leads_relay [where j = j and v = "n_ue ?n j" and out = "[]"])
      (use T q conn fits ack to_callee D(2) leads_end [OF q(2)] in
        \<open>auto simp: from_ue_written [OF t(2)] at_ue_written [OF t(2)] quiet_upds fun_upd_idem Let_def\<close>)
  then have "leads T (4 + 4) (from_ue ?n j ?p) ?f"
    by (intro leads_relay [where j = i and v = ?u' and out = "[?k]"])
      (use T q conn fits to_caller answer D(2) in \<open>auto simp: from_ue_written [OF t(1)] Let_def scscf_receive_def
        handle200Ok_def sip_fields_only [OF t(1)] from_ue_def\<close>)
  moreover have "dialog ?f cid i j IN_CALL IN_CALL held"
    using d q(2) by (auto simp: dialog_def reachable_ue_def connected_def)
  ultimately show ?thesis using accept_command [OF D(1,18)] by (intro exI [of _ ?f]) simp
qed

section \<open>Changes inside a call\<close>

text \<open>
  Changes inside a call: hold, resumption, video. What the media offers of the phone contain,
  what the S-CSCF makes of them, and the seven turns that bring the change to both phones.
\<close>

subsection \<open>Searching the media offers\<close>

lemma starts_with_mono: "starts_with p s \<Longrightarrow> starts_with p (s @ r)"
  by (auto simp: starts_with_iff)

lemma has_text_Cons: "has_text (c # s) p \<longleftrightarrow> starts_with p (c # s) \<or> has_text s p"
  by (auto simp: has_text_def)

lemma has_text_prepend: "has_text s p \<Longrightarrow> has_text (x @ s) p"
  by (induction x) (auto simp: has_text_Cons)

lemma has_text_skip: "\<lbrakk> p \<noteq> []; hd p \<notin> set d \<rbrakk> \<Longrightarrow> has_text (d @ s) p \<longleftrightarrow> has_text s p"
proof (induction d)
  case (Cons c d)
  then obtain b q where "p = b # q" "b \<noteq> c" by (cases p) auto
  with Cons show ?case by (simp add: has_text_Cons)
qed simp

lemma number_chars: "\<lbrakk> c \<noteq> CHR ''-''; \<not> is_digit c \<rbrakk> \<Longrightarrow> c \<notin> set (json_num n)"
  using nat_dec_digits by (auto simp: json_num_def split: if_splits)

lemma no_letter [simp]:
  "CHR ''i'' \<notin> set (json_num n)" "CHR ''s'' \<notin> set (json_num n)" "CHR ''c'' \<notin> set (json_num n)"
  "CHR ''v'' \<notin> set (json_num n)" "CHR ''p'' \<notin> set (json_num n)"
  by (rule number_chars; simp add: is_digit_def)+

lemma has_text_number:
  "has_text (json_num n @ s) ''inactive'' = has_text s ''inactive''"
  "has_text (json_num n @ s) ''sendonly'' = has_text s ''sendonly''"
  "has_text (json_num n @ s) ''conf'' = has_text s ''conf''"
  "has_text (json_num n @ s) ''video'' = has_text s ''video''"
  "has_text (json_num n @ s) ''port=0'' = has_text s ''port=0''"
  by (simp_all add: has_text_skip)

lemma has_text_Nil [simp]: "has_text [] p \<longleftrightarrow> p = []"
  by (simp add: has_text_def)

lemmas offer_simps = audio_def has_text_number has_text_Cons is_hold_def is_video_def

definition hold_offer :: "UeSimulator \<Rightarrow> string" where
  "hold_offer u = audio u @ '';a=sendonly''"
definition resume_offer :: "UeSimulator \<Rightarrow> string" where
  "resume_offer u = audio u @ '';a=sendrecv''"
definition video_offer :: "UeSimulator \<Rightarrow> string" where
  "video_offer u = audio u @ '';video:'' @ json_num (rtp_port (cfg u) + 2) @ ''/H264/90000;a=sendrecv''"

lemma hold_offer: "is_hold (hold_offer u)"
proof -
  have "has_text (hold_offer u) ''sendonly''"
    unfolding hold_offer_def by (rule has_text_prepend) (simp add: has_text_Cons)
  then show ?thesis by (simp add: is_hold_def)
qed

lemma resume_offer: "\<not> is_hold (resume_offer u)" "\<not> has_text (resume_offer u) ''conf''" "\<not> is_video (resume_offer u)"
  by (simp_all add: resume_offer_def offer_simps)

lemma video_offer:
  "\<not> is_hold (video_offer u)" "\<not> has_text (video_offer u) ''conf''" "is_video (video_offer u)"
  "\<not> has_text (video_offer u) ''port=0''"
proof -
  have "has_text (video_offer u) ''H264''" "has_text (video_offer u) ''video''"
    unfolding video_offer_def
    by (rule has_text_prepend, simp add: has_text_Cons has_text_prepend)+
  then show "is_video (video_offer u)" by (simp add: is_video_def)
qed (simp_all add: video_offer_def offer_simps)

subsection \<open>A re-INVITE at the servers\<close>

lemma dialog_shorts:
  "\<lbrakk> ue_cfg_ok (cfg u); length (current_call_id u) \<le> 1000; length impu \<le> 1000; length sdp \<le> 1000 \<rbrakk>
    \<Longrightarrow> shorts (in_dialog u impu sdp)"
  by (simp add: shorts_def in_dialog_def ue_cfg_ok_def)

lemma offer_lengths:
  "ue_cfg_ok (cfg u) \<Longrightarrow> length (hold_offer u) \<le> 1000 \<and> length (resume_offer u) \<le> 1000 \<and> length (video_offer u) \<le> 1000"
  by (simp add: ue_cfg_ok_def hold_offer_def resume_offer_def video_offer_def audio_def)

lemma reinvite_at_scscf:
  assumes "texts_ok (in_dialog u b sdp)" "calls s (current_call_id u) = Some c" "current_call_id u = cid"
    and "\<not> has_text sdp ''conf''"
    and "(reason, c') = (if is_hold sdp then (''re-INVITE-HOLD'', c\<lparr> on_hold := True \<rparr>)
       else if is_video sdp then (if has_text sdp ''port=0'' then ''VIDEO-REMOVE'' else ''VIDEO-ADD'', c)
       else (''re-INVITE-RESUME'', c\<lparr> on_hold := False \<rparr>))"
  shows "\<exists>x. scscf_receive cx br s (sip_message SIP_INVITE q (in_dialog u b sdp))
      = Done (x, [sip_message SIP_INVITE q (in_dialog u b sdp),
                  sip_message SIP_200_OK (scscf_seq s) (sip_response_fields cid (caller_impu c) (callee_impu c) reason)])
    \<and> calls x = (calls s)(cid \<mapsto> c')"
proof -
  have to: "first_text SIP_TO (body_of (sip_message SIP_INVITE q (in_dialog u b sdp))) = Some b"
    by (simp add: first_text_written [OF assms(1)]) (simp add: in_dialog_def)
  have "scscf_receive cx br s (sip_message SIP_INVITE q (in_dialog u b sdp))
      = handleReInvite s (sip_message SIP_INVITE q (in_dialog u b sdp)) cid sdp"
    using assms(2,3) by (simp add: scscf_receive_def handleInvite_def sip_fields_only [OF assms(1)])
  then show ?thesis
    using assms(2-5) by (simp add: handleReInvite_def to call_entry_def sendSipResponse_def set_call_def Let_def
        split: if_splits)
qed

subsection \<open>A change reaches both phones\<close>

lemma change_leads:
  assumes d: "dialog n cid i j si sj held" and T: "{UeThread i, ScscfTurn, ScscfRx, UeRx i, UeRx j} \<subseteq> T"
    and sdp: "length sdp \<le> 1000" "\<not> has_text sdp ''conf''"
    and kind: "(reason, c') = (if is_hold sdp then (''re-INVITE-HOLD'', True)
       else if is_video sdp then (if has_text sdp ''port=0'' then ''VIDEO-REMOVE'' else ''VIDEO-ADD'', held)
       else (''re-INVITE-RESUME'', False))"
    and u1: "cfg u1 = cfg (n_ue n i)" "current_call_id u1 = cid" "ue_callee u1 = ue_callee (n_ue n i)"
  defines "v1 \<equiv> ue_invite (n_ue n j) (ue_impu (cfg (n_ue n i))) cid sdp"
  shows "\<exists>f. leads T 7 (from_ue (n\<lparr> n_ue := (n_ue n)(i := u1) \<rparr>) i (sip_message SIP_INVITE q
        (in_dialog (n_ue n i) (ue_callee (n_ue n i)) sdp))) f
     \<and> dialog f cid i j (ue_state (fst (ue_200_ok u1 reason))) (ue_state (fst (ue_200_ok v1 reason))) c'"
proof -
  note D = dialog_facts [OF d]
  let ?u = "n_ue n i" and ?v = "n_ue n j"
  let ?a = "ue_impu (cfg ?u)" and ?b = "ue_impu (cfg ?v)"
  let ?fs = "in_dialog ?u ?b sdp" and ?rf = "sip_response_fields cid ?a ?b reason"
  let ?p = "sip_message SIP_INVITE q ?fs"
  have sh: "shorts ?fs" "shorts ?rf"
    using D sdp(1) kind by (auto intro!: dialog_shorts response_shorts split: if_splits)
  note t = shorts_texts [OF sh(1)] shorts_texts [OF sh(2)] and fits = shorts_fits [OF sh(1)] shorts_fits [OF sh(2)]
  have r: "to_both reason" "reason \<noteq> ''REGISTER''" "reason \<noteq> ''INVITE''" "reason \<noteq> []" "reason \<noteq> ''BYE''"
    using kind by (auto simp: to_both_def split: if_splits)
  define c where "c = \<lparr> caller_impu = ?a, callee_impu = ?b, cs_call_id = cid, on_hold = held, in_conference = False \<rparr>"
  have "(reason, c\<lparr> on_hold := c' \<rparr>) = (if is_hold sdp then (''re-INVITE-HOLD'', c\<lparr> on_hold := True \<rparr>)
       else if is_video sdp then (if has_text sdp ''port=0'' then ''VIDEO-REMOVE'' else ''VIDEO-ADD'', c)
       else (''re-INVITE-RESUME'', c\<lparr> on_hold := False \<rparr>))"
    using kind by (auto simp: c_def split: if_splits)
  then obtain x q2 where x: "scscf_receive (hss_answer (n_hss n)) (n_barred n) (n_scscf n) ?p
       = Done (x, [?p, sip_message SIP_200_OK q2 ?rf])" "calls x = (calls (n_scscf n))(cid \<mapsto> c\<lparr> on_hold := c' \<rparr>)"
    using reinvite_at_scscf [OF t(1) _ D(7) sdp(2), of "n_scscf n" c] D(7,16) by (fastforce simp: c_def)
  let ?n = "n\<lparr> n_ue := (n_ue n)(i := u1) \<rparr>" and ?k = "sip_message SIP_200_OK q2 ?rf"
  let ?m = "?n\<lparr> n_scscf := x \<rparr>"
  let ?m' = "?m\<lparr> n_ue := (n_ue ?m)(j := v1) \<rparr>"
  let ?f = "?m'\<lparr> n_ue := (n_ue ?m')(i := fst (ue_200_ok u1 reason), j := fst (ue_200_ok v1 reason)) \<rparr>"
  have q: "ims_quiet ?n" "ims_quiet ?m" "ims_quiet ?m'" "ims_quiet ?f" using D(1) by simp_all
  have conn: "connected m k" if "n_pcscf m = n_pcscf n" "k \<in> {i, j}" for m k
    using D(5,6) that by (auto simp: connected_def)
  have route: "ue_by_impu (n_pcscf n) ?b = Some j" using d by (simp add: dialog_def reachable_ue_def)
  have silent: "ue_200_ok w reason = (fst (ue_200_ok w reason), [])" for w using r by (simp add: ue_200_ok_def)
  have keeps: "cfg (fst (ue_200_ok w reason)) = cfg w" "current_call_id (fst (ue_200_ok w reason)) = current_call_id w"
      "ue_callee (fst (ue_200_ok w reason)) = ue_callee w" "ue_caller (fst (ue_200_ok w reason)) = ue_caller w" for w
    using r by (simp_all add: ue_200_ok_def)
  have v1: "cfg v1 = cfg ?v" "current_call_id v1 = cid" "ue_callee v1 = ue_callee ?v" "ue_caller v1 = ?a"
    using d D(8,9,20) by (auto simp: v1_def ue_invite_def dialog_def)
  have h: "handleFromUe (n_pcscf n) i ?p = Done (n_pcscf n, [?p], None)"
    using d D(7,20) by (simp add: from_ue_written [OF t(1)] Let_def or_else_def note_invite_def dialog_def fun_upd_idem)
  have h1: "handleFromScscf (n_pcscf n) ?p = Done (n_pcscf n, [(j, ?p)])"
    using D(7,19) route by (simp add: from_scscf_written [OF t(1)] Let_def deliver_invite_def sendToUe_def)
  have h2: "handleFromScscf (n_pcscf n) ?k = Done (n_pcscf n, [(j, ?k), (i, ?k)])"
    using D(12-15,20) r by (simp add: from_scscf_written [OF t(2)] Let_def deliver_ok_def or_else_def)
  have v: "handleIncoming ?v ?p = Done (v1, [])"
    using D(7) by (simp add: at_ue_written [OF t(1)] v1_def)
  have o: "handleIncoming w ?k = Done (fst (ue_200_ok w reason), [])" for w
    using silent by (simp add: at_ue_written [OF t(2)])
  have "ims_path T 3 (?m'\<lparr> to_pcscf := [?k] \<rparr>) ?f"
    unfolding numeral_3_eq_3
    by (rule path_pair [where i = i and j = j and m' = ?f])
      (use T conn q h2 o D(2) fits in \<open>auto simp: quiet_upds path_nil fun_upd_twist\<close>)
  then have "ims_path T 5 (?m\<lparr> to_pcscf := [?p, ?k] \<rparr>) ?f"
    unfolding eval_nat_numeral BitM.simps
    by (rule path_single [rotated -1, where i = j and u = v1])
      (use T conn q h1 v D(2) fits in \<open>auto simp: fun_upd_idem\<close>)
  then have "leads T 5 (?m\<lparr> to_pcscf := [?p, ?k] \<rparr>) ?f"
    using q(2) r by (intro leads_calm) (auto simp: calm_def quiet_queues answered_def sip_fields_only [OF t(2)])
  then have "leads T 6 (?n\<lparr> to_scscf := [?p] \<rparr>) ?f"
    unfolding eval_nat_numeral BitM.simps
    by (intro leads_scscf [OF _ fits(1)]) (use T x q in \<open>auto simp: hss_after_def\<close>)
  then have "leads T 7 (from_ue ?n i ?p) ?f"
    unfolding eval_nat_numeral BitM.simps
    by (intro leads_from_ue [OF q(1) _ fits(1)]) (use T conn h in auto)
  moreover have "dialog ?f cid i j (ue_state (fst (ue_200_ok u1 reason))) (ue_state (fst (ue_200_ok v1 reason))) c'"
    using d q(4) u1 x(2) keeps v1 by (simp add: dialog_def reachable_ue_def connected_def c_def)
  ultimately show ?thesis using D(11) by (intro exI [of _ ?f]) simp
qed

subsection \<open>Hold, resumption, video\<close>

lemma hold_command:
  assumes "ims_quiet n" "ue_state (n_ue n i) = IN_CALL"
  shows "ims_command mem n i ''HOLD''
     = from_ue (n\<lparr> n_ue := (n_ue n)(i := (n_ue n i)\<lparr> ue_state := ON_HOLD, ue_seq := ue_seq (n_ue n i) + 1 \<rparr>) \<rparr>) i
         (sip_message SIP_INVITE (ue_seq (n_ue n i)) (in_dialog (n_ue n i) (ue_callee (n_ue n i)) (hold_offer (n_ue n i))))"
  using assms
  by (simp add: ims_command_def ue_command_def command_words doHold_def ue_send_def from_ue_def quiet_queues in_dialog_def
      hold_offer_def audio_def)

lemma resume_command:
  assumes "ims_quiet n" "ue_state (n_ue n i) = ON_HOLD"
  shows "ims_command mem n i ''RESUME''
     = from_ue (n\<lparr> n_ue := (n_ue n)(i := (n_ue n i)\<lparr> ue_state := IN_CALL, ue_seq := ue_seq (n_ue n i) + 1 \<rparr>) \<rparr>) i
         (sip_message SIP_INVITE (ue_seq (n_ue n i)) (in_dialog (n_ue n i) (ue_callee (n_ue n i)) (resume_offer (n_ue n i))))"
  using assms
  by (simp add: ims_command_def ue_command_def command_words doResume_def ue_send_def from_ue_def quiet_queues in_dialog_def
      resume_offer_def audio_def)

lemma video_command:
  assumes "ims_quiet n" "ue_state (n_ue n i) = IN_CALL"
  shows "ims_command mem n i ''VIDEO''
     = from_ue (n\<lparr> n_ue := (n_ue n)(i := (n_ue n i)\<lparr> ue_seq := ue_seq (n_ue n i) + 1 \<rparr>) \<rparr>) i
         (sip_message SIP_INVITE (ue_seq (n_ue n i)) (in_dialog (n_ue n i) (ue_callee (n_ue n i)) (video_offer (n_ue n i))))"
  using assms
  by (simp add: ims_command_def ue_command_def command_words doVideo_def ue_send_def from_ue_def quiet_queues in_dialog_def
      video_offer_def audio_def)

lemma hold_leads:
  assumes d: "dialog n cid i j IN_CALL sj held" and T: "{UeThread i, ScscfTurn, ScscfRx, UeRx i, UeRx j} \<subseteq> T"
  shows "\<exists>f. leads T 7 (ims_command mem n i ''HOLD'') f \<and> dialog f cid i j ON_HOLD sj True"
proof -
  note D = dialog_facts [OF d]
  have "\<not> has_text (hold_offer (n_ue n i)) ''conf''" by (simp add: hold_offer_def offer_simps)
  from change_leads [OF d T _ this, of "''re-INVITE-HOLD''" True
      "(n_ue n i)\<lparr> ue_state := ON_HOLD, ue_seq := ue_seq (n_ue n i) + 1 \<rparr>" "ue_seq (n_ue n i)"]
  show ?thesis
    using D(7-9,18) offer_lengths [OF D(3)] hold_offer [of "n_ue n i"] hold_command [OF D(1,17)]
    by (simp add: ue_200_ok_def ue_invite_def is_hold_def disj_commute)
qed

lemma resume_leads:
  assumes d: "dialog n cid i j ON_HOLD sj held" and T: "{UeThread i, ScscfTurn, ScscfRx, UeRx i, UeRx j} \<subseteq> T"
  shows "\<exists>f. leads T 7 (ims_command mem n i ''RESUME'') f \<and> dialog f cid i j IN_CALL IN_CALL False"
proof -
  note D = dialog_facts [OF d] and O = resume_offer [of "n_ue n i"]
  from change_leads [OF d T _ O(2), of "''re-INVITE-RESUME''" False
      "(n_ue n i)\<lparr> ue_state := IN_CALL, ue_seq := ue_seq (n_ue n i) + 1 \<rparr>" "ue_seq (n_ue n i)"]
  show ?thesis
    using D(7-9,18) offer_lengths [OF D(3)] O resume_command [OF D(1,17)] by (simp add: ue_200_ok_def)
qed

lemma video_leads:
  assumes d: "dialog n cid i j IN_CALL sj held" and T: "{UeThread i, ScscfTurn, ScscfRx, UeRx i, UeRx j} \<subseteq> T"
  shows "\<exists>f. leads T 7 (ims_command mem n i ''VIDEO'') f \<and> dialog f cid i j IN_CALL RINGING held"
proof -
  note D = dialog_facts [OF d] and O = video_offer [of "n_ue n i"]
  from change_leads [OF d T _ O(2), of "''VIDEO-ADD''" held
      "(n_ue n i)\<lparr> ue_seq := ue_seq (n_ue n i) + 1 \<rparr>" "ue_seq (n_ue n i)"]
  show ?thesis
    using D(7-9,17) offer_lengths [OF D(3)] O video_command [OF D(1,17)]
    by (simp add: ue_200_ok_def ue_invite_def is_hold_def disj_commute)
qed

end
