(* ===== verification/Ims_Endings.thy ===== *)
theory Ims_Endings
  imports Ims_Call
begin

text \<open>
  How calls end: the BYE of the caller, under every schedule of the turns, and the call to a
  barred number.
\<close>

subsection \<open>BYE\<close>

definition bye_message :: "u32 \<Rightarrow> string \<Rightarrow> bytes" where
  "bye_message q cid = sip_message SIP_BYE q [(SIP_CALL_ID, cid)]"

definition bye_ok :: "u32 \<Rightarrow> string \<Rightarrow> bytes" where
  "bye_ok q cid = sip_message SIP_200_OK q (sip_response_fields cid [] [] ''BYE'')"

text \<open>
  The states between the BYE of phone \<open>i\<close> and the end: only that BYE and its answers are on
  the way, all of them on the connections of phone \<open>i\<close> and of the servers.
\<close>

definition after_bye :: "ims_net \<Rightarrow> string \<Rightarrow> nat \<Rightarrow> ims_net \<Rightarrow> bool" where
  "after_bye n cid i m \<longleftrightarrow>
     (\<forall>k. k \<noteq> i \<longrightarrow> n_ue m k = n_ue n k \<and> n_up m k = [] \<and> n_down m k = [] \<and> n_forget m k = None)
     \<and> ue_state (n_ue m i) = REGISTERED
     \<and> set (n_up m i @ to_scscf m) \<subseteq> range (\<lambda>q. bye_message q cid)
     \<and> set (n_down m i @ to_pcscf m) \<subseteq> range (\<lambda>q. bye_message q cid) \<union> range (\<lambda>q. bye_ok q cid)
     \<and> n_forget m i \<in> {None, Some cid}
     \<and> ue_by_impu (n_pcscf m) = ue_by_impu (n_pcscf n)
     \<and> call_to_caller (n_pcscf m) cid \<in> {None, call_to_caller (n_pcscf n) cid}"

lemma bye_texts: "length cid \<le> 1000 \<Longrightarrow> texts_ok [(SIP_CALL_ID, cid)] \<and> texts_ok (sip_response_fields cid [] [] ''BYE'')"
  by (simp add: text_ok_def sip_response_fields_def)

lemma bye_at_phone:
  assumes "length cid \<le> 1000" "p \<in> range (\<lambda>q. bye_message q cid) \<union> range (\<lambda>q. bye_ok q cid)"
  shows "\<exists>u'. handleIncoming u p = Done (u', []) \<and> (ue_state u = REGISTERED \<longrightarrow> ue_state u' = REGISTERED)"
  using assms bye_texts [OF assms(1)]
  by (auto simp: bye_message_def bye_ok_def at_ue_written ue_200_ok_def)

lemma bye_at_pcscf:
  assumes "length cid \<le> 1000"
  shows "handleFromUe s i (bye_message q cid) = Done (s, [bye_message q cid], Some cid)"
  using bye_texts [OF assms] by (simp add: bye_message_def from_ue_written Let_def)

lemma bye_at_scscf:
  assumes "length cid \<le> 1000"
  shows "\<exists>s' q'. scscf_receive cx b s (bye_message q cid) = Done (s', [bye_ok q' cid, bye_message q cid])"
  using bye_texts [OF assms]
  by (simp add: bye_message_def bye_ok_def scscf_receive_def handleBye_def sip_fields_only Let_def sendSipResponse_def) blast

lemma bye_back:
  assumes "length cid \<le> 1000" "p \<in> range (\<lambda>q. bye_message q cid) \<union> range (\<lambda>q. bye_ok q cid)"
  shows "handleFromScscf s p = Done (s, send_known s (caller_of s cid) p)"
proof -
  have "or_else (caller_of s cid) [] = caller_of s cid" by (simp add: or_else_def)
  with assms bye_texts [OF assms(1)] show ?thesis
    by (auto simp: bye_message_def bye_ok_def from_scscf_written Let_def deliver_ok_def to_both_def or_else_def)
qed

lemma after_bye_step:
  assumes d: "dialog n cid i j si sj held" and m: "after_bye n cid i m" and s: "ims_step m t = Done m'"
  shows "after_bye n cid i m'"
proof (cases "ims_enabled m t")
  case False
  with s m ims_idle_step show ?thesis by simp
next
  case True
  note D = dialog_facts [OF d] and M = m [unfolded after_bye_def]
  show ?thesis
  proof (cases t)
    case (UeRx k)
    with True obtain p r where p: "n_down m k = p # r" by (auto simp: ims_enabled_def dest: waiting_split)
    then have k: "k = i" using M by (metis list.distinct(1))
    with p M have "p \<in> range (\<lambda>q. bye_message q cid) \<union> range (\<lambda>q. bye_ok q cid)" by auto
    from bye_at_phone [OF D(10) this, of "n_ue m i"] obtain u' where
      "handleIncoming (n_ue m i) p = Done (u', [])" "ue_state u' = REGISTERED" using M by blast
    with UeRx True s p k M show ?thesis by (auto simp: ims_step_def after_bye_def)
  next
    case (UeThread k)
    show ?thesis
    proof (cases "n_forget m k")
      case None
      with True UeThread obtain p r where p: "n_up m k = p # r" by (auto simp: ims_enabled_def dest: waiting_split)
      then have k: "k = i" using M by (metis list.distinct(1))
      with p M obtain q where "p = bye_message q cid" by auto
      with UeThread True s p k None M bye_at_pcscf [OF D(10)] show ?thesis by (auto simp: ims_step_def after_bye_def)
    next
      case (Some c)
      then have k: "k = i" using M by (metis option.distinct(1))
      with Some M have "c = cid" by auto
      with k UeThread True s Some M show ?thesis by (auto simp: ims_step_def after_bye_def forget_call_def)
    qed
  next
    case ScscfRx
    with True obtain p r where p: "to_pcscf m = p # r" by (auto simp: ims_enabled_def dest: waiting_split)
    with M have pp: "p \<in> range (\<lambda>q. bye_message q cid) \<union> range (\<lambda>q. bye_ok q cid)" by auto
    let ?out = "send_known (n_pcscf m) (caller_of (n_pcscf m) cid) p"
    have c: "caller_of (n_pcscf m) cid \<in> {[], ue_impu (cfg (n_ue n i))}"
    proof -
      have "call_to_caller (n_pcscf m) cid \<in> {None, call_to_caller (n_pcscf n) cid}" using M by (elim conjE)
      then have "caller_of (n_pcscf m) cid \<in> {[], caller_of (n_pcscf n) cid}" by (auto simp: caller_of_def)
      then show ?thesis by (simp add: D(12))
    qed
    have e: "send_known (n_pcscf m) x p = send_known (n_pcscf n) x p" for x
    proof -
      have "ue_by_impu (n_pcscf m) = ue_by_impu (n_pcscf n)" using M by (elim conjE)
      then show ?thesis by (simp add: send_known_def sendToUe_def)
    qed
    have "send_known (n_pcscf n) [] p = []" by (simp add: send_known_def)
    then have "set ?out \<subseteq> {(i, p)}" unfolding e using c D(14) [of p] by (elim insertE) simp_all
    then have o: "\<forall>k. set (deliver ?out (n_down m) k) \<subseteq> set (n_down m k) \<union> (if k = i then {p} else {})"
      by (auto simp: set_deliver)
    have other: "deliver ?out (n_down m) k = []" if "k \<noteq> i" for k
    proof -
      have "n_down m k = []" using M that by blast
      then show ?thesis using o [rule_format, of k] that by simp
    qed
    have "m' = m\<lparr> to_pcscf := r, n_down := deliver ?out (n_down m) \<rparr>"
      using ScscfRx True s p bye_back [OF D(10) pp] by (simp add: ims_step_def)
    moreover have "set (deliver ?out (n_down m) i) \<subseteq> range (\<lambda>q. bye_message q cid) \<union> range (\<lambda>q. bye_ok q cid)"
    proof -
      have "set (n_down m i) \<subseteq> range (\<lambda>q. bye_message q cid) \<union> range (\<lambda>q. bye_ok q cid)" using M by simp
      then show ?thesis using o [rule_format, of i] pp by auto
    qed
    ultimately show ?thesis using M p other by (simp add: after_bye_def)
  next
    case ScscfTurn
    with True obtain p r where p: "to_scscf m = p # r" by (auto simp: ims_enabled_def dest: waiting_split)
    with M obtain q where q: "p = bye_message q cid" by auto
    obtain s' q' where "scscf_receive (hss_answer (n_hss m)) (n_barred m) (n_scscf m) p
        = Done (s', [bye_ok q' cid, bye_message q cid])"
      using bye_at_scscf [OF D(10)] q by blast
    with ScscfTurn True s p M show ?thesis by (auto simp: ims_step_def after_bye_def)
  qed
qed

lemma bye_starts:
  assumes d: "dialog n cid i j IN_CALL sj held"
  shows "after_bye n cid i (ims_command mem n i ''BYE'')"
proof -
  note D = dialog_facts [OF d]
  have "ims_command mem n i ''BYE''
     = from_ue (n\<lparr> n_ue := (n_ue n)(i := (n_ue n i)\<lparr> ue_state := REGISTERED, ue_seq := ue_seq (n_ue n i) + 1 \<rparr>) \<rparr>) i
         (bye_message (ue_seq (n_ue n i)) cid)"
    using D(1,7,17)
    by (simp add: ims_command_def ue_command_def command_words doBye_def ue_send_def from_ue_def quiet_queues bye_message_def)
  then show ?thesis using D(1) by (auto simp: after_bye_def from_ue_def quiet_queues)
qed

subsection \<open>A barred number\<close>

lemma barred_at_scscf:
  assumes "texts_ok (call_fields u b cid)" "calls s cid = None" "isBarred br b"
  shows "\<exists>s' q1 q2. scscf_receive cx br s (sip_message SIP_INVITE q (call_fields u b cid))
      = Done (s', [sip_message SIP_100_TRYING q1 (sip_response_fields cid (ue_impu (cfg u)) b ''INVITE''),
                   sip_message SIP_200_OK q2 (sip_response_fields cid (ue_impu (cfg u)) b ''BARRED'')])
    \<and> calls s' = calls s"
  using assms
  by (simp add: scscf_receive_def handleInvite_def sip_fields_only Let_def)
    (auto simp: invokeMtas_def sendSipResponse_def)

lemma id_impu_length: "ID_TO_IMPU t = Some b \<Longrightarrow> length b \<le> 1000"
  by (auto simp: ID_TO_IMPU_def IMPU_A_def IMPU_B_def IMPU_C_def IMS_DOMAIN_def split: if_splits)

lemma barred_leads:
  assumes n: "ims_quiet n" "reachable_ue n i" "ue_state (n_ue n i) = REGISTERED"
    and t: "ID_TO_IMPU t = Some b" "isBarred (n_barred n) b"
    and cid: "cid = new_call_id mem (n_ue n i) t" "length cid \<le> 1000" "calls (n_scscf n) cid = None"
    and T: "{UeThread i, ScscfTurn, ScscfRx, UeRx i} \<subseteq> T"
  shows "\<exists>f. leads T 6 (ims_command mem n i (''CALL '' @ t)) f \<and> ims_quiet f \<and> ue_state (n_ue f i) = CALLING
     \<and> calls (n_scscf f) cid = None \<and> call_to_caller (n_pcscf f) cid = Some (ue_impu (cfg (n_ue n i)))"
proof -
  let ?u = "n_ue n i"
  let ?a = "ue_impu (cfg ?u)" and ?q = "ue_seq (n_ue n i)"
  note ri = reachable_facts [OF n(2)]
  let ?fs = "call_fields ?u b cid" and ?r1 = "sip_response_fields cid ?a b ''INVITE''"
    and ?r2 = "sip_response_fields cid ?a b ''BARRED''"
  let ?p = "sip_message SIP_INVITE ?q ?fs" and ?s = "note_invite (n_pcscf n) cid ?a b"
  have sh: "shorts ?fs" "shorts ?r1" "shorts ?r2"
    using ri cid(2) id_impu_length [OF t(1)] by (auto intro!: call_shorts response_shorts)
  note w = shorts_texts [OF sh(1)] shorts_texts [OF sh(2)] shorts_texts [OF sh(3)]
    and fits = shorts_fits [OF sh(1)] shorts_fits [OF sh(2)] shorts_fits [OF sh(3)]
  obtain x q1 q2 where x: "scscf_receive (hss_answer (n_hss n)) (n_barred n) (n_scscf n) ?p
      = Done (x, [sip_message SIP_100_TRYING q1 ?r1, sip_message SIP_200_OK q2 ?r2])" "calls x = calls (n_scscf n)"
    using barred_at_scscf [OF w(1) cid(3) t(2)] by blast
  let ?n = "n\<lparr> n_ue := (n_ue n)(i := calling ?u b cid) \<rparr>"
  let ?f = "?n\<lparr> n_pcscf := ?s, n_scscf := x \<rparr>"
  have q: "ims_quiet ?n" "ims_quiet ?f" using n(1) by simp_all
  have conn: "connected m i" if "n_pcscf m = n_pcscf n \<or> n_pcscf m = ?s" for m
    using ri that by (auto simp: connected_def note_invite_def)
  have h1: "handleFromScscf ?s (sip_message SIP_100_TRYING q1 ?r1) = Done (?s, [(i, sip_message SIP_100_TRYING q1 ?r1)])"
    using ri by (simp add: from_scscf_written [OF w(2)] pcscf_simps)
  have h2: "handleFromScscf ?s (sip_message SIP_200_OK q2 ?r2) = Done (?s, [(i, sip_message SIP_200_OK q2 ?r2)])"
    using ri by (simp add: from_scscf_written [OF w(3)] pcscf_simps)
  have u: "handleIncoming v (sip_message SIP_100_TRYING q1 ?r1) = Done (v, [])"
    "handleIncoming v (sip_message SIP_200_OK q2 ?r2) = Done (v, [])" for v
    by (simp_all add: at_ue_written [OF w(2)] at_ue_written [OF w(3)] ue_200_ok_def)
  have "ims_path T 2 (?f\<lparr> to_pcscf := [sip_message SIP_200_OK q2 ?r2] \<rparr>) ?f"
    unfolding numeral_2_eq_2
    by (rule path_single [where i = i and s = ?s and u = "calling ?u b cid" and m' = ?f])
      (use T conn q h2 u fits in \<open>auto simp: quiet_upds path_nil\<close>)
  then have "ims_path T 4 (?f\<lparr> to_pcscf := [sip_message SIP_100_TRYING q1 ?r1, sip_message SIP_200_OK q2 ?r2] \<rparr>) ?f"
    unfolding eval_nat_numeral BitM.simps
    by (rule path_single [rotated -1, where i = i and s = ?s and u = "calling ?u b cid"])
      (use T conn h1 u q fits in \<open>simp_all add: fun_upd_idem\<close>)
  then have "leads T 4 (?f\<lparr> to_pcscf := [sip_message SIP_100_TRYING q1 ?r1, sip_message SIP_200_OK q2 ?r2] \<rparr>) ?f"
    using q(2) by (intro leads_calm) (auto simp: calm_def quiet_queues answered_def sip_fields_only [OF w(3)])
  then have "leads T 5 (?n\<lparr> n_pcscf := ?s, to_scscf := [?p] \<rparr>) ?f"
    unfolding eval_nat_numeral BitM.simps
    by (intro leads_scscf [OF _ fits(1)]) (use T x q in \<open>auto simp: hss_after_def\<close>)
  then have "leads T 6 (from_ue ?n i ?p) ?f"
    unfolding eval_nat_numeral BitM.simps
    by (intro leads_from_ue [OF q(1) _ fits(1)]) (use T conn ri in \<open>auto simp: from_ue_written [OF w(1)] or_else_def Let_def\<close>)
  then show ?thesis
    using call_command [OF n(1,3) t(1) cid(1)] q(2) x(2) cid(3)
    by (intro exI [of _ ?f]) (simp add: calling_def note_invite_def)
qed

end
