(* ===== verification/Ims_System.thy ===== *)
theory Ims_System
  imports Ims_Endings
begin

text \<open>
  The properties of the IMS network of server and phones: registration, calls, hold and
  resumption under every fair schedule, what a BYE and a barred number come to, and the
  framing of the SIP texts.
\<close>

subsection \<open>Fair schedules\<close>

text \<open>Rounds in which every thread of the server and of the phones in \<open>P\<close> acts at least once.\<close>

definition ims_turns :: "nat set \<Rightarrow> ims_turn set" where
  "ims_turns P = {ScscfTurn, ScscfRx} \<union> UeRx ` P \<union> UeThread ` P"

definition ims_fair :: "nat set \<Rightarrow> nat \<Rightarrow> ims_turn list list \<Rightarrow> bool" where
  "ims_fair P k rounds \<longleftrightarrow> k \<le> length rounds \<and> (\<forall>r\<in>set rounds. ims_turns P \<subseteq> set r)"

lemma fair_leads:
  assumes "leads (ims_turns P) k n f" "ims_quiet f" "ims_fair P k rounds"
  shows "ims_run n (concat rounds) = Done f"
  using leads_fair [OF assms(1,2)] assms(3) by (simp add: ims_fair_def)

lemma turns_of_one: "{UeThread i, ScscfTurn, ScscfRx, UeRx i} \<subseteq> ims_turns {i}"
  by (auto simp: ims_turns_def)

lemma turns_of_two:
  "{UeThread i, UeThread j, ScscfTurn, ScscfRx, UeRx i, UeRx j} \<subseteq> ims_turns {i, j}"
  "{UeThread i, ScscfTurn, ScscfRx, UeRx i, UeRx j} \<subseteq> ims_turns {i, j}"
  by (auto simp: ims_turns_def)

subsection \<open>An example: two registered phones\<close>

definition phone_cfg :: "nat \<Rightarrow> UeConfig" where
  "phone_cfg i = the (UE_CONFIGS (if i = 0 then ''A'' else if i = 1 then ''B'' else ''C''))"

definition demo_mem :: stray where
  "demo_mem c = ''call-''"

definition demo_rounds :: "nat \<Rightarrow> ims_turn list list" where
  "demo_rounds k = replicate k [UeThread 0, UeThread 1, ScscfTurn, ScscfRx, UeRx 0, UeRx 1]"

lemma demo_fair: "P \<subseteq> {0, 1} \<Longrightarrow> ims_fair P k (demo_rounds k)"
  by (auto simp: ims_fair_def demo_rounds_def ims_turns_def)

lemma phone_cfg_facts:
  "ue_cfg_ok (phone_cfg i)" "ue_impu (phone_cfg 0) = IMPU_A" "ue_impu (phone_cfg 1) = IMPU_B"
  "ue_impu (phone_cfg (Suc 0)) = IMPU_B" "ue_label (phone_cfg 0) = ''UE-A''"
  using UE_CONFIGS_ok by (auto simp: phone_cfg_def UE_CONFIGS_def)

definition both_registered :: "ims_net \<Rightarrow> bool" where
  "both_registered n \<longleftrightarrow> (\<exists>m. ims_run (ims_command demo_mem (ims_init phone_cfg 2) 0 ''REG'') (concat (demo_rounds 4)) = Done m
     \<and> ims_run (ims_command demo_mem m 1 ''REG'') (concat (demo_rounds 4)) = Done n)"

text \<open>Everything a first call needs, in every example.\<close>

definition ready_pair :: "ims_net \<Rightarrow> bool" where
  "ready_pair n \<longleftrightarrow> ims_quiet n \<and> (\<forall>k. cfg (n_ue n k) = phone_cfg k \<and> current_call_id (n_ue n k) = [])
     \<and> reachable_ue n 0 \<and> reachable_ue n 1 \<and> ue_state (n_ue n 0) = REGISTERED
     \<and> new_call_id demo_mem (n_ue n 0) ''B'' = ''call-B-2''
     \<and> calls (n_scscf n) = Map.empty \<and> invite_delivered (n_pcscf n) = {} \<and> n_barred n = {}"

lemma init_quiet: "ims_quiet (ims_init cs k)"
  by (simp add: ims_quiet_def ims_init_def)

lemma accept_sessions: "length (ue_sessions ((acceptUe ^^ k) s)) = length (ue_sessions s) + k"
  by (induction k) (simp_all add: acceptUe_def)

lemma accept_others:
  "ue_by_impu ((acceptUe ^^ k) s) = ue_by_impu s" "invite_delivered ((acceptUe ^^ k) s) = invite_delivered s"
  by (induction k) (simp_all add: acceptUe_def)

lemma init_connected: "connected (ims_init cs k) i \<longleftrightarrow> i < k"
  by (simp add: connected_def ims_init_def accept_sessions pcscf_init_def)

lemma demo_number: "json_num 2 = ''2''"
  by code_simp

lemma demo_registered: "\<exists>n. both_registered n \<and> ready_pair n"
proof -
  let ?n = "ims_init phone_cfg 2"
  have 0: "ue_state (n_ue ?n k) = IDLE" "cfg (n_ue ?n k) = phone_cfg k" "current_call_id (n_ue ?n k) = []"
    "ue_seq (n_ue ?n k) = 1" for k by (simp_all add: ims_init_def ue_init_def)
  have 1: "calls (n_scscf ?n) = Map.empty" "invite_delivered (n_pcscf ?n) = {}" "n_barred ?n = {}"
    by (simp_all add: ims_init_def accept_others scscf_init_def pcscf_init_def)
  obtain m where m: "leads (ims_turns {0}) 4 (ims_command demo_mem ?n 0 ''REG'') m" "ims_quiet m"
      "cfg (n_ue m 0) = phone_cfg 0" "ue_state (n_ue m 0) = REGISTERED" "ue_by_impu (n_pcscf m) IMPU_A = Some 0"
      "\<forall>k. k \<noteq> 0 \<longrightarrow> n_ue m k = n_ue ?n k" "same_calls ?n m 0"
    using registration_leads [OF init_quiet, of phone_cfg 2 0 "ims_turns {0}" demo_mem] turns_of_one [of 0] 0 [of 0]
    by (auto simp: init_connected phone_cfg_facts)
  then have m': "cfg (n_ue m k) = phone_cfg k" "current_call_id (n_ue m k) = []" "ue_seq (n_ue m 0) = 2"
    "connected m 0" "connected m 1" "ue_state (n_ue m 1) = IDLE" for k
    using 0 init_connected [of phone_cfg 2] by (cases "k = 0"; auto simp: same_calls_def connected_def)+
  obtain n where n: "leads (ims_turns {1}) 4 (ims_command demo_mem m 1 ''REG'') n" "ims_quiet n"
      "cfg (n_ue n 1) = phone_cfg 1" "ue_state (n_ue n 1) = REGISTERED"
      "ue_by_impu (n_pcscf n) = (ue_by_impu (n_pcscf m))(IMPU_B \<mapsto> 1)"
      "\<forall>k. k \<noteq> 1 \<longrightarrow> n_ue n k = n_ue m k" "same_calls m n 1"
    using registration_leads [OF m(2), of 1 "ims_turns {1}" demo_mem] turns_of_one [of 1] m'
    by (auto simp: phone_cfg_facts)
  then have n': "cfg (n_ue n k) = phone_cfg k" "current_call_id (n_ue n k) = []" "n_ue n 0 = n_ue m 0"
    "connected n 0" "connected n 1" for k
    using m' by (cases "k = 1"; auto simp: same_calls_def connected_def)+
  have "both_registered n"
    unfolding both_registered_def
    using fair_leads [OF m(1,2) demo_fair] fair_leads [OF n(1,2) demo_fair] by auto
  moreover have "ready_pair n"
    using m m' n n' 1
    by (simp add: ready_pair_def reachable_ue_def phone_cfg_facts same_calls_def new_call_id_def demo_mem_def
        seq_text_def demo_number)
  ultimately show ?thesis by blast
qed

lemma ready_fresh:
  assumes "ready_pair n"
  shows "fresh_call n ''call-B-2''"
  using assms by (simp add: ready_pair_def fresh_call_def)


subsection \<open>Registration\<close>

text \<open>C16. Registration completes: from every quiet state, under every schedule of at least four rounds in
  which the threads of the server and of the phone act, REG ends with the phone registered, its
  identity routed to its connection, its subscriber record in the registrar, and every other phone
  as it was.\<close>

theorem ims_registration_completes:
  assumes "ims_quiet n" and "connected n i" and "ue_cfg_ok (cfg (n_ue n i))" and "ue_state (n_ue n i) \<noteq> IN_CALL"
    and "ims_fair {i} 4 rounds"
  shows "\<exists>f. ims_run (ims_command mem n i ''REG'') (concat rounds) = Done f \<and> ims_quiet f
     \<and> ue_state (n_ue f i) = REGISTERED
     \<and> ue_by_impu (n_pcscf f) = (ue_by_impu (n_pcscf n))(ue_impu (cfg (n_ue n i)) \<mapsto> i)
     \<and> registrar (n_scscf f) = (registrar (n_scscf n))(ue_impu (cfg (n_ue n i)) \<mapsto> subscriber (cfg (n_ue n i)))
     \<and> (\<forall>k. k \<noteq> i \<longrightarrow> n_ue f k = n_ue n k)"
proof -
  obtain f where "leads (ims_turns {i}) 4 (ims_command mem n i ''REG'') f" "ims_quiet f" "ue_state (n_ue f i) = REGISTERED"
      "ue_by_impu (n_pcscf f) = (ue_by_impu (n_pcscf n))(ue_impu (cfg (n_ue n i)) \<mapsto> i)"
      "registrar (n_scscf f) = (registrar (n_scscf n))(ue_impu (cfg (n_ue n i)) \<mapsto> subscriber (cfg (n_ue n i)))"
      "\<forall>k. k \<noteq> i \<longrightarrow> n_ue f k = n_ue n k"
    using registration_leads [OF assms(1-4) turns_of_one] by blast
  with fair_leads [OF _ _ assms(5)] show ?thesis by blast
qed

theorem ims_registration_completes_witness:
  "\<exists>f. ims_run (ims_command demo_mem (ims_init phone_cfg 2) 0 ''REG'') (concat (demo_rounds 4)) = Done f
     \<and> ue_state (n_ue f 0) = REGISTERED"
proof -
  have "connected (ims_init phone_cfg 2) 0" "ue_cfg_ok (cfg (n_ue (ims_init phone_cfg 2) 0))"
    "ue_state (n_ue (ims_init phone_cfg 2) 0) \<noteq> IN_CALL" "ims_fair {0} 4 (demo_rounds 4)"
    by (simp_all add: init_connected demo_fair) (simp_all add: ims_init_def ue_init_def phone_cfg_facts)
  from ims_registration_completes [OF init_quiet this, of demo_mem] show ?thesis by blast
qed

subsection \<open>Calls\<close>

text \<open>C11. Calls complete: a CALL to a phone that is routed and not barred makes it ring under every fair
  schedule of nine rounds, and its ACCEPT puts both ends in the call after eight more, with the call
  and its routing entered at S-CSCF and P-CSCF.\<close>

theorem ims_call_completes:
  assumes "ims_quiet n" and "i \<noteq> j" and "reachable_ue n i" and "reachable_ue n j" and "ue_state (n_ue n i) = REGISTERED"
    and "ID_TO_IMPU t = Some (ue_impu (cfg (n_ue n j)))" and "\<not> isBarred (n_barred n) (ue_impu (cfg (n_ue n j)))"
    and "fresh_call n (new_call_id mem (n_ue n i) t)"
    and "ims_fair {i, j} 9 rounds" and "ims_fair {i, j} 8 rounds'"
  shows "\<exists>m f. ims_run (ims_command mem n i (''CALL '' @ t)) (concat rounds) = Done m
     \<and> dialog m (new_call_id mem (n_ue n i) t) i j CALLING RINGING False
     \<and> ims_run (ims_command mem m j ''ACCEPT'') (concat rounds') = Done f
     \<and> dialog f (new_call_id mem (n_ue n i) t) i j IN_CALL IN_CALL False"
proof -
  let ?cid = "new_call_id mem (n_ue n i) t"
  obtain m where m: "leads (ims_turns {i, j}) 9 (ims_command mem n i (''CALL '' @ t)) m" "dialog m ?cid i j CALLING RINGING False"
    using call_leads [OF assms(1-7) refl assms(8) turns_of_two(2)] by blast
  obtain f where f: "leads (ims_turns {i, j}) 8 (ims_command mem m j ''ACCEPT'') f" "dialog f ?cid i j IN_CALL IN_CALL False"
    using accept_leads [OF m(2) turns_of_two(1)] by blast
  show ?thesis
    using fair_leads [OF m(1) dialog_facts(1) [OF m(2)] assms(9)] m(2)
      fair_leads [OF f(1) dialog_facts(1) [OF f(2)] assms(10)] f(2) by blast
qed

theorem ims_call_completes_witness:
  "\<exists>n m f. both_registered n
     \<and> ims_run (ims_command demo_mem n 0 (''CALL '' @ ''B'')) (concat (demo_rounds 9)) = Done m
     \<and> ims_run (ims_command demo_mem m 1 ''ACCEPT'') (concat (demo_rounds 8)) = Done f
     \<and> dialog f ''call-B-2'' 0 1 IN_CALL IN_CALL False"
proof -
  obtain n where n: "both_registered n" "ready_pair n" using demo_registered by blast
  then have h: "ims_quiet n" "reachable_ue n 0" "reachable_ue n 1" "ue_state (n_ue n 0) = REGISTERED"
    "ID_TO_IMPU ''B'' = Some (ue_impu (cfg (n_ue n 1)))" "\<not> isBarred (n_barred n) (ue_impu (cfg (n_ue n 1)))"
    "fresh_call n (new_call_id demo_mem (n_ue n 0) ''B'')" "new_call_id demo_mem (n_ue n 0) ''B'' = ''call-B-2''"
    using ready_fresh [OF n(2)] by (simp_all add: ready_pair_def phone_cfg_facts ID_TO_IMPU_def isBarred_def)
  have f: "ims_fair {0, 1} 9 (demo_rounds 9)" "ims_fair {0, 1} 8 (demo_rounds 8)" by (rule demo_fair; simp)+
  from ims_call_completes [OF h(1) zero_neq_one h(2-7) f] n(1) show ?thesis unfolding h(8) by blast
qed

text \<open>C33. Hold and resumption: HOLD of the caller marks the call as held at the S-CSCF and puts the caller on
  hold while the callee stays as it is; RESUME takes both phones back into the call and lifts the
  mark, each under every fair schedule of seven rounds.\<close>

theorem ims_hold_resume:
  assumes "dialog n cid i j IN_CALL sj held" and "ims_fair {i, j} 7 rounds" and "ims_fair {i, j} 7 rounds'"
  shows "\<exists>m f. ims_run (ims_command mem n i ''HOLD'') (concat rounds) = Done m \<and> dialog m cid i j ON_HOLD sj True
     \<and> ims_run (ims_command mem m i ''RESUME'') (concat rounds') = Done f \<and> dialog f cid i j IN_CALL IN_CALL False"
proof -
  obtain m where m: "leads (ims_turns {i, j}) 7 (ims_command mem n i ''HOLD'') m" "dialog m cid i j ON_HOLD sj True"
    using hold_leads [OF assms(1) turns_of_two(2)] by blast
  obtain f where f: "leads (ims_turns {i, j}) 7 (ims_command mem m i ''RESUME'') f" "dialog f cid i j IN_CALL IN_CALL False"
    using resume_leads [OF m(2) turns_of_two(2)] by blast
  show ?thesis
    using fair_leads [OF m(1) dialog_facts(1) [OF m(2)] assms(2)] m(2)
      fair_leads [OF f(1) dialog_facts(1) [OF f(2)] assms(3)] f(2) by blast
qed

text \<open>The call of the example, once accepted.\<close>

lemma demo_in_call: "\<exists>n. dialog n ''call-B-2'' 0 1 IN_CALL IN_CALL False"
proof -
  obtain n where n: "both_registered n" "ready_pair n" using demo_registered by blast
  then have h: "ims_quiet n" "reachable_ue n 0" "reachable_ue n 1" "ue_state (n_ue n 0) = REGISTERED"
    "ID_TO_IMPU ''B'' = Some (ue_impu (cfg (n_ue n 1)))" "\<not> isBarred (n_barred n) (ue_impu (cfg (n_ue n 1)))"
    "''call-B-2'' = new_call_id demo_mem (n_ue n 0) ''B''"
    by (simp_all add: ready_pair_def phone_cfg_facts ID_TO_IMPU_def isBarred_def)
  obtain m where "dialog m ''call-B-2'' 0 1 CALLING RINGING False"
    using call_leads [OF h(1) zero_neq_one h(2-7) ready_fresh [OF n(2)] turns_of_two(2)] by blast
  from accept_leads [OF this turns_of_two(1)] show ?thesis by blast
qed

theorem ims_hold_resume_witness:
  "\<exists>n m f. dialog n ''call-B-2'' 0 1 IN_CALL IN_CALL False
     \<and> ims_run (ims_command demo_mem n 0 ''HOLD'') (concat (demo_rounds 7)) = Done m \<and> ue_state (n_ue m 0) = ON_HOLD
     \<and> ims_run (ims_command demo_mem m 0 ''RESUME'') (concat (demo_rounds 7)) = Done f \<and> ue_state (n_ue f 0) = IN_CALL"
proof -
  obtain n where n: "dialog n ''call-B-2'' 0 1 IN_CALL IN_CALL False" using demo_in_call by blast
  have f: "ims_fair {0, 1} 7 (demo_rounds 7)" by (rule demo_fair) simp
  from ims_hold_resume [OF n f f, of demo_mem] n show ?thesis unfolding dialog_def by blast
qed


text \<open>A request to add video rings at the callee as if it were a new call: under every fair schedule of
  seven rounds the caller stays in the call and the callee leaves it for RINGING.\<close>

theorem video_rings_callee:
  assumes "dialog n cid i j IN_CALL IN_CALL held" and "ims_fair {i, j} 7 rounds"
  shows "\<exists>f. ims_run (ims_command mem n i ''VIDEO'') (concat rounds) = Done f \<and> dialog f cid i j IN_CALL RINGING held"
proof -
  obtain f where f: "leads (ims_turns {i, j}) 7 (ims_command mem n i ''VIDEO'') f" "dialog f cid i j IN_CALL RINGING held"
    using video_leads [OF assms(1) turns_of_two(2)] by blast
  show ?thesis using fair_leads [OF f(1) dialog_facts(1) [OF f(2)] assms(2)] f(2) by blast
qed

theorem video_rings_callee_witness:
  "\<exists>n f. dialog n ''call-B-2'' 0 1 IN_CALL IN_CALL False
     \<and> ims_run (ims_command demo_mem n 0 ''VIDEO'') (concat (demo_rounds 7)) = Done f \<and> ue_state (n_ue f 1) = RINGING"
proof -
  obtain n where n: "dialog n ''call-B-2'' 0 1 IN_CALL IN_CALL False" using demo_in_call by blast
  have f: "ims_fair {0, 1} 7 (demo_rounds 7)" by (rule demo_fair) simp
  from video_rings_callee [OF n f, of demo_mem] n show ?thesis unfolding dialog_def by blast
qed

subsection \<open>Endings\<close>

text \<open>The BYE of the caller never reaches the callee: after any sequence of turns the callee's phone is
  exactly as before the BYE, still in the call, while the caller's is back to REGISTERED.\<close>

theorem bye_never_reaches_callee:
  assumes "dialog n cid i j IN_CALL sj held" and "ims_run (ims_command mem n i ''BYE'') ts = Done f"
  shows "n_ue f j = n_ue n j \<and> n_down f j = [] \<and> ue_state (n_ue f i) = REGISTERED"
proof -
  have "after_bye n cid i f"
    using run_turns_inv [where I = "after_bye n cid i", OF after_bye_step [OF assms(1)] bye_starts [OF assms(1)] assms(2)] .
  then show ?thesis using dialog_facts(2) [OF assms(1)] by (simp add: after_bye_def)
qed

theorem bye_never_reaches_callee_witness:
  "\<exists>n f. dialog n ''call-B-2'' 0 1 IN_CALL IN_CALL False
     \<and> ims_run (ims_command demo_mem n 0 ''BYE'') (concat (demo_rounds 0)) = Done f
     \<and> ue_state (n_ue f 1) = IN_CALL \<and> ue_state (n_ue f 0) = REGISTERED"
proof -
  obtain n where n: "dialog n ''call-B-2'' 0 1 IN_CALL IN_CALL False" using demo_in_call by blast
  let ?f = "ims_command demo_mem n 0 ''BYE''"
  have "ims_run ?f (concat (demo_rounds 0)) = Done ?f" by (simp add: demo_rounds_def)
  from bye_never_reaches_callee [OF n this] this n show ?thesis by (intro exI [of _ n] exI [of _ ?f]) (simp add: dialog_def)
qed

lemma barring_keeps:
  "ims_quiet (n\<lparr> n_barred := b \<rparr>) = ims_quiet n" "reachable_ue (n\<lparr> n_barred := b \<rparr>) i = reachable_ue n i"
  by (simp_all add: ims_quiet_def reachable_ue_def connected_def)

text \<open>A call to a barred number is never refused: under every fair schedule of six rounds the caller ends
  in CALLING with nothing on the way, no call at the S-CSCF, a stale route at the P-CSCF, and a
  repeated CALL does nothing.\<close>

theorem barred_caller_waits:
  assumes "ims_quiet n" and "reachable_ue n i" and "ue_state (n_ue n i) = REGISTERED"
    and "ID_TO_IMPU t = Some b" and "isBarred (n_barred n) b"
    and "length (new_call_id mem (n_ue n i) t) \<le> 1000" and "calls (n_scscf n) (new_call_id mem (n_ue n i) t) = None"
    and "ims_fair {i} 6 rounds"
  shows "\<exists>f. ims_run (ims_command mem n i (''CALL '' @ t)) (concat rounds) = Done f \<and> ims_quiet f
     \<and> ue_state (n_ue f i) = CALLING \<and> calls (n_scscf f) (new_call_id mem (n_ue n i) t) = None
     \<and> call_to_caller (n_pcscf f) (new_call_id mem (n_ue n i) t) = Some (ue_impu (cfg (n_ue n i)))
     \<and> ims_command mem f i (''CALL '' @ t) = f"
proof -
  let ?cid = "new_call_id mem (n_ue n i) t"
  obtain f where f: "leads (ims_turns {i}) 6 (ims_command mem n i (''CALL '' @ t)) f" "ims_quiet f"
      "ue_state (n_ue f i) = CALLING" "calls (n_scscf f) ?cid = None"
      "call_to_caller (n_pcscf f) ?cid = Some (ue_impu (cfg (n_ue n i)))"
    using barred_leads [OF assms(1-5) refl assms(6,7) turns_of_one] by blast
  have "ims_command mem f i (''CALL '' @ t) = f"
    unfolding ims_command_def call_line [OF assms(4)] using f(3) by (simp add: doCall_def)
  with fair_leads [OF f(1,2) assms(8)] f(2-5) show ?thesis by blast
qed

theorem barred_caller_waits_witness:
  "\<exists>n f. both_registered n
     \<and> ims_run (ims_command demo_mem (server_command n ''BARR B'') 0 (''CALL '' @ ''B'')) (concat (demo_rounds 6)) = Done f
     \<and> ims_quiet f \<and> ue_state (n_ue f 0) = CALLING"
proof -
  obtain n where n: "both_registered n" "ready_pair n" using demo_registered by blast
  let ?n = "server_command n ''BARR B''"
  have s: "?n = n\<lparr> n_barred := setBarred (n_barred n) IMPU_B True \<rparr>"
    by (simp add: server_command_def impu_of_id_def)
  have h: "ims_quiet ?n" "reachable_ue ?n 0" "ue_state (n_ue ?n 0) = REGISTERED" "ID_TO_IMPU ''B'' = Some IMPU_B"
    "isBarred (n_barred ?n) IMPU_B" "length (new_call_id demo_mem (n_ue ?n 0) ''B'') \<le> 1000"
    "calls (n_scscf ?n) (new_call_id demo_mem (n_ue ?n 0) ''B'') = None"
    using n(2) unfolding s
    by (simp_all add: ready_pair_def barring_keeps ID_TO_IMPU_def isBarred_def setBarred_def)
  have f: "ims_fair {0} 6 (demo_rounds 6)" by (rule demo_fair) simp
  from barred_caller_waits [OF h f] n(1) show ?thesis by blast
qed

subsection \<open>SIP texts\<close>

text \<open>Every SIP text is framed: for all arguments without line breaks the header lines of each of the
  nineteen builders end at one empty line and the Content-Length is the length of what follows it.\<close>

theorem sip_texts_framed:
  assumes "text_line from" and "text_line to" and "text_line third" and "text_line ip" and "text_line cid"
    and "text_line state"
  shows "list_all framed (sip_texts from to third ip cid n port state body)"
  by (rule sip_texts_framed_aux [OF assms])

theorem sip_texts_framed_witness:
  "list_all framed (sip_texts ''sip:a'' ''sip:b'' ''sip:c'' ''10.0.0.1'' ''id'' 7 50000 ''active'' ''v=0'')"
  by (rule sip_texts_framed) (simp_all add: text_line_def)

end
