(* ===== verification/Ims_Identity.thy ===== *)
theory Ims_Identity
  imports Ims_System
begin

text \<open>
  Whose identity is whose: an invariant of every state that phones, server console, new
  connections and turns of the threads can reach from the started server. The proxy routes a
  public identity only to the connection of the phone that has it, the registrar binds it only
  to the data of that phone, and nothing is delivered to a phone that is not routed.
\<close>

subsection \<open>Reachable states\<close>

text \<open>Phone \<open>i\<close> has the configuration \<open>cs i\<close>; at most \<open>k\<close> phones connect.\<close>

inductive ims_reach :: "(nat \<Rightarrow> UeConfig) \<Rightarrow> nat \<Rightarrow> ims_net \<Rightarrow> bool" for cs k where
  reach_start: "ims_reach cs k (ims_init cs 0)"
| reach_connect: "\<lbrakk> ims_reach cs k n; length (ue_sessions (n_pcscf n)) < k \<rbrakk>
    \<Longrightarrow> ims_reach cs k (n\<lparr> n_pcscf := acceptUe (n_pcscf n) \<rparr>)"
| reach_command: "ims_reach cs k n \<Longrightarrow> ims_reach cs k (ims_command mem n i line)"
| reach_server: "ims_reach cs k n \<Longrightarrow> ims_reach cs k (server_command n line)"
| reach_turn: "\<lbrakk> ims_reach cs k n; ims_step n t = Done n' \<rbrakk> \<Longrightarrow> ims_reach cs k n'"

definition own_register :: "UeConfig \<Rightarrow> bytes \<Rightarrow> bool" where
  "own_register c p \<longleftrightarrow> (msg_type_of p = SIP_REGISTER \<longrightarrow> (\<exists>q. p = sip_message SIP_REGISTER q (register_fields c)))"

definition routed :: "pcscf_state \<Rightarrow> string \<Rightarrow> nat \<Rightarrow> bool" where
  "routed s x i \<longleftrightarrow> ue_by_impu s x = Some i"

definition phones_ok :: "(nat \<Rightarrow> UeConfig) \<Rightarrow> (nat \<Rightarrow> UeSimulator) \<Rightarrow> (nat \<Rightarrow> bytes list) \<Rightarrow> bool" where
  "phones_ok cs us q \<longleftrightarrow> (\<forall>i. cfg (us i) = cs i \<and> list_all (own_register (cs i)) (q i))"

definition requests_ok :: "(nat \<Rightarrow> UeConfig) \<Rightarrow> pcscf_state \<Rightarrow> bytes list \<Rightarrow> bool" where
  "requests_ok cs s q \<longleftrightarrow> (\<forall>p\<in>set q. msg_type_of p = SIP_REGISTER \<longrightarrow>
     (\<exists>i q. routed s (ue_impu (cs i)) i \<and> p = sip_message SIP_REGISTER q (register_fields (cs i))))"

definition routes_ok :: "(nat \<Rightarrow> UeConfig) \<Rightarrow> nat \<Rightarrow> pcscf_state \<Rightarrow> bool" where
  "routes_ok cs k s \<longleftrightarrow> length (ue_sessions s) \<le> k
     \<and> (\<forall>x i. routed s x i \<longrightarrow> i < length (ue_sessions s) \<and> x = ue_impu (cs i))"

definition bindings_ok :: "(nat \<Rightarrow> UeConfig) \<Rightarrow> pcscf_state \<Rightarrow> (string \<rightharpoonup> ImsSubscriber) \<Rightarrow> bool" where
  "bindings_ok cs s reg \<longleftrightarrow> (\<forall>x sub. reg x = Some sub \<longrightarrow> (\<exists>i. routed s x i \<and> sub = subscriber (cs i)))"

definition reached_ok :: "(nat \<Rightarrow> UeConfig) \<Rightarrow> pcscf_state \<Rightarrow> (nat \<Rightarrow> bytes list) \<Rightarrow> (nat \<Rightarrow> UeSimulator) \<Rightarrow> bool" where
  "reached_ok cs s q us \<longleftrightarrow> (\<forall>i. q i \<noteq> [] \<or> ue_state (us i) \<notin> {IDLE, REGISTERING} \<longrightarrow> routed s (ue_impu (cs i)) i)"

definition identities_ok :: "(nat \<Rightarrow> UeConfig) \<Rightarrow> nat \<Rightarrow> ims_net \<Rightarrow> bool" where
  "identities_ok cs k n \<longleftrightarrow> phones_ok cs (n_ue n) (n_up n) \<and> requests_ok cs (n_pcscf n) (to_scscf n)
     \<and> routes_ok cs k (n_pcscf n) \<and> bindings_ok cs (n_pcscf n) (registrar (n_scscf n))
     \<and> reached_ok cs (n_pcscf n) (n_down n) (n_ue n)"

subsection \<open>Phones\<close>

lemma own_register_other [simp]: "ty \<noteq> SIP_REGISTER \<Longrightarrow> own_register c (sip_message ty q fs)"
  by (simp add: own_register_def)

lemma ue_send_keeps:
  "cfg (fst (ue_send u ty fs)) = cfg u" "ue_state (fst (ue_send u ty fs)) = ue_state u"
  "snd (ue_send u ty fs) = [sip_message ty (ue_seq u) fs]"
  by (simp_all add: ue_send_def)

definition keeps_phone :: "UeSimulator \<Rightarrow> UeSimulator \<times> bytes list \<Rightarrow> bool" where
  "keeps_phone u r \<longleftrightarrow> cfg (fst r) = cfg u \<and> list_all (own_register (cfg u)) (snd r)
     \<and> (ue_state (fst r) \<notin> {IDLE, REGISTERING} \<longrightarrow> ue_state u \<notin> {IDLE, REGISTERING})"

lemma operations_keep:
  "keeps_phone u (doRegister u)" "keeps_phone u (doAccept u)" "keeps_phone u (doReject u)" "keeps_phone u (doHold u)"
  "keeps_phone u (doResume u)" "keeps_phone u (doBye u)" "keeps_phone u (doUpdate u)" "keeps_phone u (doVideo u)"
  "keeps_phone u (doVoice u)" "keeps_phone u (u, [])" "keeps_phone u (doCall mem u x)" "keeps_phone u (doConference u x)"
  by (auto simp: keeps_phone_def doRegister_def doAccept_def doReject_def doHold_def doResume_def doBye_def doUpdate_def
      doVideo_def doVoice_def doCall_def doConference_def ue_send_keeps Let_def own_register_def register_fields_def
      split: option.splits)

lemma command_ok: "keeps_phone u (ue_command mem u line)"
proof (cases "next_word line")
  case (Pair w r)
  show ?thesis unfolding ue_command_def Pair Let_def prod.case by (simp only: operations_keep if_split simp_thms)
qed

lemma incoming_ok:
  assumes "handleIncoming u p = Done (u', out)"
  shows "cfg u' = cfg u \<and> list_all (own_register c) out"
  using assms
  by (auto simp: handleIncoming_def from_read_def ue_200_ok_def ue_ack_def ue_send_def ue_invite_def Let_def
      split: option.splits if_splits)

subsection \<open>Servers\<close>

lemma proxy_registers:
  assumes "handleFromUe s i p = Done (s', out, fgt)"
  shows "out = [p] \<and> length (ue_sessions s') = length (ue_sessions s)
     \<and> (msg_type_of p \<noteq> SIP_REGISTER \<longrightarrow> ue_by_impu s' = ue_by_impu s)"
  using assms
  by (auto simp: handleFromUe_def from_read_def note_register_def note_invite_def Let_def split: option.splits if_splits)

lemma proxy_delivers:
  assumes "handleFromScscf s p = Done (s', out)"
  shows "ue_by_impu s' = ue_by_impu s \<and> length (ue_sessions s') = length (ue_sessions s)
     \<and> (\<forall>i m. (i, m) \<in> set out \<longrightarrow> (\<exists>x. routed s x i))"
  using assms
  by (auto simp: handleFromScscf_def from_read_def deliver_invite_def deliver_ok_def ringing_def note_delivery_def
      mark_registered_def send_known_def sendToUe_def routed_def Let_def split: option.splits if_splits)

lemma registrar_changes:
  assumes "scscf_receive cx b s p = Done (s', out)" "msg_type_of p \<noteq> SIP_REGISTER"
  shows "registrar s' = registrar s"
  using assms
  by (auto simp: scscf_receive_def handleInvite_def handleReInvite_def handleAck_def handle200Ok_def handleBye_def
      handleUpdate_def from_read_def sendSipResponse_def set_call_def conference_invite_def Let_def
      split: option.splits if_splits prod.splits)

lemma registrar_registers:
  assumes "ue_cfg_ok c" "scscf_receive cx b s (sip_message SIP_REGISTER q (register_fields c)) = Done (s', out)"
  shows "registrar s' = (registrar s)(ue_impu c \<mapsto> subscriber c)"
  using assms register_texts [OF assms(1)]
  by (auto simp: scscf_receive_def handleRegister_def register_request_def sip_fields_written sendCxSAR_def
      sendSipResponse_def Let_def subscriber_def split: outcome.splits)
    (simp_all add: register_fields_def)


subsection \<open>Every step keeps the invariant\<close>

text \<open>The parts of the invariant survive more routes, and updates of one phone.\<close>

lemma more_routes:
  assumes "\<And>x i. routed s x i \<Longrightarrow> routed s' x i"
  shows "requests_ok cs s q \<Longrightarrow> requests_ok cs s' q" "bindings_ok cs s reg \<Longrightarrow> bindings_ok cs s' reg"
    "reached_ok cs s d us \<Longrightarrow> reached_ok cs s' d us"
  using assms unfolding requests_ok_def bindings_ok_def reached_ok_def by blast+

lemma same_routes:
  assumes "ue_by_impu s' = ue_by_impu s"
  shows "routed s' = routed s" "requests_ok cs s' = requests_ok cs s" "bindings_ok cs s' = bindings_ok cs s"
    "reached_ok cs s' = reached_ok cs s"
    "length (ue_sessions s') = length (ue_sessions s) \<Longrightarrow> routes_ok cs k s' = routes_ok cs k s"
  using assms by (simp_all add: routed_def requests_ok_def bindings_ok_def reached_ok_def routes_ok_def fun_eq_iff)

lemma phones_upd:
  "\<lbrakk> phones_ok cs us q; cfg u = cs i; list_all (own_register (cs i)) l \<rbrakk> \<Longrightarrow> phones_ok cs (us(i := u)) (q(i := l))"
  "\<lbrakk> phones_ok cs us q; list_all (own_register (cs i)) l \<rbrakk> \<Longrightarrow> phones_ok cs us (q(i := l))"
  by (simp_all add: phones_ok_def)

lemma reached_upd:
  "\<lbrakk> reached_ok cs s q us; routed s (ue_impu (cs i)) i \<rbrakk> \<Longrightarrow> reached_ok cs s (q(i := l)) (us(i := u))"
  "\<lbrakk> reached_ok cs s q us; ue_state u \<notin> {IDLE, REGISTERING} \<longrightarrow> ue_state (us i) \<notin> {IDLE, REGISTERING} \<rbrakk>
    \<Longrightarrow> reached_ok cs s q (us(i := u))"
  by (simp_all add: reached_ok_def)

lemma ok_phone_turn:
  assumes n: "identities_ok cs k n" and s: "ims_step n (UeRx i) = Done n'" and e: "ims_enabled n (UeRx i)"
  shows "identities_ok cs k n'"
proof -
  from e obtain p r where p: "n_down n i = p # r" by (auto simp: ims_enabled_def dest: waiting_split)
  from s e p obtain u out where u: "handleIncoming (n_ue n i) p = Done (u, out)"
    "n' = n\<lparr> n_ue := (n_ue n)(i := u), n_down := (n_down n)(i := r), n_up := (n_up n)(i := n_up n i @ out) \<rparr>"
    by (auto simp: ims_step_def split: outcome.splits)
  have "routed (n_pcscf n) (ue_impu (cs i)) i" using n p by (simp add: identities_ok_def reached_ok_def)
  moreover have "cfg u = cs i" "list_all (own_register (cs i)) (n_up n i @ out)"
    using incoming_ok [OF u(1), of "cs i"] n by (simp_all add: identities_ok_def phones_ok_def)
  ultimately show ?thesis using n u(2) by (simp add: identities_ok_def phones_upd reached_upd)
qed

lemma ok_proxy_turn:
  assumes n: "identities_ok cs k n" and c: "inj_on (\<lambda>i. ue_impu (cs i)) {..<k}" "\<forall>i<k. ue_cfg_ok (cs i)"
    and s: "ims_step n (UeThread i) = Done n'" and e: "ims_enabled n (UeThread i)"
  shows "identities_ok cs k n'"
proof (cases "n_forget n i")
  case (Some cid)
  have "ue_by_impu (forget_call (n_pcscf n) cid) = ue_by_impu (n_pcscf n)"
    "length (ue_sessions (forget_call (n_pcscf n) cid)) = length (ue_sessions (n_pcscf n))"
    by (simp_all add: forget_call_def)
  note same_routes(2-4) [OF this(1)] same_routes(5) [OF this]
  moreover have "n' = n\<lparr> n_pcscf := forget_call (n_pcscf n) cid, n_forget := (n_forget n)(i := None) \<rparr>"
    using s e Some by (simp add: ims_step_def)
  ultimately show ?thesis using n by (simp add: identities_ok_def)
next
  case None
  with e obtain p r where p: "n_up n i = p # r" by (auto simp: ims_enabled_def dest: waiting_split)
  from s e p None obtain s1 out fgt where h: "handleFromUe (n_pcscf n) i p = Done (s1, out, fgt)"
    "n' = n\<lparr> n_pcscf := s1, n_up := (n_up n)(i := r), to_scscf := to_scscf n @ out, n_forget := (n_forget n)(i := fgt) \<rparr>"
    by (auto simp: ims_step_def split: outcome.splits)
  note k = proxy_registers [OF h(1)]
  have i: "i < k" "i < length (ue_sessions (n_pcscf n))"
    using e n by (auto simp: ims_enabled_def connected_def identities_ok_def routes_ok_def)
  have own: "own_register (cs i) p" "list_all (own_register (cs i)) r"
  proof -
    have "list_all (own_register (cs i)) (n_up n i)" using n by (simp add: identities_ok_def phones_ok_def)
    then show "own_register (cs i) p" "list_all (own_register (cs i)) r" by (simp_all add: p)
  qed
  have by_p: "msg_type_of p \<noteq> SIP_REGISTER \<and> ue_by_impu s1 = ue_by_impu (n_pcscf n)
      \<or> ue_by_impu s1 = (ue_by_impu (n_pcscf n))(ue_impu (cs i) \<mapsto> i) \<and> (\<exists>q. p = sip_message SIP_REGISTER q (register_fields (cs i)))"
  proof (cases "msg_type_of p = SIP_REGISTER")
    case True
    with own obtain q where q: "p = sip_message SIP_REGISTER q (register_fields (cs i))" by (auto simp: own_register_def)
    with register_at_pcscf [of "cs i" "n_pcscf n" i q] c(2) i(1) h(1) True show ?thesis by (auto simp: note_register_def)
  qed (use k in simp)
  have routes: "routed (n_pcscf n) x j \<Longrightarrow> j < length (ue_sessions (n_pcscf n)) \<and> x = ue_impu (cs j)"
    "length (ue_sessions (n_pcscf n)) \<le> k" for x j
    using n by (simp_all add: identities_ok_def routes_ok_def)
  have kept: "routed s1 x j" if "routed (n_pcscf n) x j" for x j
  proof -
    have "j < k" "x = ue_impu (cs j)" using routes that by force+
    with c(1) i(1) have "x = ue_impu (cs i) \<Longrightarrow> j = i" by (auto dest: inj_onD)
    with by_p that show ?thesis by (auto simp: routed_def)
  qed
  have "routes_ok cs k s1"
    unfolding routes_ok_def using routes k by_p i(2) by (auto simp: routed_def split: if_splits)
  moreover have "requests_ok cs s1 (to_scscf n @ out)"
  proof -
    have "requests_ok cs s1 (to_scscf n)" using n more_routes(1) [OF kept] by (simp add: identities_ok_def)
    moreover have "requests_ok cs s1 [p]" using by_p by (auto simp: requests_ok_def routed_def)
    ultimately show ?thesis using k by (auto simp: requests_ok_def)
  qed
  ultimately show ?thesis
    using n h(2) own(2) more_routes(2,3) [OF kept] by (simp add: identities_ok_def phones_upd)
qed

lemma ok_delivery_turn:
  assumes n: "identities_ok cs k n" and s: "ims_step n ScscfRx = Done n'" and e: "ims_enabled n ScscfRx"
  shows "identities_ok cs k n'"
proof -
  from s e obtain s1 out where h: "handleFromScscf (n_pcscf n) (hd (to_pcscf n)) = Done (s1, out)"
    "n' = n\<lparr> n_pcscf := s1, to_pcscf := tl (to_pcscf n), n_down := deliver out (n_down n) \<rparr>"
    by (auto simp: step_ScscfRx)
  note k = proxy_delivers [OF h(1)]
  have "routed (n_pcscf n) (ue_impu (cs i)) i" if "deliver out (n_down n) i \<noteq> []" for i
  proof (cases "n_down n i = []")
    case False
    then show ?thesis using n by (simp add: identities_ok_def reached_ok_def)
  next
    case True
    with that obtain m where "(i, m) \<in> set out" using set_deliver [of _ out "n_down n" i] by (metis ex_in_conv empty_set set_empty)
    with k obtain x where x: "routed (n_pcscf n) x i" by blast
    with n have "x = ue_impu (cs i)" by (simp add: identities_ok_def routes_ok_def)
    with x show ?thesis by simp
  qed
  then have "reached_ok cs (n_pcscf n) (deliver out (n_down n)) (n_ue n)"
    using n by (auto simp: identities_ok_def reached_ok_def deliver_def)
  with n h(2) k show ?thesis using same_routes [of s1 "n_pcscf n"] by (simp add: identities_ok_def)
qed

lemma ok_scscf_turn:
  assumes n: "identities_ok cs k n" and c: "\<forall>i<k. ue_cfg_ok (cs i)"
    and s: "ims_step n ScscfTurn = Done n'" and e: "ims_enabled n ScscfTurn"
  shows "identities_ok cs k n'"
proof -
  from e obtain p r where p: "to_scscf n = p # r" by (auto simp: ims_enabled_def dest: waiting_split)
  from s e p obtain x out where h: "scscf_receive (hss_answer (n_hss n)) (n_barred n) (n_scscf n) p = Done (x, out)"
    "n' = n\<lparr> n_scscf := x, n_hss := hss_after (n_hss n) (n_scscf n) p, to_scscf := r, to_pcscf := to_pcscf n @ out \<rparr>"
    by (auto simp: ims_step_def split: outcome.splits)
  have b: "bindings_ok cs (n_pcscf n) (registrar x)"
  proof (cases "msg_type_of p = SIP_REGISTER")
    case False
    with n registrar_changes [OF h(1)] show ?thesis by (simp add: identities_ok_def)
  next
    case True
    with n p obtain i q where i: "routed (n_pcscf n) (ue_impu (cs i)) i" "p = sip_message SIP_REGISTER q (register_fields (cs i))"
      by (auto simp: identities_ok_def requests_ok_def)
    have "i < k" using i(1) n by (auto simp: identities_ok_def routes_ok_def intro: less_le_trans)
    then have "ue_cfg_ok (cs i)" using c by simp
    from registrar_registers [OF this h(1) [unfolded i(2)]] i(1) n show ?thesis
      by (auto simp: identities_ok_def bindings_ok_def)
  qed
  have "requests_ok cs (n_pcscf n) r" using n p by (simp add: identities_ok_def requests_ok_def)
  with b n h(2) show ?thesis by (simp add: identities_ok_def)
qed


lemma ok_start: "identities_ok cs k (ims_init cs 0)"
  by (simp add: identities_ok_def phones_ok_def requests_ok_def routes_ok_def bindings_ok_def reached_ok_def routed_def
      ims_init_def ue_init_def pcscf_init_def scscf_init_def)

lemma ok_connect:
  assumes "identities_ok cs k n" "length (ue_sessions (n_pcscf n)) < k"
  shows "identities_ok cs k (n\<lparr> n_pcscf := acceptUe (n_pcscf n) \<rparr>)"
  using assms same_routes [of "acceptUe (n_pcscf n)" "n_pcscf n"]
  by (auto simp: identities_ok_def acceptUe_def routes_ok_def less_Suc_eq)

lemma ok_command:
  assumes "identities_ok cs k n"
  shows "identities_ok cs k (ims_command mem n i line)"
proof -
  obtain u out where u: "ue_command mem (n_ue n i) line = (u, out)" by fastforce
  with command_ok [of "n_ue n i" mem line] have "cfg u = cfg (n_ue n i)" "list_all (own_register (cfg (n_ue n i))) out"
    "ue_state u \<notin> {IDLE, REGISTERING} \<longrightarrow> ue_state (n_ue n i) \<notin> {IDLE, REGISTERING}"
    by (simp_all add: keeps_phone_def)
  moreover have "cfg (n_ue n i) = cs i" "list_all (own_register (cs i)) (n_up n i)"
    using assms by (simp_all add: identities_ok_def phones_ok_def)
  ultimately show ?thesis
    using assms u by (simp add: ims_command_def identities_ok_def phones_upd reached_upd(2))
qed

lemma ok_server: "identities_ok cs k n \<Longrightarrow> identities_ok cs k (server_command n line)"
  by (simp add: server_command_def identities_ok_def)

lemma ims_reach_ok:
  assumes "ims_reach cs k n" "inj_on (\<lambda>i. ue_impu (cs i)) {..<k}" "\<forall>i<k. ue_cfg_ok (cs i)"
  shows "identities_ok cs k n"
  using assms(1)
proof induction
  case (reach_turn n t n')
  show ?case
  proof (cases "ims_enabled n t")
    case False
    with reach_turn ims_idle_step show ?thesis by simp
  next
    case True
    with reach_turn assms(2,3) ok_phone_turn ok_proxy_turn ok_delivery_turn ok_scscf_turn show ?thesis
      by (cases t) blast+
  qed
qed (simp_all add: ok_start ok_connect ok_command ok_server)

lemma reach_run: "\<lbrakk> ims_reach cs k n; ims_run n ts = Done n' \<rbrakk> \<Longrightarrow> ims_reach cs k n'"
  by (rule run_turns_inv [where I = "ims_reach cs k" and turn = ims_step, OF reach_turn])

subsection \<open>The property\<close>

text \<open>C13. Identities stay with their phones: in every reachable state the proxy routes an identity only to the
  connected phone that has it, the registrar binds it only to the data of a routed phone, and a phone
  beyond REGISTERING is routed.\<close>

theorem ims_identities:
  assumes "ims_reach cs k n" and "inj_on (\<lambda>i. ue_impu (cs i)) {..<k}" and "\<forall>i<k. ue_cfg_ok (cs i)"
  shows "(\<forall>x i. ue_by_impu (n_pcscf n) x = Some i \<longrightarrow> connected n i \<and> x = ue_impu (cs i))
     \<and> (\<forall>x sub. registrar (n_scscf n) x = Some sub \<longrightarrow> (\<exists>i. ue_by_impu (n_pcscf n) x = Some i \<and> sub = subscriber (cs i)))
     \<and> (\<forall>i. ue_state (n_ue n i) \<notin> {IDLE, REGISTERING} \<longrightarrow> ue_by_impu (n_pcscf n) (ue_impu (cs i)) = Some i)"
  using ims_reach_ok [OF assms]
  by (simp add: identities_ok_def routes_ok_def bindings_ok_def reached_ok_def routed_def connected_def)

lemma demo_reach: "both_registered n \<Longrightarrow> ims_reach phone_cfg 3 n"
proof -
  have init: "ims_init phone_cfg k = (ims_init phone_cfg 0)\<lparr> n_pcscf := (acceptUe ^^ k) pcscf_init \<rparr>" for k
    by (simp add: ims_init_def)
  have "ims_reach phone_cfg 3 (ims_init phone_cfg (min k 3))" for k
  proof (induction k)
    case (Suc k)
    show ?case
    proof (cases "k < 3")
      case True
      with Suc have "ims_reach phone_cfg 3 ((ims_init phone_cfg k)\<lparr> n_pcscf := acceptUe (n_pcscf (ims_init phone_cfg k)) \<rparr>)"
        by (intro reach_connect) (simp_all add: ims_init_def accept_sessions pcscf_init_def)
      with True show ?thesis by (simp add: init [of "Suc k"] init [of k])
    qed (use Suc in simp)
  qed (simp add: reach_start)
  from this [of 2] have "ims_reach phone_cfg 3 (ims_init phone_cfg 2)" by simp
  then show "both_registered n \<Longrightarrow> ims_reach phone_cfg 3 n"
    unfolding both_registered_def by (elim exE conjE) (rule reach_run [OF reach_command [OF reach_run [OF reach_command]]])
qed

lemma demo_identities: "inj_on (\<lambda>i. ue_impu (phone_cfg i)) {..<3}" "\<forall>i<3. ue_cfg_ok (phone_cfg i)"
proof -
  have "ue_impu (phone_cfg 2) = IMPU_C" by (simp add: phone_cfg_def UE_CONFIGS_def)
  moreover have "{..<3::nat} = {0, 1, 2}" by auto
  ultimately show "inj_on (\<lambda>i. ue_impu (phone_cfg i)) {..<3}" by (simp add: phone_cfg_facts)
qed (simp add: phone_cfg_facts)

theorem ims_identities_witness:
  "\<exists>n. both_registered n \<and> (\<forall>x i. ue_by_impu (n_pcscf n) x = Some i \<longrightarrow> connected n i \<and> x = ue_impu (phone_cfg i))
     \<and> ue_by_impu (n_pcscf n) IMPU_A = Some 0"
proof -
  obtain n where n: "both_registered n" "ready_pair n" using demo_registered by blast
  have "ue_state (n_ue n 0) \<notin> {IDLE, REGISTERING}" using n(2) by (simp add: ready_pair_def)
  with ims_identities [OF demo_reach [OF n(1)] demo_identities] n(1) show ?thesis
    by (metis phone_cfg_facts(2))
qed

end
