(* ===== verification/Pcap_Headers.thy ===== *)
theory Pcap_Headers
  imports Byte_Order
begin

text \<open>
  The headers of captured frames (\<open>pcap_writer.cpp\<close>): Ethernet, IPv4 with its checksum, TCP,
  UDP, SCTP. Lengths are cut to 16 bits where the code casts them.
\<close>

subsection \<open>Checksum\<close>

text \<open>The sum of the 16-bit words; the code calls it with the 20 bytes of a header only.\<close>

fun sum16 :: "bytes \<Rightarrow> u32" where
  "sum16 (h # l # r) = (push_bit 8 (ucast h) OR ucast l) + sum16 r"
| "sum16 _ = 0"

function fold16 :: "u32 \<Rightarrow> u32" where
  "fold16 s = (if drop_bit 16 s = 0 then s else fold16 ((s AND 0xFFFF) + drop_bit 16 s))"
  by pat_completeness auto

lemma byte_bound: "unat (b :: byte) < 256"
  using unsigned_less [of b, where ?'a = nat] by simp

lemma u32_halves: "unat (s AND 0xFFFF) = unat (s :: u32) mod 65536" "unat (drop_bit 16 s) = unat s div 65536"
proof -
  have "s AND 0xFFFF = take_bit 16 s" by (simp add: take_bit_eq_mask mask_eq_exp_minus_1)
  then show "unat (s AND 0xFFFF) = unat s mod 65536" by (simp add: unat_mod take_bit_eq_mod)
  show "unat (drop_bit 16 s) = unat s div 65536" by (simp add: drop_bit_eq_div unat_div)
qed

lemma halves_less:
  fixes n :: nat
  shows "n < 4294967296 \<Longrightarrow> n mod 65536 + n div 65536 < 4294967296" "\<not> n < 65536 \<Longrightarrow> n mod 65536 + n div 65536 < n"
proof -
  have n: "n = 65536 * (n div 65536) + n mod 65536" by simp
  show "n < 4294967296 \<Longrightarrow> n mod 65536 + n div 65536 < 4294967296" using n by linarith
  assume "\<not> n < 65536"
  then have "0 < n div 65536" by (simp add: div_greater_zero_iff)
  then show "n mod 65536 + n div 65536 < n" using n by linarith
qed

lemma u32_fold_step: "unat ((s AND 0xFFFF) + drop_bit 16 (s :: u32)) = unat s mod 65536 + unat s div 65536"
proof -
  have "unat s < 4294967296" using unsigned_less [of s, where ?'a = nat] by simp
  from halves_less(1) [OF this] have "unat s mod 65536 + unat s div 65536 < 4294967296" .
  then show ?thesis by (simp add: unat_word_ariths u32_halves)
qed

lemma u32_high_zero: "drop_bit 16 (s :: u32) = 0 \<longleftrightarrow> unat s < 65536"
  by (simp add: unat_eq_0 [symmetric] u32_halves div_eq_0_iff)

termination fold16
proof (relation "measure unat")
  fix s :: u32
  assume "drop_bit 16 s \<noteq> 0"
  then have "\<not> unat s < 65536" by (simp add: u32_high_zero)
  from halves_less(2) [OF this] have "unat s mod 65536 + unat s div 65536 < unat s" .
  then show "((s AND 0xFFFF) + drop_bit 16 s, s) \<in> measure unat" unfolding in_measure u32_fold_step .
qed simp

declare fold16.simps [simp del]

definition ipChecksum :: "bytes \<Rightarrow> u16" where
  "ipChecksum h = NOT (ucast (fold16 (sum16 h)))"

subsection \<open>Checksums verify\<close>

text \<open>The folded sum is the sum modulo 65535, with 65535 for a positive multiple.\<close>

lemma fold16_mod: "unat (fold16 s) < 65536 \<and> unat (fold16 s) mod 65535 = unat s mod 65535 \<and> (s \<noteq> 0 \<longrightarrow> fold16 s \<noteq> 0)"
proof (induction s rule: fold16.induct)
  case (1 s)
  show ?case
  proof (cases "drop_bit 16 s = 0")
    case True
    then show ?thesis by (simp add: fold16.simps [of s] u32_high_zero)
  next
    case False
    let ?t = "(s AND 0xFFFF) + drop_bit 16 s"
    have t: "unat ?t = unat s mod 65536 + unat s div 65536" by (rule u32_fold_step)
    have big: "65536 \<le> unat s" using False by (simp add: u32_high_zero)
    then have "unat ?t \<noteq> 0" unfolding t by (simp add: div_eq_0_iff)
    then have nz: "?t \<noteq> 0" by (metis unat_0)
    have "unat ?t mod 65535 = unat s mod 65535"
    proof -
      have "unat s = 65535 * (unat s div 65536) + unat ?t"
        unfolding t using div_mult_mod_eq [of "unat s" 65536] by simp
      then show ?thesis by (metis mod_mult_self4)
    qed
    with 1 [OF False] nz show ?thesis by (simp add: fold16.simps [of s] False)
  qed
qed

fun word_sum :: "bytes \<Rightarrow> nat" where
  "word_sum (h # l # r) = 256 * unat h + unat l + word_sum r"
| "word_sum _ = 0"

lemma pair_value: "unat (push_bit 8 (ucast (h :: byte)) OR ucast (l :: byte) :: u32) = 256 * unat h + unat l"
proof -
  have "push_bit 8 (ucast h) OR ucast l = (push_bit 8 (ucast h) + ucast l :: u32)"
    by (rule disjunctive_add_eq_or [symmetric])
      (rule bit_word_eqI, auto simp: bit_simps dest: byte_bit_bound)
  moreover have "unat h < 256" "unat l < 256" by (rule byte_bound)+
  ultimately show ?thesis
    by (simp add: push_bit_eq_mult unat_word_ariths unsigned_ucast_eq take_bit_nat_eq_self)
qed

lemma sum16_value: "length b \<le> 65536 \<Longrightarrow> unat (sum16 b) = word_sum b \<and> word_sum b \<le> 65535 * length b"
proof (induction b rule: sum16.induct)
  case (1 h l r)
  have "unat h < 256" "unat l < 256" by (rule byte_bound)+
  with 1 show ?case by (simp add: unat_word_ariths pair_value)
qed simp_all


subsection \<open>Frames\<close>

definition buildEthernet :: bytes where
  "buildEthernet = replicate 6 0x02 @ replicate 6 0x01 @ [0x08, 0x00]"

definition ip_unsummed :: "byte \<Rightarrow> u16 \<Rightarrow> u32 \<Rightarrow> u32 \<Rightarrow> u32 \<Rightarrow> bytes" where
  "ip_unsummed proto size16 pid src dst =
     [0x45, 0x00] @ be16 size16 @ be16 (ucast pid) @ be16 0x4000 @ [64, proto] @ be16 0 @ be32 src @ be32 dst"

text \<open>The two checksum bytes are put in at 10 and 11 afterwards.\<close>

definition ip_header :: "byte \<Rightarrow> u16 \<Rightarrow> u32 \<Rightarrow> u32 \<Rightarrow> u32 \<Rightarrow> bytes" where
  "ip_header proto size16 pid src dst =
     (let ip = ip_unsummed proto size16 pid src dst; ck = ipChecksum ip in ip[10 := byte_at 1 ck, 11 := byte_at 0 ck])"

definition tcp_header :: "u16 \<Rightarrow> u16 \<Rightarrow> byte \<Rightarrow> u32 \<Rightarrow> u32 \<Rightarrow> bytes" where
  "tcp_header sport dport flags seq ack =
     be16 sport @ be16 dport @ be32 seq @ be32 (if flags \<noteq> 0x02 then ack else 0)
     @ [0x50, flags] @ be16 65535 @ be16 0 @ be16 0"

definition buildIPTCP ::
    "u32 \<Rightarrow> u32 \<Rightarrow> u16 \<Rightarrow> u32 \<Rightarrow> u16 \<Rightarrow> bytes \<Rightarrow> byte \<Rightarrow> u32 \<Rightarrow> u32 \<Rightarrow> bytes" where
  "buildIPTCP pid src sport dst dport payload flags seq ack =
     buildEthernet @ ip_header 6 (word_of_nat (20 + 20 + length payload)) pid src dst
     @ tcp_header sport dport flags seq ack @ payload"

definition buildIPUDP :: "u32 \<Rightarrow> u32 \<Rightarrow> u16 \<Rightarrow> u32 \<Rightarrow> u16 \<Rightarrow> bytes \<Rightarrow> bytes" where
  "buildIPUDP pid src sport dst dport payload =
     (let udp_len = word_of_nat (8 + length payload) :: u16
      in buildEthernet @ ip_header 17 (20 + udp_len) pid src dst
         @ be16 sport @ be16 dport @ be16 udp_len @ be16 0 @ payload)"

text \<open>Chunks are padded to four bytes; the chunk length does not count the padding.\<close>

definition chunk_pad :: "bytes \<Rightarrow> nat" where
  "chunk_pad payload = (4 - (16 + length payload) mod 4) mod 4"

definition sctp_chunk :: "bytes \<Rightarrow> u32 \<Rightarrow> u16 \<Rightarrow> u32 \<Rightarrow> bytes" where
  "sctp_chunk payload tsn ssn ppid =
     [0x00, 0x03] @ be16 (word_of_nat (16 + length payload)) @ be32 tsn @ be16 0 @ be16 ssn @ be32 ppid"

definition sctp_frame :: "u32 \<Rightarrow> u32 \<Rightarrow> u16 \<Rightarrow> u32 \<Rightarrow> u16 \<Rightarrow> bytes \<Rightarrow> u32 \<Rightarrow> u16 \<Rightarrow> u32 \<Rightarrow> bytes" where
  "sctp_frame pid src sport dst dport payload tsn ssn ppid =
     buildEthernet @ ip_header 132 (word_of_nat (20 + 12 + 16 + length payload + chunk_pad payload)) pid src dst
     @ be16 sport @ be16 dport @ be32 0x12345678 @ be32 0
     @ sctp_chunk payload tsn ssn ppid @ payload @ replicate (chunk_pad payload) 0"

lemma header_lengths [simp]:
  "length buildEthernet = 14" "length (ip_unsummed p n i s d) = 20" "length (ip_header p n i s d) = 20"
  "length (tcp_header sp dp f q a) = 20"
  by (simp_all add: buildEthernet_def ip_unsummed_def ip_header_def tcp_header_def be16_def be32_def Let_def)

lemma frame_lengths:
  "length (buildIPTCP i s sp d dp b f q a) = 54 + length b" "length (buildIPUDP i s sp d dp b) = 42 + length b"
  by (simp_all add: buildIPTCP_def buildIPUDP_def be16_def Let_def)

lemma sctp_aligned: "length (sctp_frame i s sp d dp b tsn ssn ppid) mod 4 = 2"
proof -
  have pad: "(x + (4 - x mod 4) mod 4) mod 4 = 0" for x :: nat
  proof -
    have "(x + (4 - x mod 4) mod 4) mod 4 = (x mod 4 + (4 - x mod 4)) mod 4"
      by (simp only: mod_add_right_eq mod_add_left_eq)
    also have "x mod 4 + (4 - x mod 4) = 4" by simp
    finally show ?thesis by simp
  qed
  have "(46 + y) mod 4 = 2" if "y mod 4 = 0" for y :: nat
    using that by presburger
  from this [OF pad [of "16 + length b"]] have "(62 + length b + chunk_pad b) mod 4 = 2"
    by (simp add: chunk_pad_def ac_simps)
  moreover have "length (sctp_frame i s sp d dp b tsn ssn ppid) = 62 + length b + chunk_pad b"
    by (simp add: sctp_frame_def sctp_chunk_def be16_def be32_def)
  ultimately show ?thesis by simp
qed

text \<open>A receiver that sums a header with its checksum gets all ones, so the complement is zero.\<close>

lemma word_sum_append: "even (length a) \<Longrightarrow> word_sum (a @ b) = word_sum a + word_sum b"
  by (induction a rule: word_sum.induct) auto

lemma split_u16: "256 * unat (byte_at 1 w) + unat (byte_at 0 w) = unat (w :: u16)"
proof -
  have "unat w = unat (join16 (byte_at 0 w) (byte_at 1 w))" by (simp only: join16_byte_at)
  also have "\<dots> = 256 * unat (byte_at 1 w) + unat (byte_at 0 w)"
  proof -
    have "join16 a b = (push_bit 8 (ucast b) + ucast a :: u16)" for a b
      unfolding join16_def
      by (subst add.commute, rule disjunctive_add_eq_or [symmetric])
        (rule bit_word_eqI, auto simp: bit_simps dest: byte_bit_bound)
    moreover have "unat (ucast a :: u16) = unat a" for a :: byte
      using byte_bound [of a] by (simp add: unsigned_ucast_eq take_bit_nat_eq_self)
    ultimately show ?thesis
      using byte_bound [of "byte_at 0 w"] byte_bound [of "byte_at 1 w"] by (simp add: push_bit_eq_mult unat_word_ariths)
  qed
  finally show ?thesis by simp
qed

lemma complement_value: "unat (NOT (w :: u16)) = 65535 - unat w"
proof -
  have "NOT w = - 1 - w" by (simp add: not_eq_complement)
  moreover have "w \<le> - 1" by simp
  ultimately show ?thesis by (simp add: unat_sub unsigned_minus_1_eq_mask mask_eq_exp_minus_1)
qed

lemma checksum_value:
  assumes "length b \<le> 65536"
  shows "\<exists>f. unat (ipChecksum b) = 65535 - f \<and> f \<le> 65535 \<and> f mod 65535 = word_sum b mod 65535 \<and> (word_sum b \<noteq> 0 \<longrightarrow> f \<noteq> 0)"
proof -
  note s = sum16_value [OF assms] and f = fold16_mod [of "sum16 b"]
  have "unat (ucast (fold16 (sum16 b)) :: u16) = unat (fold16 (sum16 b))"
    using f by (simp add: unsigned_ucast_eq take_bit_nat_eq_self)
  then show ?thesis
    using s f by (intro exI [of _ "unat (fold16 (sum16 b))"])
      (auto simp: ipChecksum_def complement_value unat_eq_0 simp flip: unat_eq_0)
qed

lemma header_checksum: "ipChecksum (ip_header p n i s d) = 0"
proof -
  let ?h = "ip_unsummed p n i s d"
  let ?ck = "ipChecksum ?h"
  obtain a b where ab: "?h = a @ [0, 0] @ b" "length a = 10" "length b = 8" "word_sum a \<noteq> 0"
    by (intro that [of "take 10 ?h" "drop 12 ?h"]) (simp_all add: ip_unsummed_def be16_def be32_def byte_at_def)
  then have h: "ip_header p n i s d = a @ [byte_at 1 ?ck, byte_at 0 ?ck] @ b"
    by (simp add: ip_header_def Let_def list_update_append)
  have w: "word_sum ?h = word_sum a + word_sum b" "word_sum (ip_header p n i s d) = word_sum ?h + unat ?ck"
    unfolding h using ab split_u16 [of ?ck] by (simp_all add: word_sum_append del: append_Cons)
  obtain f where f: "unat ?ck = 65535 - f" "f \<le> 65535" "f mod 65535 = word_sum ?h mod 65535"
    using checksum_value [of ?h] by auto
  obtain g where g: "unat (ipChecksum (ip_header p n i s d)) = 65535 - g" "g \<le> 65535"
      "g mod 65535 = (word_sum ?h + unat ?ck) mod 65535" "g \<noteq> 0"
    using checksum_value [of "ip_header p n i s d"] w ab(4) by auto
  have "(word_sum ?h + (65535 - f)) mod 65535 = (f + (65535 - f)) mod 65535"
    using f(3) by (metis mod_add_left_eq)
  with f(2) g(3) f(1) have "g mod 65535 = 0" by simp
  with g(2,4) have "g = 65535" by (cases "g < 65535") auto
  with g(1) show ?thesis by (simp add: unat_eq_0)
qed

end
