(* ===== verification/Pcap_Writer.thy ===== *)
theory Pcap_Writer
  imports Pcap_Headers Text_Frames Epc_Tlv
begin

text \<open>
  The packet capture (\<open>common/pcap_writer.cpp\<close> of the 4G, IMS and 5G simulators): a file of
  records, invented TCP handshakes and sequence numbers per connection, SCTP transmission
  numbers per association, and the messages that the nodes put into frames. A write is one
  step, as under the writer's mutex; the clock is the argument \<open>clk\<close>, the time of the record
  written at an offset of the file. The file is opened once per process; \<open>ok\<close> says whether
  that works.
\<close>

subsection \<open>State\<close>

type_synonym clock = "nat \<Rightarrow> u32 \<times> u32"
type_synonym endpoint = "u32 \<times> u16"

record ConnSeq =
  client_seq :: u32
  server_seq :: u32

record SctpSeq =
  sctp_tsn :: u32
  sctp_ssn :: u16

record pcap_state =
  pcap_file :: bytes
  pcap_is_open :: bool
  pkt_id :: u32
  conn_seq :: "u64 \<rightharpoonup> ConnSeq"
  sctp_seq :: "u64 \<rightharpoonup> SctpSeq"
  tcp_started :: "u64 set"

definition pcap_init :: pcap_state where
  "pcap_init = \<lparr> pcap_file = [], pcap_is_open = False, pkt_id = 1, conn_seq = Map.empty,
     sctp_seq = Map.empty, tcp_started = {} \<rparr>"

text \<open>An end of a connection as 48 bits, and the key of a connection, which shifts 16 of them out.\<close>

definition endpoint_bits :: "endpoint \<Rightarrow> u64" where
  "endpoint_bits e = (push_bit 16 (ucast (fst e)) OR ucast (snd e))"

definition connKey :: "endpoint \<Rightarrow> endpoint \<Rightarrow> u64" where
  "connKey x y = (let a = endpoint_bits x; b = endpoint_bits y
     in if a < b then push_bit 32 a OR b else push_bit 32 b OR a)"

definition isClient :: "endpoint \<Rightarrow> endpoint \<Rightarrow> bool" where
  "isClient x y \<longleftrightarrow> endpoint_bits x \<le> endpoint_bits y"

subsection \<open>File and records\<close>

definition writeGlobalHeader :: bytes where
  "writeGlobalHeader = le32 0xa1b2c3d4 @ [2, 0] @ [4, 0] @ le32 0 @ le32 0 @ le32 65535 @ le32 1"

definition pcap_open :: "bool \<Rightarrow> pcap_state \<Rightarrow> pcap_state" where
  "pcap_open ok s = (if \<not> ok then s
     else s\<lparr> pcap_file := writeGlobalHeader, pcap_is_open := True, tcp_started := {},
            conn_seq := Map.empty, sctp_seq := Map.empty \<rparr>)"

definition pcap_close :: "pcap_state \<Rightarrow> pcap_state" where
  "pcap_close s = s\<lparr> pcap_is_open := False \<rparr>"

definition record_bytes :: "u32 \<times> u32 \<Rightarrow> bytes \<Rightarrow> bytes" where
  "record_bytes now f = le32 (fst now) @ le32 (snd now) @ le32 (word_of_nat (length f))
     @ le32 (word_of_nat (length f)) @ f"

definition writePacket :: "clock \<Rightarrow> bytes \<Rightarrow> pcap_state \<Rightarrow> pcap_state" where
  "writePacket clk f s = (if \<not> pcap_is_open s then s
     else s\<lparr> pcap_file := pcap_file s @ record_bytes (clk (length (pcap_file s))) f \<rparr>)"

subsection \<open>TCP\<close>

definition conn_of :: "pcap_state \<Rightarrow> endpoint \<Rightarrow> endpoint \<Rightarrow> ConnSeq" where
  "conn_of s x y = (case conn_seq s (connKey x y) of None \<Rightarrow> \<lparr> client_seq = 1000, server_seq = 2000 \<rparr> | Some c \<Rightarrow> c)"

definition nextSeq :: "pcap_state \<Rightarrow> endpoint \<Rightarrow> endpoint \<Rightarrow> u32" where
  "nextSeq s x y = (if isClient x y then client_seq (conn_of s x y) else server_seq (conn_of s x y))"

definition peerSeq :: "pcap_state \<Rightarrow> endpoint \<Rightarrow> endpoint \<Rightarrow> u32" where
  "peerSeq s x y = (if isClient x y then server_seq (conn_of s x y) else client_seq (conn_of s x y))"

definition advanceSeq :: "endpoint \<Rightarrow> endpoint \<Rightarrow> u32 \<Rightarrow> pcap_state \<Rightarrow> pcap_state" where
  "advanceSeq x y n s = (let c = conn_of s x y in s\<lparr> conn_seq := (conn_seq s)(connKey x y \<mapsto>
     (if isClient x y then c\<lparr> client_seq := client_seq c + n \<rparr> else c\<lparr> server_seq := server_seq c + n \<rparr>)) \<rparr>)"

definition write_tcp :: "clock \<Rightarrow> endpoint \<Rightarrow> endpoint \<Rightarrow> bytes \<Rightarrow> byte \<Rightarrow> u32 \<Rightarrow> u32 \<Rightarrow> pcap_state \<Rightarrow> pcap_state" where
  "write_tcp clk x y payload flags seq ack s =
     writePacket clk (buildIPTCP (pkt_id s) (fst x) (snd x) (fst y) (snd y) payload flags seq ack)
       (s\<lparr> pkt_id := pkt_id s + 1 \<rparr>)"

definition ensureTcpHandshake :: "clock \<Rightarrow> endpoint \<Rightarrow> endpoint \<Rightarrow> pcap_state \<Rightarrow> pcap_state" where
  "ensureTcpHandshake clk x y s =
     (let k = connKey x y
      in if k \<in> tcp_started s then s
         else (let s1 = write_tcp clk x y [] 0x02 1000 0 (s\<lparr> tcp_started := insert k (tcp_started s) \<rparr>);
                   s2 = write_tcp clk y x [] 0x12 2000 1001 s1;
                   s3 = write_tcp clk x y [] 0x10 1001 2001 s2
               in s3\<lparr> conn_seq := (conn_seq s3)(k \<mapsto> \<lparr> client_seq = 1001, server_seq = 2001 \<rparr>) \<rparr>))"

text \<open>A data segment; \<open>h\<close> are the ends for which the handshake is made.\<close>

definition tcp_data :: "clock \<Rightarrow> endpoint \<times> endpoint \<Rightarrow> endpoint \<Rightarrow> endpoint \<Rightarrow> bytes \<Rightarrow> pcap_state \<Rightarrow> pcap_state" where
  "tcp_data clk h x y payload s =
     (let s1 = ensureTcpHandshake clk (fst h) (snd h) s
      in advanceSeq x y (word_of_nat (length payload))
           (write_tcp clk x y payload 0x18 (nextSeq s1 x y) (peerSeq s1 x y) s1))"

subsection \<open>Diameter\<close>

definition diamHost :: "u32 \<Rightarrow> string" where
  "diamHost ip = (if ip = 0x0A000003 then ''mme.epc'' else if ip = 0x0A000004 then ''hss.epc''
     else if ip = 0x0A000005 then ''sgw.epc'' else if ip = 0x0A000006 then ''pgw.epc''
     else if ip = 0x0A000007 then ''pcrf.epc'' else if ip = 0x0A000008 then ''pcscf.ims''
     else if ip = 0x0A000009 then ''scscf.ims'' else if ip = 0x0A00000A then ''mtas.ims'' else ''node.epc'')"

definition diamIdentity :: "u32 \<Rightarrow> string" where
  "diamIdentity ip = diamHost ip @ ''.mnc001.mcc001.3gppnetwork.org''"

definition diamRealm :: "u32 \<Rightarrow> string" where
  "diamRealm ip = (if ip \<in> {0x0A000008, 0x0A000009, 0x0A00000A} then ''ims.mnc001.mcc001.3gppnetwork.org''
     else ''epc.mnc001.mcc001.3gppnetwork.org'')"

function pad4 :: "bytes \<Rightarrow> bytes" where
  "pad4 v = (if length v mod 4 = 0 then v else pad4 (v @ [0]))"
  by pat_completeness auto
termination
proof (relation "measure (\<lambda>v. (4 - length v mod 4) mod 4)")
  fix v :: bytes
  assume "length v mod 4 \<noteq> 0"
  then show "(v @ [0], v) \<in> measure (\<lambda>v. (4 - length v mod 4) mod 4)"
    using mod_less_divisor [of 4 "length v"] by (simp add: mod_Suc) linarith
qed simp

declare pad4.simps [simp del]

definition be24 :: "u32 \<Rightarrow> bytes" where
  "be24 w = [byte_at 2 w, byte_at 1 w, byte_at 0 w]"

definition addAvpStr :: "u32 \<Rightarrow> string \<Rightarrow> bytes \<Rightarrow> bytes" where
  "addAvpStr code str v = pad4 (v @ be32 code @ [0x40] @ be24 (8 + word_of_nat (length str)) @ to_bytes str)"

definition default_avps :: "u32 \<Rightarrow> u32 \<Rightarrow> u32 \<Rightarrow> bytes" where
  "default_avps sid src dst =
     addAvpStr 283 (diamRealm dst) (addAvpStr 296 (diamRealm src) (addAvpStr 264 (diamIdentity src)
       (addAvpStr 263 (diamIdentity src @ '';'' @ json_num (uint sid)) [])))"

definition diameter_message :: "u32 \<Rightarrow> u32 \<Rightarrow> bool \<Rightarrow> u32 \<Rightarrow> bytes \<Rightarrow> bytes" where
  "diameter_message cmd app is_request i avps =
     [0x01] @ be24 (20 + word_of_nat (length avps)) @ [if is_request then 0xC0 else 0x40] @ be24 cmd
     @ be32 app @ be32 i @ be32 i @ avps"

definition writeDiameter ::
    "clock \<Rightarrow> u32 \<Rightarrow> u32 \<Rightarrow> bool \<Rightarrow> endpoint \<Rightarrow> endpoint \<Rightarrow> bytes \<Rightarrow> pcap_state \<Rightarrow> pcap_state" where
  "writeDiameter clk cmd app is_request x y avp_data s =
     (let (avps, s1) = (if avp_data = [] then (default_avps (pkt_id s) (fst x) (fst y), s\<lparr> pkt_id := pkt_id s + 1 \<rparr>)
                        else (avp_data, s));
          m = diameter_message cmd app is_request (pkt_id s1) avps
      in tcp_data clk (x, y) x y m (s1\<lparr> pkt_id := pkt_id s1 + 1 \<rparr>))"

subsection \<open>GTPv2, SIP, S1AP\<close>

text \<open>The ports of the caller are not used: both are 2123.\<close>

definition gtp_message :: "byte \<Rightarrow> u32 \<Rightarrow> u32 \<Rightarrow> bytes \<Rightarrow> bytes" where
  "gtp_message ty teid sq ies =
     [0x48, ty] @ be16 (word_of_nat (8 + length ies)) @ be32 teid @ be24 sq @ [0x00] @ ies"

definition writeGTPv2 :: "clock \<Rightarrow> byte \<Rightarrow> u32 \<Rightarrow> u32 \<Rightarrow> u32 \<Rightarrow> bytes \<Rightarrow> pcap_state \<Rightarrow> pcap_state" where
  "writeGTPv2 clk ty teid src dst ies s =
     writePacket clk (buildIPUDP (pkt_id s + 1) src 2123 dst 2123 (gtp_message ty teid (pkt_id s) ies))
       (s\<lparr> pkt_id := pkt_id s + 2 \<rparr>)"

text \<open>The 4G copy makes the handshake for port 5060 and sends from the ports given; the IMS copy
  uses port 5060 for both.\<close>

definition writeSIP :: "clock \<Rightarrow> string \<Rightarrow> endpoint \<Rightarrow> endpoint \<Rightarrow> pcap_state \<Rightarrow> pcap_state" where
  "writeSIP clk t x y = tcp_data clk ((fst x, 5060), (fst y, 5060)) x y (to_bytes t)"

definition ims_writeSIP :: "clock \<Rightarrow> string \<Rightarrow> endpoint \<Rightarrow> endpoint \<Rightarrow> pcap_state \<Rightarrow> pcap_state" where
  "ims_writeSIP clk t x y = tcp_data clk ((fst x, 5060), (fst y, 5060)) (fst x, 5060) (fst y, 5060) (to_bytes t)"

definition sctp_of :: "pcap_state \<Rightarrow> u64 \<Rightarrow> SctpSeq" where
  "sctp_of s k = (case sctp_seq s k of None \<Rightarrow> \<lparr> sctp_tsn = 0, sctp_ssn = 0 \<rparr> | Some a \<Rightarrow> a)"

definition writeS1AP :: "clock \<Rightarrow> u32 \<Rightarrow> u32 \<Rightarrow> bytes \<Rightarrow> pcap_state \<Rightarrow> pcap_state" where
  "writeS1AP clk src dst payload s =
     (let k = connKey (src, 36412) (dst, 36412); a = sctp_of s k
      in writePacket clk
           (sctp_frame (pkt_id s) src 36412 dst 36412 payload (sctp_tsn a) (sctp_ssn a) 18)
           (s\<lparr> pkt_id := pkt_id s + 1,
              sctp_seq := (sctp_seq s)(k \<mapsto> \<lparr> sctp_tsn = sctp_tsn a + 1, sctp_ssn = sctp_ssn a + 1 \<rparr>) \<rparr>))"

subsection \<open>The 5G copy\<close>

definition writeAppText :: "clock \<Rightarrow> string \<Rightarrow> endpoint \<Rightarrow> endpoint \<Rightarrow> pcap_state \<Rightarrow> pcap_state" where
  "writeAppText clk t x y = tcp_data clk (x, y) x y (to_bytes t)"

definition writeUdp :: "clock \<Rightarrow> bytes \<Rightarrow> endpoint \<Rightarrow> endpoint \<Rightarrow> pcap_state \<Rightarrow> pcap_state" where
  "writeUdp clk payload x y s = (if \<not> pcap_is_open s then s
     else writePacket clk (buildIPUDP (pkt_id s) (fst x) (snd x) (fst y) (snd y) payload) (s\<lparr> pkt_id := pkt_id s + 1 \<rparr>))"

end
