(* ===== verification/Pcap_Streams.thy ===== *)
theory Pcap_Streams
  imports Pcap_Writer
begin

text \<open>
  What a reader of the capture sees: the records of the file, the TCP segments in them, and
  the check that sequence and acknowledgement numbers continue. The invariant of the writer
  is that every connection opened by its lower end passes that check.
\<close>

subsection \<open>Reading the file\<close>

definition be_u16 :: "bytes \<Rightarrow> nat \<Rightarrow> u16" where
  "be_u16 f i = join16 (f ! (i + 1)) (f ! i)"

definition be_u32 :: "bytes \<Rightarrow> nat \<Rightarrow> u32" where
  "be_u32 f i = join32 (f ! (i + 3)) (f ! (i + 2)) (f ! (i + 1)) (f ! i)"

definition le_u32 :: "bytes \<Rightarrow> nat \<Rightarrow> u32" where
  "le_u32 f i = join32 (f ! i) (f ! (i + 1)) (f ! (i + 2)) (f ! (i + 3))"

function read_records :: "bytes \<Rightarrow> bytes list option" where
  "read_records b =
     (if b = [] then Some []
      else if length b < 16 then None
      else (let n = unat (le_u32 b 8); r = drop 16 b
            in if length r < n then None else map_option (\<lambda>fs. take n r # fs) (read_records (drop n r))))"
  by pat_completeness auto
termination by (relation "measure length") auto

declare read_records.simps [simp del]

definition read_capture :: "bytes \<Rightarrow> bytes list option" where
  "read_capture b = (if take 24 b = writeGlobalHeader then read_records (drop 24 b) else None)"

lemma le_u32_at: "le_u32 (le32 w @ r) 0 = w" "le_u32 (le32 a @ le32 b @ le32 w @ r) 8 = w"
  by (simp_all add: le_u32_def le32_def join32_byte_at [unfolded One_nat_def])

lemma read_records_cons:
  assumes "length f < 4294967296"
  shows "read_records (record_bytes now f @ r) = map_option (\<lambda>fs. f # fs) (read_records r)"
proof -
  let ?n = "word_of_nat (length f) :: u32"
  have n: "unat ?n = length f" using assms by (simp add: unat_of_nat take_bit_nat_eq_self)
  have h: "le_u32 (record_bytes now f @ r) 8 = ?n"
    using le_u32_at(2) [of "fst now" "snd now" ?n "le32 ?n @ f @ r"] by (simp add: record_bytes_def)
  have "length (record_bytes now f) = 16 + length f" "drop 16 (record_bytes now f) = f" "16 - length (record_bytes now f) = 0"
    by (simp_all add: record_bytes_def le32_def)
  then show ?thesis
    by (subst read_records.simps) (auto simp: h n Let_def)
qed

lemma read_records_append:
  "\<lbrakk> read_records b = Some fs; length f < 4294967296 \<rbrakk> \<Longrightarrow> read_records (b @ record_bytes now f) = Some (fs @ [f])"
proof (induction b arbitrary: fs rule: read_records.induct)
  case (1 b)
  show ?case
  proof (cases "b = []")
    case True
    with 1(2,3) read_records_cons [OF 1(3), of now "[]"] show ?thesis by (simp add: read_records.simps [of "[]"])
  next
    case False
    let ?n = "unat (le_u32 b 8)" and ?r = "drop 16 b"
    from 1(2) False have b: "\<not> length b < 16" "\<not> length ?r < ?n"
      by (auto simp: read_records.simps [of b] Let_def split: if_splits)
    with 1(2) False obtain gs where gs: "read_records (drop ?n ?r) = Some gs" "fs = take ?n ?r # gs"
      by (auto simp: read_records.simps [of b] Let_def)
    have "le_u32 (b @ record_bytes now f) 8 = le_u32 b 8" using b(1) by (simp add: le_u32_def nth_append)
    with b False gs 1(1) [OF False b(1) refl refl b(2) gs(1) 1(3)] show ?thesis
      by (subst read_records.simps) (auto simp: Let_def)
  qed
qed

lemma read_capture_header: "read_capture writeGlobalHeader = Some []"
  by (simp add: read_capture_def writeGlobalHeader_def le32_def read_records.simps)

lemma read_capture_append:
  assumes "read_capture b = Some fs" "length f < 4294967296"
  shows "read_capture (b @ record_bytes now f) = Some (fs @ [f])"
proof -
  have h: "take 24 b = writeGlobalHeader" "read_records (drop 24 b) = Some fs"
    using assms(1) by (simp_all add: read_capture_def split: if_splits)
  have "length (take 24 b) = 24" unfolding h(1) by (simp add: writeGlobalHeader_def le32_def)
  then have "24 \<le> length b" by (simp add: min_def split: if_splits)
  with h read_records_append [OF h(2) assms(2)] show ?thesis by (simp add: read_capture_def)
qed

subsection \<open>Segments\<close>

record segment =
  sg_src :: endpoint
  sg_dst :: endpoint
  sg_seq :: u32
  sg_ack :: u32
  sg_flags :: byte
  sg_len :: nat

text \<open>The length comes from the IP header, as a dissector takes it.\<close>

definition read_segment :: "bytes \<Rightarrow> segment option" where
  "read_segment f = (if length f < 54 \<or> f ! 23 \<noteq> 6 then None
     else Some \<lparr> sg_src = (be_u32 f 26, be_u16 f 34), sg_dst = (be_u32 f 30, be_u16 f 36), sg_seq = be_u32 f 38,
                 sg_ack = be_u32 f 42, sg_flags = f ! 47, sg_len = unat (be_u16 f 16) - 40 \<rparr>)"

definition segments :: "bytes list \<Rightarrow> segment list" where
  "segments fs = List.map_filter read_segment fs"

lemma join_be: "join16 (byte_at 0 w) (byte_at 1 w) = w" "join32 (byte_at 0 v) (byte_at 1 v) (byte_at 2 v) (byte_at 3 v) = v"
  by (rule join16_byte_at, rule join32_byte_at)

lemma ethernet_bytes: "buildEthernet = [2, 2, 2, 2, 2, 2, 1, 1, 1, 1, 1, 1, 8, 0]"
  by (simp add: buildEthernet_def numeral_eq_Suc)

lemma ip_fields:
  assumes "f = buildEthernet @ ip_header p n i s d @ r"
  shows "f ! 23 = p" "be_u16 f 16 = n" "be_u32 f 26 = s" "be_u32 f 30 = d"
  unfolding assms
  by (simp_all add: be_u16_def be_u32_def ethernet_bytes ip_header_def ip_unsummed_def be16_def be32_def Let_def
      join_be [unfolded One_nat_def])

lemma tcp_fields:
  assumes "f = buildEthernet @ ip_header p n i s d @ tcp_header sp dp fl q a @ r"
  shows "be_u16 f 34 = sp" "be_u16 f 36 = dp" "be_u32 f 38 = q" "be_u32 f 42 = (if fl \<noteq> 2 then a else 0)" "f ! 47 = fl"
proof -
  have n: "f ! (34 + k) = (tcp_header sp dp fl q a @ r) ! k" for k
    using nth_append_length_plus [of "buildEthernet @ ip_header p n i s d" "tcp_header sp dp fl q a @ r" k] by (simp add: assms)
  note n [of 0] n [of 1] n [of 2] n [of 3] n [of 4] n [of 5] n [of 6] n [of 7] n [of 8] n [of 9] n [of 10] n [of 11] n [of 13]
  then show "be_u16 f 34 = sp" "be_u16 f 36 = dp" "be_u32 f 38 = q" "be_u32 f 42 = (if fl \<noteq> 2 then a else 0)" "f ! 47 = fl"
    by (simp_all add: be_u16_def be_u32_def tcp_header_def be16_def be32_def join_be [unfolded One_nat_def])
qed

lemma read_segment_tcp:
  assumes "length b \<le> 65495"
  shows "read_segment (buildIPTCP i (fst x) (snd x) (fst y) (snd y) b fl q a) =
    Some \<lparr> sg_src = x, sg_dst = y, sg_seq = q, sg_ack = (if fl \<noteq> 2 then a else 0), sg_flags = fl, sg_len = length b \<rparr>"
proof -
  let ?n = "word_of_nat (20 + 20 + length b) :: u16"
  have "unat ?n = 40 + length b" using assms by (simp add: unat_of_nat take_bit_nat_eq_self del: of_nat_add)
  then show ?thesis
    using ip_fields [OF buildIPTCP_def, of i "fst x" "snd x" "fst y" "snd y" b fl q a]
      tcp_fields [OF buildIPTCP_def, of i "fst x" "snd x" "fst y" "snd y" b fl q a]
    by (simp add: read_segment_def frame_lengths)
qed


subsection \<open>Streams that continue\<close>

definition consumed :: "segment \<Rightarrow> u32" where
  "consumed g = word_of_nat (sg_len g) + (if bit (sg_flags g) 1 then 1 else 0)"

text \<open>The next number expected in each direction.\<close>

type_synonym expectation = "endpoint \<times> endpoint \<Rightarrow> u32 option"

definition next_expected :: "expectation \<Rightarrow> segment \<Rightarrow> expectation" where
  "next_expected e g = e((sg_src g, sg_dst g) \<mapsto> sg_seq g + consumed g)"

text \<open>
  The check of a dissector: a segment has the number expected in its direction, if there is
  one, and acknowledges the number expected in the other direction.
\<close>

definition continues :: "expectation \<Rightarrow> segment \<Rightarrow> bool" where
  "continues e g \<longleftrightarrow> e (sg_src g, sg_dst g) \<in> {None, Some (sg_seq g)}
     \<and> (bit (sg_flags g) 4 \<longrightarrow> e (sg_dst g, sg_src g) = Some (sg_ack g))"

fun streams_ok :: "expectation \<Rightarrow> segment list \<Rightarrow> bool" where
  "streams_ok e [] = True"
| "streams_ok e (g # gs) = (continues e g \<and> streams_ok (next_expected e g) gs)"

lemma streams_ok_append: "streams_ok e (xs @ ys) \<longleftrightarrow> streams_ok e xs \<and> streams_ok (foldl next_expected e xs) ys"
  by (induction xs arbitrary: e) auto

lemma segments_append [simp]: "segments (fs @ gs) = segments fs @ segments gs"
  by (simp add: segments_def List.map_filter_def)

lemma segments_one: "segments [f] = (case read_segment f of None \<Rightarrow> [] | Some g \<Rightarrow> [g])"
  by (simp add: segments_def List.map_filter_def split: option.splits)

subsection \<open>Keys\<close>

lemma endpoint_bits_bit: "bit (endpoint_bits x) n \<longleftrightarrow> (if n < 16 then bit (snd x) n else n < 64 \<and> bit (fst x) (n - 16))"
  using bit_imp_le_length [of "snd x" n] by (auto simp: endpoint_bits_def bit_simps)

lemma endpoint_bits_inj: "endpoint_bits x = endpoint_bits y \<longleftrightarrow> x = y"
proof
  assume e: "endpoint_bits x = endpoint_bits y"
  have "snd x = snd y"
  proof (rule bit_word_eqI)
    fix n assume "n < LENGTH(16)"
    then show "bit (snd x) n = bit (snd y) n"
      using arg_cong [OF e, of "\<lambda>w. bit w n"] by (simp add: endpoint_bits_bit)
  qed
  moreover have "fst x = fst y"
  proof (rule bit_word_eqI)
    fix n assume "n < LENGTH(32)"
    then show "bit (fst x) n = bit (fst y) n"
      using arg_cong [OF e, of "\<lambda>w. bit w (n + 16)"] by (simp add: endpoint_bits_bit)
  qed
  ultimately show "x = y" by (simp add: prod_eq_iff)
qed simp

lemma connKey_swap: "connKey x y = connKey y x"
proof (cases "x = y")
  case False
  then have "endpoint_bits x \<noteq> endpoint_bits y" by (simp add: endpoint_bits_inj)
  then show ?thesis by (auto simp: connKey_def Let_def)
qed simp

lemma isClient_swap: "x \<noteq> y \<Longrightarrow> isClient y x \<longleftrightarrow> \<not> isClient x y"
  using endpoint_bits_inj [of x y] by (auto simp: isClient_def)

definition keys_distinct :: "endpoint set \<Rightarrow> bool" where
  "keys_distinct E \<longleftrightarrow> (\<forall>x\<in>E. \<forall>y\<in>E. \<forall>u\<in>E. \<forall>v\<in>E.
     x \<noteq> y \<longrightarrow> u \<noteq> v \<longrightarrow> connKey x y = connKey u v \<longrightarrow> {x, y} = {u, v})"

subsection \<open>The invariant of the writer\<close>

definition captured :: "pcap_state \<Rightarrow> bytes list \<Rightarrow> bool" where
  "captured s fs \<longleftrightarrow> pcap_is_open s \<and> read_capture (pcap_file s) = Some fs"

definition expected :: "bytes list \<Rightarrow> expectation" where
  "expected fs = foldl next_expected Map.empty (segments fs)"

definition streams_inv :: "endpoint set \<Rightarrow> pcap_state \<Rightarrow> bool" where
  "streams_inv E s \<longleftrightarrow> (\<exists>fs. captured s fs \<and> streams_ok Map.empty (segments fs)
     \<and> (\<forall>x\<in>E. \<forall>y\<in>E. x \<noteq> y \<longrightarrow> expected fs (x, y) = (if connKey x y \<in> tcp_started s then Some (nextSeq s x y) else None)))"

lemma writePacket_captured:
  "\<lbrakk> captured s fs; length f < 4294967296 \<rbrakk> \<Longrightarrow> captured (writePacket clk f s) (fs @ [f])"
  by (simp add: captured_def writePacket_def read_capture_append)

lemma writePacket_keeps [simp]:
  "conn_seq (writePacket clk f s) = conn_seq s" "tcp_started (writePacket clk f s) = tcp_started s"
  "sctp_seq (writePacket clk f s) = sctp_seq s"
  by (simp_all add: writePacket_def)

lemma captured_upd [simp]:
  "captured (s\<lparr> pkt_id := i \<rparr>) fs = captured s fs" "captured (s\<lparr> conn_seq := c \<rparr>) fs = captured s fs"
  "captured (s\<lparr> tcp_started := k \<rparr>) fs = captured s fs" "captured (s\<lparr> sctp_seq := q \<rparr>) fs = captured s fs"
  by (simp_all add: captured_def)

lemma write_tcp_keeps [simp]:
  "conn_seq (write_tcp clk x y b fl q a s) = conn_seq s" "tcp_started (write_tcp clk x y b fl q a s) = tcp_started s"
  by (simp_all add: write_tcp_def)

lemma expected_append: "expected (fs @ gs) = foldl next_expected (expected fs) (segments gs)"
  by (simp add: expected_def)

text \<open>One segment that continues its stream.\<close>

definition seg :: "endpoint \<Rightarrow> endpoint \<Rightarrow> u32 \<Rightarrow> u32 \<Rightarrow> byte \<Rightarrow> nat \<Rightarrow> segment" where
  "seg x y q a fl n = \<lparr> sg_src = x, sg_dst = y, sg_seq = q, sg_ack = (if fl \<noteq> 2 then a else 0), sg_flags = fl, sg_len = n \<rparr>"

lemma write_tcp_captured:
  assumes "captured s fs" "length b \<le> 65495"
  shows "\<exists>f. captured (write_tcp clk x y b fl q a s) (fs @ [f]) \<and> segments [f] = [seg x y q a fl (length b)]"
proof -
  let ?f = "buildIPTCP (pkt_id s) (fst x) (snd x) (fst y) (snd y) b fl q a"
  have "segments [?f] = [seg x y q a fl (length b)]"
    using read_segment_tcp [OF assms(2)] by (simp add: segments_one seg_def)
  moreover have "captured (write_tcp clk x y b fl q a s) (fs @ [?f])"
    unfolding write_tcp_def using assms by (intro writePacket_captured) (simp_all add: frame_lengths)
  ultimately show ?thesis by blast
qed

lemma write_tcp_step:
  assumes "captured s fs" "streams_ok Map.empty (segments fs)" "length b \<le> 65495"
    and "continues (expected fs) (seg x y q a fl (length b))"
  shows "\<exists>gs. captured (write_tcp clk x y b fl q a s) gs \<and> streams_ok Map.empty (segments gs)
     \<and> expected gs = next_expected (expected fs) (seg x y q a fl (length b))"
proof -
  obtain f where "captured (write_tcp clk x y b fl q a s) (fs @ [f])" "segments [f] = [seg x y q a fl (length b)]"
    using write_tcp_captured [OF assms(1,3)] by blast
  with assms(2,4) show ?thesis
    by (intro exI [of _ "fs @ [f]"]) (simp add: streams_ok_append expected_append expected_def)
qed

text \<open>A frame that is no TCP segment.\<close>

lemma other_frame_step:
  assumes "streams_inv E s" "read_segment f = None" "length f < 4294967296"
    and "conn_seq s' = conn_seq s" "tcp_started s' = tcp_started s"
    and "\<And>fs. captured s fs \<Longrightarrow> captured s' (fs @ [f])"
  shows "streams_inv E s'"
proof -
  obtain fs where fs: "captured s fs" "streams_ok Map.empty (segments fs)"
      "\<forall>x\<in>E. \<forall>y\<in>E. x \<noteq> y \<longrightarrow> expected fs (x, y) = (if connKey x y \<in> tcp_started s then Some (nextSeq s x y) else None)"
    using assms(1) by (auto simp: streams_inv_def)
  have "nextSeq s' x y = nextSeq s x y" for x y by (simp add: nextSeq_def conn_of_def assms(4))
  with fs assms(2,5,6) show ?thesis
    by (intro streams_inv_def [THEN iffD2] exI [of _ "fs @ [f]"]) (simp add: segments_one expected_append)
qed


subsection \<open>Handshake and data\<close>

definition tracks :: "endpoint set \<Rightarrow> pcap_state \<Rightarrow> expectation \<Rightarrow> bool" where
  "tracks E s e \<longleftrightarrow> (\<forall>x\<in>E. \<forall>y\<in>E. x \<noteq> y \<longrightarrow> e (x, y) = (if connKey x y \<in> tcp_started s then Some (nextSeq s x y) else None))"

lemma streams_inv_alt:
  "streams_inv E s \<longleftrightarrow> (\<exists>fs. captured s fs \<and> streams_ok Map.empty (segments fs) \<and> tracks E s (expected fs))"
  by (simp add: streams_inv_def tracks_def)

lemma keys_cases:
  assumes "keys_distinct E" "x \<in> E" "y \<in> E" "u \<in> E" "v \<in> E" "x \<noteq> y" "u \<noteq> v" "connKey u v = connKey x y"
  shows "u = x \<and> v = y \<or> u = y \<and> v = x"
  using assms unfolding keys_distinct_def by (metis doubleton_eq_iff)

lemma nextSeq_other: "connKey u v \<noteq> k \<Longrightarrow> nextSeq (s\<lparr> conn_seq := (conn_seq s)(k \<mapsto> c) \<rparr>) u v = nextSeq s u v"
  by (simp add: nextSeq_def conn_of_def)

lemma handshake_step:
  assumes E: "keys_distinct E" "x \<in> E" "y \<in> E" "x \<noteq> y" and i: "streams_inv E s" and c: "isClient x y"
  shows "streams_inv E (ensureTcpHandshake clk x y s) \<and> connKey x y \<in> tcp_started (ensureTcpHandshake clk x y s)"
proof (cases "connKey x y \<in> tcp_started s")
  case True
  with i show ?thesis by (simp add: ensureTcpHandshake_def)
next
  case False
  let ?k = "connKey x y" and ?s = "s\<lparr> tcp_started := insert (connKey x y) (tcp_started s) \<rparr>"
  obtain fs where fs: "captured s fs" "streams_ok Map.empty (segments fs)" "tracks E s (expected fs)"
    using i by (auto simp: streams_inv_alt)
  have e: "expected fs (x, y) = None" "expected fs (y, x) = None"
    using fs(3) E False by (simp_all add: tracks_def connKey_swap [of y x])
  let ?s1 = "write_tcp clk x y [] 2 1000 0 ?s"
  have "captured ?s fs" using fs(1) by simp
  moreover have "continues (expected fs) (seg x y 1000 0 2 (length ([] :: bytes)))" using e by (simp add: continues_def seg_def)
  ultimately obtain f1 where f1: "captured ?s1 f1" "streams_ok Map.empty (segments f1)"
      "expected f1 = next_expected (expected fs) (seg x y 1000 0 2 (length ([] :: bytes)))"
    using write_tcp_step [where b = "[]" and s = ?s and fs = fs] fs(2) by fastforce
  have e1: "expected f1 = (expected fs)((x, y) \<mapsto> 1001)"
    unfolding f1(3) by (simp add: next_expected_def seg_def consumed_def bit_numeral_rec)
  let ?s2 = "write_tcp clk y x [] 0x12 2000 1001 ?s1"
  have "continues (expected f1) (seg y x 2000 1001 0x12 (length ([] :: bytes)))"
    using e E(4) by (simp add: e1 continues_def seg_def)
  then obtain f2 where f2: "captured ?s2 f2" "streams_ok Map.empty (segments f2)"
      "expected f2 = next_expected (expected f1) (seg y x 2000 1001 0x12 (length ([] :: bytes)))"
    using write_tcp_step [OF f1(1,2), where b = "[]"] by fastforce
  have e2: "expected f2 = (expected fs)((x, y) \<mapsto> 1001, (y, x) \<mapsto> 2001)"
    unfolding f2(3) by (simp add: e1 next_expected_def seg_def consumed_def bit_numeral_rec)
  let ?s3 = "write_tcp clk x y [] 0x10 1001 2001 ?s2"
  have "continues (expected f2) (seg x y 1001 2001 0x10 (length ([] :: bytes)))"
    using E(4) by (simp add: e2 continues_def seg_def)
  then obtain f3 where f3: "captured ?s3 f3" "streams_ok Map.empty (segments f3)"
      "expected f3 = next_expected (expected f2) (seg x y 1001 2001 0x10 (length ([] :: bytes)))"
    using write_tcp_step [OF f2(1,2), where b = "[]"] by fastforce
  have e3: "expected f3 = (expected fs)((y, x) \<mapsto> 2001, (x, y) \<mapsto> 1001)"
    unfolding f3(3) using E(4) by (simp add: e2 next_expected_def seg_def consumed_def bit_numeral_rec fun_upd_twist)
  let ?t = "?s3\<lparr> conn_seq := (conn_seq ?s3)(?k \<mapsto> \<lparr> client_seq = 1001, server_seq = 2001 \<rparr>) \<rparr>"
  have t: "ensureTcpHandshake clk x y s = ?t" using False by (simp add: ensureTcpHandshake_def Let_def)
  have "tracks E ?t (expected f3)"
    unfolding tracks_def
  proof (intro ballI impI)
    fix u v assume uv: "u \<in> E" "v \<in> E" "u \<noteq> v"
    show "expected f3 (u, v) = (if connKey u v \<in> tcp_started ?t then Some (nextSeq ?t u v) else None)"
    proof (cases "connKey u v = ?k")
      case True
      with keys_cases [OF E(1-3) uv(1,2) E(4) uv(3)] have "u = x \<and> v = y \<or> u = y \<and> v = x" by blast
      then show ?thesis
      proof
        assume w: "u = x \<and> v = y"
        from c show ?thesis unfolding conjunct1 [OF w] conjunct2 [OF w] by (simp add: e3 nextSeq_def conn_of_def)
      next
        assume w: "u = y \<and> v = x"
        from c E(4) isClient_swap [OF E(4)] show ?thesis
          unfolding conjunct1 [OF w] conjunct2 [OF w] by (simp add: e3 nextSeq_def conn_of_def connKey_swap [of y x])
      qed
    next
      case False
      then have "(u, v) \<noteq> (x, y)" "(u, v) \<noteq> (y, x)" using connKey_swap [of x y] by auto
      then have "expected f3 (u, v) = expected fs (u, v)" unfolding e3 by (metis fun_upd_other)
      moreover have "nextSeq ?t u v = nextSeq s u v" using False by (simp add: nextSeq_def conn_of_def)
      ultimately show ?thesis using fs(3) uv False by (simp add: tracks_def)
    qed
  qed
  with f3(1,2) show ?thesis unfolding t streams_inv_alt by auto
qed

lemma data_step:
  assumes E: "keys_distinct E" "x \<in> E" "y \<in> E" "x \<noteq> y" and i: "streams_inv E s"
    and c: "connKey x y \<in> tcp_started s \<or> isClient x y" and b: "length b \<le> 65495"
  shows "streams_inv E (tcp_data clk (x, y) x y b s)"
proof -
  let ?k = "connKey x y" and ?s = "ensureTcpHandshake clk x y s"
  have "streams_inv E ?s \<and> ?k \<in> tcp_started ?s"
    using c handshake_step [OF E i] i by (cases "?k \<in> tcp_started s") (auto simp: ensureTcpHandshake_def)
  then obtain fs where fs: "captured ?s fs" "streams_ok Map.empty (segments fs)" "tracks E ?s (expected fs)"
      and k: "?k \<in> tcp_started ?s" by (auto simp: streams_inv_alt)
  have peer: "peerSeq ?s x y = nextSeq ?s y x"
    using isClient_swap [OF E(4)] by (simp add: peerSeq_def nextSeq_def conn_of_def connKey_swap [of y x])
  have e: "expected fs (x, y) = Some (nextSeq ?s x y)" "expected fs (y, x) = Some (peerSeq ?s x y)"
    using fs(3) E k by (simp_all add: tracks_def peer connKey_swap [of y x])
  let ?w = "write_tcp clk x y b 0x18 (nextSeq ?s x y) (peerSeq ?s x y) ?s"
  have "continues (expected fs) (seg x y (nextSeq ?s x y) (peerSeq ?s x y) 0x18 (length b))"
    using e by (simp add: continues_def seg_def)
  from write_tcp_step [OF fs(1,2) b this] obtain gs where gs: "captured ?w gs" "streams_ok Map.empty (segments gs)"
      "expected gs = next_expected (expected fs) (seg x y (nextSeq ?s x y) (peerSeq ?s x y) 0x18 (length b))" by blast
  have eg: "expected gs = (expected fs)((x, y) \<mapsto> nextSeq ?s x y + word_of_nat (length b))"
    unfolding gs(3) by (simp add: next_expected_def seg_def consumed_def bit_numeral_rec)
  let ?t = "advanceSeq x y (word_of_nat (length b)) ?w"
  have "tracks E ?t (expected gs)"
    unfolding tracks_def
  proof (intro ballI impI)
    fix u v assume uv: "u \<in> E" "v \<in> E" "u \<noteq> v"
    show "expected gs (u, v) = (if connKey u v \<in> tcp_started ?t then Some (nextSeq ?t u v) else None)"
    proof (cases "connKey u v = ?k")
      case True
      with keys_cases [OF E(1-3) uv(1,2) E(4) uv(3)] have "u = x \<and> v = y \<or> u = y \<and> v = x" by blast
      then show ?thesis
      proof
        assume w: "u = x \<and> v = y"
        from k show ?thesis
          unfolding conjunct1 [OF w] conjunct2 [OF w] by (simp add: eg advanceSeq_def nextSeq_def conn_of_def Let_def)
      next
        assume w: "u = y \<and> v = x"
        from k e(2) E(4) isClient_swap [OF E(4)] show ?thesis
          unfolding conjunct1 [OF w] conjunct2 [OF w]
          by (simp add: eg advanceSeq_def nextSeq_def peerSeq_def conn_of_def connKey_swap [of y x] Let_def)
      qed
    next
      case False
      then have "(u, v) \<noteq> (x, y)" by auto
      then have "expected gs (u, v) = expected fs (u, v)" unfolding eg by (rule fun_upd_other)
      moreover have "nextSeq ?t u v = nextSeq ?s u v" "tcp_started ?t = tcp_started ?s"
        using False by (simp_all add: advanceSeq_def Let_def nextSeq_def conn_of_def)
      ultimately show ?thesis using fs(3) uv by (simp add: tracks_def)
    qed
  qed
  moreover have "captured ?t gs" using gs(1) by (simp add: advanceSeq_def Let_def)
  moreover have "tcp_data clk (x, y) x y b s = ?t" by (simp add: tcp_data_def Let_def)
  ultimately show ?thesis using gs(2) unfolding streams_inv_alt by auto
qed

end
