(* ===== verification/Pcap_System.thy ===== *)
theory Pcap_System
  imports Pcap_Streams
begin

text \<open>
  The properties of the packet capture: what is written is read back, every IPv4 header
  verifies, TCP streams continue when the lower end opens them and break when the higher one
  does, and the shortened connection keys do not clash for the addresses of the nodes.
\<close>

subsection \<open>Writes\<close>

datatype capture = Dia u32 u32 bool endpoint endpoint bytes | Gtp byte u32 u32 u32 bytes
  | Sip string endpoint endpoint | S1ap u32 u32 bytes | AppText string endpoint endpoint | Udp bytes endpoint endpoint

definition capture_write :: "clock \<Rightarrow> capture \<Rightarrow> pcap_state \<Rightarrow> pcap_state" where
  "capture_write clk w = (case w of
      Dia cmd app rq x y avps \<Rightarrow> writeDiameter clk cmd app rq x y avps
    | Gtp ty teid src dst ies \<Rightarrow> writeGTPv2 clk ty teid src dst ies
    | Sip t x y \<Rightarrow> ims_writeSIP clk t x y
    | S1ap src dst payload \<Rightarrow> writeS1AP clk src dst payload
    | AppText t x y \<Rightarrow> writeAppText clk t x y
    | Udp b x y \<Rightarrow> writeUdp clk b x y)"

definition capture_run :: "clock \<Rightarrow> pcap_state \<Rightarrow> capture list \<Rightarrow> pcap_state" where
  "capture_run clk = foldl (\<lambda>s w. capture_write clk w s)"

definition tcp_ends :: "capture \<Rightarrow> (endpoint \<times> endpoint) option" where
  "tcp_ends w = (case w of Dia _ _ _ x y _ \<Rightarrow> Some (x, y) | Sip _ x y \<Rightarrow> Some ((fst x, 5060), (fst y, 5060))
     | AppText _ x y \<Rightarrow> Some (x, y) | _ \<Rightarrow> None)"

definition fits :: "capture \<Rightarrow> bool" where
  "fits w = (case w of Dia _ _ _ _ _ avps \<Rightarrow> length avps \<le> 65000 | Gtp _ _ _ _ ies \<Rightarrow> length ies \<le> 65000
     | Sip t _ _ \<Rightarrow> length t \<le> 65000 | S1ap _ _ b \<Rightarrow> length b \<le> 65000 | AppText t _ _ \<Rightarrow> length t \<le> 65000
     | Udp b _ _ \<Rightarrow> length b \<le> 65000)"

text \<open>The first segment of every connection comes from its lower end; \<open>C\<close> are the connections there are.\<close>

fun lower_first :: "(endpoint \<times> endpoint) set \<Rightarrow> capture list \<Rightarrow> bool" where
  "lower_first C [] = True"
| "lower_first C (w # ws) = (case tcp_ends w of None \<Rightarrow> lower_first C ws
     | Some (x, y) \<Rightarrow> ((x, y) \<in> C \<or> (y, x) \<in> C \<or> isClient x y) \<and> lower_first (insert (x, y) C) ws)"

definition ends_in :: "endpoint set \<Rightarrow> capture \<Rightarrow> bool" where
  "ends_in E w = (case tcp_ends w of None \<Rightarrow> True | Some (x, y) \<Rightarrow> x \<in> E \<and> y \<in> E \<and> x \<noteq> y)"

subsection \<open>Sizes\<close>

lemma number_length: "length (json_num (uint (w :: u32))) \<le> 10"
proof -
  have "unat w < 10 ^ Suc 9" using unsigned_less [of w, where ?'a = nat] by simp
  from nat_dec_length [OF this] show ?thesis by (simp add: json_num_def)
qed

lemma pad4_length: "length (pad4 v) \<le> length v + (4 - length v mod 4) mod 4"
proof (induction v rule: pad4.induct)
  case (1 v)
  show ?case
  proof (cases "length v mod 4 = 0")
    case False
    with 1 mod_less_divisor [of 4 "length v"] show ?thesis
      by (subst pad4.simps) (simp add: mod_Suc split: if_splits, linarith?)
  qed (simp add: pad4.simps)
qed

lemma avp_length: "length (addAvpStr c str v) \<le> length v + length str + 11"
proof -
  let ?v = "v @ be32 c @ [0x40] @ be24 (8 + word_of_nat (length str)) @ to_bytes str"
  have "(4 - length ?v mod 4) mod 4 \<le> 3" by (simp add: less_Suc_eq_le [symmetric])
  with pad4_length [of ?v] have "length (addAvpStr c str v) \<le> length ?v + 3" unfolding addAvpStr_def by linarith
  then show ?thesis by (simp add: be32_def be24_def)
qed

lemma default_avps_length: "length (default_avps sid src dst) \<le> 1000"
proof -
  have h: "length (diamIdentity a) \<le> 60" "length (diamRealm a) \<le> 60" for a
    by (simp_all add: diamIdentity_def diamHost_def diamRealm_def)
  have a: "length (addAvpStr c str v) \<le> length v + 100" if "length str \<le> 80" for c str v
    using avp_length [of c str v] that by linarith
  let ?v1 = "addAvpStr 263 (diamIdentity src @ '';'' @ json_num (uint sid)) []"
  let ?v2 = "addAvpStr 264 (diamIdentity src) ?v1"
  let ?v3 = "addAvpStr 296 (diamRealm src) ?v2"
  have "length ?v1 \<le> 100" using a [of "diamIdentity src @ '';'' @ json_num (uint sid)" 263 "[]"] h(1) [of src] number_length [of sid]
    by simp
  moreover have "length ?v2 \<le> length ?v1 + 100" "length ?v3 \<le> length ?v2 + 100"
    "length (addAvpStr 283 (diamRealm dst) ?v3) \<le> length ?v3 + 100"
    by (rule a, rule le_trans [OF h(1)], simp, rule a, rule le_trans [OF h(2)], simp, rule a, rule le_trans [OF h(2)], simp)
  ultimately show ?thesis unfolding default_avps_def by linarith
qed


subsection \<open>Every write keeps the streams\<close>

lemma tcp_data_started: "tcp_started (tcp_data clk (x, y) x y b s) = insert (connKey x y) (tcp_started s)"
  by (auto simp: tcp_data_def ensureTcpHandshake_def advanceSeq_def Let_def)

lemma read_segment_udp: "read_segment (buildIPUDP i s sp d dp b) = None"
  using ip_fields(1) [of "buildIPUDP i s sp d dp b" 17] by (simp add: read_segment_def buildIPUDP_def Let_def)

lemma read_segment_sctp: "read_segment (sctp_frame i s sp d dp b tsn ssn ppid) = None"
  using ip_fields(1) [OF sctp_frame_def] by (simp add: read_segment_def)

lemma streams_inv_id: "streams_inv E (s\<lparr> pkt_id := i \<rparr>) = streams_inv E s"
  by (simp add: streams_inv_def nextSeq_def conn_of_def)

lemma write_other:
  assumes "streams_inv E s" "tcp_ends w = None" "fits w"
  shows "streams_inv E (capture_write clk w s) \<and> tcp_started (capture_write clk w s) = tcp_started s"
proof (cases w)
  case (Gtp ty teid src dst ies)
  let ?f = "buildIPUDP (pkt_id s + 1) src 2123 dst 2123 (gtp_message ty teid (pkt_id s) ies)"
  have "length ?f < 4294967296"
    using assms(3) Gtp by (simp add: fits_def frame_lengths gtp_message_def be16_def be32_def be24_def)
  with assms(1) Gtp show ?thesis
    by (auto simp: capture_write_def writeGTPv2_def intro!: other_frame_step [where s = s and f = ?f] read_segment_udp writePacket_captured)
next
  case (S1ap src dst b)
  let ?k = "connKey (src, 36412) (dst, 36412)"
  let ?f = "sctp_frame (pkt_id s) src 36412 dst 36412 b (sctp_tsn (sctp_of s ?k)) (sctp_ssn (sctp_of s ?k)) 18"
  have "chunk_pad b < 4" by (simp add: chunk_pad_def)
  then have "length ?f < 4294967296"
    using assms(3) S1ap by (simp add: fits_def sctp_frame_def sctp_chunk_def be16_def be32_def)
  with assms(1) S1ap show ?thesis
    by (auto simp: capture_write_def writeS1AP_def Let_def
        intro!: other_frame_step [where s = s and f = ?f] read_segment_sctp writePacket_captured)
next
  case (Udp b x y)
  let ?f = "buildIPUDP (pkt_id s) (fst x) (snd x) (fst y) (snd y) b"
  have "length ?f < 4294967296" using assms(3) Udp by (simp add: fits_def frame_lengths)
  with assms(1) Udp show ?thesis
    by (auto simp: capture_write_def writeUdp_def
        intro!: other_frame_step [where s = s and f = ?f] read_segment_udp writePacket_captured)
qed (use assms in \<open>auto simp: tcp_ends_def\<close>)

lemma diameter_length: "length (diameter_message cmd app rq i avps) = 20 + length avps"
  by (simp add: diameter_message_def be24_def be32_def)

lemma write_tcp_message:
  assumes "keys_distinct E" "streams_inv E s" "tcp_ends w = Some (x, y)" "ends_in E w" "fits w"
    and "connKey x y \<in> tcp_started s \<or> isClient x y"
  shows "streams_inv E (capture_write clk w s) \<and> tcp_started (capture_write clk w s) = insert (connKey x y) (tcp_started s)"
proof -
  have xy: "x \<in> E" "y \<in> E" "x \<noteq> y" using assms(3,4) by (simp_all add: ends_in_def)
  obtain b i where b: "capture_write clk w s = tcp_data clk (x, y) x y b (s\<lparr> pkt_id := i \<rparr>)" "length b \<le> 65495"
  proof (cases w)
    case (Dia cmd app rq u v avps)
    then have uv: "u = x" "v = y" "length avps \<le> 65000" using assms(3,5) by (simp_all add: tcp_ends_def fits_def)
    show ?thesis
    proof (cases "avps = []")
      case True
      let ?m = "diameter_message cmd app rq (pkt_id s + 1) (default_avps (pkt_id s) (fst x) (fst y))"
      show ?thesis
        using default_avps_length [of "pkt_id s" "fst x" "fst y"] Dia True uv
        by (intro that [of ?m "pkt_id s + 1 + 1"]) (simp_all add: capture_write_def writeDiameter_def diameter_length)
    next
      case False
      with Dia uv show ?thesis
        by (intro that [of "diameter_message cmd app rq (pkt_id s) avps" "pkt_id s + 1"])
          (simp_all add: capture_write_def writeDiameter_def diameter_length)
    qed
  next
    case (Sip t u v)
    with assms(3,5) show ?thesis
      by (intro that [of "to_bytes t" "pkt_id s"]) (auto simp: capture_write_def ims_writeSIP_def tcp_ends_def fits_def)
  next
    case (AppText t u v)
    with assms(3,5) show ?thesis
      by (intro that [of "to_bytes t" "pkt_id s"]) (auto simp: capture_write_def writeAppText_def tcp_ends_def fits_def)
  qed (use assms(3) in \<open>auto simp: tcp_ends_def\<close>)
  have "streams_inv E (s\<lparr> pkt_id := i \<rparr>)" "connKey x y \<in> tcp_started (s\<lparr> pkt_id := i \<rparr>) \<or> isClient x y"
    using assms(2,6) by (simp_all add: streams_inv_id)
  from data_step [OF assms(1) xy this b(2)] b(1) show ?thesis by (simp add: tcp_data_started)
qed

lemma capture_run_inv:
  assumes "keys_distinct E" "streams_inv E s" "\<forall>w\<in>set ws. fits w \<and> ends_in E w" "lower_first C ws"
    and "\<forall>(x, y)\<in>C. connKey x y \<in> tcp_started s"
  shows "streams_inv E (capture_run clk s ws)"
  using assms(2-5)
proof (induction ws arbitrary: s C)
  case (Cons w ws)
  show ?case
  proof (cases "tcp_ends w")
    case None
    with Cons.prems write_other [OF Cons.prems(1) None] Cons.IH [of "capture_write clk w s" C] show ?thesis
      by (auto simp: capture_run_def)
  next
    case (Some e)
    obtain x y where e: "e = (x, y)" by (cases e)
    have "connKey x y \<in> tcp_started s \<or> isClient x y"
      using Cons.prems(3,4) Some e connKey_swap [of x y] by auto
    from write_tcp_message [OF assms(1) Cons.prems(1) Some [unfolded e] _ _ this] Cons.prems
    have "streams_inv E (capture_write clk w s)" "tcp_started (capture_write clk w s) = insert (connKey x y) (tcp_started s)"
      by auto
    with Cons.prems Some e Cons.IH [of "capture_write clk w s" "insert (x, y) C"] show ?thesis
      by (auto simp: capture_run_def)
  qed
qed (simp add: capture_run_def)

lemma open_inv: "streams_inv E (pcap_open True s)"
  unfolding streams_inv_alt
  by (intro exI [of _ "[]"])
    (simp add: pcap_open_def captured_def read_capture_header segments_def List.map_filter_def tracks_def expected_def)

subsection \<open>The addresses of the nodes\<close>

text \<open>Nodes of one network of 16 bits, with ports that stay apart when the network is merged into them.\<close>

definition network_ends :: "u16 \<Rightarrow> u16 set \<Rightarrow> endpoint set" where
  "network_ends h P = {e. drop_bit 16 (fst e) = ucast h \<and> snd e \<in> P}"

definition core_ends :: "endpoint set" where
  "core_ends = network_ends 0x0A00 {3868, 3869, 5060}"

definition sba_ends :: "endpoint set" where
  "sba_ends = network_ends 0x0A01 {80, 38412}"


lemma network_end_bits:
  assumes "x \<in> network_ends h P" "n < 16"
  shows "bit (fst x) (n + 16) = bit h n"
proof -
  have "bit (drop_bit 16 (fst x)) n = bit (ucast h :: u32) n" using assms(1) by (simp add: network_ends_def)
  with assms(2) show ?thesis by (simp add: bit_simps ac_simps)
qed

lemma network_end_eqI:
  assumes "x \<in> network_ends h P" "y \<in> network_ends h P" "\<And>n. n < 16 \<Longrightarrow> bit (fst x) n = bit (fst y) n" "snd x = snd y"
  shows "x = y"
proof -
  have "fst x = fst y"
  proof (rule bit_word_eqI)
    fix n assume "n < LENGTH(32)"
    then show "bit (fst x) n = bit (fst y) n"
      using assms(3) [of n] network_end_bits [OF assms(1), of "n - 16"] network_end_bits [OF assms(2), of "n - 16"]
      by (cases "n < 16") auto
  qed
  with assms(4) show ?thesis by (simp add: prod_eq_iff)
qed

definition ordered_key :: "endpoint \<Rightarrow> endpoint \<Rightarrow> u64" where
  "ordered_key l m = push_bit 32 (endpoint_bits l) OR endpoint_bits m"

lemma connKey_ordered: "\<exists>l m. {l, m} = {x, y} \<and> connKey x y = ordered_key l m"
proof (cases "endpoint_bits x < endpoint_bits y")
  case True
  then show ?thesis by (intro exI [of _ x] exI [of _ y]) (simp add: connKey_def ordered_key_def Let_def)
next
  case False
  then show ?thesis by (intro exI [of _ y] exI [of _ x]) (simp add: connKey_def ordered_key_def Let_def insert_commute)
qed

lemma ordered_key_inj:
  assumes k: "ordered_key l m = ordered_key l' m'" and P: "inj_on (\<lambda>p. p OR h) P"
    and E: "l \<in> network_ends h P" "m \<in> network_ends h P" "l' \<in> network_ends h P" "m' \<in> network_ends h P"
  shows "l = l' \<and> m = m'"
proof -
  have kb: "bit (ordered_key l m) n = bit (ordered_key l' m') n" for n using k by simp
  have low: "bit (ordered_key a b) n = bit (endpoint_bits b) n" if "n < 32" for a b n
    using that by (simp add: ordered_key_def bit_simps)
  have "snd m = snd m'"
  proof (rule bit_word_eqI)
    fix n assume "n < LENGTH(16)"
    then show "bit (snd m) n = bit (snd m') n" using kb [of n] by (simp add: low endpoint_bits_bit)
  qed
  moreover have "bit (fst m) n = bit (fst m') n" if "n < 16" for n
    using kb [of "n + 16"] that by (simp add: low endpoint_bits_bit)
  ultimately have m: "m = m'" by (intro network_end_eqI [OF E(2,4)])
  have mid: "bit (ordered_key a b) (n + 32) \<longleftrightarrow> bit (snd a OR h) n"
    if "n < 16" "b \<in> network_ends h P" for a b n
    using that network_end_bits [OF that(2,1)] by (simp add: ordered_key_def bit_simps endpoint_bits_bit add.commute)
  have "snd l OR h = snd l' OR h"
  proof (rule bit_word_eqI)
    fix n assume "n < LENGTH(16)"
    then show "bit (snd l OR h) n = bit (snd l' OR h) n"
      using kb [of "n + 32"] mid [of n m l] mid [of n m' l'] E by simp
  qed
  then have "snd l = snd l'" using P E by (auto simp: network_ends_def dest: inj_onD)
  moreover have "bit (fst l) n = bit (fst l') n" if "n < 16" for n
  proof -
    have "bit (ordered_key a b) (n + 48) \<longleftrightarrow> bit (fst a) n" for a b
    proof -
      have "\<not> bit (fst b) (n + 32)" using bit_imp_le_length [of "fst b" "n + 32"] by auto
      with that show ?thesis by (simp add: ordered_key_def bit_simps endpoint_bits_bit ac_simps)
    qed
    with kb [of "n + 48"] show ?thesis by simp
  qed
  ultimately show ?thesis using m network_end_eqI [OF E(1,3)] by blast
qed

lemma network_keys:
  assumes "inj_on (\<lambda>p. p OR h) P"
  shows "keys_distinct (network_ends h P)"
  unfolding keys_distinct_def
proof (intro ballI impI)
  fix x y u v
  assume E: "x \<in> network_ends h P" "y \<in> network_ends h P" "u \<in> network_ends h P" "v \<in> network_ends h P"
    and k: "connKey x y = connKey u v"
  obtain l m where l: "{l, m} = {x, y}" "connKey x y = ordered_key l m" using connKey_ordered [of x y] by blast
  obtain l' m' where l': "{l', m'} = {u, v}" "connKey u v = ordered_key l' m'" using connKey_ordered [of u v] by blast
  have "l \<in> network_ends h P" "m \<in> network_ends h P" "l' \<in> network_ends h P" "m' \<in> network_ends h P"
    using E l(1) l'(1) by (auto simp: doubleton_eq_iff)
  from ordered_key_inj [OF _ assms this] k l l' show "{x, y} = {u, v}" by simp
qed

lemma core_keys: "keys_distinct core_ends"
  unfolding core_ends_def by (rule network_keys) (simp add: inj_on_def)

lemma sba_keys: "keys_distinct sba_ends"
  unfolding sba_ends_def by (rule network_keys) (simp add: inj_on_def)


subsection \<open>The properties\<close>

text \<open>C38. What is captured is read back: after any frames below 4 GB are written to an opened capture, the
  reader finds exactly these frames, in order, behind the file header.\<close>

theorem capture_reads_back:
  assumes "\<forall>f\<in>set fs. length f < 4294967296"
  shows "read_capture (pcap_file (foldl (\<lambda>s f. writePacket clk f s) (pcap_open True s0) fs)) = Some fs"
proof -
  have "captured (foldl (\<lambda>s f. writePacket clk f s) s fs) (gs @ fs)" if "captured s gs" for s gs
    using that assms
  proof (induction fs arbitrary: s gs)
    case (Cons f fs)
    from writePacket_captured [OF Cons.prems(1), of f clk] Cons.prems(2)
    have "captured (writePacket clk f s) (gs @ [f])" by simp
    from Cons.IH [OF this] Cons.prems(2) show ?case by simp
  qed simp
  moreover have "captured (pcap_open True s0) []"
    by (simp add: pcap_open_def captured_def read_capture_header)
  ultimately show ?thesis by (fastforce simp: captured_def)
qed

theorem capture_reads_back_witness:
  "read_capture (pcap_file (foldl (\<lambda>s f. writePacket (\<lambda>_. (7, 9)) f s) (pcap_open True pcap_init) [[1, 2, 3], []]))
     = Some [[1, 2, 3], []]"
  by (rule capture_reads_back) simp

text \<open>Captured IPv4 headers verify: whatever the fields, the checksum over the twenty bytes with the
  checksum put in is zero, in TCP, UDP and SCTP frames alike.\<close>

theorem ip_checksum_verifies:
  "ipChecksum (take 20 (drop 14 (buildIPTCP i s sp d dp b fl q a))) = 0
   \<and> ipChecksum (take 20 (drop 14 (buildIPUDP i s sp d dp b))) = 0
   \<and> ipChecksum (take 20 (drop 14 (sctp_frame i s sp d dp b tsn ssn ppid))) = 0"
  by (simp add: buildIPTCP_def buildIPUDP_def sctp_frame_def Let_def header_checksum)

text \<open>C35. TCP streams of a capture continue: for every sequence of writes among the addresses of the core or
  of the service-based interfaces, with every connection opened by its lower end, each segment in
  the file has the number that its direction expects and acknowledges what the other direction
  has sent.\<close>

theorem tcp_streams_continue:
  assumes "E = core_ends \<or> E = sba_ends" and "\<forall>w\<in>set ws. fits w \<and> ends_in E w" and "lower_first {} ws"
  shows "\<exists>fs. read_capture (pcap_file (capture_run clk (pcap_open True s0) ws)) = Some fs
     \<and> streams_ok Map.empty (segments fs)"
proof -
  have "keys_distinct E" using assms(1) core_keys sba_keys by blast
  from capture_run_inv [OF this open_inv assms(2,3)] show ?thesis by (auto simp: streams_inv_alt captured_def)
qed

theorem tcp_streams_continue_witness:
  "\<exists>fs. read_capture (pcap_file (capture_run (\<lambda>_. (0, 0)) (pcap_open True pcap_init)
          [Dia 318 16777251 True (0x0A000003, 3868) (0x0A000004, 3868) [],
           S1ap 0x0A000002 0x0A000003 [1, 2, 3],
           Dia 318 16777251 False (0x0A000004, 3868) (0x0A000003, 3868) [],
           Sip ''ACK'' (0x0A000001, 5060) (0x0A000008, 5060)])) = Some fs
     \<and> streams_ok Map.empty (segments fs)"
  by (rule tcp_streams_continue [of core_ends])
    (simp_all add: fits_def ends_in_def tcp_ends_def core_ends_def network_ends_def isClient_def endpoint_bits_def
      drop_bit_eq_div push_bit_eq_mult)

lemma higher_data:
  assumes "captured s []" "tcp_started s = {}" and "x \<noteq> y" "\<not> isClient x y" "length b \<le> 65495"
  shows "\<exists>fs. captured (tcp_data clk (x, y) x y b s) fs \<and> \<not> streams_ok Map.empty (segments fs)"
proof -
  let ?s = "s\<lparr> tcp_started := insert (connKey x y) (tcp_started s) \<rparr>"
  let ?s1 = "write_tcp clk x y [] 2 1000 0 ?s"
  let ?s2 = "write_tcp clk y x [] 0x12 2000 1001 ?s1"
  let ?s3 = "write_tcp clk x y [] 0x10 1001 2001 ?s2"
  let ?t = "?s3\<lparr> conn_seq := (conn_seq ?s3)(connKey x y \<mapsto> \<lparr> client_seq = 1001, server_seq = 2001 \<rparr>) \<rparr>"
  let ?w = "write_tcp clk x y b 0x18 2001 1001 ?t"
  have e: "length ([] :: bytes) \<le> 65495" by simp
  obtain f1 where f1: "captured ?s1 ([] @ [f1])" "segments [f1] = [seg x y 1000 0 2 0]"
    using write_tcp_captured [OF _ e, of ?s "[]"] assms(1) by fastforce
  obtain f2 where f2: "captured ?s2 (([] @ [f1]) @ [f2])" "segments [f2] = [seg y x 2000 1001 0x12 0]"
    using write_tcp_captured [OF f1(1) e] by fastforce
  obtain f3 where f3: "captured ?s3 ((([] @ [f1]) @ [f2]) @ [f3])" "segments [f3] = [seg x y 1001 2001 0x10 0]"
    using write_tcp_captured [OF f2(1) e] by fastforce
  have "captured ?t ((([] @ [f1]) @ [f2]) @ [f3])" using f3(1) by simp
  from write_tcp_captured [OF this assms(5)] obtain f4 where
    f4: "captured ?w (((([] @ [f1]) @ [f2]) @ [f3]) @ [f4])" "segments [f4] = [seg x y 2001 1001 0x18 (length b)]"
    by blast
  have "nextSeq ?t x y = 2001" "peerSeq ?t x y = 1001"
    using assms(4) by (simp_all add: nextSeq_def peerSeq_def conn_of_def)
  then have "tcp_data clk (x, y) x y b s = advanceSeq x y (word_of_nat (length b)) ?w"
    using assms(2) by (simp add: tcp_data_def ensureTcpHandshake_def Let_def)
  moreover have "captured (advanceSeq x y n ?w) gs = captured ?w gs" for n gs by (simp add: advanceSeq_def Let_def)
  moreover have "\<not> streams_ok Map.empty (segments [f1] @ segments [f2] @ segments [f3] @ segments [f4])"
    using assms(3) unfolding f1(2) f2(2) f3(2) f4(2)
    by (simp add: continues_def next_expected_def seg_def consumed_def bit_numeral_rec)
  ultimately show ?thesis
    using f4(1) by (intro exI [of _ "((([] @ [f1]) @ [f2]) @ [f3]) @ [f4]"]) (simp only: segments_append append_assoc append_Nil simp_thms)
qed

text \<open>A stream opened by its higher end breaks: the handshake numbers the opening end 1000, the data
  after it is numbered as if it were the other end, so the first data segment does not continue the
  stream. The S-CSCF opens its connection to the HSS this way.\<close>

theorem higher_end_breaks_stream:
  assumes "x \<noteq> y" and "\<not> isClient x y" and "length avps \<le> 65000"
  shows "\<exists>fs. read_capture (pcap_file (writeDiameter clk cmd app rq x y avps (pcap_open True s0))) = Some fs
     \<and> \<not> streams_ok Map.empty (segments fs)"
proof -
  let ?s = "pcap_open True s0"
  let ?m = "\<lambda>i a. diameter_message cmd app rq i a" and ?d = "default_avps (pkt_id ?s) (fst x) (fst y)"
  have o: "captured (?s\<lparr> pkt_id := i \<rparr>) []" "tcp_started (?s\<lparr> pkt_id := i \<rparr>) = {}" for i
    by (simp_all add: pcap_open_def captured_def read_capture_header)
  obtain i b where "writeDiameter clk cmd app rq x y avps ?s = tcp_data clk (x, y) x y b (?s\<lparr> pkt_id := i \<rparr>)" "length b \<le> 65495"
  proof (cases "avps = []")
    case True
    then show ?thesis
      using default_avps_length [of "pkt_id ?s" "fst x" "fst y"]
      by (intro that [of "?m (pkt_id ?s + 1) ?d" "pkt_id ?s + 1 + 1"]) (simp_all add: writeDiameter_def diameter_length)
  next
    case False
    then show ?thesis
      using assms(3) by (intro that [of "?m (pkt_id ?s) avps" "pkt_id ?s + 1"]) (simp_all add: writeDiameter_def diameter_length)
  qed
  with higher_data [OF o assms(1,2)] show ?thesis by (fastforce simp: captured_def)
qed

theorem higher_end_breaks_stream_witness:
  "\<exists>fs. read_capture (pcap_file (writeDiameter (\<lambda>_. (0, 0)) 301 16777216 True (0x0A000009, 3868) (0x0A000004, 3868) []
       (pcap_open True pcap_init))) = Some fs \<and> \<not> streams_ok Map.empty (segments fs)"
  by (rule higher_end_breaks_stream) (simp_all add: isClient_def endpoint_bits_def push_bit_eq_mult)

end
