(* ===== verification/Pool_Threads.thy ===== *)
theory Pool_Threads
  imports Prelude "HOL-Library.Multiset"
begin

text \<open>
  The thread pool of the 4G simulator (\<open>common/thread_pool.h\<close>): workers that sleep on a
  condition variable, \<open>submit\<close>, and the destructor. A step is a critical section under
  \<open>mutex_\<close>, a notification, the start of a sleep or the end of a task, and steps of all threads
  interleave. A worker that has found nothing to do still holds the mutex until it sleeps
  (\<open>W_Checked\<close>); \<open>cv.wait\<close> releases the mutex and sleeps in one step. \<open>wakes\<close> counts the
  \<open>notify_one\<close> calls that follow a push and are not made yet; \<open>submitted\<close>, \<open>started\<close> and
  \<open>finished\<close> are histories.
\<close>

subsection \<open>State and steps\<close>

datatype 'a worker = W_Awake | W_Checked | W_Asleep | W_Running 'a | W_Exited

datatype pool_life = Alive | Stopping | Joining | Joined

record 'a pool =
  queued :: "'a list"
  stop_flag :: bool
  crew :: "'a worker list"
  life :: pool_life
  wakes :: nat
  submitted :: "'a list"
  started :: "'a list"
  finished :: "'a list"

definition thread_pool_new :: "nat \<Rightarrow> 'a pool" where
  "thread_pool_new n = \<lparr> queued = [], stop_flag = False, crew = replicate n W_Awake, life = Alive, wakes = 0,
     submitted = [], started = [], finished = [] \<rparr>"

definition mutex_free :: "'a pool \<Rightarrow> bool" where
  "mutex_free s \<longleftrightarrow> W_Checked \<notin> set (crew s)"

definition at :: "'a pool \<Rightarrow> nat \<Rightarrow> 'a worker \<Rightarrow> bool" where
  "at s i w \<longleftrightarrow> i < length (crew s) \<and> crew s ! i = w"

definition move :: "nat \<Rightarrow> 'a worker \<Rightarrow> 'a pool \<Rightarrow> 'a pool" where
  "move i w s = s\<lparr>crew := (crew s)[i := w]\<rparr>"

definition wake :: "'a worker \<Rightarrow> 'a worker" where
  "wake w = (if w = W_Asleep then W_Awake else w)"

text \<open>
  What the owner of the pool does: \<open>submit\<close> pushes under the lock, the destructor begins with
  \<open>stop_.store(true)\<close>, which takes no lock. The destructor may not overlap a call of \<open>submit\<close>.
\<close>

inductive client_step :: "'a pool \<Rightarrow> 'a pool \<Rightarrow> bool" where
  submit: "life s = Alive \<Longrightarrow> mutex_free s \<Longrightarrow>
    client_step s (s\<lparr>queued := queued s @ [x], submitted := submitted s @ [x], wakes := Suc (wakes s)\<rparr>)"
| shutdown: "life s = Alive \<Longrightarrow> wakes s = 0 \<Longrightarrow> client_step s (s\<lparr>stop_flag := True, life := Stopping\<rparr>)"

text \<open>What happens without the owner: the second half of a submission, the workers, and the rest of
  the destructor, \<open>notify_all\<close> and the joins.\<close>

inductive pool_step :: "'a pool \<Rightarrow> 'a pool \<Rightarrow> bool" where
  notify_one: "0 < wakes s \<Longrightarrow> at s i W_Asleep \<Longrightarrow> pool_step s (move i W_Awake (s\<lparr>wakes := wakes s - 1\<rparr>))"
| notify_none: "0 < wakes s \<Longrightarrow> W_Asleep \<notin> set (crew s) \<Longrightarrow> pool_step s (s\<lparr>wakes := wakes s - 1\<rparr>)"
| take_task: "at s i W_Awake \<Longrightarrow> mutex_free s \<Longrightarrow> queued s = x # xs \<Longrightarrow>
    pool_step s (move i (W_Running x) (s\<lparr>queued := xs, started := started s @ [x]\<rparr>))"
| leave: "at s i W_Awake \<Longrightarrow> mutex_free s \<Longrightarrow> queued s = [] \<Longrightarrow> stop_flag s \<Longrightarrow>
    pool_step s (move i W_Exited s)"
| find_nothing: "at s i W_Awake \<Longrightarrow> mutex_free s \<Longrightarrow> queued s = [] \<Longrightarrow> \<not> stop_flag s \<Longrightarrow>
    pool_step s (move i W_Checked s)"
| fall_asleep: "at s i W_Checked \<Longrightarrow> pool_step s (move i W_Asleep s)"
| finish: "at s i (W_Running x) \<Longrightarrow> pool_step s (move i W_Awake (s\<lparr>finished := finished s @ [x]\<rparr>))"
| notify_all: "life s = Stopping \<Longrightarrow> pool_step s (s\<lparr>crew := map wake (crew s), life := Joining\<rparr>)"
| join_all: "life s = Joining \<Longrightarrow> set (crew s) \<subseteq> {W_Exited} \<Longrightarrow> pool_step s (s\<lparr>life := Joined\<rparr>)"

text \<open>A wait may also end for no reason.\<close>

inductive spurious :: "'a pool \<Rightarrow> 'a pool \<Rightarrow> bool" where
  spurious: "at s i W_Asleep \<Longrightarrow> spurious s (move i W_Awake s)"

definition any_step :: "'a pool \<Rightarrow> 'a pool \<Rightarrow> bool" where
  "any_step s t \<longleftrightarrow> client_step s t \<or> pool_step s t \<or> spurious s t"

inductive pool_reach :: "nat \<Rightarrow> 'a pool \<Rightarrow> bool" for n where
  start: "pool_reach n (thread_pool_new n)"
| step: "pool_reach n s \<Longrightarrow> any_step s t \<Longrightarrow> pool_reach n t"

lemmas pool_defs = mutex_free_def at_def move_def

subsection \<open>The tasks\<close>

fun running :: "'a worker \<Rightarrow> 'a list" where
  "running (W_Running x) = [x]"
| "running _ = []"

definition in_hand :: "'a worker list \<Rightarrow> 'a multiset" where
  "in_hand ws = (\<Sum>w\<in>#mset ws. mset (running w))"

lemma in_hand_simps [simp]: "in_hand [] = {#}" "in_hand (w # ws) = mset (running w) + in_hand ws"
  by (simp_all add: in_hand_def)

lemma in_hand_update: "i < length ws \<Longrightarrow> in_hand (ws[i := w]) + mset (running (ws ! i)) = in_hand ws + mset (running w)"
proof (induction ws arbitrary: i)
  case (Cons v vs)
  then show ?case by (cases i) (auto simp: algebra_simps)
qed simp

lemma in_hand_same: "i < length ws \<Longrightarrow> running (ws ! i) = [] \<Longrightarrow> running w = [] \<Longrightarrow> in_hand (ws[i := w]) = in_hand ws"
  using in_hand_update [of i ws w] by simp

lemma running_wake [simp]: "running (wake w) = running w"
  by (cases w) (auto simp: wake_def)

lemma in_hand_wake [simp]: "in_hand (map wake ws) = in_hand ws"
  by (induction ws) auto

lemma in_hand_replicate [simp]: "in_hand (replicate n W_Awake) = {#}"
  by (induction n) auto

text \<open>Tasks start in the order of their submission, and a started task is running or finished, once.\<close>

definition tasks_ok :: "'a pool \<Rightarrow> bool" where
  "tasks_ok s \<longleftrightarrow> submitted s = started s @ queued s \<and> mset (started s) = mset (finished s) + in_hand (crew s)"

lemma client_tasks: "client_step s t \<Longrightarrow> tasks_ok s \<Longrightarrow> tasks_ok t"
  by (induction rule: client_step.induct) (auto simp: tasks_ok_def)

lemma pool_tasks: "pool_step s t \<Longrightarrow> tasks_ok s \<Longrightarrow> tasks_ok t"
proof (induction rule: pool_step.induct)
  case (take_task s i x xs)
  then show ?case using in_hand_update [of i "crew s" "W_Running x"] by (simp add: tasks_ok_def pool_defs)
next
  case (finish s i x)
  then show ?case using in_hand_update [of i "crew s" W_Awake] by (simp add: tasks_ok_def pool_defs)
qed (auto simp: tasks_ok_def pool_defs in_hand_same)

lemma spurious_tasks: "spurious s t \<Longrightarrow> tasks_ok s \<Longrightarrow> tasks_ok t"
  by (induction rule: spurious.induct) (auto simp: tasks_ok_def pool_defs in_hand_same)

subsection \<open>No lost wake-up\<close>

definition busy :: "'a worker \<Rightarrow> bool" where
  "busy w \<longleftrightarrow> w = W_Awake \<or> (\<exists>x. w = W_Running x)"

lemma busy_simps [simp]: "busy W_Awake" "busy (W_Running x)" "\<not> busy W_Checked" "\<not> busy W_Asleep" "\<not> busy W_Exited"
  by (auto simp: busy_def)

text \<open>
  A queued task has a worker that will look at the queue, or a notification that is still to come;
  a worker holding the mutex has seen the queue empty; nobody leaves a queue behind.
\<close>

definition wakes_ok :: "'a pool \<Rightarrow> bool" where
  "wakes_ok s \<longleftrightarrow> (queued s \<noteq> [] \<longrightarrow> 0 < wakes s \<or> (\<exists>w\<in>set (crew s). busy w))
     \<and> (W_Checked \<in> set (crew s) \<longrightarrow> queued s = [])
     \<and> (W_Exited \<in> set (crew s) \<longrightarrow> queued s = [] \<and> life s \<noteq> Alive)
     \<and> (stop_flag s \<longleftrightarrow> life s \<noteq> Alive) \<and> (life s \<noteq> Alive \<longrightarrow> wakes s = 0)"

lemma set_update_other: "v \<in> set (ws[i := w]) \<Longrightarrow> v \<noteq> w \<Longrightarrow> v \<in> set ws"
  by (meson insertE set_update_subset_insert subsetD)

lemma busy_update: "i < length ws \<Longrightarrow> busy w \<Longrightarrow> \<exists>v\<in>set (ws[i := w]). busy v"
  by (meson set_update_memI)

lemma not_busy: "\<not> busy w \<longleftrightarrow> w = W_Checked \<or> w = W_Asleep \<or> w = W_Exited"
  by (cases w) auto

lemma crew_busy:
  assumes "wakes_ok s" and "crew s \<noteq> []" and "W_Asleep \<notin> set (crew s)" and "queued s \<noteq> []"
  shows "\<exists>w\<in>set (crew s). busy w"
proof -
  obtain w where w: "w \<in> set (crew s)" using assms(2) by (cases "crew s") auto
  then have "w \<noteq> W_Asleep \<and> w \<noteq> W_Checked \<and> w \<noteq> W_Exited"
    using assms by (auto simp: wakes_ok_def)
  with w show ?thesis by (metis not_busy)
qed

lemma client_wakes: "client_step s t \<Longrightarrow> wakes_ok s \<Longrightarrow> wakes_ok t"
  by (induction rule: client_step.induct) (auto simp: wakes_ok_def mutex_free_def)

lemma busy_elsewhere:
  assumes "\<exists>w\<in>set ws. busy w" and "i < length ws" and "\<not> busy (ws ! i)"
  shows "\<exists>w\<in>set (ws[i := v]). busy w"
proof -
  from assms(1) obtain j where j: "j < length ws" "busy (ws ! j)" by (metis in_set_conv_nth)
  with assms(3) have "j \<noteq> i" by auto
  with j have "ws[i := v] ! j = ws ! j" by simp
  with j show ?thesis by (metis length_list_update nth_mem)
qed

lemma pool_wakes: "pool_step s t \<Longrightarrow> wakes_ok s \<Longrightarrow> crew s \<noteq> [] \<Longrightarrow> wakes_ok t"
proof (induction rule: pool_step.induct)
  case (notify_one s i)
  then show ?case
    by (auto simp: wakes_ok_def pool_defs busy_update dest!: set_update_other)
next
  case (notify_none s)
  then show ?case using crew_busy [of s] by (auto simp: wakes_ok_def)
next
  case (take_task s i x xs)
  then show ?case
    by (auto simp: wakes_ok_def pool_defs busy_update dest!: set_update_other)
next
  case (leave s i)
  then show ?case by (auto simp: wakes_ok_def pool_defs dest!: set_update_other)
next
  case (find_nothing s i)
  then show ?case by (auto simp: wakes_ok_def pool_defs dest!: set_update_other)
next
  case (fall_asleep s i)
  then have "W_Checked \<in> set (crew s)" by (metis at_def nth_mem)
  with fall_asleep have "queued s = []" by (simp add: wakes_ok_def)
  with fall_asleep show ?case by (auto simp: wakes_ok_def pool_defs dest!: set_update_other)
next
  case (finish s i x)
  then show ?case by (auto simp: wakes_ok_def pool_defs busy_update dest!: set_update_other)
next
  case (notify_all s)
  have b: "busy w \<Longrightarrow> busy (wake w)" for w :: "'a worker" by (auto simp: wake_def)
  have e: "wake w = W_Exited \<Longrightarrow> w = W_Exited" "wake w = W_Checked \<Longrightarrow> w = W_Checked" for w :: "'a worker"
    by (auto simp: wake_def split: if_splits)
  from notify_all show ?case
    by (auto simp: wakes_ok_def dest: b e(1) [OF sym] e(2) [OF sym])
next
  case (join_all s)
  then show ?case by (auto simp: wakes_ok_def)
qed

lemma spurious_wakes: "spurious s t \<Longrightarrow> wakes_ok s \<Longrightarrow> wakes_ok t"
  by (induction rule: spurious.induct) (auto simp: wakes_ok_def pool_defs busy_update dest!: set_update_other)

definition pool_ok :: "nat \<Rightarrow> 'a pool \<Rightarrow> bool" where
  "pool_ok n s \<longleftrightarrow> tasks_ok s \<and> wakes_ok s \<and> length (crew s) = n"

lemma crew_length:
  "client_step s t \<Longrightarrow> length (crew t) = length (crew s)"
  "pool_step s t \<Longrightarrow> length (crew t) = length (crew s)"
  "spurious s t \<Longrightarrow> length (crew t) = length (crew s)"
  by (auto elim!: client_step.cases pool_step.cases spurious.cases simp: move_def)

lemma pool_step_ok: "pool_step s t \<Longrightarrow> 0 < n \<Longrightarrow> pool_ok n s \<Longrightarrow> pool_ok n t"
  using pool_tasks [of s t] pool_wakes [of s t] crew_length(2) [of s t] by (cases "crew s") (auto simp: pool_ok_def)

lemma any_step_ok: "any_step s t \<Longrightarrow> 0 < n \<Longrightarrow> pool_ok n s \<Longrightarrow> pool_ok n t"
  using pool_step_ok [of s t n] client_tasks [of s t] client_wakes [of s t] crew_length(1,3) [of s t]
    spurious_tasks [of s t] spurious_wakes [of s t]
  by (auto simp: pool_ok_def any_step_def)

lemma thread_pool_new_ok: "0 < n \<Longrightarrow> pool_ok n (thread_pool_new n)"
  by (auto simp: pool_ok_def thread_pool_new_def tasks_ok_def wakes_ok_def)

lemma pool_reach_ok: "pool_reach n s \<Longrightarrow> 0 < n \<Longrightarrow> pool_ok n s"
  by (induction rule: pool_reach.induct) (auto intro: thread_pool_new_ok any_step_ok)

subsection \<open>Every submitted task finishes\<close>

fun worker_weight :: "'a worker \<Rightarrow> nat" where
  "worker_weight W_Exited = 0"
| "worker_weight W_Asleep = 1"
| "worker_weight W_Checked = 2"
| "worker_weight W_Awake = 3"
| "worker_weight (W_Running x) = 4"

definition crew_weight :: "'a worker list \<Rightarrow> nat" where
  "crew_weight ws = (\<Sum>w\<leftarrow>ws. worker_weight w)"

fun life_weight :: "nat \<Rightarrow> pool_life \<Rightarrow> nat" where
  "life_weight n Stopping = 2 * n + 2"
| "life_weight n Joining = 1"
| "life_weight n _ = 0"

text \<open>An upper bound of the steps the pool can still make on its own.\<close>

definition pool_work :: "'a pool \<Rightarrow> nat" where
  "pool_work s = 2 * length (queued s) + 3 * wakes s + crew_weight (crew s) + life_weight (length (crew s)) (life s)"

lemma crew_weight_update:
  "i < length ws \<Longrightarrow> crew_weight (ws[i := w]) + worker_weight (ws ! i) = crew_weight ws + worker_weight w"
proof (induction ws arbitrary: i)
  case (Cons v vs)
  then show ?case by (cases i) (auto simp: crew_weight_def)
qed simp

lemma crew_weight_wake: "crew_weight (map wake ws) \<le> crew_weight ws + 2 * length ws"
  by (induction ws) (auto simp: crew_weight_def wake_def)

lemma pool_step_work: "pool_step s t \<Longrightarrow> pool_work t < pool_work s"
proof (induction rule: pool_step.induct)
  case (notify_one s i)
  then show ?case using crew_weight_update [of i "crew s" W_Awake] by (simp add: pool_work_def pool_defs)
next
  case (take_task s i x xs)
  then show ?case using crew_weight_update [of i "crew s" "W_Running x"] by (simp add: pool_work_def pool_defs)
next
  case (leave s i)
  then show ?case using crew_weight_update [of i "crew s" W_Exited] by (simp add: pool_work_def pool_defs)
next
  case (find_nothing s i)
  then show ?case using crew_weight_update [of i "crew s" W_Checked] by (simp add: pool_work_def pool_defs)
next
  case (fall_asleep s i)
  then show ?case using crew_weight_update [of i "crew s" W_Asleep] by (simp add: pool_work_def pool_defs)
next
  case (finish s i x)
  then show ?case using crew_weight_update [of i "crew s" W_Awake] by (simp add: pool_work_def pool_defs)
next
  case (notify_all s)
  then show ?case using crew_weight_wake [of "crew s"] by (simp add: pool_work_def)
qed (simp_all add: pool_work_def)

lemma pool_steps_bound: "(pool_step ^^ k) s t \<Longrightarrow> k + pool_work t \<le> pool_work s"
proof (induction k arbitrary: t)
  case (Suc k)
  then obtain u where "(pool_step ^^ k) s u" "pool_step u t" by auto
  with Suc.IH [of u] pool_step_work [of u t] show ?case by simp
qed simp

definition at_rest :: "'a pool \<Rightarrow> bool" where
  "at_rest s \<longleftrightarrow> (\<forall>t. \<not> pool_step s t)"

lemma rest_no_checked: "at_rest s \<Longrightarrow> W_Checked \<notin> set (crew s)"
  by (metis at_def at_rest_def fall_asleep in_set_conv_nth)

lemma rest_no_running: "at_rest s \<Longrightarrow> W_Running x \<notin> set (crew s)"
  by (metis at_def at_rest_def finish in_set_conv_nth)

lemma rest_no_awake:
  assumes "at_rest s"
  shows "W_Awake \<notin> set (crew s)"
proof
  assume "W_Awake \<in> set (crew s)"
  then obtain i where i: "at s i W_Awake" by (metis at_def in_set_conv_nth)
  have m: "mutex_free s" using rest_no_checked [OF assms] by (simp add: mutex_free_def)
  have "\<exists>t. pool_step s t"
  proof (cases "queued s")
    case Nil
    with i m show ?thesis by (cases "stop_flag s") (blast intro: leave find_nothing)+
  next
    case (Cons x xs)
    from take_task [OF i m this] show ?thesis by blast
  qed
  with assms show False by (auto simp: at_rest_def)
qed

lemma rest_no_wakes: "at_rest s \<Longrightarrow> wakes s = 0"
  by (metis at_def at_rest_def gr0I in_set_conv_nth notify_none notify_one)

lemma rest_not_stopping: "at_rest s \<Longrightarrow> life s \<noteq> Stopping"
  by (metis at_rest_def notify_all)

lemma rest_crew: "at_rest s \<Longrightarrow> w \<in> set (crew s) \<Longrightarrow> w = W_Asleep \<or> w = W_Exited"
  using rest_no_checked [of s] rest_no_awake [of s] rest_no_running [of s] by (cases w) auto

lemma in_hand_rest: "(\<forall>w\<in>set ws. w = W_Asleep \<or> w = W_Exited) \<Longrightarrow> in_hand ws = {#}"
  by (induction ws) auto

lemma rest_finished:
  assumes "pool_ok n s" and "at_rest s"
  shows "queued s = [] \<and> mset (finished s) = mset (submitted s)"
proof -
  have c: "w = W_Asleep \<or> w = W_Exited" if "w \<in> set (crew s)" for w
    using rest_crew [OF assms(2) that] .
  then have "\<not> (\<exists>w\<in>set (crew s). busy w)" by (metis not_busy)
  with assms rest_no_wakes [OF assms(2)] have q: "queued s = []"
    by (auto simp: pool_ok_def wakes_ok_def)
  moreover have "in_hand (crew s) = {#}" using c by (intro in_hand_rest) blast
  ultimately show ?thesis
    using assms(1) by (simp add: pool_ok_def tasks_ok_def)
qed

lemma pool_step_submitted: "pool_step s t \<Longrightarrow> submitted t = submitted s"
  by (auto elim!: pool_step.cases simp: move_def)

lemma pool_steps_keep:
  "(pool_step ^^ k) s t \<Longrightarrow> 0 < n \<Longrightarrow> pool_ok n s \<Longrightarrow> pool_ok n t \<and> submitted t = submitted s"
proof (induction k arbitrary: t)
  case (Suc k)
  then obtain u where u: "(pool_step ^^ k) s u" "pool_step u t" by auto
  from Suc.IH [OF u(1) Suc.prems(2,3)] pool_step_ok [OF u(2) Suc.prems(2)] pool_step_submitted [OF u(2)]
  show ?case by simp
qed simp

subsection \<open>Stopping the pool\<close>

text \<open>
  Had the destructor stored \<open>stop_\<close> while no worker held the mutex, every worker would leave and
  the joins would return.
\<close>

definition will_join :: "'a pool \<Rightarrow> bool" where
  "will_join s \<longleftrightarrow> stop_flag s \<and> mutex_free s \<and> (life s = Stopping \<or> life s \<noteq> Alive \<and> W_Asleep \<notin> set (crew s))"

lemma will_join_step:
  assumes "pool_step s t" and "will_join s"
  shows "will_join t"
  using assms
proof (induction rule: pool_step.induct)
  case (notify_all s)
  then show ?case by (auto simp: will_join_def mutex_free_def wake_def split: if_splits)
next
  case (fall_asleep s i)
  then have "W_Checked \<in> set (crew s)" by (metis at_def nth_mem)
  with fall_asleep show ?case by (simp add: will_join_def mutex_free_def)
qed (auto simp: will_join_def pool_defs dest!: set_update_other)

lemma will_join_steps: "(pool_step ^^ k) s t \<Longrightarrow> will_join s \<Longrightarrow> will_join t"
  by (induction k arbitrary: t) (auto intro: will_join_step)

lemma will_join_rest:
  assumes "will_join s" and "at_rest s"
  shows "life s = Joined"
proof -
  have "life s \<noteq> Stopping" by (rule rest_not_stopping [OF assms(2)])
  with assms(1) have a: "life s \<noteq> Alive" "W_Asleep \<notin> set (crew s)" by (auto simp: will_join_def)
  with rest_crew [OF assms(2)] have "set (crew s) \<subseteq> {W_Exited}" by blast
  with assms(2) have "life s \<noteq> Joining" by (metis at_rest_def join_all)
  with a \<open>life s \<noteq> Stopping\<close> show ?thesis by (cases "life s") auto
qed

lemma shutdown_joins:
  assumes "will_join s" and "(pool_step ^^ k) s t" and "at_rest t"
  shows "life t = Joined"
  using will_join_rest [OF will_join_steps [OF assms(2,1)] assms(3)] .

text \<open>A worker in the mutex when \<open>stop_\<close> is stored sleeps after \<open>notify_all\<close>.\<close>

definition stuck_pool :: "'a pool" where
  "stuck_pool = \<lparr> queued = [], stop_flag = True, crew = [W_Asleep], life = Joining, wakes = 0,
     submitted = [], started = [], finished = [] \<rparr>"

lemma stuck_reached: "pool_reach 1 (stuck_pool :: 'a pool)"
proof -
  let ?n = "thread_pool_new 1 :: 'a pool"
  have "any_step ?n (move 0 W_Checked ?n)" (is "any_step _ ?c")
    unfolding any_step_def
    by (intro disjI2 disjI1 find_nothing) (auto simp: thread_pool_new_def pool_defs)
  moreover have "any_step ?c (?c\<lparr>stop_flag := True, life := Stopping\<rparr>)" (is "any_step _ ?s")
    unfolding any_step_def by (intro disjI1 shutdown) (auto simp: thread_pool_new_def move_def)
  moreover have "any_step ?s (?s\<lparr>crew := map wake (crew ?s), life := Joining\<rparr>)" (is "any_step _ ?j")
    unfolding any_step_def by (intro disjI2 disjI1 notify_all) simp
  moreover have "any_step ?j (move 0 W_Asleep ?j)"
    unfolding any_step_def
    by (intro disjI2 disjI1 fall_asleep) (auto simp: thread_pool_new_def pool_defs wake_def)
  moreover have "move 0 W_Asleep ?j = stuck_pool"
    by (simp add: stuck_pool_def thread_pool_new_def move_def wake_def)
  ultimately show ?thesis
    by (metis pool_reach.start pool_reach.step)
qed

lemma stuck_rests: "at_rest stuck_pool"
  by (auto simp: at_rest_def stuck_pool_def at_def elim!: pool_step.cases)

lemma stuck_no_client: "\<not> client_step stuck_pool t"
  by (auto simp: stuck_pool_def elim!: client_step.cases)

end
