(* ===== verification/Pool_Backlog.thy ===== *)
theory Pool_Backlog
  imports Pool_Threads
begin

text \<open>
  The queue of performance scenario 3 (\<open>perf/perf_scenarios.h\<close>): one queue_producer, two slow
  consumers, and in the fixed version a bound of ten entries that the queue_producer waits for. The
  workers and their condition variable are those of the thread pool; the queue_producer has one of its
  own for a slot that became free. \<open>p_done\<close> counts processed items, \<open>taken\<close> is the history of the
  pops.
\<close>

subsection \<open>State and steps\<close>

datatype queue_producer = Ready | Held | Waiting | Notify | Stopped | Joins | Ended

record backlog =
  items :: "nat list"
  hands :: "nat worker list"
  maker :: queue_producer
  next_item :: nat
  halt :: bool
  p_done :: nat
  peak_depth :: nat
  taken :: "nat list"

definition MAX_Q :: nat where
  "MAX_Q = 10"

definition backlog_new :: backlog where
  "backlog_new = \<lparr> items = [], hands = replicate 2 W_Awake, maker = Ready, next_item = 0, halt = False,
     p_done = 0, peak_depth = 0, taken = [] \<rparr>"

definition qmtx_free :: "backlog \<Rightarrow> bool" where
  "qmtx_free s \<longleftrightarrow> W_Checked \<notin> set (hands s) \<and> maker s \<noteq> Held"

definition hand :: "backlog \<Rightarrow> nat \<Rightarrow> nat worker \<Rightarrow> bool" where
  "hand s i w \<longleftrightarrow> i < length (hands s) \<and> hands s ! i = w"

definition set_hand :: "nat \<Rightarrow> nat worker \<Rightarrow> backlog \<Rightarrow> backlog" where
  "set_hand i w s = s\<lparr>hands := (hands s)[i := w]\<rparr>"

definition push_item :: "backlog \<Rightarrow> backlog" where
  "push_item s = s\<lparr>items := items s @ [next_item s], next_item := Suc (next_item s),
     peak_depth := max (peak_depth s) (Suc (length (items s))), maker := Notify\<rparr>"

definition slot_freed :: "bool \<Rightarrow> queue_producer \<Rightarrow> queue_producer" where
  "slot_freed buggy p = (if \<not> buggy \<and> p = Waiting then Ready else p)"

inductive backlog_step :: "bool \<Rightarrow> nat \<Rightarrow> backlog \<Rightarrow> backlog \<Rightarrow> bool" for buggy n where
  push: "maker s = Ready \<Longrightarrow> next_item s < n \<Longrightarrow> qmtx_free s \<Longrightarrow>
    buggy \<or> length (items s) < MAX_Q \<or> halt s \<Longrightarrow> backlog_step buggy n s (push_item s)"
| full: "maker s = Ready \<Longrightarrow> next_item s < n \<Longrightarrow> qmtx_free s \<Longrightarrow>
    \<not> buggy \<Longrightarrow> MAX_Q \<le> length (items s) \<Longrightarrow> \<not> halt s \<Longrightarrow> backlog_step buggy n s (s\<lparr>maker := Held\<rparr>)"
| wait_slot: "maker s = Held \<Longrightarrow> backlog_step buggy n s (s\<lparr>maker := Waiting\<rparr>)"
| tell_one: "maker s = Notify \<Longrightarrow> hand s i W_Asleep \<Longrightarrow>
    backlog_step buggy n s (set_hand i W_Awake (s\<lparr>maker := Ready\<rparr>))"
| tell_none: "maker s = Notify \<Longrightarrow> W_Asleep \<notin> set (hands s) \<Longrightarrow> backlog_step buggy n s (s\<lparr>maker := Ready\<rparr>)"
| drained: "maker s = Ready \<Longrightarrow> n \<le> next_item s \<Longrightarrow> n \<le> p_done s \<Longrightarrow>
    backlog_step buggy n s (s\<lparr>halt := True, maker := Stopped\<rparr>)"
| tell_all: "maker s = Stopped \<Longrightarrow> backlog_step buggy n s (s\<lparr>hands := map wake (hands s), maker := Joins\<rparr>)"
| joined: "maker s = Joins \<Longrightarrow> set (hands s) \<subseteq> {W_Exited} \<Longrightarrow> backlog_step buggy n s (s\<lparr>maker := Ended\<rparr>)"
| take_item: "hand s i W_Awake \<Longrightarrow> qmtx_free s \<Longrightarrow> items s = x # xs \<Longrightarrow>
    backlog_step buggy n s (set_hand i (W_Running x)
      (s\<lparr>items := xs, taken := taken s @ [x], maker := slot_freed buggy (maker s)\<rparr>))"
| quit: "hand s i W_Awake \<Longrightarrow> qmtx_free s \<Longrightarrow> items s = [] \<Longrightarrow> halt s \<Longrightarrow>
    backlog_step buggy n s (set_hand i W_Exited s)"
| see_empty: "hand s i W_Awake \<Longrightarrow> qmtx_free s \<Longrightarrow> items s = [] \<Longrightarrow> \<not> halt s \<Longrightarrow>
    backlog_step buggy n s (set_hand i W_Checked s)"
| doze: "hand s i W_Checked \<Longrightarrow> backlog_step buggy n s (set_hand i W_Asleep s)"
| processed: "hand s i (W_Running x) \<Longrightarrow>
    backlog_step buggy n s (set_hand i W_Awake (s\<lparr>p_done := Suc (p_done s)\<rparr>))"

lemmas hand_defs = hand_def set_hand_def qmtx_free_def

subsection \<open>Invariant\<close>

definition flow_ok :: "bool \<Rightarrow> nat \<Rightarrow> backlog \<Rightarrow> bool" where
  "flow_ok buggy n s \<longleftrightarrow> taken s @ items s = [0..<next_item s] \<and> next_item s \<le> n
     \<and> p_done s + size (in_hand (hands s)) = length (taken s)"

definition depth_ok :: "bool \<Rightarrow> backlog \<Rightarrow> bool" where
  "depth_ok buggy s \<longleftrightarrow> length (items s) \<le> peak_depth s \<and> (\<not> buggy \<longrightarrow> peak_depth s \<le> MAX_Q)"

definition notices_ok :: "bool \<Rightarrow> nat \<Rightarrow> backlog \<Rightarrow> bool" where
  "notices_ok buggy n s \<longleftrightarrow> (items s \<noteq> [] \<longrightarrow> maker s = Notify \<or> (\<exists>w\<in>set (hands s). busy w))
     \<and> (W_Checked \<in> set (hands s) \<longrightarrow> items s = [])
     \<and> (W_Exited \<in> set (hands s) \<longrightarrow> halt s)
     \<and> (halt s \<longleftrightarrow> maker s \<in> {Stopped, Joins, Ended})
     \<and> (halt s \<longrightarrow> items s = [] \<and> p_done s = n \<and> next_item s = n)
     \<and> (maker s \<in> {Held, Waiting} \<longrightarrow> \<not> buggy \<and> MAX_Q \<le> length (items s))"

definition backlog_ok :: "bool \<Rightarrow> nat \<Rightarrow> backlog \<Rightarrow> bool" where
  "backlog_ok buggy n s \<longleftrightarrow> flow_ok buggy n s \<and> depth_ok buggy s \<and> notices_ok buggy n s \<and> length (hands s) = 2"

lemma size_update: "i < length ws \<Longrightarrow>
  size (in_hand (ws[i := w])) + length (running (ws ! i)) = size (in_hand ws) + length (running w)"
  using in_hand_update [of i ws w] by (metis size_mset size_union)

lemma step_flow: "backlog_step buggy n s t \<Longrightarrow> flow_ok buggy n s \<Longrightarrow> flow_ok buggy n t"
proof (induction rule: backlog_step.induct)
  case (take_item s i x xs)
  then show ?case using size_update [of i "hands s" "W_Running x"] by (simp add: flow_ok_def hand_defs)
next
  case (processed s i x)
  then show ?case using size_update [of i "hands s" W_Awake] by (simp add: flow_ok_def hand_defs)
qed (auto simp: flow_ok_def hand_defs push_item_def in_hand_same)

lemma step_depth:
  assumes "backlog_step buggy n s t" and "depth_ok buggy s" and "notices_ok buggy n s"
  shows "depth_ok buggy t"
  using assms
proof (induction rule: backlog_step.induct)
  case (push s)
  then have "\<not> halt s" by (auto simp: notices_ok_def)
  with push show ?case by (auto simp: depth_ok_def push_item_def)
qed (auto simp: depth_ok_def set_hand_def)

lemma flow_all_taken:
  assumes "flow_ok buggy n s" and "n \<le> next_item s" and "n \<le> p_done s"
  shows "items s = [] \<and> p_done s = n \<and> next_item s = n"
proof -
  have "length (taken s) + length (items s) = next_item s"
    using assms(1) by (metis diff_zero flow_ok_def length_append length_upt)
  moreover have "next_item s \<le> n" "p_done s \<le> length (taken s)"
    using assms(1) by (auto simp: flow_ok_def)
  ultimately have "length (items s) = 0 \<and> p_done s = n \<and> next_item s = n"
    using assms(2,3) by linarith
  then show ?thesis by simp
qed

lemma hands_busy:
  assumes "notices_ok buggy n s" and "hands s \<noteq> []" and "W_Asleep \<notin> set (hands s)" and "items s \<noteq> []"
  shows "\<exists>w\<in>set (hands s). busy w"
proof -
  obtain w where w: "w \<in> set (hands s)" using assms(2) by (cases "hands s") auto
  then have "w \<noteq> W_Asleep \<and> w \<noteq> W_Checked \<and> w \<noteq> W_Exited"
    using assms by (auto simp: notices_ok_def)
  with w show ?thesis by (metis not_busy)
qed

lemma step_notices:
  assumes "backlog_step buggy n s t" and "notices_ok buggy n s" and "flow_ok buggy n s" and "hands s \<noteq> []"
  shows "notices_ok buggy n t"
  using assms
proof (induction rule: backlog_step.induct)
  case (push s)
  then show ?case by (auto simp: notices_ok_def push_item_def qmtx_free_def)
next
  case (full s)
  then have "items s \<noteq> []" by (auto simp: MAX_Q_def)
  with full show ?case by (auto simp: notices_ok_def)
next
  case (wait_slot s)
  then show ?case by (auto simp: notices_ok_def)
next
  case (tell_one s i)
  then show ?case by (auto simp: notices_ok_def hand_defs busy_update dest!: set_update_other)
next
  case (tell_none s)
  then show ?case using hands_busy [of buggy n s] by (auto simp: notices_ok_def)
next
  case (drained s)
  then show ?case using flow_all_taken [of buggy n s] by (auto simp: notices_ok_def)
next
  case (tell_all s)
  have e: "wake w = W_Exited \<Longrightarrow> w = W_Exited" "wake w = W_Checked \<Longrightarrow> w = W_Checked" for w :: "nat worker"
    by (auto simp: wake_def split: if_splits)
  from tell_all show ?case by (auto simp: notices_ok_def dest: e(1) [OF sym] e(2) [OF sym])
next
  case (joined s)
  then show ?case by (auto simp: notices_ok_def)
next
  case (take_item s i x xs)
  then show ?case
    by (auto simp: notices_ok_def hand_defs slot_freed_def busy_update dest!: set_update_other)
next
  case (quit s i)
  then show ?case by (auto simp: notices_ok_def hand_defs dest!: set_update_other)
next
  case (see_empty s i)
  then show ?case by (auto simp: notices_ok_def hand_defs dest!: set_update_other)
next
  case (doze s i)
  then have "W_Checked \<in> set (hands s)" by (metis hand_def nth_mem)
  with doze have "items s = []" by (simp add: notices_ok_def)
  with doze show ?case by (auto simp: notices_ok_def hand_defs dest!: set_update_other)
next
  case (processed s i x)
  have "\<not> halt s"
  proof
    assume "halt s"
    with processed have "in_hand (hands s) = {#}" "taken s = [0..<n]" "p_done s = n"
      by (auto simp: notices_ok_def flow_ok_def)
    moreover have "x \<in># in_hand (hands s)"
      using processed(1) in_hand_update [of i "hands s" W_Awake]
      by (simp add: hand_def) (metis union_single_eq_member)
    ultimately show False by simp
  qed
  with processed show ?case
    by (auto simp: notices_ok_def hand_defs busy_update dest!: set_update_other)
qed

lemma step_hands: "backlog_step buggy n s t \<Longrightarrow> length (hands t) = length (hands s)"
  by (auto elim!: backlog_step.cases simp: set_hand_def push_item_def)

lemma step_backlog: "backlog_step buggy n s t \<Longrightarrow> backlog_ok buggy n s \<Longrightarrow> backlog_ok buggy n t"
  using step_flow [of buggy n s t] step_depth [of buggy n s t] step_notices [of buggy n s t] step_hands [of buggy n s t]
  by (cases "hands s") (auto simp: backlog_ok_def)

lemma backlog_new_ok: "backlog_ok buggy n backlog_new"
  by (auto simp: backlog_ok_def flow_ok_def depth_ok_def notices_ok_def backlog_new_def numeral_2_eq_2)

lemma backlog_steps_ok: "(backlog_step buggy n ^^ k) backlog_new s \<Longrightarrow> backlog_ok buggy n s"
  by (induction k arbitrary: s) (auto intro: backlog_new_ok step_backlog)

subsection \<open>The scenario ends\<close>

fun maker_weight :: "queue_producer \<Rightarrow> nat" where
  "maker_weight Notify = 11"
| "maker_weight Ready = 8"
| "maker_weight Held = 7"
| "maker_weight Waiting = 6"
| "maker_weight Stopped = 6"
| "maker_weight Joins = 1"
| "maker_weight Ended = 0"

definition backlog_work :: "nat \<Rightarrow> backlog \<Rightarrow> nat" where
  "backlog_work n s = 8 * (n - next_item s) + 4 * length (items s) + crew_weight (hands s) + maker_weight (maker s)"

lemma step_work: "backlog_step buggy n s t \<Longrightarrow> length (hands s) = 2 \<Longrightarrow> backlog_work n t < backlog_work n s"
proof (induction rule: backlog_step.induct)
  case (push s)
  then have "n - next_item s = Suc (n - Suc (next_item s))" by simp
  with push show ?case by (simp add: backlog_work_def push_item_def)
next
  case (tell_one s i)
  then show ?case using crew_weight_update [of i "hands s" W_Awake] by (simp add: backlog_work_def hand_defs)
next
  case (tell_all s)
  then show ?case using crew_weight_wake [of "hands s"] by (simp add: backlog_work_def)
next
  case (take_item s i x xs)
  then show ?case using crew_weight_update [of i "hands s" "W_Running x"]
    by (simp add: backlog_work_def hand_defs slot_freed_def)
next
  case (quit s i)
  then show ?case using crew_weight_update [of i "hands s" W_Exited] by (simp add: backlog_work_def hand_defs)
next
  case (see_empty s i)
  then show ?case using crew_weight_update [of i "hands s" W_Checked] by (simp add: backlog_work_def hand_defs)
next
  case (doze s i)
  then show ?case using crew_weight_update [of i "hands s" W_Asleep] by (simp add: backlog_work_def hand_defs)
next
  case (processed s i x)
  then show ?case using crew_weight_update [of i "hands s" W_Awake] by (simp add: backlog_work_def hand_defs)
qed (simp_all add: backlog_work_def)

lemma backlog_steps_bound:
  "(backlog_step buggy n ^^ k) backlog_new s \<Longrightarrow> k + backlog_work n s \<le> backlog_work n backlog_new"
proof (induction k arbitrary: s)
  case (Suc k)
  then obtain u where u: "(backlog_step buggy n ^^ k) backlog_new u" "backlog_step buggy n u s" by auto
  have "length (hands u) = 2" using backlog_steps_ok [OF u(1)] by (simp add: backlog_ok_def)
  with Suc.IH [OF u(1)] step_work [OF u(2)] show ?case by simp
qed simp

definition halted :: "bool \<Rightarrow> nat \<Rightarrow> backlog \<Rightarrow> bool" where
  "halted buggy n s \<longleftrightarrow> (\<forall>t. \<not> backlog_step buggy n s t)"

lemma halted_hands:
  assumes "halted buggy n s" and "maker s \<noteq> Held"
  shows "w \<in> set (hands s) \<Longrightarrow> w = W_Asleep \<or> w = W_Exited"
proof -
  assume w: "w \<in> set (hands s)"
  then obtain i where i: "hand s i w" by (metis hand_def in_set_conv_nth)
  have c: "W_Checked \<notin> set (hands s)"
    using assms(1) by (metis doze halted_def hand_def in_set_conv_nth)
  with assms(2) have f: "qmtx_free s" by (simp add: qmtx_free_def)
  have "w \<noteq> W_Awake"
  proof
    assume "w = W_Awake"
    with i have a: "hand s i W_Awake" by simp
    have "\<exists>t. backlog_step buggy n s t"
    proof (cases "items s")
      case Nil
      with a f show ?thesis by (cases "halt s") (blast intro: quit see_empty)+
    next
      case (Cons x xs)
      from take_item [OF a f this] show ?thesis by blast
    qed
    with assms(1) show False by (simp add: halted_def)
  qed
  moreover have "w \<noteq> W_Running x" for x
    using assms(1) i processed by (metis halted_def)
  ultimately show "w = W_Asleep \<or> w = W_Exited"
    using c w by (cases w) auto
qed

lemma halted_done:
  assumes ok: "backlog_ok buggy n s" and rest: "halted buggy n s"
  shows "p_done s = n \<and> taken s = [0..<n]"
proof -
  have h: "maker s \<noteq> Held" using rest wait_slot by (metis halted_def)
  have hands: "\<forall>w\<in>set (hands s). w = W_Asleep \<or> w = W_Exited"
    using halted_hands [OF rest h] by blast
  then have nb: "\<not> (\<exists>w\<in>set (hands s). busy w)" by (metis not_busy)
  have f: "qmtx_free s" using hands h by (auto simp: qmtx_free_def)
  have nn: "maker s \<noteq> Notify"
    using rest by (metis halted_def hand_def in_set_conv_nth tell_none tell_one)
  have "items s = []" using ok nb nn by (auto simp: backlog_ok_def notices_ok_def)
  moreover have "in_hand (hands s) = {#}" by (rule in_hand_rest [OF hands])
  ultimately have t: "taken s = [0..<next_item s]" "p_done s = next_item s" "next_item s \<le> n"
    using ok by (auto simp: backlog_ok_def flow_ok_def)
  have "maker s \<noteq> Waiting"
    using ok \<open>items s = []\<close> by (auto simp: backlog_ok_def notices_ok_def MAX_Q_def)
  moreover have "maker s \<noteq> Ready" if "next_item s < n"
    using rest push [of s n buggy] f that \<open>items s = []\<close> by (auto simp: halted_def MAX_Q_def)
  moreover have "maker s \<noteq> Stopped" using rest tell_all by (metis halted_def)
  ultimately have "next_item s = n"
    using ok t(3) h nn by (cases "maker s"; cases "next_item s < n") (simp_all add: backlog_ok_def notices_ok_def)
  with t show ?thesis by simp
qed

end
