(* ===== verification/Pool_System.thy ===== *)
theory Pool_System
  imports Pool_Backlog
begin

text \<open>
  The properties of the thread pool and of the bounded queue: every submitted task finishes, the
  destructor of the pool can wait for ever, and the bounded queue keeps its bound without losing
  an item.
\<close>

lemma pool_comes_to_rest: "\<exists>k t. (pool_step ^^ k) s t \<and> at_rest t"
proof (induction "pool_work s" arbitrary: s rule: less_induct)
  case less
  show ?case
  proof (cases "at_rest s")
    case True
    then have "(pool_step ^^ 0) s s \<and> at_rest s" by simp
    then show ?thesis by blast
  next
    case False
    then obtain u where u: "pool_step s u" by (auto simp: at_rest_def)
    with less [OF pool_step_work [OF u]] obtain k t where t: "(pool_step ^^ k) u t" "at_rest t" by blast
    from relpowp_Suc_I2 [of pool_step, OF u t(1)] t(2) show ?thesis by blast
  qed
qed

text \<open>C12. Whatever has been submitted, and however the threads are scheduled, the pool comes to rest
  after finitely many steps of its own, at most \<open>pool_work\<close> of them, and then every submitted task
  has been started in the order of submission and has finished exactly once. No wake-up is lost: a
  pool that rests has an empty queue.\<close>
theorem pool_all_tasks_finish:
  assumes "pool_reach n s" and "0 < n"
  shows "(\<exists>k t. (pool_step ^^ k) s t \<and> at_rest t)
       \<and> (\<forall>k t. (pool_step ^^ k) s t \<longrightarrow> k \<le> pool_work s \<and>
            (at_rest t \<longrightarrow> started t = submitted s \<and> mset (finished t) = mset (submitted s)))"
proof (rule conjI)
  show "\<exists>k t. (pool_step ^^ k) s t \<and> at_rest t" by (rule pool_comes_to_rest)
  have ok: "pool_ok n s" by (rule pool_reach_ok [OF assms])
  show "\<forall>k t. (pool_step ^^ k) s t \<longrightarrow> k \<le> pool_work s \<and>
          (at_rest t \<longrightarrow> started t = submitted s \<and> mset (finished t) = mset (submitted s))"
  proof (rule allI, rule allI, rule impI)
    fix k t
    assume k: "(pool_step ^^ k) s t"
    have t: "pool_ok n t" "submitted t = submitted s"
      using pool_steps_keep [OF k assms(2) ok] by simp_all
    have "started t = submitted s \<and> mset (finished t) = mset (submitted s)" if "at_rest t"
    proof -
      note q = rest_finished [OF t(1) that]
      have "submitted t = started t @ queued t" using t(1) unfolding pool_ok_def tasks_ok_def by blast
      then have "started t = submitted t" unfolding conjunct1 [OF q] append_Nil2 by (rule sym)
      with conjunct2 [OF q] show ?thesis unfolding t(2) by blast
    qed
    with pool_steps_bound [OF k]
    show "k \<le> pool_work s \<and> (at_rest t \<longrightarrow> started t = submitted s \<and> mset (finished t) = mset (submitted s))"
      by simp
  qed
qed

definition one_task :: "nat pool" where
  "one_task = (thread_pool_new 2)\<lparr>queued := [7], submitted := [7], wakes := 1\<rparr>"

lemma one_task_reached: "pool_reach 2 one_task"
proof -
  have "client_step (thread_pool_new 2) (one_task :: nat pool)"
    using submit [of "thread_pool_new 2 :: nat pool" 7]
    by (simp add: one_task_def thread_pool_new_def mutex_free_def)
  then show ?thesis
    by (metis any_step_def pool_reach.start pool_reach.step)
qed

theorem pool_all_tasks_finish_witness:
  "\<exists>k t. (pool_step ^^ k) one_task t \<and> at_rest t \<and> k \<le> 11 \<and> finished t = [7]"
proof -
  note w = pool_all_tasks_finish [OF one_task_reached, simplified]
  from conjunct1 [OF w] obtain k t where t: "(pool_step ^^ k) one_task t" "at_rest t" by blast
  have "pool_work one_task = 11"
    by (simp add: one_task_def pool_work_def thread_pool_new_def crew_weight_def numeral_2_eq_2)
  with conjunct2 [OF w, rule_format, OF t(1)] t(2) have "k \<le> 11" "mset (finished t) = mset [7]"
    by (simp_all add: one_task_def)
  with t show ?thesis by (metis mset_single_iff_right)
qed

text \<open>C17. The destructor stores \<open>stop_\<close> without the mutex. A worker that has just found the queue
  empty and not yet begun to sleep misses the \<open>notify_all\<close>: the pool of one worker reaches a state
  where the worker sleeps, the destructor waits for it to exit, and no step of any thread is left.
  The pool is not even given a task.\<close>
theorem pool_shutdown_hangs:
  "\<exists>s :: 'a pool. pool_reach 1 s \<and> life s = Joining \<and> crew s = [W_Asleep] \<and>
     at_rest s \<and> (\<forall>t. \<not> client_step s t)"
proof (intro exI conjI allI)
  show "pool_reach 1 (stuck_pool :: 'a pool)" by (rule stuck_reached)
  show "life (stuck_pool :: 'a pool) = Joining" by (simp add: stuck_pool_def)
  show "crew (stuck_pool :: 'a pool) = [W_Asleep]" by (simp add: stuck_pool_def)
  show "at_rest (stuck_pool :: 'a pool)" by (rule stuck_rests)
  show "\<not> client_step (stuck_pool :: 'a pool) t" for t by (rule stuck_no_client)
qed



text \<open>Without the bound the queue holds all items at once when the consumers are slow.\<close>

definition piled_up :: "nat \<Rightarrow> backlog" where
  "piled_up m = backlog_new\<lparr>items := [0..<m], next_item := m, peak_depth := m\<rparr>"

lemma buggy_backlog_grows: "m \<le> n \<Longrightarrow> (backlog_step True n ^^ (2 * m)) backlog_new (piled_up m)"
proof (induction m)
  case 0
  then show ?case by (simp add: piled_up_def backlog_new_def)
next
  case (Suc m)
  have a: "backlog_step True n (piled_up m) (push_item (piled_up m))"
    using Suc.prems by (intro push) (auto simp: piled_up_def backlog_new_def qmtx_free_def)
  have b: "backlog_step True n (push_item (piled_up m)) ((push_item (piled_up m))\<lparr>maker := Ready\<rparr>)"
    by (intro tell_none) (auto simp: push_item_def piled_up_def backlog_new_def)
  have "(push_item (piled_up m))\<lparr>maker := Ready\<rparr> = piled_up (Suc m)"
    by (simp add: push_item_def piled_up_def backlog_new_def)
  with Suc.IH Suc.prems a b show ?case
    by (auto intro!: relcomppI)
qed

end
