(* ===== verification/Load_Tables.thy ===== *)
theory Load_Tables
  imports Text_Frames Tables
begin

text \<open>
  The session tables of the performance scenarios. Scenario 5 of the 4G simulator
  (\<open>perf/perf_scenarios.h\<close>) finds the dialog_slot of a SIP message by searching its text for the
  Call-ID of every dialog_slot, or by an index; scenario 5 of the IMS simulator
  (\<open>perf_scenarios.cpp\<close>) keeps its sessions in a vector or in a hash map; scenario 2 keeps them
  in one map or in 16 shards. In each the slow and the fast version should agree.
\<close>

subsection \<open>Scenario 5 of the 4G simulator\<close>

record dialog_slot =
  d_call_id :: string
  d_state :: int

definition TABLE_SIZE :: nat where
  "TABLE_SIZE = 500"

definition dialog_id :: "nat \<Rightarrow> string" where
  "dialog_id i = ''call-'' @ nat_dec i @ ''@ims.local''"

definition dialog_table :: "dialog_slot list" where
  "dialog_table = map (\<lambda>i. \<lparr> d_call_id = dialog_id i, d_state = 0 \<rparr>) [0..<TABLE_SIZE]"

definition dialog_index :: "(string, nat) table" where
  "dialog_index = foldl (\<lambda>m i. tbl_set m (dialog_id i) i) [] [0..<TABLE_SIZE]"

definition sip_body :: "nat \<Rightarrow> string" where
  "sip_body m = ''INVITE sip:bob@ims.local SIP/2.0'' @ [CR, LF] @ ''Call-ID: call-''
     @ nat_dec (m mod TABLE_SIZE) @ ''@ims.local'' @ [CR, LF]"

definition touch :: "dialog_slot \<Rightarrow> dialog_slot" where
  "touch d = d\<lparr>d_state := d_state d + 1\<rparr>"

fun scan_table :: "string \<Rightarrow> dialog_slot list \<Rightarrow> (dialog_slot list \<times> nat)" where
  "scan_table body [] = ([], 0)"
| "scan_table body (d # ds) =
     (if find_sub (d_call_id d) body \<noteq> None then (touch d # ds, 1)
      else let (ds', h) = scan_table body ds in (d # ds', h))"

definition scan_message :: "dialog_slot list \<times> nat \<Rightarrow> nat \<Rightarrow> dialog_slot list \<times> nat" where
  "scan_message s m = (let (ds, h) = scan_table (sip_body m) (fst s) in (ds, snd s + h))"

definition index_message :: "dialog_slot list \<times> nat \<Rightarrow> nat \<Rightarrow> dialog_slot list \<times> nat" where
  "index_message s m =
     (case map_of dialog_index (dialog_id (m mod TABLE_SIZE)) of
        None \<Rightarrow> s
      | Some i \<Rightarrow> ((fst s)[i := touch (fst s ! i)], snd s + 1))"

definition scenario5_dataPath :: "bool \<Rightarrow> nat \<Rightarrow> dialog_slot list \<times> nat" where
  "scenario5_dataPath buggy n =
     run (if buggy then scan_message else index_message) (dialog_table, 0) [0..<n]"

text \<open>A Call-ID occurs in the text of a message only as the Call-ID of the message.\<close>

lemma at_not_digit [simp]: "\<not> is_digit CHR ''@''"
  by (simp add: is_digit_def)

lemma digits_at_eq:
  "(\<forall>c\<in>set a. is_digit c) \<Longrightarrow> (\<forall>c\<in>set b. is_digit c) \<Longrightarrow>
   starts_with (a @ CHR ''@'' # p) (b @ CHR ''@'' # q) \<Longrightarrow> a = b"
proof (induction a arbitrary: b)
  case Nil
  then show ?case by (cases b) (auto simp: is_digit_def)
next
  case (Cons x xs)
  then show ?case by (cases b) (auto simp: is_digit_def)
qed

lemma digits_not_c: "is_digit c \<Longrightarrow> c \<noteq> CHR ''c''"
  by (auto simp: is_digit_def)

lemma find_sub_skip: "(\<forall>c\<in>set a. c \<noteq> x) \<Longrightarrow> (find_sub (x # xs) (a @ b) \<noteq> None) = (find_sub (x # xs) b \<noteq> None)"
  by (induction a) auto

lemma find_tail: "find_sub (''call-'' @ s) (''@ims.local'' @ [CR, LF]) = None"
  by simp

lemma find_call_id:
  "find_sub (dialog_id i) (sip_body m) \<noteq> None \<longleftrightarrow> i = m mod TABLE_SIZE"
proof -
  let ?j = "m mod TABLE_SIZE"
  let ?rest = "nat_dec ?j @ ''@ims.local'' @ [CR, LF]"
  have head: "(find_sub (dialog_id i) (sip_body m) \<noteq> None) = (find_sub (dialog_id i) (''call-'' @ ?rest) \<noteq> None)"
    by (simp add: sip_body_def dialog_id_def)
  have "starts_with (dialog_id i) (''call-'' @ ?rest) \<longleftrightarrow> i = ?j"
  proof
    assume "starts_with (dialog_id i) (''call-'' @ ?rest)"
    then have "starts_with (nat_dec i @ CHR ''@'' # ''ims.local'') (nat_dec ?j @ CHR ''@'' # ''ims.local'' @ [CR, LF])"
      by (simp add: dialog_id_def)
    then have "nat_dec i = nat_dec ?j"
      by (rule digits_at_eq [rotated 2]) (auto intro: nat_dec_digits)
    then show "i = ?j" by (rule nat_dec_inj)
  next
    assume i: "i = ?j"
    show "starts_with (dialog_id i) (''call-'' @ ?rest)"
      unfolding i dialog_id_def using starts_with_append [of "nat_dec ?j @ ''@ims.local''" "[CR, LF]"] by simp
  qed
  moreover have "find_sub (dialog_id i) (''all-'' @ ?rest) = None"
  proof -
    have "(find_sub (dialog_id i) ?rest \<noteq> None) = (find_sub (dialog_id i) (''@ims.local'' @ [CR, LF]) \<noteq> None)"
      using find_sub_skip [of "nat_dec ?j" "CHR ''c''" "''all-'' @ nat_dec i @ ''@ims.local''"] nat_dec_digits digits_not_c
      by (simp add: dialog_id_def)
    also have "\<dots> = False" using find_tail [of "nat_dec i @ ''@ims.local''"] by (simp add: dialog_id_def)
    finally show ?thesis by (simp add: dialog_id_def)
  qed
  ultimately show ?thesis
    unfolding head by simp
qed

lemma dialog_id_inj: "dialog_id i = dialog_id j \<Longrightarrow> i = j"
  by (auto simp: dialog_id_def dest: nat_dec_inj)

lemma scan_table_hit:
  assumes "map d_call_id ds = map dialog_id [k..<k + length ds]"
    and "k \<le> m mod TABLE_SIZE" and "m mod TABLE_SIZE < k + length ds"
  shows "scan_table (sip_body m) ds =
    (ds[m mod TABLE_SIZE - k := touch (ds ! (m mod TABLE_SIZE - k))], 1)"
  using assms
proof (induction ds arbitrary: k)
  case (Cons d ds)
  have upt: "[k..<k + length (d # ds)] = k # [Suc k..<Suc k + length ds]"
    using upt_rec [of k "k + length (d # ds)"] by simp
  from Cons.prems(1) have d: "d_call_id d = dialog_id k" "map d_call_id ds = map dialog_id [Suc k..<Suc k + length ds]"
    unfolding upt by simp_all
  show ?case
  proof (cases "k = m mod TABLE_SIZE")
    case True
    have "find_sub (d_call_id d) (sip_body m) \<noteq> None"
      using find_call_id [of k m] True d(1) by simp
    with True show ?thesis by simp
  next
    case False
    with find_call_id [of k m] d(1) have n: "find_sub (d_call_id d) (sip_body m) = None" by simp
    obtain j where j: "m mod TABLE_SIZE - k = Suc j" "m mod TABLE_SIZE - Suc k = j"
      using False Cons.prems(2) by (metis Suc_diff_Suc le_neq_implies_less)
    from Cons.IH [OF d(2)] Cons.prems(2,3) False n j show ?thesis by simp
  qed
qed simp

lemma index_fold:
  "map_of (foldl (\<lambda>m i. tbl_set m (dialog_id i) i) [] [0..<n]) (dialog_id i) = (if i < n then Some i else None)"
  by (induction n) (auto dest: dialog_id_inj simp: less_Suc_eq)

definition dialogs_ok :: "dialog_slot list \<Rightarrow> bool" where
  "dialogs_ok ds \<longleftrightarrow> map d_call_id ds = map dialog_id [0..<TABLE_SIZE]"

lemma dialogs_length: "dialogs_ok ds \<Longrightarrow> length ds = TABLE_SIZE"
  by (metis dialogs_ok_def length_map length_upt minus_nat.diff_0)

lemma ids_touch: "map d_call_id (ds[i := touch (ds ! i)]) = map d_call_id ds"
proof (cases "i < length ds")
  case True
  then have "map d_call_id (ds[i := touch (ds ! i)]) = (map d_call_id ds)[i := map d_call_id ds ! i]"
    by (simp add: map_update touch_def)
  then show ?thesis by (simp only: list_update_id)
next
  case False
  then show ?thesis by (simp add: list_update_beyond)
qed

lemma dialogs_touch: "dialogs_ok ds \<Longrightarrow> dialogs_ok (ds[i := touch (ds ! i)])"
  by (simp add: dialogs_ok_def ids_touch)

lemma table_size_pos: "m mod TABLE_SIZE < TABLE_SIZE"
  by (simp add: TABLE_SIZE_def)

lemma messages_agree:
  assumes "dialogs_ok (fst s)"
  shows "scan_message s m = ((fst s)[m mod TABLE_SIZE := touch (fst s ! (m mod TABLE_SIZE))], snd s + 1)"
    and "index_message s m = scan_message s m"
proof -
  have "map d_call_id (fst s) = map dialog_id [0..<0 + length (fst s)]"
    using assms dialogs_length [OF assms] by (simp add: dialogs_ok_def)
  from scan_table_hit [OF this, of m] dialogs_length [OF assms] table_size_pos [of m]
  show a: "scan_message s m = ((fst s)[m mod TABLE_SIZE := touch (fst s ! (m mod TABLE_SIZE))], snd s + 1)"
    by (simp add: scan_message_def)
  have "map_of dialog_index (dialog_id (m mod TABLE_SIZE)) = Some (m mod TABLE_SIZE)"
    using index_fold [of TABLE_SIZE "m mod TABLE_SIZE"] table_size_pos [of m] by (simp add: dialog_index_def)
  then show "index_message s m = scan_message s m"
    unfolding a by (simp add: index_message_def)
qed

interpretation scan: simulation scan_message "\<lambda>s. dialogs_ok (fst s)" index_message "\<lambda>s. s"
  by unfold_locales (simp_all add: messages_agree dialogs_touch)

lemma dialog_table_ok: "dialogs_ok dialog_table"
  by (simp add: dialogs_ok_def dialog_table_def)

text \<open>How often a dialog_slot is found in a run over \<open>[0..<n]\<close>.\<close>

definition hits_of :: "nat \<Rightarrow> nat \<Rightarrow> nat" where
  "hits_of i n = length (filter (\<lambda>m. m mod TABLE_SIZE = i) [0..<n])"

lemma scan_counts:
  "let s = run scan_message (dialog_table, 0) [0..<n] in snd s = n \<and>
     (\<forall>i<TABLE_SIZE. d_state (fst s ! i) = int (hits_of i n))"
proof (induction n)
  case 0
  then show ?case by (simp add: dialog_table_def hits_of_def)
next
  case (Suc n)
  let ?s = "run scan_message (dialog_table, 0) [0..<n]"
  have ok: "dialogs_ok (fst ?s)"
    by (rule scan.run_inv) (simp add: dialog_table_ok)
  have "run scan_message (dialog_table, 0) [0..<Suc n] = scan_message ?s n" by simp
  with messages_agree(1) [OF ok, of n] Suc.IH dialogs_length [OF ok] show ?case
    by (auto simp: hits_of_def touch_def nth_list_update Let_def)
qed

subsection \<open>Scenario 5 of the IMS simulator\<close>

record SipMessage =
  m_call_id :: string
  m_from :: string
  m_to :: string
  m_body :: string

record call_session =
  c_call_id :: string
  c_caller :: string
  c_callee :: string
  c_state :: string
  c_start :: nat

definition new_session :: "SipMessage \<Rightarrow> call_session" where
  "new_session m = \<lparr> c_call_id = m_call_id m, c_caller = m_from m, c_callee = m_to m,
     c_state = ''active'', c_start = 0 \<rparr>"

fun find_session :: "call_session list \<Rightarrow> string \<Rightarrow> call_session option" where
  "find_session [] cid = None"
| "find_session (s # ss) cid = (if c_call_id s = cid then Some s else find_session ss cid)"

definition process_list :: "call_session list \<Rightarrow> SipMessage \<Rightarrow> call_session list" where
  "process_list ss m =
     (case find_session ss (m_call_id m) of Some _ \<Rightarrow> ss | None \<Rightarrow> ss @ [new_session m])"

definition process_map :: "(string, call_session) table \<Rightarrow> SipMessage \<Rightarrow> (string, call_session) table" where
  "process_map t m =
     (case map_of t (m_call_id m) of Some _ \<Rightarrow> t | None \<Rightarrow> tbl_set t (m_call_id m) (new_session m))"

text \<open>What both promise: a session once known stays, an unknown one is created from the message.\<close>

definition session_spec :: "(string \<Rightarrow> call_session option) \<Rightarrow> SipMessage \<Rightarrow> string \<Rightarrow> call_session option" where
  "session_spec f m = (if f (m_call_id m) = None then f(m_call_id m := Some (new_session m)) else f)"

lemma find_append: "find_session (a @ b) k = (case find_session a k of Some s \<Rightarrow> Some s | None \<Rightarrow> find_session b k)"
  by (induction a) auto

interpretation list_sessions: simulation process_list "\<lambda>_. True" session_spec find_session
  by unfold_locales
    (auto simp: process_list_def session_spec_def find_append new_session_def fun_eq_iff split: option.splits)

interpretation map_sessions: simulation process_map tbl_ok session_spec map_of
  by unfold_locales (auto simp: process_map_def session_spec_def split: option.splits)

text \<open>The run of the scenario: 100 sessions, then messages for them.\<close>

definition load_call_id :: "nat \<Rightarrow> string" where
  "load_call_id i = ''call-'' @ nat_dec i"

definition preset :: "nat \<Rightarrow> call_session" where
  "preset i = \<lparr> c_call_id = load_call_id i, c_caller = ''ue-a'', c_callee = ''ue-b'', c_state = ''active'', c_start = 0 \<rparr>"

definition preset_list :: "call_session list" where
  "preset_list = map preset [0..<100]"

definition preset_map :: "(string, call_session) table" where
  "preset_map = foldl (\<lambda>t i. tbl_set t (load_call_id i) (preset i)) [] [0..<100]"

lemma load_call_id_inj [simp]: "load_call_id i = load_call_id j \<longleftrightarrow> i = j"
  by (auto simp: load_call_id_def dest: nat_dec_inj)

lemma presets_agree:
  "find_session (map preset [0..<n]) = map_of (foldl (\<lambda>t i. tbl_set t (load_call_id i) (preset i)) [] [0..<n])
   \<and> tbl_ok (foldl (\<lambda>t i. tbl_set t (load_call_id i) (preset i)) [] [0..<n])
   \<and> (\<forall>i\<ge>n. find_session (map preset [0..<n]) (load_call_id i) = None)"
proof (induction n)
  case 0
  then show ?case by (simp add: fun_eq_iff)
next
  case (Suc n)
  have c: "c_call_id (preset n) = load_call_id n" by (simp add: preset_def)
  have "find_session (map preset [0..<Suc n]) =
      (find_session (map preset [0..<n]))(load_call_id n := Some (preset n))"
    using Suc.IH by (auto simp: find_append c fun_eq_iff split: option.splits)
  with Suc.IH show ?case by auto
qed

lemma preset_start: "find_session preset_list = map_of preset_map" "tbl_ok preset_map"
  using presets_agree [of 100] by (simp_all add: preset_list_def preset_map_def)

lemma known_session_stays:
  "find_session ss (m_call_id m) \<noteq> None \<Longrightarrow> process_list ss m = ss"
  by (auto simp: process_list_def)

definition scenario_message :: "nat \<Rightarrow> SipMessage" where
  "scenario_message i = \<lparr> m_call_id = load_call_id (i mod 100), m_from = ''ue-a'', m_to = ''ue-b'',
     m_body = ''v=0'' @ [CR, LF] @ ''o=- 0 0 IN IP4 127.0.0.1'' @ [CR, LF] @ ''m=audio 50000 RTP/AVP 98'' @ [CR, LF] \<rparr>"

lemma preset_known: "i < n \<Longrightarrow> find_session (map preset [0..<n]) (load_call_id i) = Some (preset i)"
proof (induction n)
  case (Suc n)
  have none: "find_session (map preset [0..<n]) (load_call_id n) = None" using presets_agree [of n] by blast
  have c: "c_call_id (preset n) = load_call_id n" by (simp add: preset_def)
  show ?case
  proof (cases "i = n")
    case True
    then show ?thesis by (simp add: find_append none c)
  next
    case False
    with Suc show ?thesis by (simp add: find_append)
  qed
qed simp

lemma scenario_keeps_list: "run process_list preset_list (map scenario_message ks) = preset_list"
proof (induction ks)
  case (Cons k ks)
  have "find_session preset_list (m_call_id (scenario_message k)) \<noteq> None"
    using preset_known [of "k mod 100" 100] by (simp add: preset_list_def scenario_message_def)
  with Cons known_session_stays show ?case by simp
qed simp

subsection \<open>Scenario 2 of the IMS simulator\<close>

text \<open>The hash of a Call-ID is \<open>std::hash\<close>, a parameter; a call carries the time of its start.\<close>

definition CALL_SHARDS :: nat where
  "CALL_SHARDS = 16"

definition active_call :: "string \<times> nat \<Rightarrow> call_session" where
  "active_call c = \<lparr> c_call_id = fst c, c_caller = [], c_callee = [], c_state = ''active'', c_start = snd c \<rparr>"

definition processCall_global :: "(string, call_session) table \<Rightarrow> string \<times> nat \<Rightarrow> (string, call_session) table" where
  "processCall_global t c = tbl_set t (fst c) (active_call c)"

definition call_shard :: "(string \<Rightarrow> nat) \<Rightarrow> string \<Rightarrow> nat" where
  "call_shard h cid = h cid mod CALL_SHARDS"

definition processCall_sharded :: "(string \<Rightarrow> nat) \<Rightarrow> (string, call_session) table list \<Rightarrow> string \<times> nat \<Rightarrow> (string, call_session) table list" where
  "processCall_sharded h ts c =
     ts[call_shard h (fst c) := tbl_set (ts ! call_shard h (fst c)) (fst c) (active_call c)]"

definition shards_new :: "(string, call_session) table list" where
  "shards_new = replicate CALL_SHARDS []"

definition call_spec :: "(string \<Rightarrow> call_session option) \<Rightarrow> string \<times> nat \<Rightarrow> string \<Rightarrow> call_session option" where
  "call_spec f c = f(fst c := Some (active_call c))"

definition shard_lookup :: "(string \<Rightarrow> nat) \<Rightarrow> (string, call_session) table list \<Rightarrow> string \<Rightarrow> call_session option" where
  "shard_lookup h ts cid = map_of (ts ! call_shard h cid) cid"

lemma shard_bound [simp]: "call_shard h cid < CALL_SHARDS"
  by (simp add: call_shard_def CALL_SHARDS_def)

interpretation global_calls: simulation processCall_global tbl_ok call_spec map_of
  by unfold_locales (simp_all add: processCall_global_def call_spec_def)

interpretation sharded_calls: simulation "processCall_sharded h" "\<lambda>ts. length ts = CALL_SHARDS" call_spec "shard_lookup h" for h
proof unfold_locales
  fix ts :: "(string, call_session) table list" and c
  show "length (processCall_sharded h ts c) = CALL_SHARDS" if "length ts = CALL_SHARDS"
    using that by (simp add: processCall_sharded_def)
  show "shard_lookup h (processCall_sharded h ts c) = call_spec (shard_lookup h ts) c" if "length ts = CALL_SHARDS"
  proof (rule ext)
    fix k
    show "shard_lookup h (processCall_sharded h ts c) k = call_spec (shard_lookup h ts) c k"
      using that shard_bound [of h "fst c"]
      by (cases "call_shard h k = call_shard h (fst c)")
        (auto simp: shard_lookup_def processCall_sharded_def call_spec_def)
  qed
qed

lemma shards_new_ok: "length shards_new = CALL_SHARDS" "shard_lookup h shards_new = map_of []"
  using shard_bound [of h] by (simp_all add: shards_new_def shard_lookup_def fun_eq_iff)

lemma shards_agree: "shard_lookup h (run (processCall_sharded h) shards_new cs) = map_of (run processCall_global [] cs)"
  using sharded_calls.run_refines [OF shards_new_ok(1), of h cs] global_calls.run_refines [OF tbl_ok_nil, of cs]
  by (simp add: shards_new_ok(2))

end
