(* ===== verification/Load_Memory.thy ===== *)
theory Load_Memory
  imports Text_Frames "HOL-Library.Monad_Syntax"
begin

text \<open>
  Scenario 3 of the IMS performance scenarios (\<open>perf_scenarios.cpp\<close>): dialogs with a body on
  the heap, lost on an error in the first version and owned by smart pointers in the second. The
  heap is the set of allocated blocks; freeing a block that is not allocated has no result. The
  string of the fixed version and the characters it owns are one block.
\<close>

subsection \<open>Operations\<close>

record dialog_context =
  x_addr :: nat
  x_call_id :: string
  x_body :: nat

record leak_state =
  blocks :: "nat set"
  next_block :: nat
  dialogs :: "dialog_context list"
  memory_kb :: nat

definition leak_new :: leak_state where
  "leak_new = \<lparr> blocks = {}, next_block = 0, dialogs = [], memory_kb = 0 \<rparr>"

definition release :: "nat \<Rightarrow> nat set \<Rightarrow> nat set option" where
  "release a h = (if a \<in> h then Some (h - {a}) else None)"

definition createDialog :: "string \<Rightarrow> leak_state \<Rightarrow> leak_state" where
  "createDialog cid s =
     (let a = next_block s
      in s\<lparr>blocks := insert (Suc a) (insert a (blocks s)), next_block := a + 2,
           dialogs := dialogs s @ [\<lparr> x_addr = a, x_call_id = cid, x_body = Suc a \<rparr>],
           memory_kb := memory_kb s + 1\<rparr>)"

fun take_dialog :: "string \<Rightarrow> dialog_context list \<Rightarrow> (dialog_context \<times> dialog_context list) option" where
  "take_dialog cid [] = None"
| "take_dialog cid (d # ds) =
     (if x_call_id d = cid then Some (d, ds) else map_option (\<lambda>(e, es). (e, d # es)) (take_dialog cid ds))"

definition delete_context :: "dialog_context \<Rightarrow> nat set \<Rightarrow> nat set option" where
  "delete_context d h = Option.bind (release (x_body d) h) (release (x_addr d))"

definition simulateError :: "bool \<Rightarrow> string \<Rightarrow> leak_state \<Rightarrow> leak_state option" where
  "simulateError buggy cid s =
     (case take_dialog cid (dialogs s) of
        None \<Rightarrow> Some s
      | Some (d, ds) \<Rightarrow>
          map_option (\<lambda>h. s\<lparr>blocks := h, dialogs := ds\<rparr>)
            (if buggy then release (x_addr d) (blocks s) else delete_context d (blocks s)))"

definition leak_round :: "bool \<Rightarrow> nat \<Rightarrow> leak_state \<Rightarrow> leak_state option" where
  "leak_round buggy i s =
     (let t = createDialog (''call-'' @ nat_dec i) s
      in if i mod 2 = 0 then simulateError buggy (''call-'' @ nat_dec i) t else Some t)"

fun leak_run :: "bool \<Rightarrow> nat \<Rightarrow> leak_state option" where
  "leak_run buggy 0 = Some leak_new"
| "leak_run buggy (Suc n) = Option.bind (leak_run buggy n) (leak_round buggy n)"

text \<open>The destructor frees what the vector still holds, in either version.\<close>

fun free_dialogs :: "dialog_context list \<Rightarrow> nat set \<Rightarrow> nat set option" where
  "free_dialogs [] h = Some h"
| "free_dialogs (d # ds) h = Option.bind (delete_context d h) (free_dialogs ds)"

definition leak_destroy :: "leak_state \<Rightarrow> nat set option" where
  "leak_destroy s = free_dialogs (dialogs s) (blocks s)"

definition getActiveDialogs :: "leak_state \<Rightarrow> nat" where
  "getActiveDialogs s = length (dialogs s)"

definition getMemoryUsageKB :: "leak_state \<Rightarrow> nat" where
  "getMemoryUsageKB s = memory_kb s"

subsection \<open>What a run leaves\<close>

definition context_of :: "nat \<Rightarrow> dialog_context" where
  "context_of i = \<lparr> x_addr = 2 * i, x_call_id = ''call-'' @ nat_dec i, x_body = Suc (2 * i) \<rparr>"

definition survivors :: "nat \<Rightarrow> nat list" where
  "survivors n = filter odd [0..<n]"

definition owned :: "nat list \<Rightarrow> nat set" where
  "owned is = (\<Union>i\<in>set is. {2 * i, Suc (2 * i)})"

definition leaked :: "nat \<Rightarrow> nat set" where
  "leaked n = (\<lambda>i. Suc (2 * i)) ` {i. i < n \<and> even i}"

definition after_rounds :: "bool \<Rightarrow> nat \<Rightarrow> leak_state" where
  "after_rounds buggy n =
     \<lparr> blocks = owned (survivors n) \<union> (if buggy then leaked n else {}), next_block = 2 * n,
       dialogs = map context_of (survivors n), memory_kb = n \<rparr>"

lemma take_dialog_last:
  "(\<forall>d\<in>set ds. x_call_id d \<noteq> x_call_id e) \<Longrightarrow> take_dialog (x_call_id e) (ds @ [e]) = Some (e, ds)"
  by (induction ds) auto

lemma survivors_less: "i \<in> set (survivors n) \<Longrightarrow> i < n"
  by (simp add: survivors_def)

lemma owned_fresh: "2 * n \<notin> owned (survivors n)" "Suc (2 * n) \<notin> owned (survivors n)"
  by (auto simp: owned_def dest: survivors_less)

lemma leaked_fresh: "2 * n \<notin> leaked m" "Suc (2 * n) \<notin> leaked n"
  by (auto simp: leaked_def) presburger

lemma contexts_differ: "d \<in> set (map context_of (survivors n)) \<Longrightarrow> x_call_id d \<noteq> x_call_id (context_of n)"
  by (auto simp: context_of_def dest!: survivors_less nat_dec_inj)

lemma survivors_Suc: "survivors (Suc n) = (if odd n then survivors n @ [n] else survivors n)"
  by (simp add: survivors_def)

lemma leaked_Suc: "leaked (Suc n) = (if even n then insert (Suc (2 * n)) (leaked n) else leaked n)"
  by (auto simp: leaked_def less_Suc_eq)

lemma owned_snoc: "owned (is @ [i]) = insert (Suc (2 * i)) (insert (2 * i) (owned is))"
  by (auto simp: owned_def)

lemma create_next:
  "createDialog (''call-'' @ nat_dec n) (after_rounds buggy n) =
     (after_rounds buggy n)\<lparr>blocks := insert (Suc (2 * n)) (insert (2 * n) (blocks (after_rounds buggy n))),
        next_block := 2 * Suc n, dialogs := map context_of (survivors n) @ [context_of n], memory_kb := Suc n\<rparr>"
  by (simp add: createDialog_def after_rounds_def context_of_def Let_def)

lemma error_next:
  assumes "even n"
  shows "simulateError buggy (''call-'' @ nat_dec n) (createDialog (''call-'' @ nat_dec n) (after_rounds buggy n)) =
    Some (after_rounds buggy (Suc n))"
proof -
  have cid: "''call-'' @ nat_dec n = x_call_id (context_of n)" by (simp add: context_of_def)
  have t: "take_dialog (''call-'' @ nat_dec n) (map context_of (survivors n) @ [context_of n]) =
      Some (context_of n, map context_of (survivors n))"
    unfolding cid by (rule take_dialog_last) (metis contexts_differ)
  have f: "2 * n \<notin> blocks (after_rounds buggy n)" "Suc (2 * n) \<notin> blocks (after_rounds buggy n)"
    using owned_fresh [of n] leaked_fresh [of n] by (auto simp: after_rounds_def)
  show ?thesis
    unfolding simulateError_def create_next using assms t f
    by (auto simp: release_def delete_context_def context_of_def after_rounds_def survivors_Suc leaked_Suc insert_Diff_if)
qed

lemma leak_run_result: "leak_run buggy n = Some (after_rounds buggy n)"
proof (induction n)
  case 0
  then show ?case by (simp add: after_rounds_def leak_new_def survivors_def owned_def leaked_def)
next
  case (Suc n)
  show ?case
  proof (cases "even n")
    case True
    then show ?thesis
      using Suc.IH error_next [OF True, of buggy] by (simp add: leak_round_def even_iff_mod_2_eq_zero Let_def)
  next
    case False
    then have "createDialog (''call-'' @ nat_dec n) (after_rounds buggy n) = after_rounds buggy (Suc n)"
      unfolding create_next by (auto simp: after_rounds_def survivors_Suc owned_snoc leaked_Suc)
    with False Suc.IH show ?thesis
      by (simp add: leak_round_def even_iff_mod_2_eq_zero Let_def)
  qed
qed

lemma free_owned:
  "distinct is \<Longrightarrow> owned is \<inter> h = {} \<Longrightarrow> free_dialogs (map context_of is) (owned is \<union> h) = Some h"
proof (induction "is")
  case Nil
  then show ?case by (simp add: owned_def)
next
  case (Cons i "is")
  have o: "owned (i # is) = insert (2 * i) (insert (Suc (2 * i)) (owned is))" by (auto simp: owned_def)
  have fresh: "2 * i \<notin> owned is" "Suc (2 * i) \<notin> owned is"
    using Cons.prems(1) by (auto simp: owned_def) presburger+
  have "2 * i \<notin> h" "Suc (2 * i) \<notin> h" "owned is \<inter> h = {}" using Cons.prems(2) o by auto
  with fresh have "delete_context (context_of i) (owned (i # is) \<union> h) = Some (owned is \<union> h)"
    by (auto simp: o delete_context_def release_def context_of_def insert_Diff_if)
  with Cons.IH Cons.prems \<open>owned is \<inter> h = {}\<close> show ?case by simp
qed

lemma owned_leaked: "owned (survivors n) \<inter> leaked n = {}"
  by (auto simp: owned_def leaked_def survivors_def) presburger+

lemma destroy_result: "leak_destroy (after_rounds buggy n) = Some (if buggy then leaked n else {})"
proof -
  have d: "distinct (survivors n)" by (simp add: survivors_def)
  show ?thesis
    using free_owned [OF d, of "leaked n"] free_owned [OF d, of "{}"] owned_leaked [of n]
    by (simp add: leak_destroy_def after_rounds_def)
qed

lemma card_leaked: "card (leaked n) = Suc n div 2"
proof (induction n)
  case 0
  then show ?case by (simp add: leaked_def)
next
  case (Suc n)
  have "finite (leaked n)" by (simp add: leaked_def)
  with Suc.IH leaked_fresh(2) [of n] show ?case by (auto simp: leaked_Suc)
qed

lemma length_survivors: "length (survivors n) = n div 2"
  by (induction n) (auto simp: survivors_Suc, simp add: survivors_def)

end
