(* ===== verification/Load_Threads.thy ===== *)
theory Load_Threads
  imports Text_Frames
begin

text \<open>
  The threads of the IMS performance scenarios 1 and 4 (\<open>perf_scenarios.cpp\<close>): a worker that
  drains a queue while \<open>running_\<close> is set, and a pool whose workers start in the constructor, while
  \<open>running_\<close> is still false.
\<close>

subsection \<open>Scenario 1\<close>

record queue_test =
  q_running :: bool
  q_queue :: "string list"
  q_processed :: nat

definition queue_test_new :: queue_test where
  "queue_test_new = \<lparr> q_running = False, q_queue = [], q_processed = 0 \<rparr>"

definition enqueue :: "queue_test \<Rightarrow> string \<Rightarrow> queue_test" where
  "enqueue s m = s\<lparr>q_queue := q_queue s @ [m]\<rparr>"

text \<open>One turn of the loop; a turn without a message spins or waits, which leaves the state.\<close>

definition worker_turn :: "queue_test \<Rightarrow> queue_test" where
  "worker_turn s =
     (if q_running s then
        (case q_queue s of [] \<Rightarrow> s | m # ms \<Rightarrow> s\<lparr>q_queue := ms, q_processed := q_processed s + 1\<rparr>)
      else s)"

text \<open>\<open>run\<close>: start the worker, sleep while it makes \<open>k\<close> turns, stop and join.\<close>

definition queue_run :: "nat \<Rightarrow> queue_test \<Rightarrow> queue_test" where
  "queue_run k s = ((worker_turn ^^ k) (s\<lparr>q_running := True, q_processed := 0\<rparr>))\<lparr>q_running := False\<rparr>"

definition runScenario1 :: "nat \<Rightarrow> queue_test" where
  "runScenario1 k =
     foldl (\<lambda>s i. enqueue s (''call-'' @ nat_dec i)) (queue_run k queue_test_new) [0..<100]"

lemma idle_turns: "q_queue s = [] \<Longrightarrow> (worker_turn ^^ k) s = s"
  by (induction k) (auto simp: worker_turn_def)

lemma enqueue_all:
  "q_queue (foldl (\<lambda>s i. enqueue s (f i)) s is) = q_queue s @ map f is"
  "q_processed (foldl (\<lambda>s i. enqueue s (f i)) s is) = q_processed s"
  "q_running (foldl (\<lambda>s i. enqueue s (f i)) s is) = q_running s"
  by (induction "is" arbitrary: s) (auto simp: enqueue_def)

lemma queue_run_idle: "queue_run k queue_test_new = queue_test_new"
  by (simp add: queue_run_def queue_test_new_def idle_turns)

text \<open>No later turn of the worker exists: it was joined, and it would do nothing.\<close>

lemma stopped_turns: "\<not> q_running s \<Longrightarrow> (worker_turn ^^ k) s = s"
  by (induction k) (auto simp: worker_turn_def)

subsection \<open>Scenario 4\<close>

datatype loop = At_Check | At_Queue | At_Task nat | Gone

datatype run_phase = Built | Submitting nat | Awaiting | Reported

record starve_pool =
  sp_running :: bool
  sp_queue :: "nat list"
  sp_loops :: "loop list"
  sp_completed :: nat
  sp_phase :: run_phase
  sp_timeouts :: nat

definition starve_new :: "nat \<Rightarrow> starve_pool" where
  "starve_new w = \<lparr> sp_running = False, sp_queue = [], sp_loops = replicate w At_Check, sp_completed = 0,
     sp_phase = Built, sp_timeouts = 0 \<rparr>"

definition loop_at :: "starve_pool \<Rightarrow> nat \<Rightarrow> loop \<Rightarrow> bool" where
  "loop_at s i l \<longleftrightarrow> i < length (sp_loops s) \<and> sp_loops s ! i = l"

definition go :: "nat \<Rightarrow> loop \<Rightarrow> starve_pool \<Rightarrow> starve_pool" where
  "go i l s = s\<lparr>sp_loops := (sp_loops s)[i := l]\<rparr>"

text \<open>
  The workers look at \<open>running_\<close>, wait at most 100 ms for a task, run it; \<open>run\<close> sets \<open>running_\<close>,
  submits \<open>n\<close> tasks and reports when all are completed or after 30 seconds. Time is not modelled,
  so the report may come at any moment of the wait.
\<close>

inductive starve_step :: "nat \<Rightarrow> starve_pool \<Rightarrow> starve_pool \<Rightarrow> bool" for n where
  begin_run: "sp_phase s = Built \<Longrightarrow>
    starve_step n s (s\<lparr>sp_running := True, sp_completed := 0, sp_timeouts := 0, sp_phase := Submitting 0\<rparr>)"
| submit_work: "sp_phase s = Submitting i \<Longrightarrow> i < n \<Longrightarrow>
    starve_step n s (s\<lparr>sp_queue := sp_queue s @ [i], sp_phase := Submitting (Suc i)\<rparr>)"
| all_submitted: "sp_phase s = Submitting i \<Longrightarrow> n \<le> i \<Longrightarrow> starve_step n s (s\<lparr>sp_phase := Awaiting\<rparr>)"
| report: "sp_phase s = Awaiting \<Longrightarrow>
    starve_step n s (s\<lparr>sp_timeouts := (if sp_completed s < n then n - sp_completed s else 0),
      sp_running := False, sp_phase := Reported\<rparr>)"
| look_on: "loop_at s i At_Check \<Longrightarrow> sp_running s \<Longrightarrow> starve_step n s (go i At_Queue s)"
| look_off: "loop_at s i At_Check \<Longrightarrow> \<not> sp_running s \<Longrightarrow> starve_step n s (go i Gone s)"
| get_task: "loop_at s i At_Queue \<Longrightarrow> sp_queue s = x # xs \<Longrightarrow>
    starve_step n s (go i (At_Task x) (s\<lparr>sp_queue := xs\<rparr>))"
| no_task: "loop_at s i At_Queue \<Longrightarrow> sp_queue s = [] \<Longrightarrow> starve_step n s (go i At_Check s)"
| task_done: "loop_at s i (At_Task x) \<Longrightarrow>
    starve_step n s (go i At_Check (s\<lparr>sp_completed := Suc (sp_completed s)\<rparr>))"

definition all_gone :: "starve_pool \<Rightarrow> bool" where
  "all_gone s \<longleftrightarrow> set (sp_loops s) \<subseteq> {Gone} \<and> sp_completed s = 0"

text \<open>Workers that have left never come back, and then no task is completed.\<close>

lemma gone_no_worker: "all_gone s \<Longrightarrow> loop_at s i l \<Longrightarrow> l = Gone"
  by (auto simp: all_gone_def loop_at_def dest: nth_mem)

lemma gone_step: "starve_step n s t \<Longrightarrow> all_gone s \<Longrightarrow> all_gone t"
proof (induction rule: starve_step.induct)
  case (look_on s i)
  then show ?case using gone_no_worker [of s i At_Check] by simp
next
  case (look_off s i)
  then show ?case using gone_no_worker [of s i At_Check] by simp
next
  case (get_task s i x xs)
  then show ?case using gone_no_worker [of s i At_Queue] by simp
next
  case (no_task s i)
  then show ?case using gone_no_worker [of s i At_Queue] by simp
next
  case (task_done s i x)
  then show ?case using gone_no_worker [of s i "At_Task x"] by simp
qed (auto simp: all_gone_def)

lemma gone_steps: "(starve_step n)\<^sup>*\<^sup>* s t \<Longrightarrow> all_gone s \<Longrightarrow> all_gone t"
  by (induction rule: rtranclp_induct) (auto intro: gone_step)

text \<open>The workers may all look before \<open>run\<close> begins.\<close>

definition gone_at_start :: "nat \<Rightarrow> starve_pool" where
  "gone_at_start w = (starve_new w)\<lparr>sp_loops := replicate w Gone\<rparr>"

lemma workers_leave:
  "k \<le> w \<Longrightarrow> (starve_step n)\<^sup>*\<^sup>* (starve_new w) ((starve_new w)\<lparr>sp_loops := replicate k Gone @ replicate (w - k) At_Check\<rparr>)"
proof (induction k)
  case 0
  then show ?case by (simp add: starve_new_def)
next
  case (Suc k)
  let ?s = "(starve_new w)\<lparr>sp_loops := replicate k Gone @ replicate (w - k) At_Check\<rparr>"
  have d: "w - k = Suc (w - Suc k)" using Suc.prems by simp
  have "starve_step n ?s (go k Gone ?s)"
    using Suc.prems by (intro look_off) (simp_all add: loop_at_def starve_new_def nth_append)
  moreover have "go k Gone ?s = (starve_new w)\<lparr>sp_loops := replicate (Suc k) Gone @ replicate (w - Suc k) At_Check\<rparr>"
    unfolding d by (simp add: go_def starve_new_def list_update_append replicate_append_same)
  ultimately show ?case
    using Suc by (auto intro: rtranclp.rtrancl_into_rtrancl)
qed

lemma gone_reached: "(starve_step n)\<^sup>*\<^sup>* (starve_new w) (gone_at_start w)"
  using workers_leave [of w w n] by (simp add: gone_at_start_def)

definition given :: "nat \<Rightarrow> nat \<Rightarrow> starve_pool" where
  "given w i = (gone_at_start w)\<lparr>sp_running := True, sp_phase := Submitting i, sp_queue := [0..<i]\<rparr>"

lemma given_reached: "i \<le> n \<Longrightarrow> (starve_step n)\<^sup>*\<^sup>* (starve_new w) (given w i)"
proof (induction i)
  case 0
  have "starve_step n (gone_at_start w) (given w 0)"
    using begin_run [of "gone_at_start w" n] by (simp add: given_def gone_at_start_def starve_new_def)
  with gone_reached [of n w] show ?case by (auto intro: rtranclp.rtrancl_into_rtrancl)
next
  case (Suc i)
  have "starve_step n (given w i) (given w (Suc i))"
    using submit_work [of "given w i" i n] Suc.prems by (simp add: given_def gone_at_start_def starve_new_def)
  with Suc show ?case by (auto intro: rtranclp.rtrancl_into_rtrancl)
qed

definition starved :: "nat \<Rightarrow> nat \<Rightarrow> starve_pool" where
  "starved w n = (given w n)\<lparr>sp_running := False, sp_phase := Reported, sp_timeouts := n\<rparr>"

lemma starved_reached: "(starve_step n)\<^sup>*\<^sup>* (starve_new w) (starved w n)"
proof -
  let ?a = "(given w n)\<lparr>sp_phase := Awaiting\<rparr>"
  have "starve_step n (given w n) ?a" by (intro all_submitted [of _ n]) (simp_all add: given_def)
  moreover have "starve_step n ?a (?a\<lparr>sp_timeouts := (if sp_completed ?a < n then n - sp_completed ?a else 0),
      sp_running := False, sp_phase := Reported\<rparr>)" (is "starve_step n _ ?r")
    by (rule report) simp
  moreover have "?r = starved w n"
    by (simp add: given_def gone_at_start_def starve_new_def starved_def)
  ultimately show ?thesis
    using given_reached [of n n w] by (auto intro: rtranclp.rtrancl_into_rtrancl)
qed

end
