(* ===== verification/Load_System.thy ===== *)
theory Load_System
  imports Load_Tables Load_Memory Load_Threads
begin

text \<open>
  The properties of the performance scenarios: the slow and the fast tables agree, the first
  version of the dialog_slot store leaks one body per error and the second nothing, and two of the
  scenarios can or do report on work that was never done.
\<close>

text \<open>C30. The linear scan of the message text and the index of scenario 5 give the same table and the
  same number of hits: every message hits, and the dialog_slot of each Call-ID is updated once for every
  message that carries it. No Call-ID is found inside another one.\<close>
theorem data_paths_agree:
  "scenario5_dataPath True n = scenario5_dataPath False n
   \<and> snd (scenario5_dataPath True n) = n
   \<and> (\<forall>i < TABLE_SIZE. d_state (fst (scenario5_dataPath True n) ! i) = int (hits_of i n))"
proof -
  have "run scan_message (dialog_table, 0) [0..<n] = run index_message (dialog_table, 0) [0..<n]"
    using scan.run_refines [of "(dialog_table, 0)"] dialog_table_ok by simp
  then have eq: "scenario5_dataPath False n = scenario5_dataPath True n"
    by (simp add: scenario5_dataPath_def)
  show ?thesis
    using scan_counts [of n] unfolding eq by (simp add: scenario5_dataPath_def Let_def)
qed

theorem data_paths_agree_witness:
  "d_state (fst (scenario5_dataPath True 501) ! 0) = int (hits_of 0 501) \<and> (0::nat) < TABLE_SIZE"
proof -
  have z: "(0::nat) < TABLE_SIZE" by (simp add: TABLE_SIZE_def)
  from conjunct2 [OF conjunct2 [OF data_paths_agree [of 501]]] z show ?thesis by blast
qed

text \<open>For every hash function and every order in which the calls of the workers take effect, the 16
  shards and the one global table of IMS scenario 2 hold the same sessions; and the vector and the
  hash map of scenario 5 find the same session for every Call-ID after every sequence of messages,
  where the messages of the scenario itself change nothing because all their sessions exist.\<close>
theorem session_tables_agree:
  "shard_lookup h (run (processCall_sharded h) shards_new cs) = map_of (run processCall_global [] cs)
   \<and> find_session (run process_list preset_list ms) = map_of (run process_map preset_map ms)
   \<and> run process_list preset_list (map scenario_message ks) = preset_list"
  using list_sessions.run_refines [of preset_list ms] map_sessions.run_refines [of preset_map ms]
  by (simp add: shards_agree preset_start scenario_keeps_list)

text \<open>C37. A run of \<open>n\<close> operations of IMS scenario 3 never frees a block twice, and keeps \<open>n div 2\<close> dialogs.
  When the test object is destroyed, the first version has lost the body of every dialog_slot that had an
  error, half of all rounded up, and the second version has lost nothing. Both report \<open>n\<close> KB: the
  figure that the summary compares does not see the leak.\<close>
theorem leak_report:
  "\<exists>s. leak_run buggy n = Some s \<and> getActiveDialogs s = n div 2 \<and> getMemoryUsageKB s = n
     \<and> (\<exists>h. leak_destroy s = Some h \<and> card h = (if buggy then Suc n div 2 else 0))"
proof (intro exI [of _ "after_rounds buggy n"] conjI exI [of _ "if buggy then leaked n else {}"])
  show "leak_run buggy n = Some (after_rounds buggy n)" by (rule leak_run_result)
  show "leak_destroy (after_rounds buggy n) = Some (if buggy then leaked n else {})" by (rule destroy_result)
qed (simp_all add: getActiveDialogs_def getMemoryUsageKB_def after_rounds_def length_survivors card_leaked)

text \<open>C4. Scenario 1 stops its worker before it enqueues the messages: however many turns the worker had,
  none of the 100 messages is processed, and all are still in the queue. In scenario 4 the workers
  may find \<open>running_\<close> false and leave before \<open>run\<close> sets it; whatever happens afterwards no task is
  completed, and a run with every task reported as timed out is possible for every number of workers.\<close>
theorem scenarios_without_workers:
  "q_processed (runScenario1 k) = 0 \<and> length (q_queue (runScenario1 k)) = 100
   \<and> (\<forall>s. (starve_step n)\<^sup>*\<^sup>* (gone_at_start w) s \<longrightarrow> sp_completed s = 0)
   \<and> (\<exists>s. (starve_step n)\<^sup>*\<^sup>* (starve_new w) s \<and> sp_phase s = Reported \<and> sp_timeouts s = n)"
proof (intro conjI allI impI)
  show "q_processed (runScenario1 k) = 0" "length (q_queue (runScenario1 k)) = 100"
    by (simp_all only: runScenario1_def enqueue_all queue_run_idle) (simp_all add: queue_test_new_def)
  fix s
  assume "(starve_step n)\<^sup>*\<^sup>* (gone_at_start w) s"
  moreover have "all_gone (gone_at_start w)"
    by (auto simp: all_gone_def gone_at_start_def starve_new_def)
  ultimately show "sp_completed s = 0" using gone_steps by (auto simp: all_gone_def)
next
  have "sp_phase (starved w n) = Reported \<and> sp_timeouts (starved w n) = n" by (simp add: starved_def)
  then show "\<exists>s. (starve_step n)\<^sup>*\<^sup>* (starve_new w) s \<and> sp_phase s = Reported \<and> sp_timeouts s = n"
    using starved_reached [of n w] by blast
qed

theorem scenarios_without_workers_witness:
  "\<exists>s. (starve_step 1)\<^sup>*\<^sup>* (gone_at_start 2) s \<and> sp_phase s = Submitting 0 \<and> sp_completed s = 0"
proof -
  have r: "(starve_step 1)\<^sup>*\<^sup>* (gone_at_start 2) (given 2 0)"
    using begin_run [of "gone_at_start 2" 1]
    by (intro r_into_rtranclp) (simp add: given_def gone_at_start_def starve_new_def)
  note w = scenarios_without_workers [of 0 1 2]
  have "sp_completed (given 2 0) = 0"
    using conjunct1 [OF conjunct2 [OF conjunct2 [OF w]]] r by blast
  with r show ?thesis by (auto simp: given_def)
qed

end
