(* ===== verification/Oran_E2.thy ===== *)
theory Oran_E2
  imports Text_Frames
begin

text \<open>
  The O-RAN E2 exchange of the 4G simulator: \<open>o_ran/e2_agent.cpp\<close> on the side of the eNB and
  \<open>o_ran/xapp_main.cpp\<close>, with the JSON helpers \<open>je2\<close> and the big-endian frames both contain. The
  getter of \<open>je2\<close> looks for the quoted key alone and then for the next colon; when there is no
  colon, \<open>npos + 1\<close> wraps to 0 and it reads at the start of the text. An empty text, a cut frame
  and a frame over 65536 bytes are all the empty message, which ends a session.
\<close>

subsection \<open>JSON helpers\<close>

definition je2_needle :: "string \<Rightarrow> string" where
  "je2_needle key = [dq] @ key @ [dq]"

definition je2_get :: "string \<Rightarrow> string \<Rightarrow> string" where
  "je2_get j key =
     (case find_sub (je2_needle key) j of
        None \<Rightarrow> []
      | Some p \<Rightarrow>
          let at_colon = dropWhile (\<lambda>c. c \<noteq> colon) (drop p j);
              rest = (case at_colon of [] \<Rightarrow> j | c # t \<Rightarrow> t)
          in json_value (\<lambda>t. t) (dropWhile (\<lambda>c. c = CHR '' '') rest))"

text \<open>The text from the first occurrence of the quoted key.\<close>

definition je2_tail :: "string \<Rightarrow> string \<Rightarrow> string option" where
  "je2_tail key j = map_option (\<lambda>p. drop p j) (find_sub (je2_needle key) j)"

lemma tail_nil [simp]: "je2_tail k [] = None"
  by (simp add: je2_tail_def je2_needle_def)

lemma tail_step: "\<not> starts_with (je2_needle k) (c # cs) \<Longrightarrow> je2_tail k (c # cs) = je2_tail k cs"
  by (cases "find_sub (je2_needle k) cs") (auto simp: je2_tail_def)

lemma tail_char: "c \<noteq> dq \<Longrightarrow> je2_tail k (c # cs) = je2_tail k cs"
  by (rule tail_step) (simp add: je2_needle_def)

lemma tail_quotefree: "quotefree v \<Longrightarrow> je2_tail k (v @ r) = je2_tail k r"
  by (induction v) (auto simp: quotefree_def tail_char)

lemma tail_hit: "je2_tail k (je2_needle k @ r) = Some (je2_needle k @ r)"
  by (simp add: je2_tail_def find_sub_prefix)

lemma tail_close: "ident k \<Longrightarrow> c = colon \<or> c = comma \<or> c = rbrace \<Longrightarrow> je2_tail k (dq # c # r) = je2_tail k r"
proof -
  assume k: "ident k" and c: "c = colon \<or> c = comma \<or> c = rbrace"
  then have "\<not> starts_with (je2_needle k) (dq # c # r)"
    by (cases k) (auto simp: ident_def je2_needle_def)
  from tail_step [OF this] c show ?thesis by (auto simp: tail_char)
qed

lemma tail_other:
  assumes "ident k" and "quotefree a" and "a \<noteq> k" and "c = colon \<or> c = comma \<or> c = rbrace"
  shows "je2_tail k (dq # a @ dq # c # r) = je2_tail k r"
proof -
  have "\<not> starts_with (je2_needle k) (dq # a @ dq # c # r)"
    using assms(1-3) quoted_eq [of a k "c # r"] by (auto simp: starts_with_iff je2_needle_def ident_quotefree)
  then have "je2_tail k (dq # a @ dq # c # r) = je2_tail k (a @ dq # c # r)" by (rule tail_step)
  then show ?thesis using assms(1,2,4) by (simp add: tail_quotefree tail_close)
qed

lemma get_tail:
  assumes "je2_tail k j = Some (je2_needle k @ colon # r)" and "ident k"
  shows "je2_get j k = json_value (\<lambda>t. t) (dropWhile (\<lambda>c. c = CHR '' '') r)"
proof -
  have "dropWhile (\<lambda>c. c \<noteq> colon) (je2_needle k @ colon # r) = colon # r"
    using assms(2) by (subst dropWhile_append2) (auto simp: je2_needle_def ident_def)
  with assms(1) show ?thesis by (auto simp: je2_tail_def je2_get_def)
qed

text \<open>
  On an object of quoted fields the getter returns the field, as long as no value of the object is
  the key itself: the getter does not tell keys from values.
\<close>

lemma tail_fields:
  assumes "ident k" and "\<forall>(k', v)\<in>set kvs. quotefree k' \<and> quotefree v \<and> v \<noteq> k" and "map_of kvs k = Some x"
  shows "\<exists>s. je2_tail k (json_fields (str_fields kvs) @ [rbrace]) = Some (je2_needle k @ colon # json_str x @ s)"
  using assms(2,3)
proof (induction kvs)
  case (Cons kv kvs)
  obtain k' v where kv: "kv = (k', v)" by fastforce
  show ?case
  proof (cases "k' = k")
    case True
    then show ?thesis
      using Cons.prems kv tail_hit [of k] by (cases kvs) (auto simp: str_fields_def je2_needle_def)
  next
    case False
    with Cons.prems kv have nn: "kvs \<noteq> []" "map_of kvs k = Some x" by auto
    have q: "quotefree k'" "quotefree v" "v \<noteq> k" using Cons.prems(1) kv by auto
    have f: "json_fields (str_fields (kv # kvs)) @ [rbrace] =
        dq # k' @ dq # colon # dq # v @ dq # comma # json_fields (str_fields kvs) @ [rbrace]"
      using nn(1) kv by (cases kvs) (auto simp: str_fields_def json_str_def)
    have "je2_tail k (json_fields (str_fields (kv # kvs)) @ [rbrace]) =
        je2_tail k (json_fields (str_fields kvs) @ [rbrace])"
      unfolding f using q False by (simp add: tail_other [OF assms(1)])
    with Cons.IH Cons.prems(1) nn show ?thesis by auto
  qed
qed simp

lemma je2_get_fields:
  assumes "ident k" and "\<forall>(k', v)\<in>set kvs. quotefree k' \<and> quotefree v \<and> v \<noteq> k" and "map_of kvs k = Some x"
  shows "je2_get (json_obj (str_fields kvs)) k = x"
proof -
  obtain s where s: "je2_tail k (json_fields (str_fields kvs) @ [rbrace]) = Some (je2_needle k @ colon # json_str x @ s)"
    using tail_fields [OF assms] by blast
  then have "je2_tail k (json_obj (str_fields kvs)) = Some (je2_needle k @ colon # json_str x @ s)"
    by (simp add: json_obj_def tail_char)
  from get_tail [OF this assms(1)]
  have "je2_get (json_obj (str_fields kvs)) k = takeWhile (\<lambda>c. c \<noteq> dq) (x @ dq # s)"
    by (auto simp: json_str_def json_value_def)
  moreover have "quotefree x" using assms(2,3) by (auto dest!: map_of_SomeD)
  then have "takeWhile (\<lambda>c. c \<noteq> dq) (x @ dq # s) = x"
    by (subst takeWhile_append2) (auto simp: quotefree_def)
  ultimately show ?thesis by simp
qed

subsection \<open>Frames\<close>

definition e2_frame :: "string \<Rightarrow> bytes" where
  "e2_frame msg = be32 (word_of_nat (length msg)) @ map char_byte msg"

fun e2_recv :: "bytes \<Rightarrow> string \<times> bytes" where
  "e2_recv (b0 # b1 # b2 # b3 # s) =
     (let len = join32 b3 b2 b1 b0
      in if len > 65536 then ([], s)
         else if unat len \<le> length s then (map byte_char (take (unat len) s), drop (unat len) s)
         else ([], []))"
| "e2_recv _ = ([], [])"

definition e2_fits :: "string \<Rightarrow> bool" where
  "e2_fits msg \<longleftrightarrow> length msg \<le> 65536"

lemma e2_recv_frame:
  assumes "e2_fits msg"
  shows "e2_recv (e2_frame msg @ rest) = (msg, rest)"
proof -
  let ?w = "word_of_nat (length msg) :: u32"
  have u: "unat ?w = length msg"
    using assms by (simp add: e2_fits_def unat_of_nat take_bit_nat_eq_self)
  then have "\<not> ?w > 65536" using assms by (simp add: e2_fits_def word_less_nat_alt)
  with u show ?thesis
    using join32_byte_at [of ?w] by (simp add: e2_frame_def be32_def)
qed

interpretation e2_frames: codec e2_frame "\<lambda>bs. Some (e2_recv bs)" e2_fits
  by unfold_locales (simp add: e2_recv_frame)

lemma e2_recv_long:
  assumes "65536 < length msg" and "length msg < 2 ^ 32"
  shows "fst (e2_recv (e2_frame msg @ rest)) = []"
proof -
  let ?w = "word_of_nat (length msg) :: u32"
  have "unat ?w = length msg" using assms(2) by (simp add: unat_of_nat take_bit_nat_eq_self)
  then have "?w > 65536" using assms(1) by (simp add: word_less_nat_alt)
  then show ?thesis using join32_byte_at [of ?w] by (simp add: e2_frame_def be32_def)
qed

subsection \<open>The agent\<close>

datatype agent_state = Awaits_Setup | Awaits_Control | Session_Closed

definition e2_setup_response :: string where
  "e2_setup_response = json_obj (str_fields
     [(''msgType'', ''E2SetupResponse''), (''transactionId'', ''1''), (''e2NodeId'', ''eNB-001''), (''cause'', ''success'')])"

definition ric_control_ack :: "string \<Rightarrow> string \<Rightarrow> string" where
  "ric_control_ack ueId value = json_obj (str_fields
     [(''msgType'', ''RICControlAcknowledge''), (''transactionId'', ''2''), (''ueId'', ueId),
      (''result'', ''success''), (''appliedMCS'', value)])"

definition handleXapp :: "agent_state \<Rightarrow> string \<Rightarrow> agent_state \<times> string list" where
  "handleXapp st msg =
     (case st of
        Awaits_Setup \<Rightarrow>
          if msg = [] then (Session_Closed, [])
          else (Awaits_Control, if je2_get msg ''msgType'' = ''E2SetupRequest'' then [e2_setup_response] else [])
      | Awaits_Control \<Rightarrow>
          if msg = [] then (Session_Closed, [])
          else (Session_Closed,
            if je2_get msg ''msgType'' = ''RICControlRequest''
            then [ric_control_ack (je2_get msg ''ueId'') (je2_get msg ''value'')] else [])
      | Session_Closed \<Rightarrow> (Session_Closed, []))"

subsection \<open>The xApp\<close>

datatype xapp_state = Wants_Response | Wants_Ack | Exited int string

definition xapp_args :: "string list \<Rightarrow> cpp_exn + int \<times> int" where
  "xapp_args argv =
     (case argv of
        [] \<Rightarrow> Inr (1, 10)
      | [u] \<Rightarrow> (case stoi u of Inl e \<Rightarrow> Inl e | Inr ueId \<Rightarrow> Inr (ueId, 10))
      | u # m # _ \<Rightarrow> (case stoi u of Inl e \<Rightarrow> Inl e | Inr ueId \<Rightarrow>
          (case stoi m of Inl e \<Rightarrow> Inl e | Inr mcs \<Rightarrow> Inr (ueId, mcs))))"

definition e2_setup_request :: string where
  "e2_setup_request = json_obj
     [(''msgType'', json_str ''E2SetupRequest''), (''e2NodeId'', json_str ''xApp-RIC-001''),
      (''ranFunctions'', [CHR ''[''] @ json_str ''RC'' @ [comma] @ json_str ''SM'' @ [comma] @ json_str ''CCC'' @ [CHR '']''])]"

definition ric_control_request :: "int \<Rightarrow> int \<Rightarrow> string" where
  "ric_control_request ueId mcs = json_obj (str_fields
     [(''msgType'', ''RICControlRequest''), (''transactionId'', ''2''), (''ueId'', json_num ueId),
      (''action'', ''reduceMCS''), (''value'', json_num mcs), (''rationale'', ''SINR-below-threshold-A3-event'')])"

definition xapp_start :: "xapp_state \<times> string list" where
  "xapp_start = (Wants_Response, [e2_setup_request])"

definition xapp_receive :: "int \<Rightarrow> int \<Rightarrow> xapp_state \<Rightarrow> string \<Rightarrow> xapp_state \<times> string list" where
  "xapp_receive ueId mcs st msg =
     (case st of
        Wants_Response \<Rightarrow>
          if msg = [] \<or> je2_get msg ''msgType'' \<noteq> ''E2SetupResponse'' then (Exited 1 [], [])
          else (Wants_Ack, [ric_control_request ueId mcs])
      | Wants_Ack \<Rightarrow> if msg = [] then (Exited 1 [], []) else (Exited 0 (je2_get msg ''appliedMCS''), [])
      | Exited c a \<Rightarrow> (Exited c a, []))"

text \<open>
  Both programs strictly alternate: what one sends is framed, received and handled by the other. A
  side that is done closes its connection and the other reads the empty message; when the agent
  neither answers nor closes, both wait for ever and the dialogue stays where it is.
\<close>

definition e2_received :: "string \<Rightarrow> string" where
  "e2_received m = fst (e2_recv (e2_frame m))"

definition e2_agent_turn :: "agent_state \<Rightarrow> string list \<Rightarrow> agent_state \<times> string list" where
  "e2_agent_turn a out = handleXapp a (case out of [] \<Rightarrow> [] | m # _ \<Rightarrow> e2_received m)"

definition e2_xapp_turn :: "int \<Rightarrow> int \<Rightarrow> agent_state \<Rightarrow> string list \<Rightarrow> xapp_state \<Rightarrow> (xapp_state \<times> string list) option" where
  "e2_xapp_turn ueId mcs a replies x =
     (case replies of
        r # _ \<Rightarrow> Some (xapp_receive ueId mcs x (e2_received r))
      | [] \<Rightarrow> if a = Session_Closed then Some (xapp_receive ueId mcs x []) else None)"

fun e2_dialogue :: "nat \<Rightarrow> int \<Rightarrow> int \<Rightarrow> agent_state \<Rightarrow> xapp_state \<Rightarrow> string list \<Rightarrow> agent_state \<times> xapp_state" where
  "e2_dialogue 0 ueId mcs a x out = (a, x)"
| "e2_dialogue (Suc n) ueId mcs a x out =
     (let (a', replies) = e2_agent_turn a out
      in case e2_xapp_turn ueId mcs a' replies x of
           None \<Rightarrow> (a', x)
         | Some (x', out') \<Rightarrow> e2_dialogue n ueId mcs a' x' out')"

subsection \<open>The exchange\<close>

definition cpp_int :: "int \<Rightarrow> bool" where
  "cpp_int n \<longleftrightarrow> - (2 ^ 31) \<le> n \<and> n < 2 ^ 31"

lemma json_num_length:
  assumes "cpp_int n"
  shows "length (json_num n) \<le> 11"
proof -
  have "nat n < 10 ^ Suc 9" "nat (- n) < 10 ^ Suc 9" using assms by (auto simp: cpp_int_def)
  from nat_dec_length [OF this(1)] nat_dec_length [OF this(2)] show ?thesis by (auto simp: json_num_def)
qed

lemma json_num_quotefree: "quotefree (json_num n)"
  by (rule token_quotefree) simp

lemma json_num_not_ident:
  assumes "is_digit (hd k) = False" and "hd k \<noteq> CHR ''-''" and "k \<noteq> []"
  shows "json_num n \<noteq> k"
proof
  assume "json_num n = k"
  moreover obtain c cs where "nat_dec (nat n) = c # cs" "is_digit c" using nat_dec_hd by blast
  ultimately show False using assms by (auto simp: json_num_def split: if_splits)
qed

lemmas e2_num = json_num_quotefree json_num_not_ident is_digit_def ident_def

lemma e2_received_fits: "length m \<le> 65536 \<Longrightarrow> e2_received m = m"
  using e2_recv_frame [of m "[]"] by (simp add: e2_received_def e2_fits_def)

lemma request_length: "cpp_int ueId \<Longrightarrow> cpp_int mcs \<Longrightarrow> length (ric_control_request ueId mcs) \<le> 65536"
  using json_num_length [of ueId] json_num_length [of mcs]
  by (simp add: ric_control_request_def str_fields_def json_obj_def json_str_def)

lemma ack_length: "cpp_int ueId \<Longrightarrow> cpp_int mcs \<Longrightarrow> length (ric_control_ack (json_num ueId) (json_num mcs)) \<le> 65536"
  using json_num_length [of ueId] json_num_length [of mcs]
  by (simp add: ric_control_ack_def str_fields_def json_obj_def json_str_def)

lemma control_fields:
  "je2_get (ric_control_request ueId mcs) ''msgType'' = ''RICControlRequest''"
  "je2_get (ric_control_request ueId mcs) ''ueId'' = json_num ueId"
  "je2_get (ric_control_request ueId mcs) ''value'' = json_num mcs"
  by (simp_all add: ric_control_request_def je2_get_fields e2_num)

lemma control_ack_fields:
  "je2_get (ric_control_ack (json_num ueId) (json_num mcs)) ''ueId'' = json_num ueId"
  "je2_get (ric_control_ack (json_num ueId) (json_num mcs)) ''result'' = ''success''"
  "je2_get (ric_control_ack (json_num ueId) (json_num mcs)) ''appliedMCS'' = json_num mcs"
  by (simp_all add: ric_control_ack_def je2_get_fields e2_num)

lemma response_type: "je2_get e2_setup_response ''msgType'' = ''E2SetupResponse''"
  by (simp add: e2_setup_response_def je2_get_fields ident_def)

lemma setup_type: "je2_get e2_setup_request ''msgType'' = ''E2SetupRequest''"
  by code_simp

lemma obj_not_empty [simp]: "json_obj kvs \<noteq> []"
  by (simp add: json_obj_def)

lemma e2_not_empty [simp]:
  "e2_setup_request \<noteq> []" "e2_setup_response \<noteq> []" "ric_control_request u m \<noteq> []" "ric_control_ack a b \<noteq> []"
  by (simp_all add: e2_setup_request_def e2_setup_response_def ric_control_request_def ric_control_ack_def)

lemma setup_received: "e2_received e2_setup_request = e2_setup_request" "e2_received e2_setup_response = e2_setup_response"
  by (rule e2_received_fits, simp add: e2_setup_request_def e2_setup_response_def str_fields_def json_obj_def json_str_def)+

text \<open>Whatever UE and MCS the xApp was started with, the E2 dialogue ends after two rounds: the
  agent answers the setup and acknowledges the control request for that UE, the xApp reads back
  exactly the MCS it asked for and exits with 0, and the agent has closed the session. Every message
  passes through its frame unchanged.\<close>
theorem e2_exchange_completes:
  assumes "cpp_int ueId" and "cpp_int mcs"
  shows "e2_dialogue 2 ueId mcs Awaits_Setup (fst xapp_start) (snd xapp_start) = (Session_Closed, Exited 0 (json_num mcs))
       \<and> snd (handleXapp Awaits_Control (ric_control_request ueId mcs)) = [ric_control_ack (json_num ueId) (json_num mcs)]
       \<and> je2_get (ric_control_ack (json_num ueId) (json_num mcs)) ''ueId'' = json_num ueId"
proof -
  note r = e2_received_fits [OF request_length [OF assms]] e2_received_fits [OF ack_length [OF assms]] setup_received
  have a1: "e2_agent_turn Awaits_Setup [e2_setup_request] = (Awaits_Control, [e2_setup_response])"
    by (simp add: e2_agent_turn_def handleXapp_def r setup_type)
  have x1: "e2_xapp_turn ueId mcs Awaits_Control [e2_setup_response] Wants_Response =
      Some (Wants_Ack, [ric_control_request ueId mcs])"
    by (simp add: e2_xapp_turn_def xapp_receive_def r response_type)
  have a2: "e2_agent_turn Awaits_Control [ric_control_request ueId mcs] =
      (Session_Closed, [ric_control_ack (json_num ueId) (json_num mcs)])"
    by (simp add: e2_agent_turn_def handleXapp_def r control_fields)
  have x2: "e2_xapp_turn ueId mcs Session_Closed [ric_control_ack (json_num ueId) (json_num mcs)] Wants_Ack =
      Some (Exited 0 (json_num mcs), [])"
    by (simp add: e2_xapp_turn_def xapp_receive_def r control_ack_fields)
  show ?thesis
    by (simp add: numeral_2_eq_2 xapp_start_def a1 x1 a2 x2 control_ack_fields handleXapp_def control_fields)
qed

theorem e2_exchange_completes_witness:
  "cpp_int 1 \<and> cpp_int 10 \<and>
   e2_dialogue 2 1 10 Awaits_Setup (fst xapp_start) (snd xapp_start) = (Session_Closed, Exited 0 (json_num 10))"
proof -
  have c: "cpp_int 1" "cpp_int 10" by (simp_all add: cpp_int_def)
  from conjunct1 [OF e2_exchange_completes [OF c]] c show ?thesis by blast
qed

text \<open>The setup is not a condition: any first message lets the agent take control requests, and an MCS
  outside 0 to 28 is applied like any other.\<close>

lemma control_without_setup:
  assumes "m \<noteq> []" and "je2_get m ''msgType'' \<noteq> ''E2SetupRequest''"
  shows "handleXapp Awaits_Setup m = (Awaits_Control, [])
       \<and> handleXapp Awaits_Control (ric_control_request 1 99) = (Session_Closed, [ric_control_ack (json_num 1) (json_num 99)])"
  using assms by (simp add: handleXapp_def control_fields)

text \<open>An agent that got another first message leaves the xApp without an answer.\<close>

lemma wrong_setup_blocks:
  "je2_get m ''msgType'' \<noteq> ''E2SetupRequest'' \<Longrightarrow> length m \<le> 65536 \<Longrightarrow> m \<noteq> [] \<Longrightarrow>
   e2_dialogue (Suc n) ueId mcs Awaits_Setup Wants_Response [m] = (Awaits_Control, Wants_Response)"
  by (simp add: e2_agent_turn_def handleXapp_def e2_received_fits e2_xapp_turn_def)

end
