(* ===== verification/Cli_Scenario.thy ===== *)
theory Cli_Scenario
  imports Text_Frames
begin

text \<open>
  The scenario files of the 4G simulator: the flat YAML reader and the commands that
  \<open>scenario_runner.cpp\<close> writes to its standard output. The reader works line by line on a
  scenario under construction; \<open>std::getline\<close> cuts the file at line feeds.
\<close>

subsection \<open>Data\<close>

record scenario_step =
  st_cmd :: string
  st_expect :: string
  st_delay :: int

record scenario =
  sc_name :: string
  sc_mode :: string
  sc_steps :: "scenario_step list"

definition empty_step :: scenario_step where
  "empty_step = \<lparr> st_cmd = [], st_expect = [], st_delay = 0 \<rparr>"

definition scenario_new :: scenario where
  "scenario_new = \<lparr> sc_name = [], sc_mode = ''ENGINEER'', sc_steps = [] \<rparr>"

subsection \<open>Text helpers\<close>

definition yaml_blank :: "char \<Rightarrow> bool" where
  "yaml_blank c \<longleftrightarrow> c = CHR '' '' \<or> c = CHR 0x09 \<or> c = CR \<or> c = LF"

definition yaml_trim :: "string \<Rightarrow> string" where
  "yaml_trim s = rev (dropWhile yaml_blank (rev (dropWhile yaml_blank s)))"

definition sq :: char where "sq = CHR 0x27"

definition stripQuotes :: "string \<Rightarrow> string" where
  "stripQuotes s =
     (if 2 \<le> length s \<and> (hd s = dq \<and> last s = dq \<or> hd s = sq \<and> last s = sq)
      then butlast (tl s) else s)"

fun file_lines :: "string \<Rightarrow> string \<Rightarrow> string list" where
  "file_lines acc [] = (if acc = [] then [] else [acc])"
| "file_lines acc (c # cs) = (if c = LF then acc # file_lines [] cs else file_lines (acc @ [c]) cs)"

subsection \<open>The reader\<close>

record yaml_state =
  y_scenario :: scenario
  y_step :: scenario_step
  y_in_steps :: bool
  y_open :: bool

definition yaml_start :: yaml_state where
  "yaml_start = \<lparr> y_scenario = scenario_new, y_step = empty_step, y_in_steps = False, y_open = False \<rparr>"

definition close_step :: "yaml_state \<Rightarrow> yaml_state" where
  "close_step y =
     (if y_open y then y\<lparr>y_scenario := (y_scenario y)\<lparr>sc_steps := sc_steps (y_scenario y) @ [y_step y]\<rparr>\<rparr> else y)"

definition top_field :: "string \<Rightarrow> string \<Rightarrow> yaml_state \<Rightarrow> yaml_state" where
  "top_field key val y =
     (if key = ''name'' then y\<lparr>y_scenario := (y_scenario y)\<lparr>sc_name := val\<rparr>\<rparr>
      else if key = ''mode'' then y\<lparr>y_scenario := (y_scenario y)\<lparr>sc_mode := val\<rparr>\<rparr>
      else if key = ''steps'' then y\<lparr>y_in_steps := True\<rparr> else y)"

definition step_field :: "string \<Rightarrow> string \<Rightarrow> yaml_state \<Rightarrow> yaml_state" where
  "step_field key val y =
     (if key = ''cmd'' then y\<lparr>y_step := (y_step y)\<lparr>st_cmd := val\<rparr>\<rparr>
      else if key = ''expect'' then y\<lparr>y_step := (y_step y)\<lparr>st_expect := val\<rparr>\<rparr>
      else if key = ''delay_ms'' then
        (case stoi val of Inr n \<Rightarrow> y\<lparr>y_step := (y_step y)\<lparr>st_delay := n\<rparr>\<rparr> | Inl e \<Rightarrow> y)
      else y)"

definition yaml_field :: "string \<Rightarrow> yaml_state \<Rightarrow> yaml_state" where
  "yaml_field t y =
     (case dropWhile (\<lambda>c. c \<noteq> colon) t of
        [] \<Rightarrow> y
      | c # rest \<Rightarrow>
          let key = yaml_trim (takeWhile (\<lambda>c. c \<noteq> colon) t);
              val = stripQuotes (yaml_trim rest)
          in if y_in_steps y then step_field key val y else top_field key val y)"

definition yaml_line :: "yaml_state \<Rightarrow> string \<Rightarrow> yaml_state" where
  "yaml_line y line =
     (case yaml_trim (takeWhile (\<lambda>c. c \<noteq> CHR 0x23) line) of
        [] \<Rightarrow> y
      | c # cs \<Rightarrow>
          if c = CHR ''-'' then
            (if y_in_steps y then yaml_field (yaml_trim cs) ((close_step y)\<lparr>y_step := empty_step, y_open := True\<rparr>) else y)
          else yaml_field (c # cs) y)"

definition parseYaml :: "string \<Rightarrow> scenario" where
  "parseYaml text = y_scenario (close_step (run yaml_line yaml_start (file_lines [] text)))"

text \<open>\<open>run\<close> of the runner writes the mode and the commands, each on a line of its own.\<close>

definition runner_output :: "scenario \<Rightarrow> string list" where
  "runner_output sc = (''MODE '' @ sc_mode sc) # map st_cmd (sc_steps sc)"

definition as_text :: "string list \<Rightarrow> string" where
  "as_text ls = concat (map (\<lambda>l. l @ [LF]) ls)"

subsection \<open>The documented form of a scenario file\<close>

definition quoted_line :: "string \<Rightarrow> string \<Rightarrow> string \<Rightarrow> string" where
  "quoted_line indent key v = indent @ key @ [colon, CHR '' '', dq] @ v @ [dq]"

definition delay_line :: "int \<Rightarrow> string" where
  "delay_line n = ''    delay_ms: '' @ json_num n"

definition step_lines :: "scenario_step \<Rightarrow> string list" where
  "step_lines s = [quoted_line ''  - '' ''cmd'' (st_cmd s)]
     @ (if st_expect s = [] then [] else [quoted_line ''    '' ''expect'' (st_expect s)])
     @ (if st_delay s = 0 then [] else [delay_line (st_delay s)])"

definition scenario_lines :: "scenario \<Rightarrow> string list" where
  "scenario_lines sc = [quoted_line [] ''name'' (sc_name sc), quoted_line [] ''mode'' (sc_mode sc), ''steps:'']
     @ concat (map step_lines (sc_steps sc))"

definition plain_text :: "string \<Rightarrow> bool" where
  "plain_text s \<longleftrightarrow> CHR 0x23 \<notin> set s \<and> LF \<notin> set s"

definition step_plain :: "scenario_step \<Rightarrow> bool" where
  "step_plain s \<longleftrightarrow> plain_text (st_cmd s) \<and> plain_text (st_expect s) \<and> - (2 ^ 31) \<le> st_delay s \<and> st_delay s < 2 ^ 31"

definition scenario_plain :: "scenario \<Rightarrow> bool" where
  "scenario_plain sc \<longleftrightarrow> plain_text (sc_name sc) \<and> plain_text (sc_mode sc) \<and> (\<forall>s\<in>set (sc_steps sc). step_plain s)"

subsection \<open>Reading it back\<close>

lemma file_lines_line: "LF \<notin> set l \<Longrightarrow> file_lines acc (l @ LF # r) = (acc @ l) # file_lines [] r"
  by (induction l arbitrary: acc) auto

lemma get_lines_text: "(\<forall>l\<in>set ls. LF \<notin> set l) \<Longrightarrow> file_lines [] (as_text ls) = ls"
  by (induction ls) (auto simp: as_text_def file_lines_line)

lemma trim_plain:
  assumes "b \<noteq> []" and "\<not> yaml_blank (hd b)" and "\<not> yaml_blank (last b)" and "\<forall>c\<in>set a. yaml_blank c"
  shows "yaml_trim (a @ b) = b"
proof -
  have "dropWhile yaml_blank (a @ b) = b"
    using assms(1,2,4) by (subst dropWhile_append2) (auto simp: hd_conv_nth, cases b, auto)
  moreover have "dropWhile yaml_blank (rev b) = rev b"
    using assms(1,3) by (cases "rev b") (auto simp: last_rev [of "rev b", simplified] hd_rev [symmetric])
  ultimately show ?thesis by (simp add: yaml_trim_def)
qed

lemma strip_quoted: "stripQuotes (dq # v @ [dq]) = v"
  by (simp add: stripQuotes_def)

lemma not_blank [simp]: "\<not> yaml_blank dq" "\<not> yaml_blank CHR ''-''"
  by (simp_all add: yaml_blank_def)

definition yaml_key :: "string \<Rightarrow> bool" where
  "yaml_key k \<longleftrightarrow> k \<noteq> [] \<and> (\<forall>c\<in>set k. \<not> yaml_blank c \<and> c \<noteq> colon \<and> c \<noteq> CHR 0x23 \<and> c \<noteq> CHR ''-'')"

lemma key_trim: "yaml_key k \<Longrightarrow> yaml_trim k = k"
  using trim_plain [of k "[]"] by (auto simp: yaml_key_def)

lemma field_quoted:
  assumes "yaml_key k"
  shows "yaml_field (k @ [colon, CHR '' '', dq] @ v @ [dq]) y = (if y_in_steps y then step_field k v y else top_field k v y)"
proof -
  have d: "dropWhile (\<lambda>c. c \<noteq> colon) (k @ [colon, CHR '' '', dq] @ v @ [dq]) = colon # CHR '' '' # dq # v @ [dq]"
    using assms by (subst dropWhile_append2) (auto simp: yaml_key_def)
  have t: "takeWhile (\<lambda>c. c \<noteq> colon) (k @ [colon, CHR '' '', dq] @ v @ [dq]) = k"
    using assms by (subst takeWhile_append2) (auto simp: yaml_key_def)
  have "yaml_trim ('' '' @ dq # v @ [dq]) = dq # v @ [dq]"
    by (rule trim_plain) (simp_all add: yaml_blank_def)
  then show ?thesis
    unfolding yaml_field_def d t using strip_quoted [of v] by (simp add: key_trim [OF assms] Let_def)
qed

definition quoted_body :: "string \<Rightarrow> string \<Rightarrow> string" where
  "quoted_body k v = k @ [colon, CHR '' '', dq] @ v @ [dq]"

lemma no_comment: "CHR 0x23 \<notin> set l \<Longrightarrow> takeWhile (\<lambda>c. c \<noteq> CHR 0x23) l = l"
  by (simp add: takeWhile_eq_all_conv) blast

lemma body_comment: "yaml_key k \<Longrightarrow> plain_text v \<Longrightarrow> CHR 0x23 \<notin> set (quoted_body k v)"
  by (auto simp: quoted_body_def plain_text_def yaml_key_def)

lemma body_trim: "yaml_key k \<Longrightarrow> (\<forall>c\<in>set a. yaml_blank c) \<Longrightarrow> yaml_trim (a @ quoted_body k v) = quoted_body k v"
  by (rule trim_plain) (auto simp: quoted_body_def yaml_key_def hd_append)

lemma body_head: "yaml_key k \<Longrightarrow> \<exists>c cs. quoted_body k v = c # cs \<and> c \<noteq> CHR ''-''"
  by (cases k) (auto simp: quoted_body_def yaml_key_def)

lemma field_body:
  "yaml_key k \<Longrightarrow> yaml_field (quoted_body k v) y = (if y_in_steps y then step_field k v y else top_field k v y)"
  unfolding quoted_body_def by (rule field_quoted)

lemma line_quoted:
  assumes "yaml_key k" and "plain_text v" and "\<forall>c\<in>set a. c = CHR '' ''"
  shows "yaml_line y (quoted_line a k v) = (if y_in_steps y then step_field k v y else top_field k v y)"
proof -
  have l: "quoted_line a k v = a @ quoted_body k v" by (simp add: quoted_line_def quoted_body_def)
  have n: "CHR 0x23 \<notin> set (a @ quoted_body k v)" using assms(3) body_comment [OF assms(1,2)] by auto
  have t: "yaml_trim (a @ quoted_body k v) = quoted_body k v"
    using assms(3) by (intro body_trim [OF assms(1)]) (auto simp: yaml_blank_def)
  obtain c cs where c: "quoted_body k v = c # cs" "c \<noteq> CHR ''-''" using body_head [OF assms(1)] by blast
  then have "yaml_line y (quoted_line a k v) = yaml_field (quoted_body k v) y"
    unfolding yaml_line_def l no_comment [OF n] t by simp
  then show ?thesis by (simp add: field_body [OF assms(1)])
qed

lemma line_item:
  assumes "yaml_key k" and "plain_text v" and "y_in_steps y"
  shows "yaml_line y (quoted_line ''  - '' k v) = step_field k v ((close_step y)\<lparr>y_step := empty_step, y_open := True\<rparr>)"
proof -
  have l: "quoted_line ''  - '' k v = ''  '' @ CHR ''-'' # '' '' @ quoted_body k v"
    by (simp add: quoted_line_def quoted_body_def)
  have n: "CHR 0x23 \<notin> set (''  '' @ CHR ''-'' # '' '' @ quoted_body k v)" using body_comment [OF assms(1,2)] by auto
  have t: "yaml_trim (''  '' @ CHR ''-'' # '' '' @ quoted_body k v) = CHR ''-'' # '' '' @ quoted_body k v"
    by (rule trim_plain) (auto simp: yaml_blank_def quoted_body_def)
  have u: "yaml_trim ('' '' @ quoted_body k v) = quoted_body k v"
    by (rule body_trim [OF assms(1)]) (simp add: yaml_blank_def)
  have "y_in_steps (close_step y)" using assms(3) by (simp add: close_step_def)
  then show ?thesis
    unfolding yaml_line_def l no_comment [OF n] t using assms(3) u
    by (simp add: field_body [OF assms(1)])
qed

lemma digit_not_blank: "is_digit c \<Longrightarrow> \<not> yaml_blank c \<and> c \<noteq> CHR 0x23 \<and> c \<noteq> colon"
  by (auto simp: is_digit_def yaml_blank_def)

lemma json_num_plain: "c \<in> set (json_num n) \<Longrightarrow> \<not> yaml_blank c \<and> c \<noteq> CHR 0x23 \<and> c \<noteq> colon \<and> c \<noteq> dq \<and> c \<noteq> sq"
  by (auto dest!: json_num_chars simp: is_digit_def yaml_blank_def sq_def)

lemma json_num_not_nil [simp]: "json_num n \<noteq> []"
  by (simp add: json_num_def)

lemma line_delay:
  assumes "- (2 ^ 31) \<le> n" and "n < 2 ^ 31" and "y_in_steps y"
  shows "yaml_line y (delay_line n) = y\<lparr>y_step := (y_step y)\<lparr>st_delay := n\<rparr>\<rparr>"
proof -
  let ?b = "''delay_ms: '' @ json_num n"
  have num: "hd (json_num n) \<in> set (json_num n)" "last (json_num n) \<in> set (json_num n)" by simp_all
  note p = json_num_plain [OF num(1)] json_num_plain [OF num(2)]
  have l: "delay_line n = ''    '' @ ?b" by (simp add: delay_line_def)
  have c: "CHR 0x23 \<notin> set (''    '' @ ?b)" using json_num_plain [of _ n] by auto
  have t: "yaml_trim (''    '' @ ?b) = ?b"
    by (rule trim_plain) (use p in \<open>auto simp: yaml_blank_def\<close>)
  have u: "yaml_trim ('' '' @ json_num n) = json_num n"
    by (rule trim_plain) (use p in \<open>auto simp: yaml_blank_def\<close>)
  have q: "stripQuotes (json_num n) = json_num n" using p by (auto simp: stripQuotes_def)
  have k: "yaml_trim ''delay_ms'' = ''delay_ms''" by (rule key_trim) (simp add: yaml_key_def yaml_blank_def)
  show ?thesis
    unfolding yaml_line_def l no_comment [OF c] t using assms u q k
    by (simp add: yaml_field_def step_field_def stoi_json_num)
qed

lemma line_steps: "\<not> y_in_steps y \<Longrightarrow> yaml_line y ''steps:'' = y\<lparr>y_in_steps := True\<rparr>"
proof -
  assume y: "\<not> y_in_steps y"
  have "yaml_trim ([] @ ''steps:'') = ''steps:''" by (rule trim_plain) (simp_all add: yaml_blank_def)
  moreover have "yaml_trim ''steps'' = ''steps''" by (rule key_trim) (simp add: yaml_key_def yaml_blank_def)
  ultimately show ?thesis
    using y by (simp add: yaml_line_def yaml_field_def top_field_def)
qed

lemma key_words: "yaml_key ''cmd''" "yaml_key ''expect''" "yaml_key ''name''" "yaml_key ''mode''"
  by (simp_all add: yaml_key_def yaml_blank_def)

lemma in_steps_close: "y_in_steps (close_step y) = y_in_steps y"
  by (simp add: close_step_def)

lemma run_step:
  assumes "y_in_steps y" and "step_plain s"
  shows "run yaml_line y (step_lines s) = (close_step y)\<lparr>y_step := s, y_open := True\<rparr>"
proof -
  have p: "plain_text (st_cmd s)" "plain_text (st_expect s)" "- (2 ^ 31) \<le> st_delay s" "st_delay s < 2 ^ 31"
    using assms(2) by (auto simp: step_plain_def)
  let ?a = "(close_step y)\<lparr>y_step := empty_step\<lparr>st_cmd := st_cmd s\<rparr>, y_open := True\<rparr>"
  let ?b = "?a\<lparr>y_step := (y_step ?a)\<lparr>st_expect := st_expect s\<rparr>\<rparr>"
  have i: "y_in_steps ?a" "y_in_steps ?b" using assms(1) by (simp_all add: in_steps_close)
  have a: "yaml_line y (quoted_line ''  - '' ''cmd'' (st_cmd s)) = ?a"
    by (simp add: line_item [OF key_words(1) p(1) assms(1)] step_field_def)
  have b: "yaml_line ?a (quoted_line ''    '' ''expect'' (st_expect s)) = ?b"
    using i(1) by (simp add: line_quoted [OF key_words(2) p(2)] step_field_def)
  have c: "yaml_line z (delay_line (st_delay s)) = z\<lparr>y_step := (y_step z)\<lparr>st_delay := st_delay s\<rparr>\<rparr>" if "y_in_steps z" for z
    by (rule line_delay [OF p(3,4) that])
  have "run yaml_line y (step_lines s) =
      (if st_delay s = 0 then ?b else ?b\<lparr>y_step := (y_step ?b)\<lparr>st_delay := st_delay s\<rparr>\<rparr>)"
  proof (cases "st_expect s = []")
    case True
    then have "?b = ?a" by (simp add: empty_step_def)
    with True show ?thesis unfolding step_lines_def using c [OF i(1)] by (simp add: a)
  next
    case False
    then show ?thesis unfolding step_lines_def using c [OF i(2)] b by (simp add: a)
  qed
  then show ?thesis by (cases s) (auto simp: empty_step_def)
qed

lemma close_open: "close_step (y\<lparr>y_step := s, y_open := True\<rparr>) =
  y\<lparr>y_step := s, y_open := True, y_scenario := (y_scenario y)\<lparr>sc_steps := sc_steps (y_scenario y) @ [s]\<rparr>\<rparr>"
  by (simp add: close_step_def)

lemma run_steps:
  assumes "y_in_steps y" and "\<forall>s\<in>set ss. step_plain s"
  shows "y_scenario (close_step (run yaml_line y (concat (map step_lines ss)))) =
    (y_scenario (close_step y))\<lparr>sc_steps := sc_steps (y_scenario (close_step y)) @ ss\<rparr>"
  using assms
proof (induction ss arbitrary: y)
  case (Cons s ss)
  let ?y = "(close_step y)\<lparr>y_step := s, y_open := True\<rparr>"
  have "run yaml_line y (step_lines s) = ?y" using Cons.prems by (intro run_step) auto
  moreover have "y_in_steps ?y" using Cons.prems(1) by (simp add: in_steps_close)
  ultimately show ?case using Cons.IH [of ?y] Cons.prems(2) by (simp add: close_open)
qed simp

lemma quoted_line_LF: "LF \<in> set (quoted_line a k v) \<longleftrightarrow> LF \<in> set a \<or> LF \<in> set k \<or> LF \<in> set v"
  by (auto simp: quoted_line_def)

lemma delay_line_plain: "LF \<notin> set (delay_line n)"
  using json_num_plain [of LF n] by (auto simp: delay_line_def yaml_blank_def)

lemma step_lines_plain: "step_plain s \<Longrightarrow> l \<in> set (step_lines s) \<Longrightarrow> LF \<notin> set l"
  by (auto simp: step_lines_def step_plain_def plain_text_def delay_line_plain quoted_line_LF split: if_splits)

lemma scenario_lines_plain:
  assumes "scenario_plain sc" and "l \<in> set (scenario_lines sc)"
  shows "LF \<notin> set l"
proof -
  from assms(2) consider "l = quoted_line [] ''name'' (sc_name sc)" | "l = quoted_line [] ''mode'' (sc_mode sc)"
    | "l = ''steps:''" | s where "s \<in> set (sc_steps sc)" "l \<in> set (step_lines s)"
    by (auto simp: scenario_lines_def)
  then show ?thesis
    using assms(1) by cases (auto simp: quoted_line_LF scenario_plain_def plain_text_def dest: step_lines_plain)
qed

lemma parse_scenario:
  assumes "scenario_plain sc"
  shows "parseYaml (as_text (scenario_lines sc)) = sc"
proof -
  have p: "plain_text (sc_name sc)" "plain_text (sc_mode sc)" "\<forall>s\<in>set (sc_steps sc). step_plain s"
    using assms by (auto simp: scenario_plain_def)
  let ?y = "yaml_start\<lparr>y_scenario := scenario_new\<lparr>sc_name := sc_name sc, sc_mode := sc_mode sc\<rparr>, y_in_steps := True\<rparr>"
  have "run yaml_line yaml_start (scenario_lines sc) = run yaml_line ?y (concat (map step_lines (sc_steps sc)))"
    by (simp add: scenario_lines_def line_quoted [OF key_words(3) p(1)] line_quoted [OF key_words(4) p(2)]
        line_steps yaml_start_def top_field_def)
  moreover have "file_lines [] (as_text (scenario_lines sc)) = scenario_lines sc"
    using scenario_lines_plain [OF assms] by (intro get_lines_text) blast
  ultimately show ?thesis
    using run_steps [of ?y "sc_steps sc"] p(3)
    by (simp add: parseYaml_def close_step_def yaml_start_def scenario_new_def)
qed

end
