(* ===== verification/Cli_Main.thy ===== *)
theory Cli_Main
  imports Cli_Scenario Epc_Enb
begin

text \<open>
  The command line of the 4G simulator (\<open>main.cpp\<close>): what each line asks for, the commands it
  submits to the base station, and the way a scenario file reaches the base station. Reading a number
  from a stream follows \<open>std::istringstream\<close>: nothing left leaves the variable alone, no digits set it
  to 0, a number out of range to the nearest end, and all three make the stream fail.
\<close>

subsection \<open>Reading words and numbers\<close>




subsection \<open>What a line asks for\<close>











subsection \<open>Attach commands\<close>













text \<open>A scenario file in the documented form, with any text that has no comment sign and no line
  feed and any delay, is read back as exactly the scenario it was written from.\<close>
theorem scenario_round_trip:
  assumes "scenario_plain sc"
  shows "parseYaml (as_text (scenario_lines sc)) = sc"
  using assms by (rule parse_scenario)

definition attach_scenario :: "int list \<Rightarrow> scenario" where
  "attach_scenario ks = \<lparr> sc_name = ''attach'', sc_mode = ''BEGINNER'',
     sc_steps = map (\<lambda>k. \<lparr> st_cmd = ''CR '' @ json_num k, st_expect = ''REGISTERED'', st_delay = 100 \<rparr>) ks \<rparr>"

theorem scenario_round_trip_witness:
  "scenario_plain (attach_scenario [1, 2]) \<and>
   length (sc_steps (parseYaml (as_text (scenario_lines (attach_scenario [1, 2]))))) = 2"
proof -
  have p: "plain_text (''CR '' @ json_num k)" for k
    using json_num_plain [of _ k] by (auto simp: plain_text_def yaml_blank_def)
  have "scenario_plain (attach_scenario [1, 2])"
    using p [of 1] p [of 2] by (simp add: attach_scenario_def scenario_plain_def step_plain_def plain_text_def)
  with scenario_round_trip [OF this] show ?thesis by (simp add: attach_scenario_def)
qed






end
