(* ===== verification/Ims_Demo.thy ===== *)
theory Ims_Demo
  imports Ims_Text Pcap_System
begin

text \<open>
  The scripted IMS demonstration (\<open>ims_main.cpp\<close>): three identities, the commands of the prompt and
  the frames each of them writes to the capture. The nodes the program starts beside it do not take
  part in these flows. A command gives the new state; \<open>d_frames\<close> is the capture in order, \<open>d_active\<close>
  the calls it reports as active. Whether the chaos mode corrupts a 200 OK is an argument.
\<close>

subsection \<open>State\<close>

record UeIdentity =
  u_label :: string
  u_impu :: string
  u_ip :: string
  u_registered :: bool
  u_cseq :: int

record demo =
  d_ues :: "(string, UeIdentity) table"
  d_call_seq :: int
  d_frames :: "capture list"
  d_active :: "string list"

definition ue_identity :: "string \<Rightarrow> string \<Rightarrow> string \<Rightarrow> UeIdentity" where
  "ue_identity l m i = \<lparr> u_label = l, u_impu = m, u_ip = i, u_registered = False, u_cseq = 1 \<rparr>"

definition demo_start :: demo where
  "demo_start = \<lparr> d_ues = [(''A'', ue_identity ''UE-A'' IMPU_A IP_UE_A), (''B'', ue_identity ''UE-B'' IMPU_B IP_UE_B),
     (''C'', ue_identity ''UE-C'' IMPU_C IP_UE_C)], d_call_seq = 1, d_frames = [], d_active = [] \<rparr>"

text \<open>\<open>g_ues[id]\<close>; the commands only use identities that exist.\<close>

definition ue_of :: "demo \<Rightarrow> string \<Rightarrow> UeIdentity" where
  "ue_of d i = (case map_of (d_ues d) i of Some u \<Rightarrow> u | None \<Rightarrow> ue_identity [] [] [])"

definition next_cseq :: "string \<Rightarrow> demo \<Rightarrow> demo" where
  "next_cseq i d = d\<lparr>d_ues := tbl_adjust (d_ues d) i (\<lambda>u. u\<lparr>u_cseq := u_cseq u + 1\<rparr>)\<rparr>"

subsection \<open>Addresses\<close>

definition IP_UE :: u32 where "IP_UE = 0x0A000001"
definition IP_HSS :: u32 where "IP_HSS = 0x0A000004"
definition IP_PCRF :: u32 where "IP_PCRF = 0x0A000007"
definition IP_PCSCF :: u32 where "IP_PCSCF = 0x0A000008"
definition IP_SCSCF :: u32 where "IP_SCSCF = 0x0A000009"
definition IP_MTAS :: u32 where "IP_MTAS = 0x0A00000A"
definition LOOP_B :: u32 where "LOOP_B = 0x7F000002"
definition LOOP_C :: u32 where "LOOP_C = 0x7F000003"

definition pcapSip :: "string \<Rightarrow> u32 \<Rightarrow> u32 \<Rightarrow> capture" where
  "pcapSip t src dst = Sip t (src, 5060) (dst, 5060)"

definition emit :: "capture list \<Rightarrow> demo \<Rightarrow> demo" where
  "emit fs d = d\<lparr>d_frames := d_frames d @ fs\<rparr>"

subsection \<open>Flows\<close>

definition doRegister_demo :: "string \<Rightarrow> demo \<Rightarrow> demo" where
  "doRegister_demo i d =
     (let u = ue_of d i; sip = buildRegister (u_impu u) (u_ip u) (u_cseq u) 3600;
          d1 = next_cseq i d; ok = build200Register (u_impu u) (u_ip u) (u_cseq (ue_of d1 i));
          d2 = emit [pcapSip sip IP_UE IP_PCSCF, pcapSip sip IP_PCSCF IP_SCSCF,
                 Dia 301 16777216 True (IP_SCSCF, 3868) (IP_HSS, 3868) [],
                 Dia 301 16777216 False (IP_HSS, 3868) (IP_SCSCF, 3868) [],
                 pcapSip ok IP_SCSCF IP_PCSCF, pcapSip ok IP_PCSCF IP_UE] d1
      in d2\<lparr>d_ues := tbl_adjust (d_ues d2) i (\<lambda>v. v\<lparr>u_registered := True\<rparr>)\<rparr>)"

definition demo_call_id :: "string \<Rightarrow> string \<Rightarrow> int \<Rightarrow> string" where
  "demo_call_id a b n = ''call-'' @ a @ b @ ''-'' @ json_num n"

definition call_frames :: "bool \<Rightarrow> UeIdentity \<Rightarrow> UeIdentity \<Rightarrow> string \<Rightarrow> capture list" where
  "call_frames corrupt a b cid =
     (let invite = buildInvite (u_impu a) (u_impu b) (u_ip a) cid (u_cseq a) 50000;
          trying = build100Trying (u_impu a) (u_impu b) cid (u_cseq b);
          ring = build180Ringing (u_impu a) (u_impu b) cid (u_cseq b);
          ok = build200Invite (u_impu a) (u_impu b) (u_ip b) cid (u_cseq b) 60000
      in [pcapSip invite IP_UE IP_PCSCF, pcapSip invite IP_PCSCF IP_SCSCF, pcapSip invite IP_SCSCF IP_MTAS,
          pcapSip trying IP_MTAS IP_SCSCF, pcapSip trying IP_SCSCF IP_PCSCF, pcapSip trying IP_PCSCF IP_UE,
          pcapSip ring LOOP_B IP_PCSCF, pcapSip ring IP_PCSCF IP_SCSCF, pcapSip ring IP_SCSCF IP_UE]
       @ (if corrupt then [pcapSip (''CORRUPT-SIP/2.0 200 OK'' @ [CR, LF]) LOOP_B IP_SCSCF]
          else [pcapSip ok LOOP_B IP_SCSCF, pcapSip ok IP_SCSCF IP_PCSCF, pcapSip ok IP_PCSCF IP_UE])
       @ [pcapSip (buildAck (u_impu a) (u_impu b) cid (u_cseq b)) IP_UE IP_PCSCF,
          Dia 272 16777238 True (IP_PCSCF, 3868) (IP_PCRF, 3869) [],
          Dia 272 16777238 False (IP_PCRF, 3869) (IP_PCSCF, 3868) []])"

definition doCall_demo :: "bool \<Rightarrow> string \<Rightarrow> string \<Rightarrow> demo \<Rightarrow> demo" where
  "doCall_demo corrupt i j d =
     (let a = ue_of d i; b = ue_of d j
      in if \<not> u_registered a then d
         else if \<not> u_registered b then d
         else let cid = demo_call_id i j (d_call_seq d);
                  d1 = emit (call_frames corrupt a b cid) (d\<lparr>d_call_seq := d_call_seq d + 1\<rparr>);
                  d2 = next_cseq j (next_cseq i d1)
              in d2\<lparr>d_active := d_active d2 @ [cid]\<rparr>)"

definition doConference_demo :: "demo \<Rightarrow> demo" where
  "doConference_demo d =
     (let n = d_call_seq d + 1; conf_id = ''conf-'' @ json_num n @ ''@'' @ IMS_DOMAIN
      in emit [pcapSip (buildInvite IMPU_A IMPU_B IP_UE_A conf_id 10 50000) IP_SCSCF LOOP_B,
               pcapSip (buildInvite IMPU_A IMPU_C IP_UE_A conf_id 11 50000) IP_SCSCF LOOP_C] (d\<lparr>d_call_seq := n\<rparr>))"

definition doCallWait :: "demo \<Rightarrow> demo" where
  "doCallWait d =
     emit [pcapSip (buildInvite IMPU_C IMPU_A IP_UE_C (''cw-'' @ json_num (d_call_seq d)) 5 50000) (IP_UE + 2) IP_PCSCF]
       (d\<lparr>d_call_seq := d_call_seq d + 1\<rparr>)"

definition doBarring :: "demo \<Rightarrow> demo" where
  "doBarring d =
     (let barr_id = ''barr-'' @ json_num (d_call_seq d); intl = ''sip:+442071234567@ims.local''
      in emit [pcapSip (buildInvite IMPU_A intl IP_UE_A barr_id 20 50000) IP_UE IP_PCSCF,
               pcapSip (build603 IMPU_A intl barr_id 20 ''OIB'') IP_SCSCF IP_UE]
           (d\<lparr>d_call_seq := d_call_seq d + 1\<rparr>))"

definition doBye_demo :: "demo \<Rightarrow> demo" where
  "doBye_demo d =
     (let a = ue_of d ''A''; b = ue_of d ''B'';
          bye = buildBye (u_impu a) (u_impu b) ''call-AB-bye'' (u_cseq a)
      in next_cseq ''B'' (next_cseq ''A'' (emit [pcapSip bye IP_UE IP_PCSCF, pcapSip bye IP_PCSCF IP_SCSCF] d)))"

subsection \<open>The prompt\<close>

text \<open>\<open>None\<close> ends the program. STATUS and the chaos switch leave this state alone.\<close>

definition demo_known :: "demo \<Rightarrow> string \<Rightarrow> bool" where
  "demo_known d i \<longleftrightarrow> map_of (d_ues d) i \<noteq> None"

definition demo_line :: "bool \<Rightarrow> string \<Rightarrow> demo \<Rightarrow> demo option" where
  "demo_line corrupt line d =
     (if line = [] then Some d
      else let (w, r) = iss_word line; cmd = map upper_char w;
               (w1, r1) = iss_word r; x = map upper_char w1; y = map upper_char (fst (iss_word r1))
           in if cmd = ''QUIT'' then None
              else if cmd = ''REG'' then
                Some (if x = ''ALL'' then doRegister_demo ''C'' (doRegister_demo ''B'' (doRegister_demo ''A'' d))
                      else if demo_known d x then doRegister_demo x d else d)
              else if cmd = ''CALL'' then Some (if demo_known d x \<and> demo_known d y then doCall_demo corrupt x y d else d)
              else if cmd = ''CONF'' then Some (doConference_demo d)
              else if cmd = ''WAIT'' then Some (doCallWait d)
              else if cmd = ''BARR'' then Some (doBarring d)
              else if cmd = ''BYE'' then Some (doBye_demo d)
              else Some d)"

fun demo_session :: "demo \<Rightarrow> (bool \<times> string) list \<Rightarrow> demo" where
  "demo_session d [] = d"
| "demo_session d ((c, l) # ls) = (case demo_line c l d of None \<Rightarrow> d | Some d' \<Rightarrow> demo_session d' ls)"

subsection \<open>Identities and calls of a session\<close>

definition sip_header :: "string \<Rightarrow> string \<Rightarrow> string option" where
  "sip_header name t = (case head_lines t of None \<Rightarrow> None | Some (ls, body) \<Rightarrow> header_value ls name)"

lemma sip_header_text:
  "\<forall>l\<in>set ls. l \<noteq> [] \<and> CR \<notin> set l \<Longrightarrow> sip_header name (sip_text ls body) = header_value ls name"
  by (simp add: sip_header_def head_lines_text)

definition bye_frame :: "capture \<Rightarrow> bool" where
  "bye_frame f = (case f of Sip t x y \<Rightarrow> starts_with ''BYE '' t | _ \<Rightarrow> False)"

definition frame_text :: "capture \<Rightarrow> string" where
  "frame_text f = (case f of Sip t x y \<Rightarrow> t | _ \<Rightarrow> [])"

definition ues_ok :: "(string, UeIdentity) table \<Rightarrow> bool" where
  "ues_ok t \<longleftrightarrow> (\<forall>i u. map_of t i = Some u \<longrightarrow> i \<in> {''A'', ''B'', ''C''} \<and> text_line (u_impu u) \<and> text_line (u_ip u))"

definition calls_ok :: "demo \<Rightarrow> bool" where
  "calls_ok d \<longleftrightarrow> distinct (d_active d) \<and>
     (\<forall>c\<in>set (d_active d). \<exists>i j n. c = demo_call_id i j n \<and> i \<in> {''A'', ''B'', ''C''} \<and> j \<in> {''A'', ''B'', ''C''}
        \<and> n < d_call_seq d)"

definition byes_ok :: "demo \<Rightarrow> bool" where
  "byes_ok d \<longleftrightarrow> (\<forall>f\<in>set (d_frames d). bye_frame f \<longrightarrow> sip_header ''Call-ID: '' (frame_text f) = Some ''call-AB-bye'')"

definition demo_wf :: "demo \<Rightarrow> bool" where
  "demo_wf d \<longleftrightarrow> ues_ok (d_ues d) \<and> calls_ok d \<and> byes_ok d"

lemma demo_start_ok: "demo_wf demo_start"
  by (auto simp: demo_wf_def demo_start_def ues_ok_def calls_ok_def byes_ok_def ue_identity_def text_line_def
      IMPU_A_def IMPU_B_def IMPU_C_def IP_UE_A_def IP_UE_B_def IP_UE_C_def split: if_splits)

lemma ues_ok_adjust:
  "ues_ok t \<Longrightarrow> (\<And>u. u_impu (f u) = u_impu u \<and> u_ip (f u) = u_ip u) \<Longrightarrow> ues_ok (tbl_adjust t i f)"
  by (auto simp: ues_ok_def split: if_splits)

lemma ue_of_text: "ues_ok (d_ues d) \<Longrightarrow> text_line (u_impu (ue_of d i)) \<and> text_line (u_ip (ue_of d i))"
  by (auto simp: ue_of_def ues_ok_def ue_identity_def text_line_def split: option.splits)

lemma demo_call_id_inj:
  "demo_call_id i j n = demo_call_id i' j' n' \<Longrightarrow> i \<in> {''A'', ''B'', ''C''} \<Longrightarrow> j \<in> {''A'', ''B'', ''C''} \<Longrightarrow>
   i' \<in> {''A'', ''B'', ''C''} \<Longrightarrow> j' \<in> {''A'', ''B'', ''C''} \<Longrightarrow> n = n'"
  by (auto simp: demo_call_id_def dest: json_num_inj)

lemma demo_call_id_not_bye:
  assumes "i \<in> {''A'', ''B'', ''C''}" and "j \<in> {''A'', ''B'', ''C''}"
  shows "demo_call_id i j n \<noteq> ''call-AB-bye''"
proof
  assume "demo_call_id i j n = ''call-AB-bye''"
  with assms have "json_num n = ''bye''" by (auto simp: demo_call_id_def)
  with json_num_chars [of "CHR ''b''" n] show False by (auto simp: is_digit_def)
qed

lemma bye_call_id:
  "text_line a \<Longrightarrow> text_line b \<Longrightarrow> sip_header ''Call-ID: '' (buildBye a b ''call-AB-bye'' n) = Some ''call-AB-bye''"
  by (auto simp: buildBye_def sip_header_text text_line_def header_value_def)

lemma not_bye [simp]:
  "\<not> bye_frame (pcapSip (buildRegister a b n m) x y)"
  "\<not> bye_frame (pcapSip (build200Register a b n) x y)"
  "\<not> bye_frame (pcapSip (buildInvite a b i c n m) x y)"
  "\<not> bye_frame (pcapSip (build100Trying a b c n) x y)"
  "\<not> bye_frame (pcapSip (build180Ringing a b c n) x y)"
  "\<not> bye_frame (pcapSip (build200Invite a b i c n m) x y)"
  "\<not> bye_frame (pcapSip (buildAck a b c n) x y)"
  "\<not> bye_frame (pcapSip (build603 a b c n r) x y)"
  "\<not> bye_frame (pcapSip (''CORRUPT-SIP/2.0 200 OK'' @ e) x y)"
  "\<not> bye_frame (Dia u v w x1 y1 z)"
  by (simp_all add: bye_frame_def pcapSip_def builder_defs sip_text_def body_lines_def Let_def)

lemma byes_ok_emit: "byes_ok d \<Longrightarrow> \<forall>f\<in>set fs. \<not> bye_frame f \<Longrightarrow> byes_ok (emit fs d)"
  by (auto simp: byes_ok_def emit_def)

lemma demo_fields [simp]:
  "d_frames (next_cseq i d) = d_frames d" "d_active (next_cseq i d) = d_active d" "d_call_seq (next_cseq i d) = d_call_seq d"
  "d_ues (emit fs d) = d_ues d" "d_active (emit fs d) = d_active d" "d_call_seq (emit fs d) = d_call_seq d"
  by (simp_all add: next_cseq_def emit_def)

lemma ues_ok_cseq: "ues_ok (d_ues d) \<Longrightarrow> ues_ok (d_ues (next_cseq i d))"
  by (simp add: next_cseq_def ues_ok_adjust)

lemma byes_ok_same: "d_frames d' = d_frames d \<Longrightarrow> byes_ok d \<Longrightarrow> byes_ok d'"
  by (simp add: byes_ok_def)

lemma calls_ok_more: "calls_ok d \<Longrightarrow> d_active d' = d_active d \<Longrightarrow> d_call_seq d \<le> d_call_seq d' \<Longrightarrow> calls_ok d'"
  by (fastforce simp: calls_ok_def)

lemma register_ok: "demo_wf d \<Longrightarrow> demo_wf (doRegister_demo i d)"
proof -
  assume ok: "demo_wf d"
  let ?d = "doRegister_demo i d"
  have "ues_ok (d_ues ?d)"
    using ok by (auto simp: doRegister_demo_def demo_wf_def Let_def intro!: ues_ok_adjust ues_ok_cseq)
  moreover have "calls_ok ?d"
    using ok by (auto simp: doRegister_demo_def demo_wf_def Let_def intro: calls_ok_more)
  moreover obtain fs where f: "d_frames ?d = d_frames d @ fs" "\<forall>f\<in>set fs. \<not> bye_frame f"
    by (simp add: doRegister_demo_def Let_def emit_def)
  then have "byes_ok ?d" using ok by (auto simp: byes_ok_def demo_wf_def)
  ultimately show ?thesis by (simp add: demo_wf_def)
qed

lemma call_frames_not_bye: "\<forall>f\<in>set (call_frames c a b cid). \<not> bye_frame f"
  using not_bye(9) [of "[CR, LF]"] by (simp add: call_frames_def Let_def)

lemma call_ok:
  assumes "demo_wf d" and "demo_known d i" and "demo_known d j"
  shows "demo_wf (doCall_demo c i j d)"
proof (cases "u_registered (ue_of d i) \<and> u_registered (ue_of d j)")
  case False
  then have "doCall_demo c i j d = d" by (simp add: doCall_demo_def Let_def)
  with assms(1) show ?thesis by simp
next
  case True
  let ?cid = "demo_call_id i j (d_call_seq d)" and ?d = "doCall_demo c i j d"
  have d: "d_active ?d = d_active d @ [?cid]" "d_call_seq ?d = d_call_seq d + 1"
    "d_frames ?d = d_frames d @ call_frames c (ue_of d i) (ue_of d j) ?cid"
    "d_ues ?d = d_ues (next_cseq j (next_cseq i d))"
    using True by (simp_all add: doCall_demo_def Let_def emit_def next_cseq_def)
  have k: "i \<in> {''A'', ''B'', ''C''}" "j \<in> {''A'', ''B'', ''C''}"
    using assms by (auto simp: demo_wf_def ues_ok_def demo_known_def)
  have calls: "calls_ok d" using assms(1) by (simp add: demo_wf_def)
  have new: "?cid \<notin> set (d_active d)"
  proof
    assume "?cid \<in> set (d_active d)"
    then obtain i' j' n where o: "?cid = demo_call_id i' j' n" "i' \<in> {''A'', ''B'', ''C''}"
      "j' \<in> {''A'', ''B'', ''C''}" "n < d_call_seq d"
      using calls unfolding calls_ok_def by blast
    from demo_call_id_inj [OF o(1) k o(2,3)] o(4) show False by simp
  qed
  have "calls_ok ?d"
    unfolding calls_ok_def d(1,2)
  proof (intro conjI ballI)
    show "distinct (d_active d @ [?cid])" using calls new by (simp add: calls_ok_def)
    fix c
    assume "c \<in> set (d_active d @ [?cid])"
    then consider "c = ?cid" | "c \<in> set (d_active d)" by auto
    then show "\<exists>i j n. c = demo_call_id i j n \<and> i \<in> {''A'', ''B'', ''C''} \<and> j \<in> {''A'', ''B'', ''C''} \<and> n < d_call_seq d + 1"
    proof cases
      case 1
      with k show ?thesis by (intro exI [of _ i] exI [of _ j] exI [of _ "d_call_seq d"]) simp
    next
      case 2
      with calls obtain i j n where "c = demo_call_id i j n" "i \<in> {''A'', ''B'', ''C''}"
        "j \<in> {''A'', ''B'', ''C''}" "n < d_call_seq d" unfolding calls_ok_def by blast
      then show ?thesis by (intro exI [of _ i] exI [of _ j] exI [of _ n]) simp
    qed
  qed
  moreover have "ues_ok (d_ues ?d)"
    unfolding d(4) using assms(1) by (auto simp: demo_wf_def intro!: ues_ok_cseq)
  moreover have "byes_ok ?d"
    using assms(1) call_frames_not_bye unfolding byes_ok_def d(3) by (auto simp: demo_wf_def byes_ok_def)
  ultimately show ?thesis by (simp add: demo_wf_def)
qed

lemma scripts_ok:
  assumes "demo_wf d"
  shows "demo_wf (doConference_demo d)" and "demo_wf (doCallWait d)" and "demo_wf (doBarring d)"
proof -
  have e: "demo_wf (emit fs (d\<lparr>d_call_seq := d_call_seq d + 1\<rparr>))" if "\<forall>f\<in>set fs. \<not> bye_frame f" for fs
    using assms that
    by (auto simp: demo_wf_def intro!: byes_ok_emit intro: calls_ok_more byes_ok_same)
  show "demo_wf (doConference_demo d)" "demo_wf (doCallWait d)" "demo_wf (doBarring d)"
    by (simp_all add: doConference_demo_def doCallWait_def doBarring_def Let_def e)
qed

lemma demo_bye_ok:
  assumes "demo_wf d"
  shows "demo_wf (doBye_demo d)"
proof -
  let ?a = "ue_of d ''A''" and ?b = "ue_of d ''B''"
  have "text_line (u_impu ?a)" "text_line (u_impu ?b)"
    using assms ue_of_text [of d] by (simp_all add: demo_wf_def)
  then have "sip_header ''Call-ID: '' (buildBye (u_impu ?a) (u_impu ?b) ''call-AB-bye'' (u_cseq ?a)) = Some ''call-AB-bye''"
    by (rule bye_call_id)
  then have "byes_ok (doBye_demo d)"
    using assms by (auto simp: byes_ok_def doBye_demo_def Let_def emit_def demo_wf_def pcapSip_def frame_text_def)
  moreover have "calls_ok (doBye_demo d)"
    using assms by (auto simp: doBye_demo_def Let_def demo_wf_def intro: calls_ok_more)
  moreover have "ues_ok (d_ues (doBye_demo d))"
    using assms by (auto simp: doBye_demo_def Let_def demo_wf_def intro!: ues_ok_cseq)
  ultimately show ?thesis by (simp add: demo_wf_def)
qed

lemma demo_line_ok: "demo_line c l d = Some d' \<Longrightarrow> demo_wf d \<Longrightarrow> demo_wf d'"
  by (auto simp: demo_line_def Let_def register_ok call_ok scripts_ok demo_bye_ok split: prod.splits if_splits)

lemma demo_session_ok: "demo_wf d \<Longrightarrow> demo_wf (demo_session d ls)"
  by (induction d ls rule: demo_session.induct) (auto dest: demo_line_ok split: option.splits)

text \<open>C20. In every session the calls reported as active have different Call-IDs, and every BYE of the
  capture carries the one Call-ID \<open>call-AB-bye\<close>, which is not the Call-ID of any of them: the command
  that should end the current call ends no dialog that was ever opened, and needs no call to run.\<close>
theorem demo_bye_ends_no_call:
  "distinct (d_active (demo_session demo_start ls))
   \<and> (\<forall>f\<in>set (d_frames (demo_session demo_start ls)). bye_frame f \<longrightarrow>
        sip_header ''Call-ID: '' (frame_text f) = Some ''call-AB-bye'')
   \<and> ''call-AB-bye'' \<notin> set (d_active (demo_session demo_start ls))"
proof -
  have ok: "demo_wf (demo_session demo_start ls)" by (rule demo_session_ok [OF demo_start_ok])
  then have c: "calls_ok (demo_session demo_start ls)" by (simp add: demo_wf_def)
  have "''call-AB-bye'' \<notin> set (d_active (demo_session demo_start ls))"
  proof
    assume "''call-AB-bye'' \<in> set (d_active (demo_session demo_start ls))"
    with c obtain i j n where o: "''call-AB-bye'' = demo_call_id i j n" "i \<in> {''A'', ''B'', ''C''}" "j \<in> {''A'', ''B'', ''C''}"
      unfolding calls_ok_def by blast
    from demo_call_id_not_bye [OF o(2,3), of n] o(1) show False by simp
  qed
  with ok c show ?thesis by (simp add: demo_wf_def byes_ok_def calls_ok_def)
qed

theorem demo_bye_ends_no_call_witness:
  "map (\<lambda>f. sip_header ''Call-ID: '' (frame_text f)) (d_frames (demo_session demo_start [(False, ''BYE'')])) =
     [Some ''call-AB-bye'', Some ''call-AB-bye'']"
proof -
  have w: "iss_word ''BYE'' = (''BYE'', [])" "iss_word [] = ([], [])" by (simp_all add: iss_word_def is_space_def)
  have s: "demo_session demo_start [(False, ''BYE'')] = doBye_demo demo_start"
    by (simp add: demo_line_def w upper_char_def)
  obtain f g where fs: "d_frames (doBye_demo demo_start) = [f, g]" and b: "bye_frame f" "bye_frame g"
    by (simp add: doBye_demo_def Let_def emit_def demo_start_def bye_frame_def pcapSip_def builder_defs sip_text_def body_lines_def)
  with demo_bye_ends_no_call [of "[(False, ''BYE'')]"] show ?thesis unfolding s by simp
qed

lemma answers_mismatch:
  assumes "text_line a" and "text_line ip" and "text_line b" and "text_line ip'" and "text_line cid"
  shows "sip_header ''Call-ID: '' (buildRegister a ip n e) \<noteq> sip_header ''Call-ID: '' (build200Register a ip (n + 1))"
    and "sip_header ''CSeq: '' (buildRegister a ip n e) \<noteq> sip_header ''CSeq: '' (build200Register a ip (n + 1))"
    and "sip_header ''CSeq: '' (buildInvite a b ip cid m p) = sip_header ''CSeq: '' (build200Invite a b ip' cid m' p')
      \<longleftrightarrow> m = m'"
proof -
  have n: "json_num n \<noteq> json_num (n + 1)" by (auto dest: json_num_inj)
  have c: "json_num m = json_num m' \<longleftrightarrow> m = m'" by (auto dest: json_num_inj)
  show "sip_header ''Call-ID: '' (buildRegister a ip n e) \<noteq> sip_header ''Call-ID: '' (build200Register a ip (n + 1))"
    "sip_header ''CSeq: '' (buildRegister a ip n e) \<noteq> sip_header ''CSeq: '' (build200Register a ip (n + 1))"
    "sip_header ''CSeq: '' (buildInvite a b ip cid m p) = sip_header ''CSeq: '' (build200Invite a b ip' cid m' p') \<longleftrightarrow> m = m'"
    using assms n c
    by (simp_all add: builder_defs sip_header_text text_line_def header_value_def Let_def)
qed

text \<open>The frames a command adds.\<close>

definition added :: "demo \<Rightarrow> demo \<Rightarrow> capture list" where
  "added d d' = drop (length (d_frames d)) (d_frames d')"

lemma next_cseq_self: "demo_known d i \<Longrightarrow> u_cseq (ue_of (next_cseq i d) i) = u_cseq (ue_of d i) + 1"
  by (auto simp: ue_of_def next_cseq_def demo_known_def)

text \<open>The 200 OK that answers a REGISTER is built after the sequence number moved on, so neither its
  Call-ID nor its CSeq is that of the request; and the 200 OK of a call has the CSeq of its INVITE
  exactly when caller and callee happen to have the same number. This holds in every state of every
  session.\<close>
theorem demo_answers_mismatch:
  assumes "d = demo_session demo_start ls" and "demo_known d i"
  shows "sip_header ''Call-ID: '' (frame_text (added d (doRegister_demo i d) ! 0)) \<noteq>
         sip_header ''Call-ID: '' (frame_text (added d (doRegister_demo i d) ! 4))
       \<and> sip_header ''CSeq: '' (frame_text (added d (doRegister_demo i d) ! 0)) \<noteq>
         sip_header ''CSeq: '' (frame_text (added d (doRegister_demo i d) ! 4))
       \<and> (let fs = call_frames False (ue_of d i) (ue_of d j) (demo_call_id ''A'' ''B'' n)
          in sip_header ''CSeq: '' (frame_text (fs ! 0)) = sip_header ''CSeq: '' (frame_text (fs ! 9)) \<longleftrightarrow>
             u_cseq (ue_of d i) = u_cseq (ue_of d j))"
proof -
  have ok: "ues_ok (d_ues d)"
    using demo_session_ok [OF demo_start_ok, of ls] by (simp add: assms(1) demo_wf_def)
  have cid: "text_line (demo_call_id ''A'' ''B'' n)" by (simp add: demo_call_id_def text_line_def)
  note m = answers_mismatch [OF conjunct1 [OF ue_of_text [OF ok]] conjunct2 [OF ue_of_text [OF ok]]
      conjunct1 [OF ue_of_text [OF ok]] conjunct2 [OF ue_of_text [OF ok]] cid]
  have fs: "frame_text (added d (doRegister_demo i d) ! 0) = buildRegister (u_impu (ue_of d i)) (u_ip (ue_of d i)) (u_cseq (ue_of d i)) 3600"
    "frame_text (added d (doRegister_demo i d) ! 4) = build200Register (u_impu (ue_of d i)) (u_ip (ue_of d i)) (u_cseq (ue_of d i) + 1)"
    using next_cseq_self [OF assms(2)]
    by (simp_all add: added_def doRegister_demo_def Let_def emit_def pcapSip_def frame_text_def)
  show ?thesis
    unfolding fs using m(1,2) m(3) [of i j]
    by (simp add: call_frames_def Let_def pcapSip_def frame_text_def)
qed

theorem demo_answers_mismatch_witness:
  "demo_known (demo_session demo_start []) ''A'' \<and>
   sip_header ''Call-ID: '' (frame_text (added demo_start (doRegister_demo ''A'' demo_start) ! 0)) \<noteq>
   sip_header ''Call-ID: '' (frame_text (added demo_start (doRegister_demo ''A'' demo_start) ! 4))"
proof -
  have k: "demo_known demo_start ''A''" by (simp add: demo_known_def demo_start_def)
  have s: "demo_start = demo_session demo_start []" by simp
  from demo_answers_mismatch [OF s k] k show ?thesis by simp
qed

end
