(* ===== verification/Event_Log.thy ===== *)
theory Event_Log
  imports Core5g_Base
begin

text \<open>
  The event log that all simulators write for the visualizer (\<open>common/json_event_log.h\<close>): escaping,
  the lookup of explanations and the line of an event. The table of explanations is an argument, in
  the order in which the hash map iterates; the clock is an argument. A reader of JSON objects
  according to RFC 8259, with strings and integers as values, serves as the specification.
\<close>

subsection \<open>Writing\<close>

definition bsl :: char where "bsl = CHR 0x5C"
definition HT :: char where "HT = CHR 0x09"

definition esc_char :: "char \<Rightarrow> string" where
  "esc_char c =
     (if c = dq then [bsl, dq] else if c = bsl then [bsl, bsl]
      else if c = LF then [bsl, CHR ''n''] else if c = CR then [bsl, CHR ''r''] else if c = HT then [bsl, CHR ''t'']
      else if (of_char c :: nat) < 32 then [] else [c])"

definition jsonEsc :: "string \<Rightarrow> string" where
  "jsonEsc s = concat (map esc_char s)"

definition log_hex :: "bytes \<Rightarrow> string" where
  "log_hex bs = concat (map (\<lambda>b. [hex_char (unat b div 16), hex_char (unat b mod 16)]) bs)"

record msg_meta =
  beginner_text :: string
  interview_q :: string
  interview_a :: string

definition event_lookup :: "(string \<times> msg_meta) list \<Rightarrow> string \<Rightarrow> msg_meta option" where
  "event_lookup t msg =
     (case map_of t msg of
        Some m \<Rightarrow> Some m
      | None \<Rightarrow> map_option snd (List.find (\<lambda>kv. find_sub (fst kv) msg \<noteq> None \<or> find_sub msg (fst kv) \<noteq> None) t))"

record event =
  e_from :: string
  e_to :: string
  e_msg :: string
  e_interface :: string
  e_port :: int
  e_hex :: bytes
  e_sim :: string

definition meta_text :: "(msg_meta \<Rightarrow> string) \<Rightarrow> (string \<times> msg_meta) list \<Rightarrow> string \<Rightarrow> string" where
  "meta_text sel t msg = (case event_lookup t msg of None \<Rightarrow> [] | Some m \<Rightarrow> sel m)"

definition event_line :: "(string \<times> msg_meta) list \<Rightarrow> int \<Rightarrow> event \<Rightarrow> string" where
  "event_line t now_ms e = json_obj
     [(''ts'', json_num now_ms), (''from'', json_str (jsonEsc (e_from e))), (''to'', json_str (jsonEsc (e_to e))),
      (''msg'', json_str (jsonEsc (e_msg e))), (''interface'', json_str (jsonEsc (e_interface e))),
      (''port'', json_num (e_port e)), (''hex'', json_str (log_hex (e_hex e))), (''sim'', json_str (jsonEsc (e_sim e))),
      (''beginner_text'', json_str (jsonEsc (meta_text beginner_text t (e_msg e)))),
      (''interview_q'', json_str (jsonEsc (meta_text interview_q t (e_msg e)))),
      (''interview_a'', json_str (jsonEsc (meta_text interview_a t (e_msg e))))]"

text \<open>The file as the list of its lines; an event whose file could not be opened is dropped.\<close>

definition logEvent :: "bool \<Rightarrow> (string \<times> msg_meta) list \<Rightarrow> int \<Rightarrow> event \<Rightarrow> string \<Rightarrow> string" where
  "logEvent is_open t now_ms e file = (if is_open then file @ event_line t now_ms e @ [LF] else file)"

subsection \<open>Reading\<close>

datatype json_val = JStr string | JNum int

definition unescape :: "char \<Rightarrow> char option" where
  "unescape c =
     (if c = dq then Some dq else if c = bsl then Some bsl else if c = CHR ''n'' then Some LF
      else if c = CHR ''r'' then Some CR else if c = CHR ''t'' then Some HT else None)"

fun read_jstring :: "string \<Rightarrow> (string \<times> string) option" where
  "read_jstring [] = None"
| "read_jstring (c # cs) =
     (if c = dq then Some ([], cs)
      else if c = bsl then
        (case cs of [] \<Rightarrow> None
         | e # r \<Rightarrow> (case unescape e of None \<Rightarrow> None | Some x \<Rightarrow> map_option (apfst ((#) x)) (read_jstring r)))
      else if (of_char c :: nat) < 32 then None
      else map_option (apfst ((#) c)) (read_jstring cs))"

definition num_char :: "char \<Rightarrow> bool" where
  "num_char c \<longleftrightarrow> is_digit c \<or> c = CHR ''-''"

definition jnum :: "string \<Rightarrow> int" where
  "jnum s = (case s of c # t \<Rightarrow> if c = CHR ''-'' then - int (dec_value t) else int (dec_value s) | [] \<Rightarrow> 0)"

definition read_jvalue :: "string \<Rightarrow> (json_val \<times> string) option" where
  "read_jvalue s =
     (case s of [] \<Rightarrow> None
      | c # t \<Rightarrow>
          if c = dq then map_option (apfst JStr) (read_jstring t)
          else if takeWhile num_char s = [] then None
          else Some (JNum (jnum (takeWhile num_char s)), dropWhile num_char s))"

fun read_members :: "nat \<Rightarrow> string \<Rightarrow> ((string \<times> json_val) list \<times> string) option" where
  "read_members (Suc n) (c # s) =
     (if c \<noteq> dq then None
      else case read_jstring s of
        Some (k, d # r) \<Rightarrow>
          if d \<noteq> colon then None
          else (case read_jvalue r of
             Some (v, e # z) \<Rightarrow>
               if e = comma then map_option (apfst ((#) (k, v))) (read_members n z)
               else if e = rbrace then Some ([(k, v)], z) else None
           | _ \<Rightarrow> None)
      | _ \<Rightarrow> None)"
| "read_members _ _ = None"

definition read_jobject :: "string \<Rightarrow> ((string \<times> json_val) list \<times> string) option" where
  "read_jobject s = (case s of c # t \<Rightarrow> if c = lbrace then read_members (length t) t else None | [] \<Rightarrow> None)"

subsection \<open>Reading back\<close>

definition kept :: "char \<Rightarrow> bool" where
  "kept c \<longleftrightarrow> c = LF \<or> c = CR \<or> c = HT \<or> 32 \<le> (of_char c :: nat)"

lemma dq_not_bsl [simp]: "dq \<noteq> bsl" "bsl \<noteq> dq"
  by (simp_all add: bsl_def)

lemma esc_nil [simp]: "jsonEsc [] = []"
  by (simp add: jsonEsc_def)

lemma esc_cons: "jsonEsc (c # s) = esc_char c @ jsonEsc s"
  by (simp add: jsonEsc_def)

lemma low_dropped: "esc_char c = [] \<longleftrightarrow> \<not> kept c"
  by (auto simp: esc_char_def kept_def bsl_def)

lemma read_esc: "read_jstring (jsonEsc s @ dq # r) = Some (filter kept s, r)"
proof (induction s)
  case (Cons c s)
  have u: "unescape dq = Some dq" "unescape bsl = Some bsl" "unescape CHR ''n'' = Some LF"
    "unescape CHR ''r'' = Some CR" "unescape CHR ''t'' = Some HT"
    by (simp_all add: unescape_def bsl_def)
  consider "c = dq" | "c = bsl" | "c = LF" | "c = CR" | "c = HT"
    | "(of_char c :: nat) < 32" "c \<noteq> LF" "c \<noteq> CR" "c \<noteq> HT"
    | "c \<noteq> dq" "c \<noteq> bsl" "\<not> (of_char c :: nat) < 32" by fastforce
  then show ?case
  proof cases
    case 6
    then have "esc_char c = []" "\<not> kept c" by (auto simp: esc_char_def kept_def bsl_def)
    with Cons show ?thesis by (simp add: esc_cons)
  next
    case 7
    then have "esc_char c = [c]" "kept c" by (auto simp: esc_char_def kept_def HT_def)
    with Cons 7 show ?thesis by (simp add: esc_cons)
  qed (use Cons u in \<open>simp_all add: esc_cons esc_char_def kept_def bsl_def HT_def\<close>)
qed simp

definition plain_chars :: "string \<Rightarrow> bool" where
  "plain_chars s \<longleftrightarrow> (\<forall>c\<in>set s. c \<noteq> dq \<and> c \<noteq> bsl \<and> 32 \<le> (of_char c :: nat))"

lemma esc_char_plain: "c \<noteq> dq \<Longrightarrow> c \<noteq> bsl \<Longrightarrow> 32 \<le> (of_char c :: nat) \<Longrightarrow> esc_char c = [c]"
  by (auto simp: esc_char_def HT_def)

lemma esc_plain: "plain_chars s \<Longrightarrow> jsonEsc s = s"
proof (induction s)
  case (Cons c s)
  then have "esc_char c = [c]" "plain_chars s" by (simp_all add: plain_chars_def esc_char_plain)
  with Cons.IH show ?case by (simp only: esc_cons append_Cons append_Nil)
qed simp

lemma kept_plain: "plain_chars s \<Longrightarrow> filter kept s = s"
proof (rule filter_True)
  assume "plain_chars s"
  then show "\<forall>c\<in>set s. kept c" unfolding plain_chars_def kept_def by blast
qed

lemma read_plain: "plain_chars s \<Longrightarrow> read_jstring (s @ dq # r) = Some (s, r)"
  using read_esc [of s r] by (simp only: esc_plain kept_plain)

lemma log_hex_plain: "plain_chars (log_hex bs)"
proof -
  have "plain_chars [hex_char d]" if "d < 16" for d
  proof -
    have "d \<in> set [0..<16]" using that by simp
    then show ?thesis by (auto simp: upt_rec numeral_eq_Suc hex_char_def plain_chars_def bsl_def)
  qed
  moreover have "unat b div 16 < 16" "unat b mod 16 < 16" for b :: byte
    using unsigned_less [where 'b = 8 and 'a = nat, of b] by simp_all
  ultimately have "plain_chars [hex_char (unat b div 16), hex_char (unat b mod 16)]" for b :: byte
    by (auto simp: plain_chars_def)
  then show ?thesis by (auto simp: log_hex_def plain_chars_def)
qed

definition jv_text :: "json_val \<Rightarrow> string" where
  "jv_text v = (case v of JStr s \<Rightarrow> json_str (jsonEsc s) | JNum n \<Rightarrow> json_num n)"

definition jv_read :: "json_val \<Rightarrow> json_val" where
  "jv_read v = (case v of JStr s \<Rightarrow> JStr (filter kept s) | JNum n \<Rightarrow> JNum n)"

lemma jnum_json_num: "jnum (json_num n) = n"
proof (cases "n < 0")
  case False
  obtain c cs where c: "nat_dec (nat n) = c # cs" "is_digit c" using nat_dec_hd by blast
  moreover have "c \<noteq> CHR ''-''" using c(2) by (auto simp: is_digit_def)
  moreover have "dec_value (c # cs) = nat n" using dec_value_nat_dec [of "nat n"] c(1) by simp
  ultimately show ?thesis using False by (simp add: jnum_def json_num_def)
qed (simp add: jnum_def json_num_def)

lemma num_chars: "c \<in> set (json_num n) \<Longrightarrow> num_char c"
  using json_num_chars [of c n] by (simp add: num_char_def)

lemma read_json_value:
  assumes "e = comma \<or> e = rbrace"
  shows "read_jvalue (jv_text v @ e # r) = Some (jv_read v, e # r)"
proof (cases v)
  case (JStr s)
  then show ?thesis using read_esc [of s "e # r"] by (simp add: jv_text_def jv_read_def json_str_def read_jvalue_def)
next
  case (JNum n)
  obtain c cs where c: "json_num n = c # cs" using nat_dec_not_nil by (cases "json_num n") (auto simp: json_num_def split: if_splits)
  have e: "\<not> num_char e" using assms by (auto simp: num_char_def is_digit_def)
  have "takeWhile num_char (json_num n @ e # r) = json_num n" "dropWhile num_char (json_num n @ e # r) = e # r"
    using num_chars e by (simp_all add: takeWhile_append2 dropWhile_append2)
  moreover have "c \<noteq> dq" using num_chars [of c n] c by (auto simp: num_char_def is_digit_def)
  ultimately show ?thesis
    using JNum c jnum_json_num [of n] by (simp add: jv_text_def jv_read_def read_jvalue_def)
qed

lemma read_fields:
  assumes "\<forall>kv\<in>set kvs. plain_chars (fst kv)" and "kvs \<noteq> []" and "length kvs \<le> n"
  shows "read_members n (json_fields (map (apsnd jv_text) kvs) @ rbrace # r) = Some (map (apsnd jv_read) kvs, r)"
  using assms
proof (induction kvs arbitrary: n)
  case (Cons kv kvs)
  obtain k v where kv: "kv = (k, v)" by fastforce
  obtain m where n: "n = Suc m" using Cons.prems(3) by (cases n) auto
  have k: "read_jstring (k @ dq # z) = Some (k, z)" for z using Cons.prems(1) kv by (simp add: read_plain)
  show ?case
  proof (cases "kvs = []")
    case True
    then show ?thesis by (simp add: kv n k read_json_value)
  next
    case False
    then obtain kv' kvs' where c: "kvs = kv' # kvs'" by (cases kvs) auto
    have f: "json_fields (map (apsnd jv_text) (kv # kvs)) = [dq] @ k @ [dq, colon] @ jv_text v @ [comma] @ json_fields (map (apsnd jv_text) kvs)"
      unfolding c by (cases kv') (simp add: kv)
    have "read_members m (json_fields (map (apsnd jv_text) kvs) @ rbrace # r) = Some (map (apsnd jv_read) kvs, r)"
      using Cons.IH [of m] Cons.prems False n by simp
    then show ?thesis unfolding f by (simp add: n k read_json_value kv)
  qed
qed simp

lemma fields_long: "length kvs \<le> length (json_fields (map (apsnd jv_text) kvs))"
proof (induction kvs)
  case (Cons kv kvs)
  then show ?case by (cases kv; cases kvs) auto
qed simp

lemma read_object:
  assumes "\<forall>kv\<in>set kvs. plain_chars (fst kv)" and "kvs \<noteq> []"
  shows "read_jobject (json_obj (map (apsnd jv_text) kvs) @ r) = Some (map (apsnd jv_read) kvs, r)"
proof -
  have "length kvs \<le> length (json_fields (map (apsnd jv_text) kvs) @ rbrace # r)"
    using fields_long [of kvs] by simp
  from read_fields [OF assms this] show ?thesis by (simp add: read_jobject_def json_obj_def)
qed

lemma esc_no_line: "LF \<notin> set (jsonEsc s)"
  by (auto simp: jsonEsc_def esc_char_def bsl_def split: if_splits)

lemma num_no_line: "LF \<notin> set (json_num n)"
  using json_num_chars [of LF n] by (auto simp: is_digit_def)

text \<open>The members of an event, as a reader should see them.\<close>

definition event_members :: "(string \<times> msg_meta) list \<Rightarrow> int \<Rightarrow> event \<Rightarrow> (string \<times> json_val) list" where
  "event_members t now_ms e =
     [(''ts'', JNum now_ms), (''from'', JStr (e_from e)), (''to'', JStr (e_to e)), (''msg'', JStr (e_msg e)),
      (''interface'', JStr (e_interface e)), (''port'', JNum (e_port e)), (''hex'', JStr (log_hex (e_hex e))),
      (''sim'', JStr (e_sim e)), (''beginner_text'', JStr (meta_text beginner_text t (e_msg e))),
      (''interview_q'', JStr (meta_text interview_q t (e_msg e))), (''interview_a'', JStr (meta_text interview_a t (e_msg e)))]"

lemma event_line_members: "event_line t now_ms e = json_obj (map (apsnd jv_text) (event_members t now_ms e))"
  by (simp add: event_line_def event_members_def jv_text_def esc_plain [OF log_hex_plain])

text \<open>C36. The line of an event, whatever texts, bytes and numbers it carries, is one line, and a JSON
  reader gets back exactly its eleven members from it: every string as it was, except that control
  characters other than line feed, carriage return and tabulator are gone.\<close>
theorem event_line_reads_back:
  "read_jobject (event_line t now_ms e @ r) = Some (map (apsnd jv_read) (event_members t now_ms e), r)
   \<and> LF \<notin> set (event_line t now_ms e)"
proof -
  have "\<forall>kv\<in>set (event_members t now_ms e). plain_chars (fst kv)" "event_members t now_ms e \<noteq> []"
    by (simp_all add: event_members_def plain_chars_def bsl_def)
  from read_object [OF this, of r] have "read_jobject (event_line t now_ms e @ r) =
      Some (map (apsnd jv_read) (event_members t now_ms e), r)" by (simp add: event_line_members)
  moreover have "LF \<notin> set (log_hex bs)" for bs
  proof
    assume "LF \<in> set (log_hex bs)"
    with log_hex_plain [of bs] have "32 \<le> (of_char LF :: nat)" unfolding plain_chars_def by blast
    then show False by simp
  qed
  then have "LF \<notin> set (event_line t now_ms e)"
    by (simp add: event_line_def json_obj_def json_str_def esc_no_line num_no_line)
  ultimately show ?thesis by (rule conjI)
qed

end
