(* ===== verification/Tcp_Streams.thy ===== *)
theory Tcp_Streams
  imports Epc_Tlv
begin

text \<open>
  The socket wrapper (\<open>common/socket_wrapper.h\<close>; the 4G, 5G, IMS and CBRS copies have the same
  loops). Other theories take frames as units; here the loops of \<open>sendAll\<close> and \<open>recvAll\<close> meet a
  kernel that takes and gives as many bytes per call as it likes. A receiver sees the stream as a
  list of chunks: a call of \<open>recv\<close> gives the first chunk, or its first bytes when the buffer is
  shorter; an empty chunk is a call that failed, the end of the list a closed connection. Senders
  are threads that share one socket, each with the messages it still has to send; a step is one call
  of \<open>send\<close>. \<open>tcp_frame\<close> and \<open>recv_frame\<close> are the abstract frames these loops have to implement.
\<close>

definition payload_fits :: "bytes \<Rightarrow> bool" where
  "payload_fits p \<longleftrightarrow> 0 < length p \<and> length p \<le> 65536"

interpretation tcp_frames: codec tcp_frame recv_frame payload_fits
  by unfold_locales (simp add: payload_fits_def recv_tcp_frame)

subsection \<open>Receiving\<close>

text \<open>Whether all bytes came, the bytes, and the chunks left.\<close>

fun recvAll :: "nat \<Rightarrow> bytes list \<Rightarrow> bool \<times> bytes \<times> bytes list" where
  "recvAll r [] = (r = 0, [], [])"
| "recvAll r (c # cs) =
     (if r = 0 then (True, [], c # cs)
      else if c = [] then (False, [], cs)
      else if length c \<le> r then
        (case recvAll (r - length c) cs of (ok, got, rest) \<Rightarrow> (ok, c @ got, rest))
      else (True, take r c, drop r c # cs))"

definition le_value :: "bytes \<Rightarrow> u32" where
  "le_value h = join32 (h ! 0) (h ! 1) (h ! 2) (h ! 3)"

definition recvFrame :: "bytes list \<Rightarrow> bytes option \<times> bytes list" where
  "recvFrame cs =
     (case recvAll 4 cs of (ok, h, cs1) \<Rightarrow>
        if \<not> ok then (None, cs1)
        else let plen = le_value h
             in if plen = 0 \<or> plen > 65536 then (None, cs1)
                else case recvAll (unat plen) cs1 of (ok', p, cs2) \<Rightarrow> (if ok' then Some p else None, cs2))"

text \<open>A call with bytes to come and a chunk to take them from.\<close>

lemma recvAll_chunk:
  assumes "recvAll r (c # cs) = (ok, got, cs')" and "0 < r" and "length c \<le> r" and "c \<noteq> []"
  shows "\<exists>got1. recvAll (r - length c) cs = (ok, got1, cs') \<and> got = c @ got1"
  using assms by (cases "recvAll (r - length c) cs") auto

lemma recvAll_split: "recvAll r cs = (True, got, cs') \<Longrightarrow> concat cs = got @ concat cs' \<and> length got = r"
proof (induction cs arbitrary: r got)
  case (Cons c cs)
  show ?case
  proof (cases "0 < r \<and> length c \<le> r \<and> c \<noteq> []")
    case True
    then obtain got1 where "recvAll (r - length c) cs = (True, got1, cs')" "got = c @ got1"
      using recvAll_chunk [OF Cons.prems(1)] by blast
    with Cons.IH [of "r - length c" got1] True show ?thesis by simp
  qed (use Cons.prems in \<open>auto split: if_splits\<close>)
qed simp

lemma recvAll_live: "recvAll r cs = (ok, got, cs') \<Longrightarrow> [] \<notin> set cs \<Longrightarrow> [] \<notin> set cs'"
proof (induction cs arbitrary: r got)
  case (Cons c cs)
  show ?case
  proof (cases "0 < r \<and> length c \<le> r")
    case True
    moreover have "c \<noteq> []" using Cons.prems(2) by auto
    ultimately obtain got1 where "recvAll (r - length c) cs = (ok, got1, cs')"
      using recvAll_chunk [OF Cons.prems(1)] by blast
    with Cons.IH [of "r - length c" got1] Cons.prems(2) show ?thesis by simp
  qed (use Cons.prems in \<open>auto split: if_splits\<close>)
qed simp

lemma recvAll_enough: "recvAll r cs = (ok, got, cs') \<Longrightarrow> [] \<notin> set cs \<Longrightarrow> ok \<longleftrightarrow> r \<le> length (concat cs)"
proof (induction cs arbitrary: r got)
  case (Cons c cs)
  show ?case
  proof (cases "0 < r \<and> length c \<le> r")
    case True
    moreover have "c \<noteq> []" using Cons.prems(2) by auto
    ultimately obtain got1 where "recvAll (r - length c) cs = (ok, got1, cs')"
      using recvAll_chunk [OF Cons.prems(1)] by blast
    with Cons.IH [of "r - length c" got1] Cons.prems(2) True show ?thesis by auto
  qed (use Cons.prems in \<open>auto split: if_splits\<close>)
qed auto

lemma recv_frame_short: "length s < 4 \<Longrightarrow> recv_frame s = None"
  by (cases s rule: recv_frame.cases) auto

lemma take4: "length h = 4 \<Longrightarrow> \<exists>a b c d. h = [a, b, c, d]"
  by (auto simp: numeral_eq_Suc length_Suc_conv)

text \<open>However the kernel cuts the stream, \<open>recvFrame\<close> gives what the frame reader gives on the bytes.\<close>

lemma recvFrame_some:
  assumes "recvFrame cs = (Some p, cs')"
  shows "recv_frame (concat cs) = Some (p, concat cs') \<and> length (concat cs') < length (concat cs)"
proof -
  obtain h cs1 where h: "recvAll 4 cs = (True, h, cs1)" and v: "le_value h \<noteq> 0" "\<not> 65536 < le_value h"
    and p: "recvAll (unat (le_value h)) cs1 = (True, p, cs')"
    using assms by (auto simp: recvFrame_def Let_def split: prod.splits if_splits)
  note s = recvAll_split [OF h] recvAll_split [OF p]
  obtain a b c d where "h = [a, b, c, d]" using s(1) take4 by blast
  with s v show ?thesis by (auto simp: le_value_def)
qed

lemma recvFrame_none:
  assumes "recvFrame cs = (None, cs')" and "[] \<notin> set cs"
  shows "recv_frame (concat cs) = None"
proof -
  obtain ok h cs1 where h: "recvAll 4 cs = (ok, h, cs1)" by (metis prod_cases3)
  show ?thesis
  proof (cases ok)
    case False
    then have "length (concat cs) < 4" using recvAll_enough [OF h assms(2)] by linarith
    then show ?thesis by (rule recv_frame_short)
  next
    case True
    with h have s: "concat cs = h @ concat cs1" "length h = 4" using recvAll_split [of 4 cs h cs1] by auto
    then obtain a b c d where abcd: "h = [a, b, c, d]" using take4 by blast
    obtain ok' p cs2 where p: "recvAll (unat (le_value h)) cs1 = (ok', p, cs2)" by (metis prod_cases3)
    have "le_value h = 0 \<or> 65536 < le_value h \<or> \<not> ok'"
      using assms(1) h p True by (auto simp: recvFrame_def Let_def split: if_splits)
    moreover have "ok' \<longleftrightarrow> unat (le_value h) \<le> length (concat cs1)"
      by (rule recvAll_enough [OF p recvAll_live [OF h assms(2)]])
    ultimately have "le_value h = 0 \<or> 65536 < le_value h \<or> length (concat cs1) < unat (le_value h)" by linarith
    then show ?thesis using s(1) abcd by (auto simp: le_value_def Let_def)
  qed
qed

lemma recvFrame_live:
  assumes "recvFrame cs = (Some p, cs')" and "[] \<notin> set cs"
  shows "[] \<notin> set cs'"
  using assms recvAll_live unfolding recvFrame_def Let_def by (fastforce split: prod.splits if_splits)

lemma recvFrame_refines:
  assumes "[] \<notin> set cs"
  shows "map_option (\<lambda>p. (p, concat (snd (recvFrame cs)))) (fst (recvFrame cs)) = recv_frame (concat cs)"
proof (cases "fst (recvFrame cs)")
  case None
  then show ?thesis using recvFrame_none [of cs "snd (recvFrame cs)"] assms by (metis option.map(1) prod.collapse)
next
  case (Some p)
  then show ?thesis using recvFrame_some [of cs p "snd (recvFrame cs)"] by (metis option.map(2) prod.collapse)
qed

text \<open>The receive loop of a node: it stops at the first call that gives no frame.\<close>

function recv_loop :: "bytes list \<Rightarrow> bytes list" where
  "recv_loop cs = (case recvFrame cs of (None, _) \<Rightarrow> [] | (Some p, cs') \<Rightarrow> p # recv_loop cs')"
  by pat_completeness auto
termination
proof (relation "measure (\<lambda>cs. length (concat cs))")
  fix cs :: "bytes list" and x y p
  assume "(x, y) = recvFrame cs" and "x = Some p"
  then show "(y, cs) \<in> measure (\<lambda>cs. length (concat cs))" using recvFrame_some [of cs p y] by auto
qed simp

declare recv_loop.simps [simp del]

lemma recv_loop_frames:
  assumes "[] \<notin> set cs" and "concat cs = concat (map tcp_frame ps)" and "list_all payload_fits ps"
  shows "recv_loop cs = ps"
  using assms
proof (induction ps arbitrary: cs)
  case Nil
  then have "recv_frame (concat cs) = None" by (simp only: list.map concat.simps recv_frame.simps)
  then have "fst (recvFrame cs) = None" using recvFrame_refines [OF Nil(1)] by simp
  then show ?case by (subst recv_loop.simps) (auto split: prod.splits)
next
  case (Cons p ps)
  then have f: "recv_frame (concat cs) = Some (p, concat (map tcp_frame ps))"
    using tcp_frames.dec_enc [of p] by simp
  obtain o' cs' where r: "recvFrame cs = (o', cs')" by fastforce
  with f recvFrame_refines [OF Cons.prems(1)] have o: "o' = Some p" "concat cs' = concat (map tcp_frame ps)" by auto
  with r Cons show ?case using recvFrame_live [of cs p cs'] by (subst recv_loop.simps) simp
qed

subsection \<open>Sending\<close>

text \<open>A message being sent: the payload and the buffers that still go to \<open>sendAll\<close>.\<close>

type_synonym send_job = "bytes \<times> bytes list"

text \<open>\<open>sendFrame\<close> has one buffer, the frame; \<open>sendPayload\<close> sends the length and then the payload. A
  buffer of no bytes makes no call.\<close>

definition sendFrame :: "bytes \<Rightarrow> send_job" where
  "sendFrame p = (p, [tcp_frame p])"

definition sendPayload :: "bytes \<Rightarrow> send_job" where
  "sendPayload p = (p, filter (\<lambda>b. b \<noteq> []) [le32 (word_of_nat (length p)), p])"

record senders =
  jobs :: "send_job list list"
  holder :: "nat option"
  wire :: bytes
  sent :: "(nat \<times> bytes) list"
  broken :: bool

text \<open>Threads that share a socket. When the callers hold a mutex around a message, a thread starts
  one only while nobody else is inside (\<open>guarded\<close>).\<close>

inductive send_step :: "bool \<Rightarrow> senders \<Rightarrow> senders \<Rightarrow> bool" for guarded where
  part_taken: "\<lbrakk> i < length (jobs s); jobs s ! i = (p, b # bs) # js; guarded \<longrightarrow> holder s \<in> {None, Some i};
      0 < k; k < length b \<rbrakk> \<Longrightarrow>
    send_step guarded s (s\<lparr>jobs := (jobs s)[i := (p, drop k b # bs) # js], holder := Some i, wire := wire s @ take k b\<rparr>)"
| buffer_taken: "\<lbrakk> i < length (jobs s); jobs s ! i = (p, b # b' # bs) # js; guarded \<longrightarrow> holder s \<in> {None, Some i} \<rbrakk> \<Longrightarrow>
    send_step guarded s (s\<lparr>jobs := (jobs s)[i := (p, b' # bs) # js], holder := Some i, wire := wire s @ b\<rparr>)"
| message_taken: "\<lbrakk> i < length (jobs s); jobs s ! i = (p, [b]) # js; guarded \<longrightarrow> holder s \<in> {None, Some i} \<rbrakk> \<Longrightarrow>
    send_step guarded s (s\<lparr>jobs := (jobs s)[i := js], holder := None, wire := wire s @ b, sent := sent s @ [(i, p)]\<rparr>)"
| send_failed: "\<lbrakk> i < length (jobs s); jobs s ! i = (p, b # bs) # js; guarded \<longrightarrow> holder s \<in> {None, Some i} \<rbrakk> \<Longrightarrow>
    send_step guarded s (s\<lparr>jobs := (jobs s)[i := js], holder := None, broken := True\<rparr>)"

inductive send_steps :: "bool \<Rightarrow> senders \<Rightarrow> senders \<Rightarrow> bool" for guarded where
  no_send: "send_steps guarded s s"
| more_sends: "send_steps guarded s t \<Longrightarrow> send_step guarded t u \<Longrightarrow> send_steps guarded s u"

definition senders_new :: "send_job list list \<Rightarrow> senders" where
  "senders_new js = \<lparr> jobs = js, holder = None, wire = [], sent = [], broken = False \<rparr>"

definition all_sent :: "senders \<Rightarrow> bool" where
  "all_sent s \<longleftrightarrow> list_all (\<lambda>js. js = []) (jobs s)"

definition sent_by :: "nat \<Rightarrow> senders \<Rightarrow> bytes list" where
  "sent_by i s = map snd (filter (\<lambda>e. fst e = i) (sent s))"

subsection \<open>One message at a time\<close>

definition job_fresh :: "send_job \<Rightarrow> bool" where
  "job_fresh j \<longleftrightarrow> payload_fits (fst j) \<and> concat (snd j) = tcp_frame (fst j)"

lemma job_fresh_sends [simp]:
  "job_fresh (sendFrame p) \<longleftrightarrow> payload_fits p" "job_fresh (sendPayload p) \<longleftrightarrow> payload_fits p"
  by (auto simp: job_fresh_def sendFrame_def sendPayload_def tcp_frame_def payload_fits_def le32_def)

definition frames_sent :: "senders \<Rightarrow> bytes" where
  "frames_sent s = concat (map (\<lambda>e. tcp_frame (snd e)) (sent s))"

text \<open>What thread \<open>i\<close> has put on the wire of its message, everything else being whole.\<close>

definition inside :: "senders \<Rightarrow> nat \<Rightarrow> bytes \<Rightarrow> bool" where
  "inside s i part \<longleftrightarrow> wire s = frames_sent s @ part
     \<and> (\<forall>k < length (jobs s). k \<noteq> i \<longrightarrow> list_all job_fresh (jobs s ! k))
     \<and> (\<exists>p bs js. jobs s ! i = (p, bs) # js \<and> bs \<noteq> [] \<and> part @ concat bs = tcp_frame p \<and> payload_fits p \<and> list_all job_fresh js)"

definition in_turns :: "send_job list list \<Rightarrow> senders \<Rightarrow> bool" where
  "in_turns js0 s \<longleftrightarrow> length (jobs s) = length js0 \<and> list_all (\<lambda>e. payload_fits (snd e)) (sent s)
     \<and> (\<forall>i < length js0. sent_by i s @ map fst (jobs s ! i) = map fst (js0 ! i))
     \<and> (case holder s of
          None \<Rightarrow> wire s = frames_sent s \<and> list_all (list_all job_fresh) (jobs s)
        | Some i \<Rightarrow> i < length js0 \<and> (\<exists>part. inside s i part))"

lemma in_turns_enter:
  assumes "in_turns js0 s" and "holder s \<in> {None, Some i}" and "i < length (jobs s)" and "jobs s ! i = (p, bs) # js"
  obtains part where "inside s i part"
proof (cases "holder s")
  case None
  then have l: "list_all (list_all job_fresh) (jobs s)" and w: "wire s = frames_sent s"
    using assms(1) by (simp_all add: in_turns_def)
  then have f: "\<forall>k < length (jobs s). list_all job_fresh (jobs s ! k)" by (simp add: list_all_length [of "list_all job_fresh"])
  then have "job_fresh (p, bs)" "list_all job_fresh js" using assms(3,4) by fastforce+
  moreover have "tcp_frame p \<noteq> []" by (simp add: tcp_frame_def le32_def)
  ultimately have "inside s i []" using f w assms(4) by (auto simp: inside_def job_fresh_def)
  then show ?thesis by (rule that)
next
  case (Some k)
  then show ?thesis using assms(1,2) that by (auto simp: in_turns_def)
qed

lemma in_turns_new: "list_all (list_all job_fresh) js0 \<Longrightarrow> in_turns js0 (senders_new js0)"
  by (auto simp: in_turns_def senders_new_def frames_sent_def sent_by_def)

text \<open>Inside a message, every call of \<open>send\<close> keeps the order.\<close>

lemma in_turns_more:
  assumes "in_turns js0 s" and "inside s i part" and "i < length (jobs s)" and "jobs s ! i = (p, bs) # js"
    and "b @ concat bs' = concat bs" and "bs' \<noteq> []"
  shows "in_turns js0 (s\<lparr>jobs := (jobs s)[i := (p, bs') # js], holder := Some i, wire := wire s @ b\<rparr>)"
proof -
  let ?t = "s\<lparr>jobs := (jobs s)[i := (p, bs') # js], holder := Some i, wire := wire s @ b\<rparr>"
  have o: "length (jobs s) = length js0" "list_all (\<lambda>e. payload_fits (snd e)) (sent s)"
    "\<forall>k < length js0. sent_by k s @ map fst (jobs s ! k) = map fst (js0 ! k)"
    using assms(1) by (simp_all add: in_turns_def)
  have "inside ?t i (part @ b)"
    using assms(2-6) by (auto simp: inside_def frames_sent_def)
  moreover have "sent_by k ?t @ map fst (jobs ?t ! k) = map fst (js0 ! k)" if "k < length js0" for k
    using o that assms(3,4) by (cases "k = i") (auto simp: sent_by_def)
  ultimately show ?thesis using o assms(3) by (auto simp: in_turns_def)
qed

lemma in_turns_finish:
  assumes "in_turns js0 s" and "inside s i part" and "i < length (jobs s)" and "jobs s ! i = (p, [b]) # js"
  shows "in_turns js0 (s\<lparr>jobs := (jobs s)[i := js], holder := None, wire := wire s @ b, sent := sent s @ [(i, p)]\<rparr>)"
proof -
  let ?t = "s\<lparr>jobs := (jobs s)[i := js], holder := None, wire := wire s @ b, sent := sent s @ [(i, p)]\<rparr>"
  have o: "length (jobs s) = length js0" "list_all (\<lambda>e. payload_fits (snd e)) (sent s)"
    "\<forall>k < length js0. sent_by k s @ map fst (jobs s ! k) = map fst (js0 ! k)"
    using assms(1) by (simp_all add: in_turns_def)
  have n: "wire s = frames_sent s @ part" "part @ b = tcp_frame p" "payload_fits p" "list_all job_fresh js"
    "\<forall>k < length (jobs s). k \<noteq> i \<longrightarrow> list_all job_fresh (jobs s ! k)"
    using assms(2,4) by (auto simp: inside_def)
  have "wire ?t = frames_sent ?t" using n(1,2) by (simp add: frames_sent_def)
  moreover have "list_all (list_all job_fresh) (jobs ?t)"
    using n(4,5) assms(3) by (auto simp: list_all_length nth_list_update)
  moreover have "sent_by k ?t @ map fst (jobs ?t ! k) = map fst (js0 ! k)" if "k < length js0" for k
    using o that assms(3,4) by (cases "k = i") (auto simp: sent_by_def)
  ultimately show ?thesis using o n(3) by (auto simp: in_turns_def)
qed

lemma in_turns_step:
  assumes "send_step True s t" and "in_turns js0 s" and "\<not> broken t"
  shows "in_turns js0 t"
  using assms(1)
proof cases
  case (part_taken i p b bs js k)
  then obtain part where "inside s i part" using in_turns_enter [OF assms(2)] by blast
  from in_turns_more [OF assms(2) this part_taken(2,3), of "take k b" "drop k b # bs"] part_taken show ?thesis by simp
next
  case (buffer_taken i p b b' bs js)
  then obtain part where "inside s i part" using in_turns_enter [OF assms(2)] by blast
  from in_turns_more [OF assms(2) this buffer_taken(2,3), of b "b' # bs"] buffer_taken show ?thesis by simp
next
  case (message_taken i p b js)
  then obtain part where "inside s i part" using in_turns_enter [OF assms(2)] by blast
  from in_turns_finish [OF assms(2) this message_taken(2,3)] message_taken show ?thesis by simp
next
  case send_failed
  with assms(3) show ?thesis by simp
qed

lemma broken_stays: "send_step g s t \<Longrightarrow> broken s \<Longrightarrow> broken t"
  by (cases rule: send_step.cases) auto

lemma in_turns_steps: "send_steps True s t \<Longrightarrow> in_turns js0 s \<Longrightarrow> \<not> broken t \<Longrightarrow> in_turns js0 t"
  by (induction rule: send_steps.induct) (auto intro: in_turns_step dest: broken_stays)

text \<open>While messages are left, some thread can call \<open>send\<close>.\<close>

lemma send_progress:
  assumes "in_turns js0 s" and "\<not> all_sent s"
  shows "\<exists>t. send_step True s t \<and> broken t = broken s"
proof -
  obtain i where i: "i < length (jobs s)" "jobs s ! i \<noteq> []" "holder s \<in> {None, Some i}"
  proof (cases "holder s")
    case None
    then show ?thesis using assms(2) that by (auto simp: all_sent_def list_all_length)
  next
    case (Some i)
    then show ?thesis using assms(1) that [of i] by (auto simp: in_turns_def inside_def)
  qed
  obtain p bs js where j: "jobs s ! i = (p, bs) # js" using i(2) by (cases "jobs s ! i") auto
  then obtain part where "inside s i part" using in_turns_enter [OF assms(1) i(3,1)] by blast
  then have "bs \<noteq> []" using j by (auto simp: inside_def)
  then consider b where "bs = [b]" | b b' bs' where "bs = b # b' # bs'" by (metis neq_Nil_conv)
  then show ?thesis
  proof cases
    case 1
    then have "send_step True s (s\<lparr>jobs := (jobs s)[i := js], holder := None, wire := wire s @ b, sent := sent s @ [(i, p)]\<rparr>)"
      using message_taken i j by simp
    then show ?thesis by (intro exI conjI) (assumption, simp)
  next
    case 2
    then have "send_step True s (s\<lparr>jobs := (jobs s)[i := (p, b' # bs') # js], holder := Some i, wire := wire s @ b\<rparr>)"
      using buffer_taken i j by simp
    then show ?thesis by (intro exI conjI) (assumption, simp)
  qed
qed

lemma in_turns_end:
  assumes "in_turns js0 s" and "all_sent s"
  shows "wire s = concat (map tcp_frame (map snd (sent s)))" and "list_all payload_fits (map snd (sent s))"
    and "i < length js0 \<Longrightarrow> sent_by i s = map fst (js0 ! i)"
proof -
  have "holder s = None"
  proof (cases "holder s")
    case (Some i)
    then have "i < length (jobs s)" "jobs s ! i \<noteq> []" using assms(1) by (auto simp: in_turns_def inside_def)
    then show ?thesis using assms(2) by (auto simp: all_sent_def list_all_length)
  qed simp
  then show "wire s = concat (map tcp_frame (map snd (sent s)))"
    using assms(1) by (simp add: in_turns_def frames_sent_def comp_def)
  show "list_all payload_fits (map snd (sent s))" using assms(1) by (simp add: in_turns_def list_all_iff)
  show "i < length js0 \<Longrightarrow> sent_by i s = map fst (js0 ! i)"
    using assms by (fastforce simp: in_turns_def all_sent_def list_all_length)
qed

end
