(* ===== verification/Tcp_System.thy ===== *)
theory Tcp_System
  imports Tcp_Streams Ims_Sip
begin

text \<open>
  Properties of the framed TCP connections: frames survive any way the kernel cuts the stream, as
  long as the threads that share a socket send one message at a time; without a lock, as in
  \<open>PcscfNode::sendToScscf\<close>, the two calls of \<open>sendPayload\<close> can be torn apart.
\<close>

definition sends :: "send_job \<Rightarrow> bool" where
  "sends j \<longleftrightarrow> (\<exists>p. payload_fits p \<and> (j = sendFrame p \<or> j = sendPayload p))"

lemma sendsI [intro]: "payload_fits p \<Longrightarrow> sends (sendFrame p)" "payload_fits p \<Longrightarrow> sends (sendPayload p)"
  unfolding sends_def by blast+

lemma sends_fresh: "list_all (list_all sends) js \<Longrightarrow> list_all (list_all job_fresh) js"
  by (auto simp: sends_def elim!: list.pred_mono_strong)

text \<open>C4. Threads that share a socket and hold a mutex around every message, with any splitting of
  the buffers over calls of \<open>send\<close>: as long as none of these calls fails, somebody can always go on,
  and once all messages are sent, the receive loop at the other end gives exactly these messages,
  those of each thread in its order, whatever pieces \<open>recv\<close> returns.\<close>
theorem frames_survive_streams:
  assumes "list_all (list_all sends) js" and "send_steps True (senders_new js) s" and "\<not> broken s"
  shows "if all_sent s
         then (\<forall>cs. concat cs = wire s \<and> [] \<notin> set cs \<longrightarrow> recv_loop cs = map snd (sent s))
            \<and> (\<forall>i < length js. sent_by i s = map fst (js ! i))
         else \<exists>t. send_step True s t \<and> \<not> broken t"
proof -
  have o: "in_turns js s"
    by (rule in_turns_steps [OF assms(2) in_turns_new [OF sends_fresh [OF assms(1)]] assms(3)])
  show ?thesis
    using in_turns_end [OF o] recv_loop_frames send_progress [OF o] assms(3) by auto
qed

theorem frames_survive_streams_witness:
  "recv_loop [[2, 0], [0, 0, 7], [8, 1, 0, 0, 0, 9]] = [[7, 8], [9]]"
proof -
  let ?js = "[[sendPayload [7, 8]], [sendFrame [9]]]"
  let ?s0 = "\<lparr> jobs = [[([7, 8], [[7, 8]])], [sendFrame [9]]], holder = Some 0, wire = [2, 0, 0, 0], sent = [], broken = False \<rparr>"
  let ?s1 = "\<lparr> jobs = [[([7, 8], [[8]])], [sendFrame [9]]], holder = Some 0, wire = [2, 0, 0, 0, 7], sent = [], broken = False \<rparr>"
  let ?s2 = "\<lparr> jobs = [[], [sendFrame [9]]], holder = None, wire = [2, 0, 0, 0, 7, 8], sent = [(0, [7, 8])], broken = False \<rparr>"
  let ?s3 = "\<lparr> jobs = [[], []], holder = None, wire = [2, 0, 0, 0, 7, 8, 1, 0, 0, 0, 9], sent = [(0, [7, 8]), (1, [9])], broken = False \<rparr>"
  have "send_step True (senders_new ?js) ?s0"
    using buffer_taken [of 0 "senders_new ?js" "[7, 8]" "[2, 0, 0, 0]" "[7, 8]" "[]" "[]" True]
    by (simp add: senders_new_def sendPayload_def le32_def byte_at_def)
  moreover have "send_step True ?s0 ?s1"
    using part_taken [of 0 ?s0 "[7, 8]" "[7, 8]" "[]" "[]" True 1] by simp
  moreover have "send_step True ?s1 ?s2"
    using message_taken [of 0 ?s1 "[7, 8]" "[8]" "[]" True] by simp
  moreover have "send_step True ?s2 ?s3"
    using message_taken [of 1 ?s2 "[9]" "[1, 0, 0, 0, 9]" "[]" True]
    by (simp add: sendFrame_def tcp_frame_def le32_def byte_at_def)
  ultimately have r: "send_steps True (senders_new ?js) ?s3" by (meson send_steps.intros)
  have "sends (sendPayload [7, 8])" "sends (sendFrame [9])" by (auto simp: payload_fits_def intro!: sendsI)
  then have "list_all (list_all sends) ?js" by simp
  from frames_survive_streams [OF this r] show ?thesis by (simp add: all_sent_def)
qed

text \<open>The two threads of the P-CSCF that each forward a message of their phone, with no lock.\<close>

definition two_forwards :: "bytes \<Rightarrow> bytes \<Rightarrow> senders" where
  "two_forwards a b = senders_new [[sendPayload a], [sendPayload b]]"

definition torn_wire :: "bytes \<Rightarrow> bytes \<Rightarrow> bytes" where
  "torn_wire a b = le32 (word_of_nat (length a)) @ le32 (word_of_nat (length b)) @ a @ b"

lemma torn_reached:
  assumes "payload_fits a" and "payload_fits b"
  shows "\<exists>s. send_steps False (two_forwards a b) s \<and> all_sent s \<and> \<not> broken s \<and> wire s = torn_wire a b
           \<and> sent s = [(0, a), (1, b)]"
proof -
  let ?ha = "le32 (word_of_nat (length a))" and ?hb = "le32 (word_of_nat (length b))"
  have p: "sendPayload a = (a, [?ha, a])" "sendPayload b = (b, [?hb, b])"
    using assms by (auto simp: sendPayload_def payload_fits_def le32_def)
  let ?s0 = "two_forwards a b"
  let ?s1 = "\<lparr> jobs = [[(a, [a])], [(b, [?hb, b])]], holder = Some 0, wire = ?ha, sent = [], broken = False \<rparr>"
  let ?s2 = "\<lparr> jobs = [[(a, [a])], [(b, [b])]], holder = Some 1, wire = ?ha @ ?hb, sent = [], broken = False \<rparr>"
  let ?s3 = "\<lparr> jobs = [[], [(b, [b])]], holder = None, wire = ?ha @ ?hb @ a, sent = [(0, a)], broken = False \<rparr>"
  let ?s4 = "\<lparr> jobs = [[], []], holder = None, wire = torn_wire a b, sent = [(0, a), (1, b)], broken = False \<rparr>"
  have "send_step False ?s0 ?s1"
    using buffer_taken [of 0 ?s0 a ?ha a "[]" "[]" False] by (simp add: two_forwards_def senders_new_def p)
  moreover have "send_step False ?s1 ?s2"
    using buffer_taken [of 1 ?s1 b ?hb b "[]" "[]" False] by simp
  moreover have "send_step False ?s2 ?s3"
    using message_taken [of 0 ?s2 a a "[]" False] by simp
  moreover have "send_step False ?s3 ?s4"
    using message_taken [of 1 ?s3 b b "[]" False] by (simp add: torn_wire_def)
  ultimately have "send_steps False ?s0 ?s4" by (meson send_steps.intros)
  then show ?thesis by (intro exI [of _ ?s4]) (simp add: all_sent_def)
qed

lemma recv_loop_first:
  assumes "[] \<notin> set cs" and "recv_frame (concat cs) = Some (p, r)"
  shows "\<exists>rest. recv_loop cs = p # rest"
proof -
  obtain o' cs' where c: "recvFrame cs = (o', cs')" by fastforce
  then have "o' = Some p" using recvFrame_refines [OF assms(1)] assms(2) by auto
  with c show ?thesis by (subst recv_loop.simps) simp
qed

lemma torn_first:
  assumes "payload_fits a" and "4 \<le> length a"
  shows "\<exists>r. recv_frame (torn_wire a b) = Some (le32 (word_of_nat (length b)) @ take (length a - 4) a, r)"
proof -
  let ?w = "word_of_nat (length a) :: u32"
  have "unat ?w = length a" using assms by (simp add: payload_fits_def unat_of_nat take_bit_nat_eq_self)
  moreover from this have "?w \<noteq> 0" "\<not> 65536 < ?w" using assms by (auto simp: payload_fits_def word_less_nat_alt)
  moreover have "length (le32 (word_of_nat (length b) :: u32)) = 4" by (simp add: le32_def)
  ultimately show ?thesis using assms(2) by (simp add: torn_wire_def recv_frame_le32)
qed

lemma length_word_type: "join16 (byte_at 0 (word_of_nat n :: u32)) (byte_at 1 (word_of_nat n :: u32)) = word_of_nat n"
proof -
  have "join16 (byte_at 0 w) (byte_at 1 w) = ucast (w :: u32)" for w
    unfolding join16_def byte_at_def by (rule bit_word_eqI) (auto simp: bit_simps)
  then show ?thesis by (simp add: unsigned_of_nat of_nat_take_bit take_bit_word_eq_self)
qed

text \<open>C14. \<open>PcscfNode::sendToScscf\<close> takes no lock, and \<open>sendPayload\<close> sends the length and the payload
  with separate calls. When the threads of two phones forward messages \<open>a\<close> and \<open>b\<close> at the same time,
  without any error both can be sent such that the first message the S-CSCF reads is neither: it is the
  length of \<open>b\<close> followed by the start of \<open>a\<close>, a message whose type is the length of \<open>b\<close>.\<close>
theorem unlocked_forwards_tear:
  assumes "payload_fits a" and "8 \<le> length a" and "payload_fits b"
  shows "\<exists>s. send_steps False (two_forwards a b) s \<and> all_sent s \<and> \<not> broken s
    \<and> wire s = torn_wire a b
    \<and> (\<forall>cs. concat cs = wire s \<and> [] \<notin> set cs \<longrightarrow>
         (\<exists>rest. recv_loop cs = (le32 (word_of_nat (length b)) @ take (length a - 4) a) # rest))
    \<and> msg_type_of (le32 (word_of_nat (length b)) @ take (length a - 4) a) = word_of_nat (length b)"
proof -
  let ?f = "le32 (word_of_nat (length b)) @ take (length a - 4) a"
  obtain s where s: "send_steps False (two_forwards a b) s" "all_sent s" "\<not> broken s" "wire s = torn_wire a b"
    using torn_reached [OF assms(1,3)] by blast
  have "\<exists>rest. recv_loop cs = ?f # rest" if "concat cs = wire s" "[] \<notin> set cs" for cs
    using recv_loop_first [OF that(2)] torn_first [OF assms(1), of b] assms(2) that(1) s(4) by auto
  moreover have "msg_type_of ?f = word_of_nat (length b)"
  proof -
    have "8 \<le> length ?f" using assms(2) by (simp add: le32_def)
    then show ?thesis using length_word_type [of "length b"] by (simp add: msg_type_of_def le32_def)
  qed
  ultimately show ?thesis using s by blast
qed

theorem unlocked_forwards_tear_witness:
  "\<exists>s. send_steps False (two_forwards (sip_message SIP_INVITE 1 []) (sip_message SIP_REGISTER 2 [])) s
    \<and> recv_loop [wire s] \<noteq> [] \<and> msg_type_of (hd (recv_loop [wire s])) = 8"
proof -
  have l: "length (sip_message ty q []) = 8" for ty q
    by (simp add: sip_message_def sip_elements_def message_def write_elements_def le16_def le32_def)
  let ?a = "sip_message SIP_INVITE 1 []" and ?b = "sip_message SIP_REGISTER 2 []"
  obtain s where s: "send_steps False (two_forwards ?a ?b) s" "wire s = torn_wire ?a ?b"
    and f: "\<And>cs. concat cs = wire s \<Longrightarrow> [] \<notin> set cs \<Longrightarrow> \<exists>rest. recv_loop cs = (le32 (word_of_nat (length ?b)) @ take (length ?a - 4) ?a) # rest"
    and y: "msg_type_of (le32 (word_of_nat (length ?b)) @ take (length ?a - 4) ?a) = word_of_nat (length ?b)"
    using unlocked_forwards_tear [of ?a ?b] unfolding l by (auto simp: l payload_fits_def)
  have "wire s \<noteq> []" using s(2) by (simp add: torn_wire_def le32_def)
  then obtain rest where "recv_loop [wire s] = (le32 (word_of_nat (length ?b)) @ take (length ?a - 4) ?a) # rest"
    using f [of "[wire s]"] by auto
  with s(1) y show ?thesis by (auto simp: l)
qed

end
