(* ===== verification/Wire_Structs.thy ===== *)
theory Wire_Structs
  imports Epc_Tlv
begin

text \<open>
  The packed structures of \<open>4g-simulator/src/common/message.h\<close>, the first wire format of the 4G
  simulator, as the bytes they occupy on a little-endian host, and the helpers that copy an attach
  request into and out of the NAS buffer of an initial UE message. A copy that would leave the buffer
  it is given is \<open>None\<close>. The nodes have moved on to the TLV messages and only share these types.
\<close>

record MessageHeader =
  domain :: byte
  version :: byte
  msg_type :: u16
  msg_length :: u32
  sequence_num :: u32

record NAS_AttachRequest =
  protocol_discriminator :: byte
  security_header_type :: byte
  message_type :: byte
  eps_attach_type :: byte
  nas_ksi :: byte
  identity_type :: byte
  nas_imsi :: u64
  ue_network_capability :: byte

text \<open>\<open>nas_pdu\<close> is an array of 512 bytes.\<close>

record S1AP_InitialUEMessage =
  s1_header :: MessageHeader
  enb_ue_s1ap_id :: u32
  nas_pdu_length :: u16
  nas_pdu :: bytes
  tai_mcc :: u16
  tai_mnc :: u16
  tai_tac :: u16
  eutran_cgi_cell_id :: u32
  rrc_establishment_cause :: byte

subsection \<open>Bytes of a structure\<close>

definition header_bytes :: "MessageHeader \<Rightarrow> bytes" where
  "header_bytes h = [domain h, version h] @ le16 (msg_type h) @ le32 (msg_length h) @ le32 (sequence_num h)"

definition nas_bytes :: "NAS_AttachRequest \<Rightarrow> bytes" where
  "nas_bytes n =
     [protocol_discriminator n, security_header_type n, message_type n, eps_attach_type n, nas_ksi n, identity_type n]
     @ le64 (nas_imsi n) @ [ue_network_capability n]"

definition s1ap_bytes :: "S1AP_InitialUEMessage \<Rightarrow> bytes" where
  "s1ap_bytes m =
     header_bytes (s1_header m) @ le32 (enb_ue_s1ap_id m) @ le16 (nas_pdu_length m) @ nas_pdu m
     @ le16 (tai_mcc m) @ le16 (tai_mnc m) @ le16 (tai_tac m) @ le32 (eutran_cgi_cell_id m) @ [rrc_establishment_cause m]"

text \<open>The fields at their offsets.\<close>

definition word16_at :: "bytes \<Rightarrow> nat \<Rightarrow> u16" where
  "word16_at b k = join16 (b ! k) (b ! (k + 1))"

definition word32_at :: "bytes \<Rightarrow> nat \<Rightarrow> u32" where
  "word32_at b k = join32 (b ! k) (b ! (k + 1)) (b ! (k + 2)) (b ! (k + 3))"

definition header_at :: "bytes \<Rightarrow> MessageHeader" where
  "header_at b = \<lparr> domain = b ! 0, version = b ! 1, msg_type = word16_at b 2, msg_length = word32_at b 4,
     sequence_num = word32_at b 8 \<rparr>"

definition nas_at :: "bytes \<Rightarrow> NAS_AttachRequest" where
  "nas_at b = \<lparr> protocol_discriminator = b ! 0, security_header_type = b ! 1, message_type = b ! 2,
     eps_attach_type = b ! 3, nas_ksi = b ! 4, identity_type = b ! 5,
     nas_imsi = join64 (word32_at b 6) (word32_at b 10), ue_network_capability = b ! 14 \<rparr>"

definition s1ap_at :: "bytes \<Rightarrow> S1AP_InitialUEMessage" where
  "s1ap_at b = \<lparr> s1_header = header_at b, enb_ue_s1ap_id = word32_at b 12, nas_pdu_length = word16_at b 16,
     nas_pdu = take 512 (drop 18 b), tai_mcc = word16_at b 530, tai_mnc = word16_at b 532, tai_tac = word16_at b 534,
     eutran_cgi_cell_id = word32_at b 536, rrc_establishment_cause = b ! 540 \<rparr>"

lemma word_at_le [simp]:
  "word16_at (le16 w @ s) 0 = w" "word32_at (le32 v @ s) 0 = v"
  using join16_byte_at [of w] join32_byte_at [of v] by (simp_all add: word16_at_def word32_at_def le16_def le32_def numeral_3_eq_3)

lemma word_at_drop: "k + 2 \<le> length b \<Longrightarrow> word16_at b k = word16_at (drop k b) 0"
  "k + 4 \<le> length b \<Longrightarrow> word32_at b k = word32_at (drop k b) 0"
  by (simp_all add: word16_at_def word32_at_def)

lemma length_le [simp]: "length (le16 w) = 2" "length (le32 v) = 4" "length (le64 u) = 8"
  by (simp_all add: le16_def le32_def le64_def)

lemma length_nas_bytes [simp]: "length (nas_bytes n) = 15" and length_header_bytes [simp]: "length (header_bytes h) = 12"
  by (simp_all add: nas_bytes_def header_bytes_def)

lemma length_s1ap_bytes: "length (nas_pdu m) = 512 \<Longrightarrow> length (s1ap_bytes m) = 541"
  by (simp add: s1ap_bytes_def)

lemma nas_at_bytes: "nas_at (nas_bytes n @ s) = n"
proof -
  have "word32_at (nas_bytes n @ s) 6 = ucast (nas_imsi n)" "word32_at (nas_bytes n @ s) 10 = ucast (drop_bit 32 (nas_imsi n))"
    by (simp_all add: word_at_drop nas_bytes_def le64_def)
  then show ?thesis using join64_le64 [of "nas_imsi n"]
    by (simp add: nas_at_def nas_bytes_def le64_def le32_def)
qed

lemma header_at_bytes: "header_at (header_bytes h @ s) = h"
  by (simp add: header_at_def word_at_drop header_bytes_def)

lemma s1ap_at_bytes:
  assumes "length (nas_pdu m) = 512"
  shows "s1ap_at (s1ap_bytes m) = m"
proof -
  let ?P = "header_bytes (s1_header m) @ le32 (enb_ue_s1ap_id m) @ le16 (nas_pdu_length m)"
  let ?Q = "le16 (tai_mcc m) @ le16 (tai_mnc m) @ le16 (tai_tac m) @ le32 (eutran_cgi_cell_id m) @ [rrc_establishment_cause m]"
  let ?b = "s1ap_bytes m"
  have b: "?b = ?P @ nas_pdu m @ ?Q" by (simp add: s1ap_bytes_def)
  have l: "length ?b = 541" by (rule length_s1ap_bytes [OF assms])
  have d: "drop 12 ?b = le32 (enb_ue_s1ap_id m) @ le16 (nas_pdu_length m) @ nas_pdu m @ ?Q"
    "drop 16 ?b = le16 (nas_pdu_length m) @ nas_pdu m @ ?Q" "drop 18 ?b = nas_pdu m @ ?Q" "drop 530 ?b = ?Q"
    using assms by (simp_all add: b)
  have q: "drop (530 + k) ?b = drop k ?Q" for k using d(4) by (metis add.commute drop_drop)
  have "word32_at ?b 12 = enb_ue_s1ap_id m" "word16_at ?b 16 = nas_pdu_length m" "take 512 (drop 18 ?b) = nas_pdu m"
    "word16_at ?b 530 = tai_mcc m"
    using assms by (simp_all add: word_at_drop l d)
  moreover have "word16_at ?b 532 = tai_mnc m" "word16_at ?b 534 = tai_tac m" "word32_at ?b 536 = eutran_cgi_cell_id m"
    using q [of 2] q [of 4] q [of 6] by (simp_all add: word_at_drop l)
  moreover have "?b ! 540 = rrc_establishment_cause m"
    using q [of 10] l nth_via_drop [of 540 ?b] by (simp add: le16_def le32_def)
  moreover have "header_at ?b = s1_header m" unfolding s1ap_bytes_def by (rule header_at_bytes)
  ultimately show ?thesis by (simp add: s1ap_at_def)
qed

subsection \<open>Copying an attach request\<close>

definition NAS_SIZE :: nat where "NAS_SIZE = 15"

text \<open>The bytes written and the buffer after the call.\<close>

definition serialize_nas_attach :: "NAS_AttachRequest \<Rightarrow> bytes \<Rightarrow> u16 \<Rightarrow> (u16 \<times> bytes) option" where
  "serialize_nas_attach n buf buf_size =
     (if buf_size < word_of_nat NAS_SIZE then Some (0, buf)
      else if length buf < NAS_SIZE then None
      else Some (word_of_nat NAS_SIZE, nas_bytes n @ drop NAS_SIZE buf))"

definition deserialize_nas_attach :: "bytes \<Rightarrow> u16 \<Rightarrow> NAS_AttachRequest \<Rightarrow> (bool \<times> NAS_AttachRequest) option" where
  "deserialize_nas_attach buf len out =
     (if len < word_of_nat NAS_SIZE then Some (False, out)
      else if length buf < NAS_SIZE then None
      else Some (True, nas_at buf))"

text \<open>An attach request copied into the 512 byte buffer of an initial UE message gives a message of
  541 bytes. A receiver that lays the structure over these bytes has the message back, and takes the same
  request out of it.\<close>
theorem nas_struct_round_trip:
  assumes "length (nas_pdu m) = 512"
  shows "case serialize_nas_attach n (nas_pdu m) 512 of
      None \<Rightarrow> False
    | Some (k, pdu) \<Rightarrow>
        let m' = m\<lparr>nas_pdu_length := k, nas_pdu := pdu\<rparr>; r = s1ap_at (s1ap_bytes m')
        in length (s1ap_bytes m') = 541 \<and> r = m'
         \<and> deserialize_nas_attach (nas_pdu r) (nas_pdu_length r) out = Some (True, n)"
proof -
  let ?m = "m\<lparr>nas_pdu_length := 15, nas_pdu := nas_bytes n @ drop 15 (nas_pdu m)\<rparr>"
  have l: "length (nas_pdu ?m) = 512" using assms by simp
  have s: "serialize_nas_attach n (nas_pdu m) 512 = Some (15, nas_bytes n @ drop 15 (nas_pdu m))"
    using assms by (simp add: serialize_nas_attach_def NAS_SIZE_def)
  have d: "deserialize_nas_attach (nas_pdu ?m) 15 out = Some (True, n)"
    by (simp add: deserialize_nas_attach_def NAS_SIZE_def nas_at_bytes)
  show ?thesis using length_s1ap_bytes [OF l] d by (simp add: s Let_def s1ap_at_bytes [OF l])
qed

definition attach_404 :: NAS_AttachRequest where
  "attach_404 = \<lparr> protocol_discriminator = 7, security_header_type = 0, message_type = 0x41, eps_attach_type = 1,
     nas_ksi = 7, identity_type = 1, nas_imsi = 404100000000001, ue_network_capability = 0xE0 \<rparr>"

definition blank_request :: NAS_AttachRequest where
  "blank_request = nas_at (replicate 15 0)"

definition blank_message :: S1AP_InitialUEMessage where
  "blank_message = \<lparr> s1_header = \<lparr> domain = 1, version = 1, msg_type = 1, msg_length = 541, sequence_num = 1 \<rparr>,
     enb_ue_s1ap_id = 1, nas_pdu_length = 0, nas_pdu = replicate 512 0, tai_mcc = 404, tai_mnc = 10, tai_tac = 1,
     eutran_cgi_cell_id = 1, rrc_establishment_cause = 3 \<rparr>"

theorem nas_struct_round_trip_witness:
  "let r = s1ap_at (s1ap_bytes (blank_message\<lparr>nas_pdu_length := 15, nas_pdu := nas_bytes attach_404 @ replicate 497 0\<rparr>))
   in deserialize_nas_attach (nas_pdu r) (nas_pdu_length r) blank_request = Some (True, attach_404)"
proof -
  have l: "length (nas_pdu blank_message) = 512" by (simp add: blank_message_def)
  have s: "serialize_nas_attach attach_404 (nas_pdu blank_message) 512 = Some (15, nas_bytes attach_404 @ replicate 497 0)"
    by (simp add: blank_message_def serialize_nas_attach_def NAS_SIZE_def)
  note r = nas_struct_round_trip [OF l, of blank_request attach_404, unfolded s option.case prod.case Let_def]
  show ?thesis unfolding Let_def by (rule conjunct2 [OF conjunct2 [OF r]])
qed

end
