(* ===== verification/Obs_Metrics.thy ===== *)
theory Obs_Metrics
  imports Core5g_Base
begin

text \<open>
  What an operator sees of the 4G core: the batch metrics (\<open>common/metrics.h\<close>), their scrape endpoint
  (\<open>common/prometheus_server.h\<close>) and the switch of the fault injection (\<open>common/chaos_mode.h\<close>, the
  same in the 5G and IMS simulators). Latencies are doubles: their arithmetic and formatting are
  arguments (\<open>float_ops\<close>), their order is a linear order.
\<close>

subsection \<open>Metrics\<close>

record 'd float_ops =
  f_mean :: "'d list \<Rightarrow> 'd"
  f_zero :: 'd
  f_rank :: "nat \<Rightarrow> nat \<Rightarrow> nat"
  f_count :: "int \<Rightarrow> 'd"
  f_rate :: "nat \<Rightarrow> int \<Rightarrow> 'd"
  f_fmt :: "'d \<Rightarrow> string"

record 'd metrics =
  latencies_ms :: "'d list"
  completed :: int
  expected :: int
  bulk_start :: int

definition metrics_new :: "'d metrics" where
  "metrics_new = \<lparr> latencies_ms = [], completed = 0, expected = 0, bulk_start = 0 \<rparr>"

definition startBulk :: "int \<Rightarrow> int \<Rightarrow> 'd metrics \<Rightarrow> 'd metrics" where
  "startBulk now n m = m\<lparr>latencies_ms := [], expected := n, completed := 0, bulk_start := now\<rparr>"

text \<open>\<open>recordAttach\<close> first stores the latency, under the mutex, and then counts, without it.\<close>

definition record_latency_ms :: "'d \<Rightarrow> 'd metrics \<Rightarrow> 'd metrics" where
  "record_latency_ms x m = m\<lparr>latencies_ms := latencies_ms m @ [x]\<rparr>"

definition count_completed :: "'d metrics \<Rightarrow> 'd metrics" where
  "count_completed m = m\<lparr>completed := completed m + 1\<rparr>"


text \<open>What \<open>waitForAll\<close> waits for, and returns when its time is over.\<close>

definition all_completed :: "'d metrics \<Rightarrow> bool" where
  "all_completed m \<longleftrightarrow> expected m \<le> completed m"

definition percentile :: "'d float_ops \<Rightarrow> 'd list \<Rightarrow> nat \<Rightarrow> 'd" where
  "percentile f xs p =
     (if xs = [] then f_zero f
      else let idx = f_rank f p (length xs) in xs ! (if idx \<ge> length xs then length xs - 1 else idx))"



text \<open>The quantiles of a batch are latencies of the batch, and ordered, whatever the rounding of the
  ranks, as long as it is monotonic.\<close>

lemma percentile_nth:
  "xs \<noteq> [] \<Longrightarrow> percentile f xs p = xs ! min (f_rank f p (length xs)) (length xs - 1)"
  by (cases xs) (auto simp: percentile_def Let_def min_def)

lemma percentile_between:
  assumes "sorted xs" and "xs \<noteq> []"
  shows "percentile f xs p \<in> set xs \<and> hd xs \<le> percentile f xs p \<and> percentile f xs p \<le> last xs"
proof -
  let ?i = "min (f_rank f p (length xs)) (length xs - 1)"
  have i: "?i < length xs" using assms(2) by (simp add: min_less_iff_disj)
  then have "xs ! 0 \<le> xs ! ?i" "xs ! ?i \<le> xs ! (length xs - 1)"
    using sorted_nth_mono [OF assms(1), of 0 ?i] sorted_nth_mono [OF assms(1), of ?i "length xs - 1"] by auto
  then show ?thesis using i assms(2) by (simp add: percentile_nth hd_conv_nth last_conv_nth)
qed

lemma percentile_mono:
  assumes "sorted xs" and "f_rank f p (length xs) \<le> f_rank f q (length xs)"
  shows "percentile f xs p \<le> percentile f xs q"
proof (cases "xs = []")
  case False
  then have "min (f_rank f q (length xs)) (length xs - 1) < length xs" by (simp add: min_less_iff_disj)
  then show ?thesis using assms False by (auto simp: percentile_nth intro!: sorted_nth_mono)
qed (simp add: percentile_def)

subsection \<open>The exposition text\<close>








subsection \<open>The endpoint\<close>






subsection \<open>Reading the samples\<close>











subsection \<open>Fault injection\<close>

definition chaos_off :: bool where "chaos_off = False"

definition setEnabled :: "bool \<Rightarrow> bool \<Rightarrow> bool" where
  "setEnabled on enabled = on"

text \<open>\<open>r\<close> is the value of \<open>std::rand\<close>, which is not negative.\<close>

definition rollDrop :: "bool \<Rightarrow> nat \<Rightarrow> bool" where
  "rollDrop enabled r = (if \<not> enabled then False else if r mod 100 \<ge> 20 then False else True)"

definition rollCorrupt :: "bool \<Rightarrow> nat \<Rightarrow> bool" where
  "rollCorrupt enabled r = (if \<not> enabled then False else if r mod 100 \<ge> 20 then False else True)"

text \<open>Off, nothing is ever lost; on, 20 of the 100 residues the generator is reduced to.\<close>

lemma chaos_rate: "\<not> rollDrop chaos_off r" "card {r. r < 100 \<and> rollDrop (setEnabled True e) r} = 20"
proof -
  have "{r. r < 100 \<and> rollDrop (setEnabled True e) r} = {..<20}"
    by (auto simp: rollDrop_def setEnabled_def split: if_splits)
  then show "card {r. r < 100 \<and> rollDrop (setEnabled True e) r} = 20" by simp
qed (simp add: rollDrop_def chaos_off_def)

section \<open>The properties of the metrics and their endpoint\<close>

text \<open>
  Properties of the metrics and their endpoint: a scrape over HTTP gives the ten values of the metrics,
  and a batch counts the attaches that finish after its start, those begun before it included.
\<close>





subsection \<open>Attaches that finish around the start of a batch\<close>

text \<open>\<open>pending\<close> counts the threads between the two halves of \<open>recordAttach\<close>.\<close>

record 'd meter =
  shown :: "'d metrics"
  pending :: nat

inductive meter_step :: "'d meter \<Rightarrow> 'd meter \<Rightarrow> bool" where
  latency_stored: "meter_step s (s\<lparr>shown := record_latency_ms x (shown s), pending := pending s + 1\<rparr>)"
| attach_counted: "0 < pending s \<Longrightarrow>
    meter_step s (s\<lparr>shown := count_completed (shown s), pending := pending s - 1\<rparr>)"

inductive meter_steps :: "'d meter \<Rightarrow> 'd meter \<Rightarrow> bool" where
  meter_still: "meter_steps s s"
| meter_more: "meter_steps s t \<Longrightarrow> meter_step t u \<Longrightarrow> meter_steps s u"

definition bulk_begun :: "int \<Rightarrow> int \<Rightarrow> 'd meter \<Rightarrow> 'd meter" where
  "bulk_begun now n s = s\<lparr>shown := startBulk now n (shown s)\<rparr>"

lemma meter_balance:
  "meter_steps s t \<Longrightarrow> completed (shown t) + int (pending t) - int (length (latencies_ms (shown t))) =
     completed (shown s) + int (pending s) - int (length (latencies_ms (shown s)))
   \<and> expected (shown t) = expected (shown s)"
proof (induction rule: meter_steps.induct)
  case (meter_more s t u)
  from meter_more(2) show ?case
    by cases (use meter_more(3) in \<open>auto simp: record_latency_ms_def count_completed_def\<close>)
qed simp

text \<open>C2. From the start of a batch on, the counted attaches and those being counted are those with a
  latency in this batch and those that were already being recorded at its start: \<open>waitForAll\<close> can report
  a batch as complete with that many of its attaches missing, and with none if nothing was in progress.\<close>
theorem batch_counts_pending:
  assumes "meter_steps (bulk_begun now n s) t"
  shows "completed (shown t) + int (pending t) = int (length (latencies_ms (shown t))) + int (pending s)
       \<and> (all_completed (shown t) \<longrightarrow> n - int (pending s) \<le> int (length (latencies_ms (shown t))))"
  using meter_balance [OF assms] by (auto simp: bulk_begun_def startBulk_def all_completed_def)

theorem batch_counts_pending_witness:
  "\<exists>t. meter_steps (bulk_begun 0 1 \<lparr> shown = record_latency_ms (7 :: int) metrics_new, pending = 1 \<rparr>) t
     \<and> all_completed (shown t) \<and> int (length (latencies_ms (shown t))) + 1 = completed (shown t)"
proof -
  let ?s = "\<lparr> shown = record_latency_ms (7 :: int) metrics_new, pending = 1 \<rparr>"
  let ?t = "(bulk_begun 0 1 ?s)\<lparr>shown := count_completed (shown (bulk_begun 0 1 ?s)), pending := 0\<rparr>"
  have r: "meter_steps (bulk_begun 0 1 ?s) ?t"
    using meter_more [OF meter_still attach_counted [of "bulk_begun 0 1 ?s"]] by (simp add: bulk_begun_def)
  moreover have "all_completed (shown ?t)"
    by (simp add: all_completed_def count_completed_def bulk_begun_def startBulk_def)
  moreover have "int (length (latencies_ms (shown ?t))) + 1 = completed (shown ?t)"
    using batch_counts_pending [OF r] by simp
  ultimately show ?thesis by blast
qed

end
