(* ===== verification/Load_Counters.thy ===== *)
theory Load_Counters
  imports Prelude
begin

text \<open>
  More of the load scenarios. Of the 4G simulator (\<open>perf/perf_scenarios.h\<close>): scenario 1, a worker that
  polls its queue, and scenario 2, eight workers that count under one mutex or each for itself. Of the
  IMS simulator: the collector \<open>Metrics\<close> (\<open>perf_scenarios.h\<close>) and the load generator. A step is a
  critical section or an atomic operation of one thread; sleeps are left out.
\<close>

subsection \<open>Scenario 2: counting\<close>

definition COUNT_WORKERS :: nat where "COUNT_WORKERS = 8"

record counting =
  todo :: "nat list"
  shared_counter :: int
  local_counters :: "int list"

definition counting_new :: "nat \<Rightarrow> counting" where
  "counting_new n = \<lparr> todo = replicate COUNT_WORKERS (n div COUNT_WORKERS), shared_counter = 0,
     local_counters = replicate COUNT_WORKERS 0 \<rparr>"

inductive count_step :: "bool \<Rightarrow> counting \<Rightarrow> counting \<Rightarrow> bool" for buggy where
  count_shared: "buggy \<Longrightarrow> w < length (todo s) \<Longrightarrow> 0 < todo s ! w \<Longrightarrow>
    count_step buggy s (s\<lparr>todo := (todo s)[w := todo s ! w - 1], shared_counter := shared_counter s + 1\<rparr>)"
| count_local: "\<not> buggy \<Longrightarrow> w < length (todo s) \<Longrightarrow> 0 < todo s ! w \<Longrightarrow>
    count_step buggy s (s\<lparr>todo := (todo s)[w := todo s ! w - 1],
      local_counters := (local_counters s)[w := local_counters s ! w + 1]\<rparr>)"

inductive count_steps :: "bool \<Rightarrow> counting \<Rightarrow> counting \<Rightarrow> bool" for buggy where
  count_none: "count_steps buggy s s"
| count_more: "count_steps buggy s t \<Longrightarrow> count_step buggy t u \<Longrightarrow> count_steps buggy s u"

text \<open>The number the scenario reports once its workers have joined.\<close>

definition merged :: "bool \<Rightarrow> counting \<Rightarrow> int" where
  "merged buggy s = (if buggy then shared_counter s else shared_counter s + sum_list (local_counters s))"

definition left_todo :: "counting \<Rightarrow> nat" where
  "left_todo s = sum_list (todo s)"

lemma sum_list_pred: "i < length xs \<Longrightarrow> 0 < xs ! i \<Longrightarrow> Suc (sum_list (xs[i := xs ! i - 1])) = sum_list (xs :: nat list)"
proof (induction xs arbitrary: i)
  case (Cons x xs)
  then show ?case by (cases i) auto
qed simp

lemma sum_list_succ: "i < length xs \<Longrightarrow> sum_list (xs[i := xs ! i + 1]) = sum_list (xs :: int list) + 1"
proof (induction xs arbitrary: i)
  case (Cons x xs)
  then show ?case by (cases i) auto
qed simp

lemma count_step_balance:
  assumes "count_step b s t" and "length (local_counters s) = length (todo s)"
  shows "Suc (left_todo t) = left_todo s \<and> merged b t = merged b s + 1 \<and> length (local_counters t) = length (todo t)"
  using assms by cases (auto simp: left_todo_def merged_def sum_list_pred [simplified] sum_list_succ)

lemma count_balance:
  assumes "count_steps b s t" and "length (local_counters s) = length (todo s)"
  shows "merged b t + int (left_todo t) = merged b s + int (left_todo s) \<and> length (local_counters t) = length (todo t)"
  using assms by (induction rule: count_steps.induct) (auto dest!: count_step_balance)

lemma count_progress: "0 < left_todo s \<Longrightarrow> \<exists>t. count_step b s t"
proof -
  assume "0 < left_todo s"
  then obtain x where "x \<in> set (todo s)" "x \<noteq> 0"
    using sum_list_eq_0_iff [of "todo s"] unfolding left_todo_def by (metis less_irrefl)
  then obtain w where "w < length (todo s)" "0 < todo s ! w" by (auto simp: in_set_conv_nth)
  then show ?thesis by (cases b) (blast intro: count_step.intros)+
qed

lemma counting_new_balance:
  "left_todo (counting_new n) = COUNT_WORKERS * (n div COUNT_WORKERS)" "merged b (counting_new n) = 0"
  "length (local_counters (counting_new n)) = length (todo (counting_new n))"
  by (simp_all add: counting_new_def left_todo_def merged_def sum_list_replicate)

subsection \<open>Scenario 1: polling\<close>

text \<open>The worker tests \<open>stop\<close>, then looks into the queue once; a message it has taken it runs.\<close>

datatype poller = P_Test | P_Look | P_Run | P_Gone

record polling =
  p_queue :: nat
  p_left :: nat
  p_done :: nat
  p_wasted :: nat
  p_stop :: bool
  p_worker :: poller

definition polling_new :: "nat \<Rightarrow> polling" where
  "polling_new n = \<lparr> p_queue = 0, p_left = n, p_done = 0, p_wasted = 0, p_stop = False, p_worker = P_Test \<rparr>"

inductive poll_step :: "nat \<Rightarrow> polling \<Rightarrow> polling \<Rightarrow> bool" for n where
  test_on: "p_worker s = P_Test \<Longrightarrow> \<not> p_stop s \<Longrightarrow> poll_step n s (s\<lparr>p_worker := P_Look\<rparr>)"
| test_off: "p_worker s = P_Test \<Longrightarrow> p_stop s \<Longrightarrow> poll_step n s (s\<lparr>p_worker := P_Gone\<rparr>)"
| look_some: "p_worker s = P_Look \<Longrightarrow> 0 < p_queue s \<Longrightarrow>
    poll_step n s (s\<lparr>p_queue := p_queue s - 1, p_worker := P_Run\<rparr>)"
| look_none: "p_worker s = P_Look \<Longrightarrow> p_queue s = 0 \<Longrightarrow>
    poll_step n s (s\<lparr>p_wasted := p_wasted s + 1, p_worker := P_Test\<rparr>)"
| run_message: "p_worker s = P_Run \<Longrightarrow> poll_step n s (s\<lparr>p_done := p_done s + 1, p_worker := P_Test\<rparr>)"
| push_message: "0 < p_left s \<Longrightarrow> poll_step n s (s\<lparr>p_left := p_left s - 1, p_queue := p_queue s + 1\<rparr>)"
| set_stop: "p_left s = 0 \<Longrightarrow> n \<le> p_done s \<Longrightarrow> poll_step n s (s\<lparr>p_stop := True\<rparr>)"

inductive poll_steps :: "nat \<Rightarrow> polling \<Rightarrow> polling \<Rightarrow> bool" for n where
  poll_none: "poll_steps n s s"
| poll_more: "poll_steps n s t \<Longrightarrow> poll_step n t u \<Longrightarrow> poll_steps n s u"

definition poll_ok :: "nat \<Rightarrow> polling \<Rightarrow> bool" where
  "poll_ok n s \<longleftrightarrow> p_left s + p_queue s + (if p_worker s = P_Run then 1 else 0) + p_done s = n
     \<and> (p_stop s \<longrightarrow> p_done s = n) \<and> (p_worker s = P_Gone \<longrightarrow> p_stop s)"

lemma poll_step_ok: "poll_step n s t \<Longrightarrow> poll_ok n s \<Longrightarrow> poll_ok n t"
  by (induction rule: poll_step.induct) (auto simp: poll_ok_def split: if_splits)

lemma poll_steps_ok: "poll_steps n s t \<Longrightarrow> poll_ok n s \<Longrightarrow> poll_ok n t"
  by (induction rule: poll_steps.induct) (auto intro: poll_step_ok)

lemma polling_new_ok: "poll_ok n (polling_new n)"
  by (simp add: poll_ok_def polling_new_def)

lemma poll_trans: "poll_steps n t u \<Longrightarrow> poll_steps n s t \<Longrightarrow> poll_steps n s u"
  by (induction rule: poll_steps.induct) (auto intro: poll_more)

text \<open>With an empty queue the worker burns as many rounds as it likes.\<close>

lemma polling_wastes: "\<exists>s. poll_steps n (polling_new n) s \<and> s = (polling_new n)\<lparr>p_wasted := k\<rparr>"
proof (induction k)
  case 0
  have "(polling_new n)\<lparr>p_wasted := 0\<rparr> = polling_new n" by (simp add: polling_new_def)
  then show ?case using poll_none [of n "polling_new n"] by metis
next
  case (Suc k)
  let ?s = "(polling_new n)\<lparr>p_wasted := k\<rparr>"
  have "poll_step n ?s (?s\<lparr>p_worker := P_Look\<rparr>)" by (rule test_on) (simp_all add: polling_new_def)
  moreover have "poll_step n (?s\<lparr>p_worker := P_Look\<rparr>) ((polling_new n)\<lparr>p_wasted := Suc k\<rparr>)"
    using look_none [of "?s\<lparr>p_worker := P_Look\<rparr>" n] by (simp add: polling_new_def)
  ultimately show ?case using Suc by (blast intro: poll_more)
qed

subsection \<open>The collector of the IMS scenarios\<close>

text \<open>CPU samples are doubles and left out; the other counters are 64 bits wide and wrap.\<close>

record call_metrics =
  calls_started :: u64
  calls_completed :: u64
  total_duration_us :: u64
  max_duration_us :: u64
  mem_samples :: "u64 list"

record call_stats =
  st_started :: u64
  st_completed :: u64
  st_avg_duration :: u64
  st_max_duration :: u64
  st_avg_mem :: u64
  st_max_mem :: u64

definition call_metrics_reset :: "call_metrics" where
  "call_metrics_reset = \<lparr> calls_started = 0, calls_completed = 0, total_duration_us = 0, max_duration_us = 0, mem_samples = [] \<rparr>"

definition recordCallStart :: "call_metrics \<Rightarrow> call_metrics" where
  "recordCallStart m = m\<lparr>calls_started := calls_started m + 1\<rparr>"

definition recordCallEnd :: "u64 \<Rightarrow> call_metrics \<Rightarrow> call_metrics" where
  "recordCallEnd d m =
     m\<lparr>calls_completed := calls_completed m + 1, total_duration_us := total_duration_us m + d,
       max_duration_us := (if d > max_duration_us m then d else max_duration_us m)\<rparr>"

definition recordMemoryMB :: "u64 \<Rightarrow> call_metrics \<Rightarrow> call_metrics" where
  "recordMemoryMB mb m = m\<lparr>mem_samples := mem_samples m @ [mb]\<rparr>"

definition getStats :: "call_metrics \<Rightarrow> call_stats" where
  "getStats m =
     \<lparr> st_started = calls_started m, st_completed = calls_completed m,
       st_avg_duration = (if calls_completed m > 0 then total_duration_us m div calls_completed m else 0),
       st_max_duration = max_duration_us m,
       st_avg_mem = (if mem_samples m = [] then 0 else sum_list (mem_samples m) div word_of_nat (length (mem_samples m))),
       st_max_mem = foldl (\<lambda>a x. if x > a then x else a) 0 (mem_samples m) \<rparr>"

subsection \<open>The load generator\<close>

text \<open>One round of \<open>generateCalls\<close>: \<open>None\<close> when \<open>call_duration_ms * 1000\<close> leaves the range of
  \<open>int\<close>. The caller is the random choice, the callee the next phone.\<close>

definition INT_MAX :: int where "INT_MAX = 2 ^ 31 - 1"

definition next_callee :: "int \<Rightarrow> int \<Rightarrow> int" where
  "next_callee num_ues caller_idx = (caller_idx + 1) mod num_ues"

definition generate_call :: "int \<Rightarrow> call_metrics \<Rightarrow> call_metrics option" where
  "generate_call duration_ms m =
     (if \<bar>duration_ms * 1000\<bar> > INT_MAX then None
      else Some (recordCallEnd (word_of_int (duration_ms * 1000)) (recordCallStart m)))"

fun generateCalls :: "nat \<Rightarrow> int \<Rightarrow> call_metrics \<Rightarrow> call_metrics option" where
  "generateCalls 0 d m = Some m"
| "generateCalls (Suc k) d m = (case generate_call d m of None \<Rightarrow> None | Some m' \<Rightarrow> generateCalls k d m')"

section \<open>The properties of these scenarios\<close>

text \<open>
  Properties of the counting and polling scenarios and of the load generator.
\<close>

text \<open>C1. Both versions of scenario 2 end, under every interleaving of their eight workers, with the same
  number: \<open>8 * (n div 8)\<close>, the requested \<open>n\<close> only when it is a multiple of 8. While a worker has work
  left, somebody can go on, and every step is one count.\<close>
theorem counters_agree:
  assumes "count_steps buggy (counting_new n) s"
  shows "merged buggy s + int (left_todo s) = int (COUNT_WORKERS * (n div COUNT_WORKERS))
       \<and> (if left_todo s = 0 then merged buggy s = int n - int (n mod 8) else \<exists>t. count_step buggy s t)"
proof -
  have b: "merged buggy s + int (left_todo s) = int (COUNT_WORKERS * (n div COUNT_WORKERS))"
    using count_balance [OF assms counting_new_balance(3)] by (simp add: counting_new_balance)
  moreover have "int n - int (n mod 8) = int (COUNT_WORKERS * (n div COUNT_WORKERS))"
    by (simp add: COUNT_WORKERS_def minus_mod_eq_mult_div [symmetric])
  ultimately show ?thesis using count_progress [of s buggy] by simp
qed

theorem counters_agree_witness:
  "\<exists>s. count_steps True (counting_new 9) s \<and> merged True s = 1 \<and> left_todo s = 7"
proof -
  let ?n = "counting_new 9"
  let ?s = "?n\<lparr>todo := (todo ?n)[0 := todo ?n ! 0 - 1], shared_counter := shared_counter ?n + 1\<rparr>"
  have c: "count_step True ?n ?s"
    by (rule count_shared) (simp_all add: counting_new_def COUNT_WORKERS_def)
  then have r: "count_steps True ?n ?s" by (blast intro: count_none count_more)
  have "left_todo ?s = 7"
    using count_step_balance [OF c counting_new_balance(3)] by (simp only: counting_new_balance) (simp add: COUNT_WORKERS_def)
  moreover from this have "merged True ?s = 1" using counters_agree [OF r] by (simp add: COUNT_WORKERS_def)
  ultimately show ?thesis using r by blast
qed

text \<open>C2. The polling worker of scenario 1 is only gone when all \<open>n\<close> messages have been processed and its
  queue is empty; but there is no bound on the rounds it wastes before the first message arrives.\<close>
theorem polling_processes_all:
  assumes "poll_steps n (polling_new n) s"
  shows "(p_worker s = P_Gone \<longrightarrow> p_done s = n \<and> p_queue s = 0 \<and> p_left s = 0)
       \<and> p_done s \<le> n \<and> (\<forall>k. \<exists>t. poll_steps n (polling_new n) t \<and> p_wasted t = k \<and> p_done t = 0)"
proof -
  have "poll_ok n s" by (rule poll_steps_ok [OF assms polling_new_ok])
  moreover have "\<exists>t. poll_steps n (polling_new n) t \<and> p_wasted t = k \<and> p_done t = 0" for k
    using polling_wastes [of n k] by (auto simp: polling_new_def)
  ultimately show ?thesis by (auto simp: poll_ok_def split: if_splits)
qed

theorem polling_processes_all_witness:
  "\<exists>s. poll_steps 0 (polling_new 0) s \<and> p_worker s = P_Gone \<and> p_done s = 0"
proof -
  let ?s = "(polling_new 0)\<lparr>p_stop := True\<rparr>"
  have "poll_step 0 (polling_new 0) ?s" by (rule set_stop) (simp_all add: polling_new_def)
  moreover have "poll_step 0 ?s (?s\<lparr>p_worker := P_Gone\<rparr>)" by (rule test_off) (simp_all add: polling_new_def)
  ultimately have r: "poll_steps 0 (polling_new 0) (?s\<lparr>p_worker := P_Gone\<rparr>)" by (blast intro: poll_none poll_more)
  then show ?thesis using polling_processes_all [OF r] by (intro exI [of _ "?s\<lparr>p_worker := P_Gone\<rparr>"]) simp
qed

definition one_call :: "u64 \<Rightarrow> call_metrics \<Rightarrow> call_metrics" where
  "one_call w m = recordCallEnd w (recordCallStart m)"

lemma generated:
  assumes "0 \<le> d" and "d * 1000 \<le> INT_MAX"
  shows "generateCalls k d m = Some ((one_call (word_of_int (d * 1000)) ^^ k) m)"
proof (induction k arbitrary: m)
  case (Suc k)
  have "generate_call d m = Some (one_call (word_of_int (d * 1000)) m)"
    using assms by (simp add: generate_call_def one_call_def del: of_int_mult)
  with Suc show ?case by (simp only: generateCalls.simps option.case funpow_Suc_right comp_apply)
qed simp

lemma recorded:
  "(one_call w ^^ k) call_metrics_reset =
     \<lparr> calls_started = word_of_nat k, calls_completed = word_of_nat k, total_duration_us = word_of_nat k * w,
       max_duration_us = (if k = 0 then 0 else w), mem_samples = [] \<rparr>"
proof (induction k)
  case (Suc k)
  have "w > 0 \<longleftrightarrow> w \<noteq> 0" by (simp add: word_neq_0_conv)
  with Suc show ?case by (auto simp: one_call_def recordCallEnd_def recordCallStart_def algebra_simps)
qed (simp add: call_metrics_reset_def)

text \<open>C3. After \<open>k\<close> rounds of the load generator with calls of \<open>d\<close> milliseconds the report says \<open>k\<close>
  calls started and completed, with an average and a maximal duration of \<open>1000 * d\<close> microseconds, as long
  as the sum of the durations stays below \<open>2 ^ 64\<close>.\<close>
theorem load_report:
  assumes "0 \<le> d" and "d * 1000 \<le> INT_MAX" and "int k * (d * 1000) < 2 ^ 64" and "k < 2 ^ 64"
  shows "map_option getStats (generateCalls k d call_metrics_reset) =
     Some \<lparr> st_started = word_of_nat k, st_completed = word_of_nat k,
       st_avg_duration = (if k = 0 then 0 else word_of_int (d * 1000)),
       st_max_duration = (if k = 0 then 0 else word_of_int (d * 1000)), st_avg_mem = 0, st_max_mem = 0 \<rparr>"
proof -
  let ?w = "word_of_int (d * 1000) :: u64" and ?k = "word_of_nat k :: u64"
  have k: "unat ?k = k" using assms(4) by (simp add: unat_of_nat take_bit_nat_eq_self)
  have "uint ?w = d * 1000"
    using assms(1,2) by (simp add: uint_word_of_int INT_MAX_def del: of_int_mult)
  then have w: "unat ?w = nat (d * 1000)" by (simp add: unat_eq_nat_uint)
  have "k * nat (d * 1000) < 2 ^ 64"
  proof -
    have "int (k * nat (d * 1000)) < 2 ^ 64" using assms(1,3) by simp
    then have "int (k * nat (d * 1000)) < int (2 ^ 64)" by simp
    then show ?thesis by (simp only: of_nat_less_iff)
  qed
  then have "unat (?k * ?w) = k * nat (d * 1000)" by (simp add: unat_word_ariths(2) k w del: of_int_mult)
  then have "0 < k \<Longrightarrow> ?k * ?w div ?k = ?w"
    by (intro word_unat_eq_iff [THEN iffD2]) (simp add: unat_div k w del: of_int_mult)
  moreover have "0 < ?k \<longleftrightarrow> 0 < k" by (simp add: word_less_nat_alt k)
  ultimately show ?thesis
    by (simp add: generated [OF assms(1,2)] recorded getStats_def del: of_int_mult)
qed

theorem load_report_witness:
  "map_option (\<lambda>m. st_avg_duration (getStats m)) (generateCalls 3 2000 call_metrics_reset) = Some 2000000"
proof -
  have "map_option getStats (generateCalls 3 2000 call_metrics_reset) =
     Some \<lparr> st_started = 3, st_completed = 3, st_avg_duration = 2000000, st_max_duration = 2000000,
       st_avg_mem = 0, st_max_mem = 0 \<rparr>"
    using load_report [of 2000 3] by (simp add: INT_MAX_def)
  then show ?thesis by (auto simp: map_option_case split: option.splits)
qed

end
