(* ===== verification/Upf_Drivers.thy ===== *)
theory Upf_Drivers
  imports Upf_Path_Laws
begin

text \<open>
  The threads around a forwarding path (\<open>start\<close>, \<open>stop\<close> and the worker loops of \<open>socket_path.h\<close> and
  \<open>dpdk_path.h\<close>) together with the programs that drive it (\<open>upf_fastpath_demo.cpp\<close>, which goes on after
  a refused packet, and \<open>benchmark.cpp\<close>, which tries it again and then waits). A step is an operation on
  the path, a test, a notification or falling asleep; the mutex of the socket path is held from a test
  that fails until the worker sleeps. Clock readings are free.
\<close>

subsection \<open>Paths and drivers\<close>

record 's path_ops =
  po_offer :: "Packet \<Rightarrow> 's \<Rightarrow> bool \<times> 's"
  po_serve :: "u64 \<Rightarrow> 's \<Rightarrow> 's"
  po_idle :: "'s \<Rightarrow> bool"
  po_stats :: "'s \<Rightarrow> PathStats"
  po_sleeps :: bool

definition socket_ops :: "RuleTable \<Rightarrow> SocketPath path_ops" where
  "socket_ops rt = \<lparr> po_offer = socket_enqueue, po_serve = socket_work rt, po_idle = (\<lambda>s. sk_queue s = []),
     po_stats = sk_stats, po_sleeps = True \<rparr>"

definition dpdk_ops :: "RuleTable \<Rightarrow> DpdkPath path_ops" where
  "dpdk_ops rt = \<lparr> po_offer = dpdk_rx_enqueue, po_serve = lcore_poll rt, po_idle = (\<lambda>s. ring_empty (dp_ring s)),
     po_stats = dp_stats, po_sleeps = False \<rparr>"

datatype main_at = M_Offer | M_Wake | M_Wait | M_Stop | M_Notify | M_Join | M_Done

datatype worker_at = W_Test | W_Doze | W_Asleep | W_Take | W_Drain | W_Gone

text \<open>\<open>d_refused\<close> counts refused offers, for the properties; \<open>d_waited\<close> is what the wait returned.\<close>

record 's driver =
  d_path :: 's
  d_todo :: "Packet list"
  d_main :: main_at
  d_running :: bool
  d_worker :: worker_at
  d_refused :: nat
  d_waited :: "bool option"

definition driver_new :: "'s \<Rightarrow> Packet list \<Rightarrow> 's driver" where
  "driver_new s ps = \<lparr> d_path = s, d_todo = ps, d_main = M_Offer, d_running = True, d_worker = W_Test,
     d_refused = 0, d_waited = None \<rparr>"

definition notified :: "worker_at \<Rightarrow> worker_at" where
  "notified w = (if w = W_Asleep then W_Test else w)"

definition done_count :: "PathStats \<Rightarrow> u64" where
  "done_count st = pkts_forwarded st + pkts_dropped st"

inductive main_step :: "'s path_ops \<Rightarrow> bool \<Rightarrow> u64 \<Rightarrow> 's driver \<Rightarrow> 's driver \<Rightarrow> bool" for P retry target where
  packet_taken: "d_main s = M_Offer \<Longrightarrow> d_worker s \<noteq> W_Doze \<Longrightarrow> d_todo s = p # ps \<Longrightarrow>
    po_offer P (p\<lparr>p_arrival_ns := now\<rparr>) (d_path s) = (True, t) \<Longrightarrow>
    main_step P retry target s (s\<lparr>d_path := t, d_todo := ps, d_main := (if po_sleeps P then M_Wake else M_Offer)\<rparr>)"
| packet_refused: "d_main s = M_Offer \<Longrightarrow> d_worker s \<noteq> W_Doze \<Longrightarrow> d_todo s = p # ps \<Longrightarrow>
    po_offer P (p\<lparr>p_arrival_ns := now\<rparr>) (d_path s) = (False, t) \<Longrightarrow>
    main_step P retry target s
      (s\<lparr>d_path := t, d_todo := (if retry then p # ps else ps), d_refused := d_refused s + 1\<rparr>)"
| worker_notified: "d_main s = M_Wake \<Longrightarrow>
    main_step P retry target s (s\<lparr>d_main := M_Offer, d_worker := notified (d_worker s)\<rparr>)"
| all_offered: "d_main s = M_Offer \<Longrightarrow> d_todo s = [] \<Longrightarrow>
    main_step P retry target s (s\<lparr>d_main := (if retry then M_Wait else M_Stop)\<rparr>)"
| wait_over: "d_main s = M_Wait \<Longrightarrow> target \<le> done_count (po_stats P (d_path s)) \<Longrightarrow>
    main_step P retry target s (s\<lparr>d_main := M_Stop, d_waited := Some True\<rparr>)"
| wait_timeout: "d_main s = M_Wait \<Longrightarrow>
    main_step P retry target s (s\<lparr>d_main := M_Stop, d_waited := Some False\<rparr>)"
| running_cleared: "d_main s = M_Stop \<Longrightarrow>
    main_step P retry target s (s\<lparr>d_running := False, d_main := (if po_sleeps P then M_Notify else M_Join)\<rparr>)"
| stop_notified: "d_main s = M_Notify \<Longrightarrow>
    main_step P retry target s (s\<lparr>d_main := M_Join, d_worker := notified (d_worker s)\<rparr>)"
| joined: "d_main s = M_Join \<Longrightarrow> d_worker s = W_Gone \<Longrightarrow> main_step P retry target s (s\<lparr>d_main := M_Done\<rparr>)"

inductive worker_step :: "'s path_ops \<Rightarrow> 's driver \<Rightarrow> 's driver \<Rightarrow> bool" for P where
  queue_served: "po_sleeps P \<Longrightarrow> d_worker s = W_Test \<Longrightarrow> \<not> po_idle P (d_path s) \<Longrightarrow>
    worker_step P s (s\<lparr>d_path := po_serve P now (d_path s)\<rparr>)"
| nothing_to_do: "po_sleeps P \<Longrightarrow> d_worker s = W_Test \<Longrightarrow> po_idle P (d_path s) \<Longrightarrow>
    worker_step P s (s\<lparr>d_worker := (if d_running s then W_Doze else W_Drain)\<rparr>)"
| falls_asleep: "d_worker s = W_Doze \<Longrightarrow> worker_step P s (s\<lparr>d_worker := W_Asleep\<rparr>)"
| wakes_up: "d_worker s = W_Asleep \<Longrightarrow> worker_step P s (s\<lparr>d_worker := W_Test\<rparr>)"
| poll_test: "\<not> po_sleeps P \<Longrightarrow> d_worker s = W_Test \<Longrightarrow>
    worker_step P s (s\<lparr>d_worker := (if d_running s then W_Take else W_Drain)\<rparr>)"
| ring_polled: "d_worker s = W_Take \<Longrightarrow> worker_step P s (s\<lparr>d_path := po_serve P now (d_path s), d_worker := W_Test\<rparr>)"
| drain_served: "d_worker s = W_Drain \<Longrightarrow> \<not> po_idle P (d_path s) \<Longrightarrow>
    worker_step P s (s\<lparr>d_path := po_serve P now (d_path s)\<rparr>)"
| drained: "d_worker s = W_Drain \<Longrightarrow> po_idle P (d_path s) \<Longrightarrow> worker_step P s (s\<lparr>d_worker := W_Gone\<rparr>)"

definition drive_step :: "'s path_ops \<Rightarrow> bool \<Rightarrow> u64 \<Rightarrow> 's driver \<Rightarrow> 's driver \<Rightarrow> bool" where
  "drive_step P retry target s t \<longleftrightarrow> main_step P retry target s t \<or> worker_step P s t"

lemma by_main: "main_step P retry target s t \<Longrightarrow> (drive_step P retry target)\<^sup>*\<^sup>* s t"
  by (simp add: drive_step_def r_into_rtranclp)

lemma by_worker: "worker_step P s t \<Longrightarrow> (drive_step P retry target)\<^sup>*\<^sup>* s t"
  by (simp add: drive_step_def r_into_rtranclp)

subsection \<open>What a driver relies on\<close>

definition passed_by :: "nat \<Rightarrow> tally \<Rightarrow> tally" where
  "passed_by k c = (case c of (rx, f, d, n) \<Rightarrow> (rx, f + word_of_nat k, d, n))"

locale forwarder =
  fixes P :: "'s path_ops"
    and good :: "Packet \<Rightarrow> bool"
    and ok :: "'s \<Rightarrow> bool"
    and backlog :: "'s \<Rightarrow> nat"
    and cap :: nat
  assumes offer_room: "ok s \<Longrightarrow> good p \<Longrightarrow> backlog s < cap \<Longrightarrow>
      \<exists>t. po_offer P (p\<lparr>p_arrival_ns := now\<rparr>) s = (True, t) \<and> ok t \<and> backlog t = backlog s + 1
        \<and> counters (po_stats P t) = tally_rx (counters (po_stats P s))"
    and offer_full: "ok s \<Longrightarrow> good p \<Longrightarrow> cap \<le> backlog s \<Longrightarrow>
      \<exists>t. po_offer P (p\<lparr>p_arrival_ns := now\<rparr>) s = (False, t) \<and> ok t \<and> backlog t = backlog s
        \<and> counters (po_stats P t) = tally_full (counters (po_stats P s))"
    and serve_ok: "ok s \<Longrightarrow> ok (po_serve P now s)"
    and serve_less: "ok s \<Longrightarrow> backlog (po_serve P now s) \<le> backlog s - 1"
    and serve_count: "ok s \<Longrightarrow> counters (po_stats P (po_serve P now s)) =
      passed_by (backlog s - backlog (po_serve P now s)) (counters (po_stats P s))"
    and idle_iff: "ok s \<Longrightarrow> po_idle P s \<longleftrightarrow> backlog s = 0"
begin

text \<open>The books of a path after some packets: \<open>a\<close> were accepted, \<open>r\<close> refused, \<open>k\<close> are still to be offered.\<close>

definition books :: "nat \<Rightarrow> bool \<Rightarrow> nat \<Rightarrow> nat \<Rightarrow> 's \<Rightarrow> bool" where
  "books n retry k r u \<longleftrightarrow> (\<exists>a. a + k + (if retry then 0 else r) = n \<and> backlog u \<le> a
     \<and> counters (po_stats P u) = (word_of_nat (a + r), word_of_nat (a - backlog u), word_of_nat r, 0))"

definition driver_ok :: "nat \<Rightarrow> bool \<Rightarrow> 's driver \<Rightarrow> bool" where
  "driver_ok n retry s \<longleftrightarrow> ok (d_path s) \<and> list_all good (d_todo s)
     \<and> books n retry (length (d_todo s)) (d_refused s) (d_path s) \<and> (n \<le> cap \<longrightarrow> d_refused s = 0)
     \<and> (d_running s \<longleftrightarrow> d_main s \<in> {M_Offer, M_Wake, M_Wait, M_Stop})
     \<and> (d_main s \<notin> {M_Offer, M_Wake} \<longrightarrow> d_todo s = [])
     \<and> (d_worker s \<in> {W_Drain, W_Gone} \<longrightarrow> \<not> d_running s) \<and> (d_worker s = W_Gone \<longrightarrow> backlog (d_path s) = 0)
     \<and> (d_main s = M_Done \<longrightarrow> d_worker s = W_Gone)"

lemma driver_new_ok:
  assumes "ok s0" and "backlog s0 = 0" and "counters (po_stats P s0) = (0, 0, 0, 0)" and "list_all good ps"
  shows "driver_ok (length ps) retry (driver_new s0 ps)"
  using assms by (simp add: driver_ok_def driver_new_def books_def)

lemma offer_taken:
  assumes "po_offer P (p\<lparr>p_arrival_ns := now\<rparr>) s = (True, u)" and "ok s" and "good p" and "books n retry (Suc k) r s"
  shows "ok u \<and> books n retry k r u"
proof -
  have "backlog s < cap"
    using offer_full [OF assms(2,3), of now] assms(1) by (cases "backlog s < cap") auto
  with offer_room [OF assms(2,3), of now] assms(1)
  have u: "ok u" "backlog u = backlog s + 1" "counters (po_stats P u) = tally_rx (counters (po_stats P s))" by auto
  obtain a where "a + Suc k + (if retry then 0 else r) = n" "backlog s \<le> a"
    "counters (po_stats P s) = (word_of_nat (a + r), word_of_nat (a - backlog s), word_of_nat r, 0)"
    using assms(4) unfolding books_def by blast
  with u show ?thesis unfolding books_def by (intro conjI exI [of _ "Suc a"]) (simp_all add: ac_simps)
qed

lemma offer_refused:
  assumes "po_offer P (p\<lparr>p_arrival_ns := now\<rparr>) s = (False, u)" and "ok s" and "good p" and "books n retry (Suc k) r s"
  shows "ok u \<and> books n retry (if retry then Suc k else k) (Suc r) u \<and> \<not> n \<le> cap"
proof -
  have full: "cap \<le> backlog s"
    using offer_room [OF assms(2,3), of now] assms(1) by (cases "backlog s < cap") auto
  with offer_full [OF assms(2,3), of now] assms(1)
  have u: "ok u" "backlog u = backlog s" "counters (po_stats P u) = tally_full (counters (po_stats P s))" by auto
  obtain a where a: "a + Suc k + (if retry then 0 else r) = n" "backlog s \<le> a"
    "counters (po_stats P s) = (word_of_nat (a + r), word_of_nat (a - backlog s), word_of_nat r, 0)"
    using assms(4) unfolding books_def by blast
  with full have "\<not> n \<le> cap" by auto
  with a u show ?thesis unfolding books_def by (intro conjI exI [of _ a]) (auto simp: ac_simps)
qed

lemma served_books:
  assumes "ok s" and "books n retry k r s"
  shows "ok (po_serve P now s) \<and> books n retry k r (po_serve P now s)"
proof -
  let ?u = "po_serve P now s"
  obtain a where a: "a + k + (if retry then 0 else r) = n" "backlog s \<le> a"
    "counters (po_stats P s) = (word_of_nat (a + r), word_of_nat (a - backlog s), word_of_nat r, 0)"
    using assms(2) unfolding books_def by blast
  have le: "backlog ?u \<le> backlog s" using serve_less [OF assms(1), of now] by simp
  then have "a - backlog ?u = (a - backlog s) + (backlog s - backlog ?u)" using a(2) by simp
  then have "counters (po_stats P ?u) = (word_of_nat (a + r), word_of_nat (a - backlog ?u), word_of_nat r, 0)"
    unfolding serve_count [OF assms(1)] a(3) by (simp only: passed_by_def prod.case of_nat_add)
  with serve_ok [OF assms(1)] a le show ?thesis unfolding books_def by (intro conjI exI [of _ a]) auto
qed

lemma main_ok:
  assumes "main_step P retry target s t" and "driver_ok n retry s"
  shows "driver_ok n retry t"
  using assms(1)
proof cases
  case (packet_taken p ps now u)
  with offer_taken [of now p "d_path s" u n retry "length ps" "d_refused s"] assms(2)
  show ?thesis by (auto simp: driver_ok_def)
next
  case (packet_refused p ps now u)
  with offer_refused [of now p "d_path s" u n retry "length ps" "d_refused s"] assms(2)
  show ?thesis by (auto simp: driver_ok_def)
qed (use assms(2) in \<open>auto simp: driver_ok_def notified_def split: if_splits\<close>)

lemma worker_ok:
  assumes "worker_step P s t" and "driver_ok n retry s"
  shows "driver_ok n retry t"
proof -
  have sv: "ok (po_serve P now (d_path s)) \<and> books n retry (length (d_todo s)) (d_refused s) (po_serve P now (d_path s))" for now
    using assms(2) served_books unfolding driver_ok_def by blast
  from assms(1) show ?thesis
  proof cases
    case drained
    with assms(2) show ?thesis using idle_iff [of "d_path s"] by (auto simp: driver_ok_def)
  qed (use assms(2) sv in \<open>auto simp: driver_ok_def split: if_splits\<close>)
qed

lemma drive_ok: "(drive_step P retry target)\<^sup>*\<^sup>* s t \<Longrightarrow> driver_ok n retry s \<Longrightarrow> driver_ok n retry t"
  by (induction rule: rtranclp_induct) (auto simp: drive_step_def intro: main_ok worker_ok)

text \<open>What is left to do, for the main thread first, then for the queue, then for the worker.\<close>

definition main_left :: "'s driver \<Rightarrow> nat" where
  "main_left s = (case d_main s of M_Offer \<Rightarrow> 2 * length (d_todo s) + 6 | M_Wake \<Rightarrow> 2 * length (d_todo s) + 7
     | M_Wait \<Rightarrow> 5 | M_Stop \<Rightarrow> 4 | M_Notify \<Rightarrow> 3 | M_Join \<Rightarrow> 2 | M_Done \<Rightarrow> 0)"

lemma main_left_worker [simp]:
  "main_left (s\<lparr>d_path := u\<rparr>) = main_left s" "main_left (s\<lparr>d_worker := w\<rparr>) = main_left s"
  by (simp_all add: main_left_def split: main_at.split)

definition worker_left :: "'s driver \<Rightarrow> nat" where
  "worker_left s = (case d_worker s of W_Test \<Rightarrow> 2 | W_Doze \<Rightarrow> 4 | W_Asleep \<Rightarrow> 3
     | W_Take \<Rightarrow> (if d_running s then 1 else 3) | W_Drain \<Rightarrow> 1 | W_Gone \<Rightarrow> 0)"

definition closer :: "('s driver \<times> 's driver) set" where
  "closer = inv_image (less_than <*lex*> less_than <*lex*> less_than) (\<lambda>s. (main_left s, backlog (d_path s), worker_left s))"

lemma wf_closer: "wf closer"
  by (simp add: closer_def wf_lex_prod)

lemma closerI:
  "main_left t < main_left s \<Longrightarrow> (t, s) \<in> closer"
  "main_left t = main_left s \<Longrightarrow> backlog (d_path t) < backlog (d_path s) \<Longrightarrow> (t, s) \<in> closer"
  "main_left t = main_left s \<Longrightarrow> backlog (d_path t) \<le> backlog (d_path s) \<Longrightarrow> worker_left t < worker_left s \<Longrightarrow> (t, s) \<in> closer"
  unfolding closer_def by auto

lemma serve_closer:
  assumes "ok (d_path s)" and "0 < backlog (d_path s)"
  shows "(s\<lparr>d_path := po_serve P now (d_path s), d_worker := w\<rparr>, s) \<in> closer"
    and "(s\<lparr>d_path := po_serve P now (d_path s)\<rparr>, s) \<in> closer"
  by (rule closerI(2); use serve_less [OF assms(1), of now] assms(2) in simp)+

lemma turn_closer:
  "worker_step P s (s\<lparr>d_worker := w\<rparr>) \<Longrightarrow> worker_left (s\<lparr>d_worker := w\<rparr>) < worker_left s \<Longrightarrow>
    \<exists>t. worker_step P s t \<and> (t, s) \<in> closer"
  by (intro exI conjI, assumption) (rule closerI(3), simp_all)

lemma worker_closer:
  assumes "driver_ok n retry s" and "d_worker s \<noteq> W_Gone" and "\<not> d_running s \<or> 0 < backlog (d_path s)"
  shows "\<exists>t. worker_step P s t \<and> (t, s) \<in> closer"
proof -
  have u: "ok (d_path s)" using assms(1) by (simp add: driver_ok_def)
  show ?thesis
  proof (cases "d_worker s")
    case W_Test
    show ?thesis
    proof (cases "po_sleeps P \<and> \<not> po_idle P (d_path s)")
      case True
      then show ?thesis using queue_served [of P s 0] serve_closer(2) [OF u, of 0] idle_iff [OF u] W_Test by auto
    next
      case False
      show ?thesis
      proof (cases "po_sleeps P")
        case True
        have "\<not> d_running s" using assms(3) idle_iff [OF u] False True by auto
        moreover have "worker_step P s (s\<lparr>d_worker := (if d_running s then W_Doze else W_Drain)\<rparr>)"
          using W_Test False True by (intro nothing_to_do) auto
        ultimately have "worker_step P s (s\<lparr>d_worker := W_Drain\<rparr>)" by simp
        then show ?thesis by (rule turn_closer) (use W_Test in \<open>simp add: worker_left_def\<close>)
      next
        case False
        then have "worker_step P s (s\<lparr>d_worker := (if d_running s then W_Take else W_Drain)\<rparr>)" using W_Test by (rule poll_test)
        then show ?thesis by (rule turn_closer) (use W_Test in \<open>simp add: worker_left_def\<close>)
      qed
    qed
  next
    case W_Doze
    then have "worker_step P s (s\<lparr>d_worker := W_Asleep\<rparr>)" by (rule falls_asleep)
    then show ?thesis by (rule turn_closer) (use W_Doze in \<open>simp add: worker_left_def\<close>)
  next
    case W_Asleep
    then have "worker_step P s (s\<lparr>d_worker := W_Test\<rparr>)" by (rule wakes_up)
    then show ?thesis by (rule turn_closer) (use W_Asleep in \<open>simp add: worker_left_def\<close>)
  next
    case W_Take
    then have r: "worker_step P s (s\<lparr>d_path := po_serve P 0 (d_path s), d_worker := W_Test\<rparr>)" by (rule ring_polled)
    show ?thesis
    proof (cases "0 < backlog (d_path s)")
      case True
      with r serve_closer(1) [OF u True] show ?thesis by blast
    next
      case False
      then have "\<not> d_running s" "backlog (po_serve P 0 (d_path s)) \<le> backlog (d_path s)"
        using assms(3) serve_less [OF u, of 0] by simp_all
      then have "(s\<lparr>d_path := po_serve P 0 (d_path s), d_worker := W_Test\<rparr>, s) \<in> closer"
        by (intro closerI(3)) (use W_Take in \<open>simp_all add: worker_left_def\<close>)
      with r show ?thesis by blast
    qed
  next
    case W_Drain
    show ?thesis
    proof (cases "po_idle P (d_path s)")
      case True
      then have "worker_step P s (s\<lparr>d_worker := W_Gone\<rparr>)" using W_Drain by (intro drained)
      then show ?thesis by (rule turn_closer) (use W_Drain in \<open>simp add: worker_left_def\<close>)
    next
      case False
      then show ?thesis using drain_served [of s P 0] serve_closer(2) [OF u, of 0] idle_iff [OF u] W_Drain by auto
    qed
  qed (use assms(2) in simp)
qed

lemma drive_closer:
  assumes "driver_ok n retry s" and "d_main s \<noteq> M_Done" and "0 < cap"
  shows "\<exists>t. drive_step P retry target s t \<and> (t, s) \<in> closer"
proof -
  have main: ?thesis if "main_step P retry target s t" "main_left t < main_left s" for t
    using that closerI(1) unfolding drive_step_def by blast
  have worker: ?thesis if "d_worker s \<noteq> W_Gone" "\<not> d_running s \<or> 0 < backlog (d_path s)"
    using worker_closer [OF assms(1) that] unfolding drive_step_def by blast
  note l = main_left_def
  show ?thesis
  proof (cases "d_main s")
    case M_Offer
    then have r: "d_running s" "d_worker s \<noteq> W_Gone" using assms(1) by (auto simp: driver_ok_def)
    show ?thesis
    proof (cases "d_worker s = W_Doze")
      case True
      then have "worker_step P s (s\<lparr>d_worker := W_Asleep\<rparr>)" by (rule falls_asleep)
      moreover have "(s\<lparr>d_worker := W_Asleep\<rparr>, s) \<in> closer"
        by (rule closerI(3)) (simp_all add: worker_left_def True)
      ultimately show ?thesis unfolding drive_step_def by blast
    next
      case False
      show ?thesis
      proof (cases "d_todo s")
        case Nil
        show ?thesis by (rule main, rule all_offered [OF M_Offer Nil]) (simp add: l M_Offer Nil)
      next
        case (Cons p ps)
        then have g: "ok (d_path s)" "good p" using assms(1) by (auto simp: driver_ok_def)
        show ?thesis
        proof (cases "backlog (d_path s) < cap")
          case True
          then obtain u where "po_offer P (p\<lparr>p_arrival_ns := 0\<rparr>) (d_path s) = (True, u)" using offer_room [OF g] by blast
          from packet_taken [OF M_Offer False Cons this] show ?thesis by (rule main) (simp add: l M_Offer Cons)
        next
          case nroom: False
          then obtain u where u: "po_offer P (p\<lparr>p_arrival_ns := 0\<rparr>) (d_path s) = (False, u)"
            using offer_full [OF g] by (meson not_less)
          show ?thesis
          proof (cases retry)
            case True
            with nroom assms(3) r(2) show ?thesis by (intro worker) auto
          next
            case noretry: False
            from packet_refused [OF M_Offer False Cons u] show ?thesis
              by (rule main) (simp add: l M_Offer Cons noretry)
          qed
        qed
      qed
    qed
  next
    case M_Wake
    show ?thesis by (rule main, rule worker_notified [OF M_Wake]) (simp add: l M_Wake)
  next
    case M_Wait
    show ?thesis by (rule main, rule wait_timeout [OF M_Wait]) (simp add: l M_Wait)
  next
    case M_Stop
    show ?thesis by (rule main, rule running_cleared [OF M_Stop]) (simp add: l M_Stop)
  next
    case M_Notify
    show ?thesis by (rule main, rule stop_notified [OF M_Notify]) (simp add: l M_Notify)
  next
    case M_Join
    then have r: "\<not> d_running s" using assms(1) by (auto simp: driver_ok_def)
    show ?thesis
    proof (cases "d_worker s = W_Gone")
      case True
      show ?thesis by (rule main, rule joined [OF M_Join True]) (simp add: l M_Join)
    qed (use worker r in blast)
  qed (use assms(2) in simp)
qed

lemma can_finish:
  assumes "driver_ok n retry s" and "0 < cap"
  shows "\<exists>t. (drive_step P retry target)\<^sup>*\<^sup>* s t \<and> d_main t = M_Done"
  using assms(1)
proof (induction s rule: wf_induct_rule [OF wf_closer])
  case (1 s)
  show ?case
  proof (cases "d_main s = M_Done")
    case False
    then obtain t where t: "drive_step P retry target s t" "(t, s) \<in> closer"
      using drive_closer [OF 1(2) _ assms(2)] by blast
    moreover have "driver_ok n retry t" by (rule drive_ok [OF r_into_rtranclp [of "drive_step P retry target"]]) (use t 1(2) in blast)+
    ultimately show ?thesis using 1(1) by (meson converse_rtranclp_into_rtranclp)
  qed blast
qed

text \<open>The counters in the end, and while the benchmark waits.\<close>

lemma driver_done:
  assumes "driver_ok n False s" and "d_main s = M_Done"
  shows "counters (po_stats P (d_path s)) = (word_of_nat n, word_of_nat (n - d_refused s), word_of_nat (d_refused s), 0)
    \<and> d_refused s \<le> n \<and> (n \<le> cap \<longrightarrow> d_refused s = 0)"
proof -
  have z: "backlog (d_path s) = 0" "d_todo s = []" and b: "books n False (length (d_todo s)) (d_refused s) (d_path s)"
    and c: "n \<le> cap \<longrightarrow> d_refused s = 0"
    using assms by (auto simp: driver_ok_def)
  obtain a where "a + d_refused s = n"
    "counters (po_stats P (d_path s)) = (word_of_nat (a + d_refused s), word_of_nat a, word_of_nat (d_refused s), 0)"
    using b unfolding books_def z by auto
  then show ?thesis using c by auto
qed

lemma wait_early:
  assumes "driver_ok n True s" and "d_main s = M_Wait" and "n + d_refused s < 2 ^ 64"
  shows "word_of_nat n \<le> done_count (po_stats P (d_path s)) \<longleftrightarrow> backlog (d_path s) \<le> d_refused s"
proof -
  have z: "d_todo s = []" and b: "books n True (length (d_todo s)) (d_refused s) (d_path s)"
    using assms by (auto simp: driver_ok_def)
  have le: "backlog (d_path s) \<le> n" and "counters (po_stats P (d_path s)) =
      (word_of_nat (n + d_refused s), word_of_nat (n - backlog (d_path s)), word_of_nat (d_refused s), 0)"
    using b unfolding books_def z by auto
  then have d: "done_count (po_stats P (d_path s)) = word_of_nat (n - backlog (d_path s) + d_refused s)"
    by (simp add: done_count_def counters_def)
  have "(word_of_nat n :: u64) \<le> word_of_nat m \<longleftrightarrow> n \<le> m" if "m < 2 ^ 64" "n < 2 ^ 64" for m
    using that by (simp add: word_le_nat_alt unat_of_nat take_bit_nat_eq_self)
  from this [of "n - backlog (d_path s) + d_refused s"] assms(3) le show ?thesis unfolding d by linarith
qed

text \<open>A run in which the queue fills up while the main thread keeps trying.\<close>

definition offering :: "'s driver \<Rightarrow> bool" where
  "offering s \<longleftrightarrow> d_main s = M_Offer \<and> d_worker s = W_Test \<and> d_running s"

lemma offer_next:
  assumes "offering s" and "ok (d_path s)" and "d_todo s = p # ps" and "good p" and "backlog (d_path s) < cap"
  shows "\<exists>t. (drive_step P retry target)\<^sup>*\<^sup>* s t \<and> offering t \<and> ok (d_path t) \<and> d_todo t = ps
      \<and> backlog (d_path t) = backlog (d_path s) + 1 \<and> d_refused t = d_refused s"
proof -
  obtain u where u: "po_offer P (p\<lparr>p_arrival_ns := 0\<rparr>) (d_path s) = (True, u)" "ok u" "backlog u = backlog (d_path s) + 1"
    using offer_room [OF assms(2,4,5)] by blast
  let ?t = "s\<lparr>d_path := u, d_todo := ps, d_main := (if po_sleeps P then M_Wake else M_Offer)\<rparr>"
  have m: "main_step P retry target s ?t" by (rule packet_taken) (use assms u in \<open>simp_all add: offering_def\<close>)
  show ?thesis
  proof (cases "po_sleeps P")
    case True
    then have "main_step P retry target ?t (?t\<lparr>d_main := M_Offer, d_worker := notified (d_worker ?t)\<rparr>)"
      by (intro worker_notified) simp
    with m have "(drive_step P retry target)\<^sup>*\<^sup>* s (?t\<lparr>d_main := M_Offer, d_worker := notified (d_worker ?t)\<rparr>)"
      by (blast dest: by_main intro: rtranclp_trans)
  note r = this
  show ?thesis by (rule exI, rule conjI, rule r) (use u assms(1) in \<open>simp add: offering_def notified_def\<close>)
  next
    case False
    have "(drive_step P retry target)\<^sup>*\<^sup>* s ?t" by (rule by_main [OF m])
  note r = this
  show ?thesis by (rule exI, rule conjI, rule r) (use u assms(1) False in \<open>simp add: offering_def\<close>)
  qed
qed

lemma offers:
  assumes "offering s" and "ok (d_path s)" and "d_todo s = ps @ qs" and "list_all good ps" and "backlog (d_path s) + length ps \<le> cap"
  shows "\<exists>t. (drive_step P retry target)\<^sup>*\<^sup>* s t \<and> offering t \<and> ok (d_path t) \<and> d_todo t = qs
      \<and> backlog (d_path t) = backlog (d_path s) + length ps \<and> d_refused t = d_refused s"
  using assms
proof (induction ps arbitrary: s)
  case Nil
  then show ?case by (intro exI [of _ s]) simp
next
  case (Cons p ps)
  then obtain t where t: "(drive_step P retry target)\<^sup>*\<^sup>* s t" "offering t" "ok (d_path t)" "d_todo t = ps @ qs"
    "backlog (d_path t) = backlog (d_path s) + 1" "d_refused t = d_refused s"
    using offer_next [of s p "ps @ qs" retry target] by auto
  moreover obtain u where "(drive_step P retry target)\<^sup>*\<^sup>* t u" "offering u" "ok (d_path u)" "d_todo u = qs"
    "backlog (d_path u) = backlog (d_path t) + length ps" "d_refused u = d_refused t"
    using Cons.IH [of t] t Cons.prems(4,5) by auto
  ultimately show ?case by (intro exI [of _ u] conjI) (auto intro: rtranclp_trans)
qed

lemma retries:
  assumes "offering s" and "ok (d_path s)" and "d_todo s = p # ps" and "good p" and "cap \<le> backlog (d_path s)"
  shows "\<exists>t. (drive_step P True target)\<^sup>*\<^sup>* s t \<and> offering t \<and> ok (d_path t) \<and> d_todo t = p # ps
      \<and> backlog (d_path t) = backlog (d_path s) \<and> d_refused t = d_refused s + k"
proof (induction k)
  case 0
  then show ?case using assms by (intro exI [of _ s]) simp
next
  case (Suc k)
  then obtain t where t: "(drive_step P True target)\<^sup>*\<^sup>* s t" "offering t" "ok (d_path t)" "d_todo t = p # ps"
    "backlog (d_path t) = backlog (d_path s)" "d_refused t = d_refused s + k" by blast
  then obtain u where u: "po_offer P (p\<lparr>p_arrival_ns := 0\<rparr>) (d_path t) = (False, u)" "ok u" "backlog u = backlog (d_path t)"
    using offer_full [OF t(3) assms(4), of 0] assms(5) by auto
  let ?u = "t\<lparr>d_path := u, d_todo := (if True then p # ps else ps), d_refused := d_refused t + 1\<rparr>"
  have "main_step P True target t ?u" by (rule packet_refused) (use t u in \<open>simp_all add: offering_def\<close>)
  from rtranclp_trans [OF t(1) by_main [OF this]] have "(drive_step P True target)\<^sup>*\<^sup>* s ?u" .
  note r = this
  show ?case by (rule exI, rule conjI, rule r) (use t u in \<open>simp add: offering_def\<close>)
qed

lemma one_serve:
  assumes "offering s" and "ok (d_path s)" and "0 < backlog (d_path s)"
  shows "(drive_step P retry target)\<^sup>*\<^sup>* s (s\<lparr>d_path := po_serve P 0 (d_path s)\<rparr>)"
proof (cases "po_sleeps P")
  case True
  then have "worker_step P s (s\<lparr>d_path := po_serve P 0 (d_path s)\<rparr>)"
    using assms idle_iff [OF assms(2)] by (intro queue_served) (simp_all add: offering_def)
  then show ?thesis by (rule by_worker)
next
  case False
  let ?t = "s\<lparr>d_worker := (if d_running s then W_Take else W_Drain)\<rparr>"
  have 1: "worker_step P s ?t" using False assms(1) by (intro poll_test) (simp_all add: offering_def)
  have 2: "worker_step P ?t (?t\<lparr>d_path := po_serve P 0 (d_path ?t), d_worker := W_Test\<rparr>)"
    using assms(1) by (intro ring_polled) (simp add: offering_def)
  have 3: "?t\<lparr>d_path := po_serve P 0 (d_path ?t), d_worker := W_Test\<rparr> = s\<lparr>d_path := po_serve P 0 (d_path s)\<rparr>"
    using assms(1) by (simp add: offering_def)
  from rtranclp_trans [OF by_worker [OF 1] by_worker [OF 2]] show ?thesis unfolding 3 .
qed

lemma early_run:
  assumes "ok s0" and "backlog s0 = 0" and "0 < cap" and "list_all good ps" and "length ps = Suc cap"
  shows "\<exists>t. (drive_step P True target)\<^sup>*\<^sup>* (driver_new s0 ps) t \<and> d_main t = M_Wait
      \<and> 0 < backlog (d_path t) \<and> backlog (d_path t) \<le> cap \<and> d_refused t = cap"
proof -
  let ?r = "(drive_step P True target)\<^sup>*\<^sup>*"
  obtain qs p where ps: "ps = qs @ [p]" "length qs = cap" using assms(5) by (metis length_Suc_conv_rev)
  have g: "list_all good qs" "good p" using assms(4) ps by auto
  obtain a where a: "?r (driver_new s0 ps) a" "offering a" "ok (d_path a)" "d_todo a = [p]" "backlog (d_path a) = cap" "d_refused a = 0"
    using offers [of "driver_new s0 ps" qs "[p]" True target] assms(1,2) g ps by (auto simp: driver_new_def offering_def)
  obtain b where b: "?r a b" "offering b" "ok (d_path b)" "d_todo b = [p]" "backlog (d_path b) = cap" "d_refused b = cap"
    using retries [OF a(2,3,4) g(2), of target cap] a(5,6) by auto
  let ?c = "b\<lparr>d_path := po_serve P 0 (d_path b)\<rparr>"
  have c: "?r b ?c" using one_serve [OF b(2,3)] b(5) assms(3) by simp
  have l: "ok (d_path ?c)" "backlog (d_path ?c) < cap" using serve_ok [OF b(3), of 0] serve_less [OF b(3), of 0] b(5) assms(3) by simp_all
  obtain d where d: "?r ?c d" "offering d" "d_todo d = []" "backlog (d_path d) = backlog (d_path ?c) + 1" "d_refused d = cap"
    using offer_next [of ?c p "[]" True target] b l g(2) by (auto simp: offering_def)
  have "main_step P True target d (d\<lparr>d_main := (if True then M_Wait else M_Stop)\<rparr>)"
    using d by (intro all_offered) (simp_all add: offering_def)
  then have "?r d (d\<lparr>d_main := M_Wait\<rparr>)" using by_main [of P True target d] by simp
  with a(1) b(1) c d(1) have "?r (driver_new s0 ps) (d\<lparr>d_main := M_Wait\<rparr>)" by (meson rtranclp_trans)
  note r = this
  show ?thesis by (rule exI, rule conjI, rule r) (use d l(2) in \<open>simp\<close>)
qed

end

end
