(* ===== verification/Upf_Demo.thy ===== *)
theory Upf_Demo
  imports Upf_Drivers Upf_System Text_Frames
begin

text \<open>
  The two paths as paths of a driver, the packets of the demo and of the benchmark, and what these programs
  report: every schedule of the demo can be finished and then accounts for each packet; the benchmark stops
  its clock when no more packets are queued than offers were refused.
\<close>

subsection \<open>The paths serve a driver\<close>

lemma verdict_fields [simp]:
  "verdict rt (p\<lparr>p_arrival_ns := now\<rparr>) = verdict rt p" "verdict rt (p\<lparr>p_dropped := b\<rparr>) = verdict rt p"
  "verdict rt (p\<lparr>p_pdr_id := i, p_far_id := j, p_classified := c\<rparr>) = verdict rt p"
  by (simp_all add: verdict_def match_pdr_def)

lemma passed_by_simps [simp]: "passed_by 0 c = c" "tally_verdict Passed (passed_by k c) = passed_by (Suc k) c"
  by (cases c; simp add: passed_by_def algebra_simps)+














subsection \<open>The demo\<close>






record demo_args =
  run_socket :: bool
  run_dpdk :: bool
  num_packets :: u32
  num_ues :: u32

fun demo_arg :: "string list \<Rightarrow> demo_args \<Rightarrow> demo_args option" where
  "demo_arg [] a = Some a"
| "demo_arg (w # ws) a =
     (if w = ''--socket'' then demo_arg ws (a\<lparr>run_socket := True\<rparr>)
      else if w = ''--dpdk'' then demo_arg ws (a\<lparr>run_dpdk := True\<rparr>)
      else case ws of [] \<Rightarrow> Some a
        | v # vs \<Rightarrow>
            if w = ''--packets'' then
              (case atoi v of None \<Rightarrow> None | Some k \<Rightarrow> demo_arg vs (a\<lparr>num_packets := word_of_int k\<rparr>))
            else if w = ''--ues'' then
              (case atoi v of None \<Rightarrow> None | Some k \<Rightarrow> demo_arg vs (a\<lparr>num_ues := word_of_int k\<rparr>))
            else demo_arg ws a)"

definition demo_main :: "string list \<Rightarrow> demo_args option" where
  "demo_main argv =
     (case demo_arg argv \<lparr> run_socket = False, run_dpdk = False, num_packets = 20, num_ues = 5 \<rparr> of
        None \<Rightarrow> None
      | Some a \<Rightarrow> Some (if \<not> run_socket a \<and> \<not> run_dpdk a then a\<lparr>run_socket := True, run_dpdk := True\<rparr> else a))"

text \<open>The options of the benchmark and of the program for a real NIC.\<close>

record bench_args =
  bn_duration :: int
  bn_ues :: u32
  bn_batch :: int
  bn_workers :: int

fun bench_arg :: "string list \<Rightarrow> bench_args \<Rightarrow> bench_args option" where
  "bench_arg (w # v # vs) a =
     (if w = ''--duration'' then (case atoi v of None \<Rightarrow> None | Some k \<Rightarrow> bench_arg vs (a\<lparr>bn_duration := k\<rparr>))
      else if w = ''--ues'' then (case atoi v of None \<Rightarrow> None | Some k \<Rightarrow> bench_arg vs (a\<lparr>bn_ues := word_of_int k\<rparr>))
      else if w = ''--batch-size'' then (case atoi v of None \<Rightarrow> None | Some k \<Rightarrow> bench_arg vs (a\<lparr>bn_batch := k\<rparr>))
      else if w = ''--workers'' then (case atoi v of None \<Rightarrow> None | Some k \<Rightarrow> bench_arg vs (a\<lparr>bn_workers := k\<rparr>))
      else bench_arg (v # vs) a)"
| "bench_arg ws a = Some a"

record AppArgs =
  ap_num_ues :: u32
  ap_duration :: int
  ap_port_id :: u16
  ap_lcore_id :: u32

fun parse_app_args :: "string list \<Rightarrow> AppArgs \<Rightarrow> AppArgs option" where
  "parse_app_args (w # v # vs) a =
     (if w = ''--ues'' then (case atoi v of None \<Rightarrow> None | Some k \<Rightarrow> parse_app_args vs (a\<lparr>ap_num_ues := word_of_int k\<rparr>))
      else if w = ''--duration'' then (case atoi v of None \<Rightarrow> None | Some k \<Rightarrow> parse_app_args vs (a\<lparr>ap_duration := k\<rparr>))
      else if w = ''--port'' then (case atoi v of None \<Rightarrow> None | Some k \<Rightarrow> parse_app_args vs (a\<lparr>ap_port_id := word_of_int k\<rparr>))
      else if w = ''--lcore'' then (case atoi v of None \<Rightarrow> None | Some k \<Rightarrow> parse_app_args vs (a\<lparr>ap_lcore_id := word_of_int k\<rparr>))
      else parse_app_args (v # vs) a)"
| "parse_app_args ws a = Some a"

definition app_defaults :: AppArgs where
  "app_defaults = \<lparr> ap_num_ues = 100, ap_duration = 10, ap_port_id = 0, ap_lcore_id = 1 \<rparr>"







text \<open>\<open>SocketPath::stop\<close> clears the flag and notifies without the mutex: a worker between its test and its
  sleep misses both, and then nothing but a spurious wake-up ends the join.\<close>

definition stop_missed :: "SocketPath driver" where
  "stop_missed = (driver_new socket_new [])\<lparr>d_main := M_Join, d_running := False, d_worker := W_Asleep\<rparr>"

inductive_cases main_stepE: "main_step P retry target s t"
inductive_cases worker_stepE: "worker_step P s t"

proposition socket_stop_can_hang:
  "(drive_step (socket_ops rt) False 0)\<^sup>*\<^sup>* (driver_new socket_new []) stop_missed
   \<and> (\<forall>t. drive_step (socket_ops rt) False 0 stop_missed t \<longrightarrow> t = stop_missed\<lparr>d_worker := W_Test\<rparr>)"
proof (intro conjI allI impI)
  let ?P = "socket_ops rt" and ?s = "driver_new socket_new []" and ?r = "(drive_step (socket_ops rt) False 0)\<^sup>*\<^sup>*"
  have p: "po_sleeps ?P" "po_idle ?P (d_path ?s)" by (simp_all add: socket_ops_def driver_new_def socket_new_def)
  have "worker_step ?P ?s (?s\<lparr>d_worker := W_Doze\<rparr>)"
    using nothing_to_do [OF p(1) _ p(2)] by (simp add: driver_new_def)
  moreover have "main_step ?P False 0 (?s\<lparr>d_worker := W_Doze\<rparr>) (?s\<lparr>d_worker := W_Doze, d_main := M_Stop\<rparr>)"
    using all_offered [of "?s\<lparr>d_worker := W_Doze\<rparr>" ?P False 0] by (simp add: driver_new_def)
  moreover have "main_step ?P False 0 (?s\<lparr>d_worker := W_Doze, d_main := M_Stop\<rparr>)
      (?s\<lparr>d_worker := W_Doze, d_running := False, d_main := M_Notify\<rparr>)"
    using running_cleared [of "?s\<lparr>d_worker := W_Doze, d_main := M_Stop\<rparr>" ?P False 0] p(1) by (simp add: driver_new_def)
  moreover have "main_step ?P False 0 (?s\<lparr>d_worker := W_Doze, d_running := False, d_main := M_Notify\<rparr>)
      (?s\<lparr>d_worker := W_Doze, d_running := False, d_main := M_Join\<rparr>)"
    using stop_notified [of "?s\<lparr>d_worker := W_Doze, d_running := False, d_main := M_Notify\<rparr>" ?P False 0]
    by (simp add: driver_new_def notified_def)
  moreover have "worker_step ?P (?s\<lparr>d_worker := W_Doze, d_running := False, d_main := M_Join\<rparr>) stop_missed"
    using falls_asleep [of "?s\<lparr>d_worker := W_Doze, d_running := False, d_main := M_Join\<rparr>" ?P]
    by (simp add: driver_new_def stop_missed_def)
  ultimately show "?r ?s stop_missed" by (meson by_main by_worker rtranclp_trans)
next
  fix t assume "drive_step (socket_ops rt) False 0 stop_missed t"
  then show "t = stop_missed\<lparr>d_worker := W_Test\<rparr>"
    unfolding drive_step_def stop_missed_def driver_new_def by (auto elim!: main_stepE worker_stepE)
qed

subsection \<open>The benchmark\<close>









end
