(* ===== verification/Load_Runner.thy ===== *)
theory Load_Runner
  imports Text_Frames
begin

text \<open>
  The programs around the performance scenarios: \<open>ScenarioRunner\<close> and the command line of the IMS
  simulator (\<open>perf_scenarios.cpp\<close>, \<open>perf_scenarios_main.cpp\<close>) and the dispatcher of the 4G simulator
  (\<open>perf/perf_scenarios.h\<close>). What a version of a scenario measures, a double, is an argument.
\<close>

subsection \<open>The runner\<close>

record 'd run_result =
  res_name :: string
  res_metric :: string
  res_buggy :: 'd
  res_fixed :: 'd
  res_unit :: string

record 'd runner =
  run_buggy :: bool
  run_fixed :: bool
  results :: "'d run_result list"

definition runner_new :: "'d runner" where
  "runner_new = \<lparr> run_buggy = True, run_fixed = True, results = [] \<rparr>"

definition setMode :: "bool \<Rightarrow> bool \<Rightarrow> 'd runner \<Rightarrow> 'd runner" where
  "setMode fixed buggy r = r\<lparr>run_fixed := fixed, run_buggy := buggy\<rparr>"

text \<open>Each scenario pushes a row for its first version and completes it, or pushes its own, for the second.\<close>

definition push_buggy :: "string \<Rightarrow> string \<Rightarrow> string \<Rightarrow> 'd \<Rightarrow> 'd \<Rightarrow> 'd runner \<Rightarrow> 'd runner" where
  "push_buggy name metric unit z v r =
     (if run_buggy r then r\<lparr>results := results r @ [\<lparr> res_name = name, res_metric = metric, res_buggy = v, res_fixed = z, res_unit = unit \<rparr>]\<rparr>
      else r)"

definition push_fixed :: "string \<Rightarrow> string \<Rightarrow> string \<Rightarrow> 'd \<Rightarrow> 'd runner \<Rightarrow> 'd runner" where
  "push_fixed name metric unit v r =
     (if \<not> run_fixed r then r
      else if results r \<noteq> [] \<and> res_name (last (results r)) = name
      then r\<lparr>results := butlast (results r) @ [(last (results r))\<lparr>res_fixed := v\<rparr>]\<rparr>
      else r\<lparr>results := results r @ [\<lparr> res_name = name, res_metric = metric, res_buggy = v, res_fixed = v, res_unit = unit \<rparr>]\<rparr>)"

definition both_versions :: "string \<Rightarrow> string \<Rightarrow> string \<Rightarrow> 'd \<Rightarrow> (bool \<Rightarrow> 'd) \<Rightarrow> 'd runner \<Rightarrow> 'd runner" where
  "both_versions name metric unit z m r = push_fixed name metric unit (m False) (push_buggy name metric unit z (m True) r)"

definition report1 :: "'d \<Rightarrow> (bool \<Rightarrow> 'd) \<Rightarrow> 'd runner \<Rightarrow> 'd runner" where
  "report1 = both_versions ''Scenario 1: CPU 100%'' ''CPU %'' ''%''"

definition report2 :: "'d \<Rightarrow> (bool \<Rightarrow> 'd) \<Rightarrow> 'd runner \<Rightarrow> 'd runner" where
  "report2 = both_versions ''Scenario 2: Lock Contention'' ''Avg Latency'' ''us''"

definition report3 :: "'d \<Rightarrow> (bool \<Rightarrow> 'd) \<Rightarrow> 'd runner \<Rightarrow> 'd runner" where
  "report3 = both_versions ''Scenario 3: Memory Leak'' ''Memory KB'' ''KB''"

definition report4 :: "'d \<Rightarrow> (bool \<Rightarrow> 'd) \<Rightarrow> 'd runner \<Rightarrow> 'd runner" where
  "report4 = both_versions ''Scenario 4: Thread Starvation'' ''Avg Latency'' ''us''"

definition report5 :: "'d \<Rightarrow> (bool \<Rightarrow> 'd) \<Rightarrow> 'd runner \<Rightarrow> 'd runner" where
  "report5 = both_versions ''Scenario 5: Data Path'' ''Avg Latency'' ''us''"

definition runAll :: "'d \<Rightarrow> (nat \<Rightarrow> bool \<Rightarrow> 'd) \<Rightarrow> 'd runner \<Rightarrow> 'd runner" where
  "runAll z m r = report5 z (m 5) (report4 z (m 4) (report3 z (m 3) (report2 z (m 2) (report1 z (m 1) r))))"

text \<open>A printed row: name, both values, unit, and the improvement when it is positive.\<close>

definition print_row :: "('d \<Rightarrow> bool) \<Rightarrow> ('d \<Rightarrow> 'd \<Rightarrow> 'd) \<Rightarrow> 'd run_result \<Rightarrow> string \<times> 'd \<times> 'd \<times> string \<times> 'd option" where
  "print_row positive gain x =
     (res_name x, res_buggy x, res_fixed x, res_unit x,
      if positive (res_fixed x) \<and> positive (res_buggy x) \<and> positive (gain (res_buggy x) (res_fixed x))
      then Some (gain (res_buggy x) (res_fixed x)) else None)"

definition printResults :: "('d \<Rightarrow> bool) \<Rightarrow> ('d \<Rightarrow> 'd \<Rightarrow> 'd) \<Rightarrow> 'd runner \<Rightarrow> (string \<times> 'd \<times> 'd \<times> string \<times> 'd option) list" where
  "printResults positive gain r = map (print_row positive gain) (results r)"

subsection \<open>The command line\<close>

datatype perf_exit = Show_Usage | Show_List | Bad_Scenario int

record perf_options =
  target_scenario :: int
  only_buggy :: bool
  only_fixed :: bool

fun perf_arg :: "string list \<Rightarrow> perf_options \<Rightarrow> (perf_exit + perf_options) option" where
  "perf_arg [] a = Some (Inr a)"
| "perf_arg (w # ws) a =
     (if w = ''--help'' \<or> w = ''-h'' then Some (Inl Show_Usage)
      else if w = ''--list'' \<or> w = ''-l'' then Some (Inl Show_List)
      else if w = ''--scenario'' \<and> ws \<noteq> [] then
        (case atoi (hd ws) of None \<Rightarrow> None
         | Some k \<Rightarrow> if k < 1 \<or> k > 5 then Some (Inl (Bad_Scenario k))
                    else let b = (hd ws = ''--buggy''); f = (hd ws = ''--fixed'')
                         in perf_arg (tl ws) (a\<lparr>target_scenario := k, only_buggy := only_buggy a \<or> b, only_fixed := only_fixed a \<or> f\<rparr>))
      else perf_arg ws (a\<lparr>only_buggy := only_buggy a \<or> w = ''--buggy'', only_fixed := only_fixed a \<or> w = ''--fixed''\<rparr>))"

definition run_one :: "int \<Rightarrow> 'd \<Rightarrow> (nat \<Rightarrow> bool \<Rightarrow> 'd) \<Rightarrow> 'd runner \<Rightarrow> 'd runner" where
  "run_one k z m r =
     (if k = 1 then report1 z (m 1) r else if k = 2 then report2 z (m 2) r else if k = 3 then report3 z (m 3) r
      else if k = 4 then report4 z (m 4) r else if k = 5 then report5 z (m 5) r else r)"

definition perf_mode :: "perf_options \<Rightarrow> 'd runner \<Rightarrow> 'd runner" where
  "perf_mode a r =
     (let r1 = (if only_buggy a then setMode False True r else r)
      in if only_fixed a then setMode True False r1 else r1)"

text \<open>The runner in the end, and whether its summary has been printed.\<close>

definition perf_main :: "string list \<Rightarrow> 'd \<Rightarrow> (nat \<Rightarrow> bool \<Rightarrow> 'd) \<Rightarrow> (perf_exit + 'd runner \<times> bool) option" where
  "perf_main argv z m =
     (case perf_arg argv \<lparr> target_scenario = 0, only_buggy = False, only_fixed = False \<rparr> of
        None \<Rightarrow> None
      | Some (Inl e) \<Rightarrow> Some (Inl e)
      | Some (Inr a) \<Rightarrow>
          let r = perf_mode a runner_new
          in Some (Inr (if target_scenario a > 0 then (run_one (target_scenario a) z m r, False) else (runAll z m r, True))))"

subsection \<open>The dispatcher of the 4G simulator\<close>

text \<open>The scenario that runs and its size.\<close>

definition perf_run :: "int \<Rightarrow> int \<Rightarrow> (nat \<times> int) option" where
  "perf_run scenario n =
     (let size = (\<lambda>d. if n > 0 then n else d)
      in if scenario = 1 then Some (1, size 3000) else if scenario = 2 then Some (2, size 8000)
         else if scenario = 3 then Some (3, size 60) else if scenario = 4 then Some (4, size 24)
         else if scenario = 5 then Some (5, size 100000) else None)"

section \<open>What the programs report\<close>

text \<open>
  What the programs of the performance scenarios report: one row per scenario, in order, whose values
  belong to that scenario and to the versions that were asked for.
\<close>

definition scenario_head :: "nat \<Rightarrow> string \<times> string \<times> string" where
  "scenario_head k =
     (if k = 1 then (''Scenario 1: CPU 100%'', ''CPU %'', ''%'')
      else if k = 2 then (''Scenario 2: Lock Contention'', ''Avg Latency'', ''us'')
      else if k = 3 then (''Scenario 3: Memory Leak'', ''Memory KB'', ''KB'')
      else if k = 4 then (''Scenario 4: Thread Starvation'', ''Avg Latency'', ''us'')
      else (''Scenario 5: Data Path'', ''Avg Latency'', ''us''))"

text \<open>With \<open>--fixed\<close>, alone or with \<open>--buggy\<close>, both columns hold the second version.\<close>

definition expected_row :: "perf_options \<Rightarrow> 'd \<Rightarrow> (nat \<Rightarrow> bool \<Rightarrow> 'd) \<Rightarrow> nat \<Rightarrow> 'd run_result" where
  "expected_row a z m k =
     (case scenario_head k of (name, metric, unit) \<Rightarrow>
       \<lparr> res_name = name, res_metric = metric,
         res_buggy = (if only_fixed a then m k False else m k True),
         res_fixed = (if only_fixed a then m k False else if only_buggy a then z else m k False), res_unit = unit \<rparr>)"

lemma both_versions_row:
  assumes "run_buggy r \<or> run_fixed r" and "results r = [] \<or> res_name (last (results r)) \<noteq> name"
  shows "both_versions name metric unit z m r =
     r\<lparr>results := results r @
       [\<lparr> res_name = name, res_metric = metric, res_buggy = m (run_buggy r),
          res_fixed = (if run_fixed r then m False else z), res_unit = unit \<rparr>]\<rparr>"
  using assms by (cases "run_buggy r") (auto simp: both_versions_def push_buggy_def push_fixed_def)

lemmas report_defs = report1_def report2_def report3_def report4_def report5_def

lemma runAll_rows:
  assumes "r = \<lparr> run_buggy = \<not> only_fixed a, run_fixed = only_fixed a \<or> \<not> only_buggy a, results = [] \<rparr>"
  shows "results (runAll z m r) = map (expected_row a z m) [1, 2, 3, 4, 5] \<and> distinct (map res_name (results (runAll z m r)))"
proof (cases "only_fixed a")
  case True
  then show ?thesis
    by (simp add: assms runAll_def report_defs both_versions_row expected_row_def scenario_head_def)
next
  case False
  then show ?thesis
    by (cases "only_buggy a") (simp_all add: assms runAll_def report_defs both_versions_row expected_row_def scenario_head_def)
qed

lemma run_one_row:
  assumes "r = \<lparr> run_buggy = \<not> only_fixed a, run_fixed = only_fixed a \<or> \<not> only_buggy a, results = [] \<rparr>" and "k \<in> {1, 2, 3, 4, 5}"
  shows "results (run_one k z m r) = [expected_row a z m (nat k)]"
  using assms(2) by (auto simp: assms(1) run_one_def report_defs both_versions_row expected_row_def scenario_head_def)

lemma perf_arg_target:
  "perf_arg ws a = Some (Inr b) \<Longrightarrow> 0 \<le> target_scenario a \<and> target_scenario a \<le> 5 \<Longrightarrow>
     0 \<le> target_scenario b \<and> target_scenario b \<le> 5"
proof (induction ws a rule: perf_arg.induct)
  case (2 w ws a)
  then show ?case by (auto simp: Let_def split: if_splits option.splits)
qed simp

text \<open>C1. However the program is called: unless it stops with its usage, its list or a bad number, it
  collects exactly one row for each scenario it runs, in order, with the name and the values of that
  scenario, and prints the summary exactly when it ran all five. With both \<open>--buggy\<close> and
  \<open>--fixed\<close>, only the second version runs, and its value stands in both columns.\<close>
theorem perf_rows:
  assumes "perf_main argv z m = Some (Inr (r, printed))"
  shows "\<exists>a. perf_arg argv \<lparr> target_scenario = 0, only_buggy = False, only_fixed = False \<rparr> = Some (Inr a)
     \<and> printed = (target_scenario a = 0)
     \<and> results r = map (expected_row a z m) (if target_scenario a = 0 then [1, 2, 3, 4, 5] else [nat (target_scenario a)])
     \<and> distinct (map res_name (results r))"
proof -
  obtain a where a: "perf_arg argv \<lparr> target_scenario = 0, only_buggy = False, only_fixed = False \<rparr> = Some (Inr a)"
    and r: "(r, printed) = (if target_scenario a > 0 then (run_one (target_scenario a) z m (perf_mode a runner_new), False)
        else (runAll z m (perf_mode a runner_new), True))"
    using assms by (auto simp: perf_main_def Let_def split: option.splits sum.splits)
  let ?r = "perf_mode a (runner_new :: 'a runner)"
  have m: "?r = \<lparr> run_buggy = \<not> only_fixed a, run_fixed = only_fixed a \<or> \<not> only_buggy a, results = [] \<rparr>"
    by (simp add: perf_mode_def runner_new_def setMode_def Let_def)
  show ?thesis
  proof (cases "target_scenario a = 0")
    case True
    with a r runAll_rows [OF m, of z m] show ?thesis by (intro exI [of _ a]) (simp add: expected_row_def scenario_head_def)
  next
    case False
    then have "target_scenario a \<in> {1, 2, 3, 4, 5}" using perf_arg_target [OF a] by auto
    with a r False run_one_row [OF m this] show ?thesis by auto
  qed
qed

theorem perf_rows_witness:
  "\<exists>r. perf_main [''--scenario'', ''3'', ''--buggy''] 0 (\<lambda>k b. if b then int k else 7) = Some (Inr (r, False))
     \<and> map res_name (results r) = [''Scenario 3: Memory Leak''] \<and> map res_buggy (results r) = [3] \<and> map res_fixed (results r) = [0]"
proof -
  let ?m = "\<lambda>k b. if b then int k else 7" and ?ws = "[''--scenario'', ''3'', ''--buggy'']"
  have "json_num 3 = ''3''" by code_simp
  then have "atoi ''3'' = Some 3" using atoi_num [of 3] by simp
  then have a: "perf_arg ?ws \<lparr> target_scenario = 0, only_buggy = False, only_fixed = False \<rparr>
      = Some (Inr \<lparr> target_scenario = 3, only_buggy = True, only_fixed = False \<rparr>)" by simp
  obtain r where r: "perf_main ?ws 0 ?m = Some (Inr (r, False))" unfolding perf_main_def a by simp
  from perf_rows [OF this] a show ?thesis by (intro exI [of _ r]) (auto simp: r expected_row_def scenario_head_def)
qed

end
