(* ===== verification/Epc_Boot.thy ===== *)
theory Epc_Boot
  imports Prelude
begin

text \<open>
  How the 4G simulator comes up and goes down: \<open>main\<close> starts one thread per node (\<open>main.cpp\<close>), each
  node binds its socket, sets its ready flag and waits for its client, or waits for the flag of its server
  and connects (\<open>setupServer\<close>, \<open>setupSockets\<close>, \<open>setupSocket\<close>, \<open>connectToNodes\<close> of the nodes), and all loops
  leave once \<open>stop\<close> is set. A step is one load or store of a flag, one system call or one wake-up; the ports
  are free, so that binding succeeds. Of the traffic only what a thread can wait for is kept: the base
  station for commands, the MME for the vectors of an attach, which its thread \<open>hss_rx\<close> (\<open>b_rx\<close>) receives.
\<close>

datatype node = N_Hss | N_Pcrf | N_Sgw | N_Pgw | N_Enb | N_Mme

datatype boot_phase =
    Ph_Fresh | Ph_Bound | Ph_Accept | Ph_Await node | Ph_Check node | Ph_Dial node
  | Ph_Run | Ph_Vectors | Ph_Leave | Ph_Ended

datatype cmd_at = C_None | C_Test | C_Doze | C_Asleep | C_Gone

datatype air = Air_None | Air_Sent | Aia_Sent

datatype main_phase = Mn_Serving | Mn_Stopped | Mn_Notified | Mn_Joined

record boot =
  b_at :: "node \<Rightarrow> boot_phase"
  b_ready :: "node \<Rightarrow> bool"
  b_listens :: "node \<Rightarrow> bool"
  b_dialled :: "node \<Rightarrow> bool"
  b_failed :: "node \<Rightarrow> bool"
  b_cmd :: cmd_at
  b_rx :: bool
  b_air :: air
  b_stop :: bool
  b_main :: main_phase

definition boot_new :: boot where
  "boot_new = \<lparr> b_at = (\<lambda>_. Ph_Fresh), b_ready = (\<lambda>_. False), b_listens = (\<lambda>_. False), b_dialled = (\<lambda>_. False),
     b_failed = (\<lambda>_. False), b_cmd = C_None, b_rx = False, b_air = Air_None, b_stop = False, b_main = Mn_Serving \<rparr>"

definition goes :: "node \<Rightarrow> boot_phase \<Rightarrow> boot \<Rightarrow> boot" where
  "goes n p s = s\<lparr>b_at := (b_at s)(n := p)\<rparr>"

definition tcp_server :: "node \<Rightarrow> bool" where
  "tcp_server n \<longleftrightarrow> n = N_Hss \<or> n = N_Pcrf \<or> n = N_Enb"

text \<open>What a node does after its flag, and after a connection.\<close>

definition after_flag :: "node \<Rightarrow> boot_phase" where
  "after_flag n = (if tcp_server n then Ph_Accept else if n = N_Pgw then Ph_Await N_Pcrf else Ph_Run)"

definition after_dial :: "node \<Rightarrow> boot_phase" where
  "after_dial n = (if n = N_Hss then Ph_Await N_Sgw else if n = N_Sgw then Ph_Await N_Enb
     else if n = N_Enb then Ph_Check N_Mme else Ph_Run)"

inductive boot_step :: "boot \<Rightarrow> boot \<Rightarrow> bool" where
  binds: "n \<noteq> N_Mme \<Longrightarrow> b_at s n = Ph_Fresh \<Longrightarrow>
    boot_step s ((goes n Ph_Bound s)\<lparr>b_listens := (b_listens s)(n := True)\<rparr>)"
| sets_flag: "b_at s n = Ph_Bound \<Longrightarrow> boot_step s ((goes n (after_flag n) s)\<lparr>b_ready := (b_ready s)(n := True)\<rparr>)"
| accepts: "b_at s n = Ph_Accept \<Longrightarrow> b_dialled s n \<Longrightarrow>
    boot_step s ((goes n Ph_Run s)\<lparr>b_cmd := (if n = N_Enb then C_Test else b_cmd s)\<rparr>)"
| accept_ends: "b_at s n = Ph_Accept \<Longrightarrow> b_stop s \<Longrightarrow> boot_step s (goes n Ph_Ended s)"
| mme_begins: "b_at s N_Mme = Ph_Fresh \<Longrightarrow> boot_step s (goes N_Mme (Ph_Await N_Hss) s)"
| flag_seen: "b_at s c = Ph_Await n \<Longrightarrow> b_ready s n \<or> b_stop s \<Longrightarrow> boot_step s (goes c (Ph_Check n) s)"
| check_ends: "b_at s c = Ph_Check n \<Longrightarrow> b_stop s \<Longrightarrow> boot_step s (goes c Ph_Ended s)"
| check_passes: "b_at s c = Ph_Check n \<Longrightarrow> \<not> b_stop s \<Longrightarrow>
    boot_step s ((goes c (if n = N_Mme then Ph_Run else Ph_Dial n) s)\<lparr>b_rx := b_rx s \<or> n = N_Mme\<rparr>)"
| connects: "b_at s c = Ph_Dial n \<Longrightarrow> b_listens s n \<Longrightarrow>
    boot_step s ((goes c (after_dial n) s)\<lparr>b_dialled := (b_dialled s)(n := True)\<rparr>)"
| connect_fails: "b_at s c = Ph_Dial n \<Longrightarrow> \<not> b_listens s n \<Longrightarrow>
    boot_step s ((goes c Ph_Ended s)\<lparr>b_failed := (b_failed s)(c := True)\<rparr>)"
| loop_ends: "b_at s n = Ph_Run \<Longrightarrow> b_stop s \<Longrightarrow> n \<noteq> N_Mme \<or> \<not> b_rx s \<Longrightarrow> boot_step s (goes n (if n = N_Enb then Ph_Leave else Ph_Ended) s)"
| rx_ends: "b_rx s \<Longrightarrow> b_stop s \<Longrightarrow> boot_step s (s\<lparr>b_rx := False\<rparr>)"
| enb_ends: "b_at s N_Enb = Ph_Leave \<Longrightarrow> b_cmd s = C_Gone \<Longrightarrow> boot_step s (goes N_Enb Ph_Ended s)"
| cmd_ends: "b_cmd s = C_Test \<Longrightarrow> b_stop s \<Longrightarrow> boot_step s (s\<lparr>b_cmd := C_Gone\<rparr>)"
| cmd_waits: "b_cmd s = C_Test \<Longrightarrow> \<not> b_stop s \<Longrightarrow> boot_step s (s\<lparr>b_cmd := C_Doze\<rparr>)"
| cmd_sleeps: "b_cmd s = C_Doze \<Longrightarrow> boot_step s (s\<lparr>b_cmd := C_Asleep\<rparr>)"
| cmd_given: "b_cmd s = C_Asleep \<Longrightarrow> b_main s = Mn_Serving \<Longrightarrow> boot_step s (s\<lparr>b_cmd := C_Test\<rparr>)"
| attach_begins: "b_at s N_Mme = Ph_Run \<Longrightarrow> b_at s N_Enb = Ph_Run \<Longrightarrow>
    boot_step s ((goes N_Mme Ph_Vectors s)\<lparr>b_air := Air_Sent\<rparr>)"
| hss_answers: "b_at s N_Hss = Ph_Run \<Longrightarrow> b_air s = Air_Sent \<Longrightarrow> boot_step s (s\<lparr>b_air := Aia_Sent\<rparr>)"
| vectors_stored: "b_at s N_Mme = Ph_Vectors \<Longrightarrow> b_air s = Aia_Sent \<Longrightarrow> b_rx s \<Longrightarrow>
    boot_step s ((goes N_Mme Ph_Run s)\<lparr>b_air := Air_None\<rparr>)"
| stop_stored: "b_main s = Mn_Serving \<Longrightarrow> boot_step s (s\<lparr>b_stop := True, b_main := Mn_Stopped\<rparr>)"
| stop_requested: "b_main s = Mn_Stopped \<Longrightarrow>
    boot_step s (s\<lparr>b_main := Mn_Notified, b_cmd := (if b_cmd s = C_Asleep then C_Test else b_cmd s)\<rparr>)"
| all_joined: "b_main s = Mn_Notified \<Longrightarrow> \<forall>n. b_at s n = Ph_Ended \<Longrightarrow> boot_step s (s\<lparr>b_main := Mn_Joined\<rparr>)"

text \<open>The standard allows a sleeping thread to wake up without a notification; the programs do not rely on it.\<close>

inductive wakes_alone :: "boot \<Rightarrow> boot \<Rightarrow> bool" where
  cmd_wakes: "b_cmd s = C_Asleep \<Longrightarrow> wakes_alone s (s\<lparr>b_cmd := C_Test\<rparr>)"
| vectors_wake: "b_at s N_Mme = Ph_Vectors \<Longrightarrow> b_stop s \<Longrightarrow> wakes_alone s (goes N_Mme Ph_Run s)"

inductive boot_runs :: "boot \<Rightarrow> boot \<Rightarrow> bool" where
  boots_none: "boot_runs s s"
| boots_more: "boot_runs s t \<Longrightarrow> boot_step t u \<or> wakes_alone t u \<Longrightarrow> boot_runs s u"

lemma boot_trans: "boot_runs t u \<Longrightarrow> boot_runs s t \<Longrightarrow> boot_runs s u"
  by (induction rule: boot_runs.induct) (auto intro: boots_more)

lemma boot_one: "boot_step s t \<Longrightarrow> boot_runs s t"
  by (blast intro: boots_none boots_more)

subsection \<open>The invariant\<close>

definition legit :: "node \<Rightarrow> boot_phase \<Rightarrow> bool" where
  "legit n p \<longleftrightarrow>
     (case p of Ph_Fresh \<Rightarrow> True | Ph_Bound \<Rightarrow> n \<noteq> N_Mme | Ph_Accept \<Rightarrow> tcp_server n
      | Ph_Await m \<Rightarrow> (n = N_Mme \<and> m \<in> {N_Hss, N_Sgw, N_Enb}) \<or> (n = N_Pgw \<and> m = N_Pcrf)
      | Ph_Check m \<Rightarrow> (n = N_Mme \<and> m \<in> {N_Hss, N_Sgw, N_Enb, N_Mme}) \<or> (n = N_Pgw \<and> m = N_Pcrf)
      | Ph_Dial m \<Rightarrow> (n = N_Mme \<and> m \<in> {N_Hss, N_Sgw, N_Enb}) \<or> (n = N_Pgw \<and> m = N_Pcrf)
      | Ph_Vectors \<Rightarrow> n = N_Mme | Ph_Leave \<Rightarrow> n = N_Enb | Ph_Run \<Rightarrow> True | Ph_Ended \<Rightarrow> True)"

text \<open>The links that a client in phase \<open>p\<close> has.\<close>

definition past :: "node \<Rightarrow> node \<Rightarrow> boot_phase \<Rightarrow> bool" where
  "past n c p \<longleftrightarrow>
     (if n = N_Pcrf then c = N_Pgw \<and> p = Ph_Run
      else c = N_Mme \<and> (p \<in> {Ph_Run, Ph_Vectors, Ph_Check N_Mme}
        \<or> n = N_Hss \<and> p \<in> {Ph_Await N_Sgw, Ph_Check N_Sgw, Ph_Dial N_Sgw, Ph_Await N_Enb, Ph_Check N_Enb, Ph_Dial N_Enb}))"

definition node_ok :: "node \<Rightarrow> boot_phase \<Rightarrow> bool \<Rightarrow> bool \<Rightarrow> (node \<Rightarrow> bool) \<Rightarrow> (node \<Rightarrow> bool) \<Rightarrow> bool \<Rightarrow> bool" where
  "node_ok n p r l rd dl st \<longleftrightarrow> legit n p
     \<and> (p \<noteq> Ph_Fresh \<and> n \<noteq> N_Mme \<longrightarrow> l) \<and> (r \<longrightarrow> l \<and> n \<noteq> N_Mme)
     \<and> (p \<notin> {Ph_Fresh, Ph_Bound, Ph_Ended} \<and> n \<noteq> N_Mme \<longrightarrow> r)
     \<and> (\<forall>m. p = Ph_Dial m \<longrightarrow> rd m) \<and> (\<forall>m. p = Ph_Check m \<and> m \<noteq> N_Mme \<and> \<not> st \<longrightarrow> rd m)
     \<and> (\<forall>m. tcp_server m \<and> past m n p \<longrightarrow> dl m) \<and> (tcp_server n \<and> p = Ph_Run \<longrightarrow> dl n)
     \<and> (p \<in> {Ph_Ended, Ph_Leave} \<longrightarrow> st)"

lemma node_ok_mono:
  assumes "node_ok n p r l rd dl st" and "\<And>m. rd m \<Longrightarrow> rd' m" and "\<And>m. dl m \<Longrightarrow> dl' m" and "st \<Longrightarrow> st'"
  shows "node_ok n p r l rd' dl' st'"
  using assms unfolding node_ok_def by blast

definition nodes_ok :: "boot \<Rightarrow> bool" where
  "nodes_ok s \<longleftrightarrow> (\<forall>n. node_ok n (b_at s n) (b_ready s n) (b_listens s n) (b_ready s) (b_dialled s) (b_stop s))"

definition boot_ok :: "boot \<Rightarrow> bool" where
  "boot_ok s \<longleftrightarrow> nodes_ok s \<and> (\<forall>n. \<not> b_failed s n)
     \<and> (b_at s N_Mme = Ph_Vectors \<and> b_air s = Air_None \<longrightarrow> b_stop s)
     \<and> (b_at s N_Mme \<in> {Ph_Run, Ph_Vectors} \<and> \<not> b_rx s \<longrightarrow> b_stop s)
     \<and> (b_stop s \<longleftrightarrow> b_main s \<noteq> Mn_Serving) \<and> (b_cmd s = C_Gone \<longrightarrow> b_stop s)
     \<and> (b_at s N_Enb \<in> {Ph_Run, Ph_Leave} \<longrightarrow> b_cmd s \<noteq> C_None)"

lemma boot_new_ok: "boot_ok boot_new"
  by (auto simp: boot_ok_def nodes_ok_def node_ok_def boot_new_def legit_def past_def)

lemma nodes_moved:
  assumes "nodes_ok s" and "b_at t = (b_at s)(n := p)"
    and "\<And>m. b_ready s m \<Longrightarrow> b_ready t m" and "\<And>m. b_dialled s m \<Longrightarrow> b_dialled t m" and "b_stop s \<Longrightarrow> b_stop t"
    and "\<And>m. m \<noteq> n \<Longrightarrow> b_ready t m = b_ready s m \<and> b_listens t m = b_listens s m"
    and "node_ok n p (b_ready t n) (b_listens t n) (b_ready t) (b_dialled t) (b_stop t)"
  shows "nodes_ok t"
  unfolding nodes_ok_def
proof
  fix m
  show "node_ok m (b_at t m) (b_ready t m) (b_listens t m) (b_ready t) (b_dialled t) (b_stop t)"
  proof (cases "m = n")
    case False
    have "node_ok m (b_at s m) (b_ready s m) (b_listens s m) (b_ready s) (b_dialled s) (b_stop s)"
      using assms(1) by (simp add: nodes_ok_def)
    from node_ok_mono [OF this assms(3,4,5)] False assms(2,6) show ?thesis by simp
  qed (use assms(2,7) in simp)
qed

lemma nodes_fields [simp]:
  "nodes_ok (s\<lparr>b_cmd := c\<rparr>) = nodes_ok s" "nodes_ok (s\<lparr>b_air := a\<rparr>) = nodes_ok s" "nodes_ok (s\<lparr>b_main := m\<rparr>) = nodes_ok s"
  "nodes_ok (s\<lparr>b_rx := x\<rparr>) = nodes_ok s"
  by (simp_all add: nodes_ok_def)

lemma nodes_stop [simp]: "nodes_ok s \<Longrightarrow> nodes_ok (s\<lparr>b_stop := True\<rparr>)"
  using node_ok_mono unfolding nodes_ok_def by simp metis

lemma node_at: "boot_ok s \<Longrightarrow> b_at s n = p \<Longrightarrow> node_ok n p (b_ready s n) (b_listens s n) (b_ready s) (b_dialled s) (b_stop s)"
  unfolding boot_ok_def nodes_ok_def by metis

lemmas node_defs = node_ok_def legit_def past_def tcp_server_def after_flag_def after_dial_def

lemma dial_listens: "boot_ok s \<Longrightarrow> b_at s c = Ph_Dial n \<Longrightarrow> b_listens s n"
  using node_at [of s c "Ph_Dial n"] node_at [of s n "b_at s n"] by (auto simp: node_ok_def)

lemma step_nodes: "boot_step s t \<Longrightarrow> boot_ok s \<Longrightarrow> nodes_ok t"
proof (induction rule: boot_step.induct)
  case (binds n s)
  show ?case
    by (rule nodes_moved [of s _ n Ph_Bound])
      (use binds node_at [OF binds(3,2)] in \<open>auto simp: goes_def boot_ok_def node_defs\<close>)
next
  case (sets_flag s n)
  show ?case
    by (rule nodes_moved [of s _ n "after_flag n"])
      (use sets_flag node_at [OF sets_flag(2,1)] in \<open>auto simp: goes_def boot_ok_def node_defs\<close>)
next
  case (accepts s n)
  show ?case
    by (rule nodes_moved [of s _ n Ph_Run])
      (use accepts node_at [OF accepts(3,1)] in \<open>auto simp: goes_def boot_ok_def node_defs split: if_splits\<close>)
next
  case (accept_ends s n)
  show ?case
    by (rule nodes_moved [of s _ n Ph_Ended])
      (use accept_ends node_at [OF accept_ends(3,1)] in \<open>auto simp: goes_def boot_ok_def node_defs split: if_splits\<close>)
next
  case (mme_begins s)
  show ?case
    by (rule nodes_moved [of s _ N_Mme "Ph_Await N_Hss"])
      (use mme_begins node_at [OF mme_begins(2,1)] in \<open>auto simp: goes_def boot_ok_def node_defs split: if_splits\<close>)
next
  case (flag_seen s c n)
  show ?case
    by (rule nodes_moved [of s _ c "Ph_Check n"])
      (use flag_seen node_at [OF flag_seen(3,1)] in \<open>auto simp: goes_def boot_ok_def node_defs split: if_splits\<close>)
next
  case (check_ends s c n)
  show ?case
    by (rule nodes_moved [of s _ c Ph_Ended])
      (use check_ends node_at [OF check_ends(3,1)] in \<open>auto simp: goes_def boot_ok_def node_defs split: if_splits\<close>)
next
  case (check_passes s c n)
  show ?case
    by (rule nodes_moved [of s _ c "if n = N_Mme then Ph_Run else Ph_Dial n"])
      (use check_passes node_at [OF check_passes(3,1)] in \<open>auto simp: goes_def boot_ok_def node_defs split: if_splits\<close>)
next
  case (connects s c n)
  show ?case
    by (rule nodes_moved [of s _ c "after_dial n"])
      (use connects node_at [OF connects(3,1)] in \<open>auto simp: goes_def boot_ok_def node_defs split: if_splits\<close>)
next
  case (connect_fails s c n)
  then show ?case using dial_listens by blast
next
  case (loop_ends s n)
  show ?case
    by (rule nodes_moved [of s _ n "if n = N_Enb then Ph_Leave else Ph_Ended"])
      (use loop_ends node_at [OF loop_ends(4,1)] in \<open>auto simp: goes_def boot_ok_def node_defs split: if_splits\<close>)
next
  case (enb_ends s)
  show ?case
    by (rule nodes_moved [of s _ N_Enb Ph_Ended])
      (use enb_ends node_at [OF enb_ends(3,1)] in \<open>auto simp: goes_def boot_ok_def node_defs split: if_splits\<close>)
next
  case (attach_begins s)
  show ?case
    by (rule nodes_moved [of s _ N_Mme Ph_Vectors])
      (use attach_begins node_at [OF attach_begins(3,1)] in \<open>auto simp: goes_def boot_ok_def node_defs split: if_splits\<close>)
next
  case (vectors_stored s)
  show ?case
    by (rule nodes_moved [of s _ N_Mme Ph_Run])
      (use vectors_stored node_at [OF vectors_stored(4,1)] in \<open>auto simp: goes_def boot_ok_def node_defs split: if_splits\<close>)
qed (auto simp: boot_ok_def)

lemma boot_step_ok:
  assumes "boot_step s t" and "boot_ok s"
  shows "boot_ok t"
proof -
  have n: "nodes_ok t" by (rule step_nodes [OF assms])
  from assms(1) have "(\<forall>n. \<not> b_failed t n) \<and> (b_at t N_Mme = Ph_Vectors \<and> b_air t = Air_None \<longrightarrow> b_stop t)
     \<and> (b_at t N_Mme \<in> {Ph_Run, Ph_Vectors} \<and> \<not> b_rx t \<longrightarrow> b_stop t)
     \<and> (b_stop t \<longleftrightarrow> b_main t \<noteq> Mn_Serving) \<and> (b_cmd t = C_Gone \<longrightarrow> b_stop t)
     \<and> (b_at t N_Enb \<in> {Ph_Run, Ph_Leave} \<longrightarrow> b_cmd t \<noteq> C_None)"
  proof cases
    case (connect_fails c n)
    then show ?thesis using dial_listens [OF assms(2)] by blast
  next
    case (sets_flag n)
    then show ?thesis using assms(2) node_at [OF assms(2) sets_flag(2)]
      by (auto simp: boot_ok_def goes_def node_defs split: if_splits)
  next
    case (accepts n)
    then show ?thesis using assms(2) node_at [OF assms(2) accepts(2)]
      by (auto simp: boot_ok_def goes_def node_defs split: if_splits)
  next
    case (check_passes c n)
    then show ?thesis using assms(2) node_at [OF assms(2) check_passes(2)]
      by (auto simp: boot_ok_def goes_def node_ok_def legit_def)
  next
    case (connects c n)
    then show ?thesis using assms(2) node_at [OF assms(2) connects(2)]
      by (auto simp: boot_ok_def goes_def node_defs)
  qed (use assms(2) in \<open>auto simp: boot_ok_def goes_def after_flag_def tcp_server_def split: if_splits\<close>)
  with n show ?thesis unfolding boot_ok_def by blast
qed

lemma boot_wakes_ok:
  assumes "wakes_alone s t" and "boot_ok s"
  shows "boot_ok t"
  using assms(1)
proof cases
  case cmd_wakes
  then show ?thesis using assms(2) by (auto simp: boot_ok_def)
next
  case vectors_wake
  have "nodes_ok t"
    by (rule nodes_moved [of s _ N_Mme Ph_Run])
      (use vectors_wake assms(2) node_at [OF assms(2) vectors_wake(2)] in \<open>auto simp: goes_def boot_ok_def node_defs split: if_splits\<close>)
  then show ?thesis using assms(2) vectors_wake by (auto simp: boot_ok_def goes_def)
qed

lemma boot_runs_ok: "boot_runs s t \<Longrightarrow> boot_ok s \<Longrightarrow> boot_ok t"
  by (induction rule: boot_runs.induct) (auto intro: boot_step_ok boot_wakes_ok)

subsection \<open>Coming up\<close>

definition boot_up :: "boot \<Rightarrow> bool" where
  "boot_up s \<longleftrightarrow> (\<forall>n. b_at s n = Ph_Run)"

fun turns_left :: "node \<Rightarrow> nat" where
  "turns_left N_Hss = 9" | "turns_left N_Sgw = 6" | "turns_left N_Enb = 3" | "turns_left N_Mme = 0"
| "turns_left N_Pcrf = 0" | "turns_left N_Pgw = 0"

fun phase_left :: "boot_phase \<Rightarrow> nat" where
  "phase_left Ph_Fresh = 14" | "phase_left Ph_Bound = 13" | "phase_left Ph_Accept = 1"
| "phase_left (Ph_Await n) = turns_left n + 3" | "phase_left (Ph_Check n) = turns_left n + 2"
| "phase_left (Ph_Dial n) = turns_left n + 1" | "phase_left Ph_Run = 0" | "phase_left Ph_Vectors = 1"
| "phase_left Ph_Leave = 0" | "phase_left Ph_Ended = 0"

definition boot_left :: "boot \<Rightarrow> nat" where
  "boot_left s = phase_left (b_at s N_Hss) + phase_left (b_at s N_Pcrf) + phase_left (b_at s N_Sgw)
     + phase_left (b_at s N_Pgw) + phase_left (b_at s N_Enb) + phase_left (b_at s N_Mme)
     + (case b_air s of Air_None \<Rightarrow> 0 | Air_Sent \<Rightarrow> 2 | Aia_Sent \<Rightarrow> 1)"

lemma left_moved:
  "b_at t = (b_at s)(n := p) \<Longrightarrow> b_air t = b_air s \<Longrightarrow> phase_left p < phase_left (b_at s n) \<Longrightarrow> boot_left t < boot_left s"
  by (cases n) (auto simp: boot_left_def)

definition boot_gains :: "boot \<Rightarrow> bool" where
  "boot_gains s \<longleftrightarrow> (\<exists>t. boot_step s t \<and> boot_left t < boot_left s \<and> \<not> b_stop t)"

lemma gainI:
  assumes "boot_step s t" and "\<not> b_stop t" and "b_at t = (b_at s)(n := p)" and "b_air t = b_air s"
    and "phase_left p < phase_left (b_at s n)"
  shows "boot_gains s"
  using assms left_moved unfolding boot_gains_def by blast

lemma server_gains:
  assumes "boot_ok s" and "\<not> b_stop s" and "b_at s n \<in> {Ph_Fresh, Ph_Bound}"
  shows "boot_gains s"
proof (cases "b_at s n = Ph_Fresh")
  case True
  show ?thesis
  proof (cases "n = N_Mme")
    case True
    with \<open>b_at s n = Ph_Fresh\<close> have f: "b_at s N_Mme = Ph_Fresh" by simp
    from mme_begins [OF this] show ?thesis
      by (rule gainI [of _ _ N_Mme "Ph_Await N_Hss"]) (use f assms(2) in \<open>simp_all add: goes_def\<close>)
  next
    case False
    from binds [OF False True] show ?thesis by (rule gainI [of _ _ n Ph_Bound]) (use True assms(2) in \<open>simp_all add: goes_def\<close>)
  qed
next
  case False
  then have b: "b_at s n = Ph_Bound" using assms(3) by simp
  from sets_flag [OF this] show ?thesis
    by (rule gainI [of _ _ n "after_flag n"]) (use b assms(2) in \<open>simp_all add: goes_def after_flag_def\<close>)
qed

lemma client_gains:
  assumes "boot_ok s" and "\<not> b_stop s" and "\<And>n. b_at s n \<notin> {Ph_Fresh, Ph_Bound}"
    and "b_at s c = Ph_Await n \<or> b_at s c = Ph_Check n \<or> b_at s c = Ph_Dial n"
  shows "boot_gains s"
proof -
  note c = node_at [OF assms(1) refl, of c]
  have r: "b_ready s n" if "n \<noteq> N_Mme"
    using that assms(2,3) node_at [OF assms(1) refl, of n] by (auto simp: node_ok_def)
  from assms(4) show ?thesis
  proof (elim disjE)
    assume a: "b_at s c = Ph_Await n"
    then have "n \<noteq> N_Mme" using c by (auto simp: node_ok_def legit_def)
    then have "boot_step s (goes c (Ph_Check n) s)" using a r by (intro flag_seen) simp_all
    then show ?thesis by (rule gainI [of _ _ c "Ph_Check n"]) (use a assms(2) in \<open>simp_all add: goes_def\<close>)
  next
    assume a: "b_at s c = Ph_Check n"
    from check_passes [OF this assms(2)] show ?thesis
      by (rule gainI [of _ _ c "if n = N_Mme then Ph_Run else Ph_Dial n"]) (use a assms(2) in \<open>simp_all add: goes_def\<close>)
  next
    assume a: "b_at s c = Ph_Dial n"
    have "phase_left (after_dial n) < turns_left n + 1"
      using c a by (auto simp: node_ok_def legit_def after_dial_def)
    then show ?thesis
      by (intro gainI [OF connects [OF a dial_listens [OF assms(1) a]], of c "after_dial n"])
        (use a assms(2) in \<open>simp_all add: goes_def\<close>)
  qed
qed

lemma boot_progress:
  assumes "boot_ok s" and "\<not> b_stop s" and "\<not> boot_up s"
  shows "boot_gains s"
proof (rule ccontr)
  assume g: "\<not> boot_gains s"
  have a: "b_at s n \<notin> {Ph_Fresh, Ph_Bound}" for n using server_gains [OF assms(1,2)] g by blast
  have b: "b_at s c \<noteq> Ph_Await n \<and> b_at s c \<noteq> Ph_Check n \<and> b_at s c \<noteq> Ph_Dial n" for c n
    using client_gains [OF assms(1,2) a] g by blast
  have e: "b_at s n \<notin> {Ph_Leave, Ph_Ended}" for n
    using node_at [OF assms(1) refl, of n] assms(2) by (auto simp: node_ok_def)
  have l: "legit n (b_at s n)" for n using node_at [OF assms(1) refl, of n] by (simp add: node_ok_def)
  have m: "b_at s N_Mme \<in> {Ph_Run, Ph_Vectors}"
    using a [of N_Mme] b [of N_Mme] e [of N_Mme] l [of N_Mme] by (cases "b_at s N_Mme") (auto simp: legit_def tcp_server_def)
  have w: "b_at s n = Ph_Run" if "n = N_Pgw \<or> n = N_Sgw" for n
    using a [of n] b [of n] e [of n] l [of n] that
    by (cases "b_at s n") (auto simp: legit_def tcp_server_def)
  have d: "b_dialled s n" if "tcp_server n" for n
  proof (cases "n = N_Pcrf")
    case True
    have "past N_Pcrf N_Pgw (b_at s N_Pgw)" using w [of N_Pgw] by (simp add: past_def)
    with True that node_at [OF assms(1) refl, of N_Pgw] show ?thesis by (auto simp: node_ok_def)
  next
    case False
    then have "past n N_Mme (b_at s N_Mme)" using m by (auto simp: past_def)
    with that node_at [OF assms(1) refl, of N_Mme] show ?thesis by (auto simp: node_ok_def)
  qed
  have s: "b_at s n = Ph_Run" if "tcp_server n" for n
  proof -
    have "b_at s n \<noteq> Ph_Accept"
    proof
      assume x: "b_at s n = Ph_Accept"
      from accepts [OF x d [OF that]] have "boot_gains s"
        by (rule gainI [of _ _ n Ph_Run]) (use x assms(2) in \<open>simp_all add: goes_def\<close>)
      with g show False by blast
    qed
    then show ?thesis using a [of n] b [of n] e [of n] l [of n] that
      by (cases "b_at s n") (auto simp: legit_def tcp_server_def)
  qed
  have "b_at s N_Mme = Ph_Vectors"
  proof (rule ccontr)
    assume "b_at s N_Mme \<noteq> Ph_Vectors"
    then have "b_at s n = Ph_Run" for n using m w s [of n] by (cases n) (auto simp: tcp_server_def)
    with assms(3) show False by (simp add: boot_up_def)
  qed
  moreover from this have "b_air s \<noteq> Air_None" "b_rx s" using assms(1,2) by (auto simp: boot_ok_def)
  ultimately have "boot_gains s"
  proof (cases "b_air s")
    case Air_Sent
    with hss_answers [of s] s [of N_Hss] assms(2) show ?thesis
      unfolding boot_gains_def by (intro exI [of _ "s\<lparr>b_air := Aia_Sent\<rparr>"]) (simp add: boot_left_def tcp_server_def)
  next
    case Aia_Sent
    with vectors_stored [of s] \<open>b_at s N_Mme = Ph_Vectors\<close> \<open>b_rx s\<close> assms(2) show ?thesis
      unfolding boot_gains_def
      by (intro exI [of _ "(goes N_Mme Ph_Run s)\<lparr>b_air := Air_None\<rparr>"]) (simp add: boot_left_def goes_def)
  qed simp
  with g show False by blast
qed

lemma boot_finishes:
  "boot_ok s \<Longrightarrow> \<not> b_stop s \<Longrightarrow> \<exists>t. boot_runs s t \<and> boot_up t \<and> \<not> b_stop t"
proof (induction "boot_left s" arbitrary: s rule: less_induct)
  case less
  show ?case
  proof (cases "boot_up s")
    case False
    then obtain t where t: "boot_step s t" "boot_left t < boot_left s" "\<not> b_stop t"
      using boot_progress [OF less(2,3)] unfolding boot_gains_def by blast
    with less(1) [OF t(2) boot_step_ok [OF t(1) less(2)]] show ?thesis by (blast intro: boot_trans boot_one)
  qed (use less(3) boots_none in blast)
qed

section \<open>The properties of start and shutdown\<close>

text \<open>
  The properties of start and shutdown of the 4G nodes, which span all of them: the simulator comes up
  under every order of the threads, and the two waits that its shutdown does not end.
\<close>

subsection \<open>Coming up\<close>

text \<open>C9. The simulator comes up: the node threads may run in any order, no connection is attempted before its
server listens, and from every state reached before the shutdown all six nodes can still enter their loops,
with every connection made. An attach that started early does not prevent it.\<close>
theorem boot_completes:
  assumes "boot_runs boot_new s" and "\<not> b_stop s"
  shows "\<not> b_failed s n \<and> (b_at s c = Ph_Dial m \<longrightarrow> b_ready s m \<and> b_listens s m)
    \<and> (\<exists>t. boot_runs s t \<and> boot_up t \<and> \<not> b_stop t \<and> b_rx t
          \<and> (\<forall>k. tcp_server k \<longrightarrow> b_dialled t k) \<and> (\<forall>k. k \<noteq> N_Mme \<longrightarrow> b_ready t k))"
proof -
  have ok: "boot_ok s" using boot_runs_ok [OF assms(1) boot_new_ok] .
  obtain t where t: "boot_runs s t" "boot_up t" "\<not> b_stop t" using boot_finishes [OF ok assms(2)] by blast
  have ot: "boot_ok t" using boot_runs_ok [OF t(1) ok] .
  have up: "b_at t k = Ph_Run" for k using t(2) by (simp add: boot_up_def)
  have "b_rx t" using ot up t(3) by (auto simp: boot_ok_def)
  moreover have "tcp_server k \<longrightarrow> b_dialled t k" "k \<noteq> N_Mme \<longrightarrow> b_ready t k" for k
    using node_at [OF ot up, of k] by (auto simp: node_ok_def)
  moreover have "\<not> b_failed s n" using ok by (simp add: boot_ok_def)
  moreover have "b_at s c = Ph_Dial m \<longrightarrow> b_ready s m \<and> b_listens s m"
    using dial_listens [OF ok] node_at [OF ok refl, of c] by (auto simp: node_ok_def)
  ultimately show ?thesis using t by blast
qed

definition boot_early :: boot where
  "boot_early = (goes N_Mme (Ph_Await N_Hss) boot_new)"

theorem boot_completes_witness:
  "\<not> b_failed boot_early N_Mme \<and> (\<exists>t. boot_runs boot_early t \<and> boot_up t)"
proof -
  have "boot_runs boot_new boot_early" unfolding boot_early_def
    by (rule boot_one, rule mme_begins) (simp add: boot_new_def)
  then have "\<not> b_failed boot_early N_Mme \<and> (b_at boot_early N_Mme = Ph_Dial N_Hss \<longrightarrow>
      b_ready boot_early N_Hss \<and> b_listens boot_early N_Hss) \<and> (\<exists>t. boot_runs boot_early t \<and> boot_up t \<and> \<not> b_stop t
      \<and> b_rx t \<and> (\<forall>k. tcp_server k \<longrightarrow> b_dialled t k) \<and> (\<forall>k. k \<noteq> N_Mme \<longrightarrow> b_ready t k))"
    by (rule boot_completes) (simp add: boot_early_def boot_new_def goes_def)
  then show ?thesis by blast
qed

subsection \<open>Going down\<close>







end
