(* ===== verification/Log_Files.thy ===== *)
theory Log_Files
  imports Text_Frames
begin

text \<open>
  The loggers of the four projects (\<open>common/logger.h\<close>; the four copies differ) on the console and in the
  session file, and what becomes of the session file when a program ends. The log file is a variable
  with static storage in \<open>getLogFile\<close>, as is the packet writer in \<open>PcapWriter::instance\<close>: such variables are
  destroyed in the reverse of the order in which they were first used, and using one afterwards is
  undefined (\<open>None\<close>). Clock readings are arguments, bytes are characters.
\<close>

datatype Level = BEGINNER | ENGINEER | INTERVIEW_C | INTERVIEW_T | SYSTEM

datatype static_var = St_Log | St_Pcap

datatype log_stream = Log_Closed | Log_Open string | Log_Destroyed

text \<open>\<open>lg_writable\<close> tells whether opening the file succeeds, \<open>lg_pcap\<close> whether a capture is open.\<close>

record logger =
  lg_level :: Level
  lg_all :: bool
  lg_name :: string
  lg_file :: log_stream
  lg_disk :: "string \<Rightarrow> string option"
  lg_console :: string
  lg_writable :: bool
  lg_pcap :: bool
  lg_statics :: "static_var list"

definition logger_new :: "string \<Rightarrow> bool \<Rightarrow> logger" where
  "logger_new name writable = \<lparr> lg_level = ENGINEER, lg_all = False, lg_name = name, lg_file = Log_Closed,
     lg_disk = (\<lambda>_. None), lg_console = [], lg_writable = writable, lg_pcap = False, lg_statics = [] \<rparr>"

text \<open>The first use of a variable with static storage constructs it.\<close>

definition uses_static :: "static_var \<Rightarrow> logger \<Rightarrow> logger" where
  "uses_static v s = (if v \<in> set (lg_statics s) then s else s\<lparr>lg_statics := lg_statics s @ [v]\<rparr>)"

definition getLogFile :: "logger \<Rightarrow> logger option" where
  "getLogFile s =
     (case lg_file s of
        Log_Destroyed \<Rightarrow> None
      | Log_Open n \<Rightarrow> Some s
      | Log_Closed \<Rightarrow>
          (let s1 = uses_static St_Log s
           in Some (if lg_writable s1 then s1\<lparr>lg_file := Log_Open (lg_name s1), lg_disk := (lg_disk s1)(lg_name s1 \<mapsto> [])\<rparr>
                    else s1)))"

text \<open>What a holder of the mutex writes: \<open>con\<close> to the console, then \<open>fil\<close> to the file.\<close>

definition write_log :: "string \<Rightarrow> string \<Rightarrow> logger \<Rightarrow> logger option" where
  "write_log con fil s =
     (case getLogFile (s\<lparr>lg_console := lg_console s @ con\<rparr>) of
        None \<Rightarrow> None
      | Some s1 \<Rightarrow>
          Some (case lg_file s1 of
                  Log_Open n \<Rightarrow> s1\<lparr>lg_disk := (lg_disk s1)(n := map_option (\<lambda>t. t @ fil) (lg_disk s1 n))\<rparr>
                | _ \<Rightarrow> s1))"

subsection \<open>Colours and tags\<close>

abbreviation ESC :: char where "ESC \<equiv> CHR 0x1B"

definition sgr :: "string \<Rightarrow> string" where
  "sgr code = ESC # ''['' @ code @ ''m''"

definition CLR_SYS :: string where "CLR_SYS = sgr ''35''"
definition CLR_WARN :: string where "CLR_WARN = sgr ''1;31''"
definition CLR_IE :: string where "CLR_IE = sgr ''37''"
definition CLR_STEP :: string where "CLR_STEP = sgr ''1;37''"
definition CLR_RESET :: string where "CLR_RESET = sgr ''0''"

datatype log_node =
    L_Enb | L_Mme | L_Hss | L_Pcrf | L_Sgw | L_Pgw | L_Pcscf | L_Scscf | L_Mtas
  | L_Gnb | L_Amf | L_Udm | L_Smf | L_Upf | L_Nrf | L_Cbsd | L_Dp | L_Sas | L_Sys

fun node_style_4g :: "log_node \<Rightarrow> (string \<times> string) option" where
  "node_style_4g L_Enb = Some (sgr ''1;32'', '' eNB  '')"
| "node_style_4g L_Mme = Some (sgr ''1;34'', '' MME  '')"
| "node_style_4g L_Hss = Some (sgr ''1;33'', '' HSS  '')"
| "node_style_4g L_Pcrf = Some (sgr ''1;36'', '' PCRF '')"
| "node_style_4g L_Sgw = Some (sgr ''1;35'', '' S-GW '')"
| "node_style_4g L_Pgw = Some (sgr ''38;5;208'', '' P-GW '')"
| "node_style_4g L_Pcscf = Some (sgr ''1;96'', ''P-CSCF'')"
| "node_style_4g L_Scscf = Some (sgr ''1;94'', ''S-CSCF'')"
| "node_style_4g L_Mtas = Some (sgr ''1;93'', '' MTAS '')"
| "node_style_4g L_Sys = Some (CLR_SYS, '' SYS  '')"
| "node_style_4g _ = None"

fun node_style_5g :: "log_node \<Rightarrow> (string \<times> string) option" where
  "node_style_5g L_Gnb = Some (sgr ''1;32'', '' gNB  '')"
| "node_style_5g L_Amf = Some (sgr ''1;34'', '' AMF  '')"
| "node_style_5g L_Udm = Some (sgr ''1;33'', '' UDM  '')"
| "node_style_5g L_Smf = Some (sgr ''1;36'', '' SMF  '')"
| "node_style_5g L_Upf = Some (sgr ''38;5;208'', '' UPF  '')"
| "node_style_5g L_Nrf = Some (sgr ''1;35'', '' NRF  '')"
| "node_style_5g L_Sys = Some (CLR_SYS, '' SYS  '')"
| "node_style_5g _ = None"

fun node_style_cbrs :: "log_node \<Rightarrow> (string \<times> string) option" where
  "node_style_cbrs L_Cbsd = Some (sgr ''1;32'', '' CBSD '')"
| "node_style_cbrs L_Dp = Some (sgr ''1;34'', ''  DP  '')"
| "node_style_cbrs L_Sas = Some (sgr ''1;33'', '' SAS  '')"
| "node_style_cbrs L_Sys = Some (CLR_SYS, '' SYS  '')"
| "node_style_cbrs _ = None"

fun level_prefix_4g :: "Level \<Rightarrow> string" where
  "level_prefix_4g BEGINNER = ''[STORY] ''"
| "level_prefix_4g INTERVIEW_C = ''[C++ DESIGN] ''"
| "level_prefix_4g INTERVIEW_T = ''[3GPP LOGIC] ''"
| "level_prefix_4g ENGINEER = ''[3GPP] ''"
| "level_prefix_4g SYSTEM = []"

fun level_prefix_5g :: "Level \<Rightarrow> string" where
  "level_prefix_5g BEGINNER = ''[STORY] ''"
| "level_prefix_5g INTERVIEW_C = ''[C++ DESIGN] ''"
| "level_prefix_5g INTERVIEW_T = ''[5G SBA] ''"
| "level_prefix_5g ENGINEER = ''[5GC] ''"
| "level_prefix_5g SYSTEM = []"

subsection \<open>Printing\<close>

text \<open>\<open>t1\<close> and \<open>t2\<close> are the two readings of the clock, one for the console and one for the file.\<close>

definition log_text :: "string \<Rightarrow> string \<Rightarrow> string \<Rightarrow> string \<Rightarrow> string" where
  "log_text t tag pre msg = ''['' @ t @ '']['' @ tag @ ''] '' @ pre @ msg"

definition print_4g :: "Level \<Rightarrow> string \<Rightarrow> string \<Rightarrow> string \<Rightarrow> string \<Rightarrow> string \<Rightarrow> logger \<Rightarrow> logger option" where
  "print_4g level color tag msg t1 t2 s =
     (if level \<noteq> SYSTEM \<and> level \<noteq> lg_level s then Some s
      else write_log (color @ log_text t1 tag (level_prefix_4g level) msg @ CLR_RESET @ [LF])
             (log_text t2 tag (level_prefix_4g level) msg @ [LF]) s)"

definition print_5g :: "Level \<Rightarrow> string \<Rightarrow> string \<Rightarrow> string \<Rightarrow> string \<Rightarrow> string \<Rightarrow> logger \<Rightarrow> logger option" where
  "print_5g level color tag msg t1 t2 s =
     (let always = (level = SYSTEM \<or> level = BEGINNER)
      in if \<not> always \<and> \<not> lg_all s \<and> level \<noteq> lg_level s then Some s
         else write_log (color @ log_text t1 tag (level_prefix_5g level) msg @ CLR_RESET @ [LF])
                (log_text t2 tag (level_prefix_5g level) msg @ [LF]) s)"

text \<open>The CBRS logger reads the clock once and shows the name of the thread in at least twelve columns.\<close>

definition thread_pad :: "string \<Rightarrow> string" where
  "thread_pad n = n @ replicate (12 - length n) (CHR '' '')"

definition print_cbrs :: "string \<Rightarrow> Level \<Rightarrow> string \<Rightarrow> string \<Rightarrow> string \<Rightarrow> string \<Rightarrow> logger \<Rightarrow> logger option" where
  "print_cbrs thread level color tag msg t s =
     (let always = (level = SYSTEM \<or> level = BEGINNER);
          line = ''['' @ t @ '']['' @ tag @ '']['' @ thread_pad thread @ ''] '' @ msg
      in if \<not> always \<and> \<not> lg_all s \<and> level \<noteq> lg_level s then Some s
         else write_log (color @ line @ CLR_RESET @ [LF]) (line @ [LF]) s)"

definition field_bar :: string where
  "field_bar = replicate 9 (CHR '' '') @ [CHR 0xE2, CHR 0x94, CHR 0x82] @ ''  ''"

definition field_bar_cbrs :: string where
  "field_bar_cbrs = replicate 34 (CHR '' '') @ [CHR 0xE2, CHR 0x94, CHR 0x82] @ ''  ''"

definition ie_field :: "string \<Rightarrow> logger \<Rightarrow> logger option" where
  "ie_field msg = write_log (CLR_IE @ field_bar @ msg @ CLR_RESET @ [LF]) (field_bar @ msg @ [LF])"

definition ie_field_ims :: "string \<Rightarrow> logger \<Rightarrow> logger option" where
  "ie_field_ims msg s = (if lg_level s = BEGINNER then Some s else ie_field msg s)"

definition ie_field_cbrs :: "string \<Rightarrow> logger \<Rightarrow> logger option" where
  "ie_field_cbrs msg = write_log (CLR_IE @ field_bar_cbrs @ msg @ CLR_RESET @ [LF]) (field_bar_cbrs @ msg @ [LF])"

definition raw_5g :: "string \<Rightarrow> logger \<Rightarrow> logger option" where
  "raw_5g msg s = (if lg_all s \<or> lg_level s = INTERVIEW_C then ie_field (''raw: '' @ msg) s else Some s)"

definition step_marks :: "string \<Rightarrow> string" where
  "step_marks msg = (let bars = [CHR 0xE2, CHR 0x95, CHR 0x90, CHR 0xE2, CHR 0x95, CHR 0x90]
     in LF # ''  '' @ bars @ '' '' @ msg @ '' '' @ bars @ [LF])"

definition log_step :: "string \<Rightarrow> logger \<Rightarrow> logger" where
  "log_step msg s = s\<lparr>lg_console := lg_console s @ CLR_STEP @ step_marks msg @ CLR_RESET\<rparr>"

subsection \<open>Levels and files\<close>

definition setLevel :: "Level \<Rightarrow> logger \<Rightarrow> logger" where
  "setLevel l s = s\<lparr>lg_level := l\<rparr>"

definition setSessionFile :: "string \<Rightarrow> logger \<Rightarrow> logger" where
  "setSessionFile n s = s\<lparr>lg_name := n\<rparr>"

definition levelFromEnv_ims :: "string option \<Rightarrow> Level" where
  "levelFromEnv_ims e =
     (if e = Some ''BEGINNER'' then BEGINNER else if e = Some ''INTERVIEW_C'' then INTERVIEW_C
      else if e = Some ''INTERVIEW_T'' then INTERVIEW_T else ENGINEER)"

definition setLevelFromEnv_5g :: "string option \<Rightarrow> logger \<Rightarrow> logger" where
  "setLevelFromEnv_5g e s =
     (let lvl = (case e of Some v \<Rightarrow> v | None \<Rightarrow> ''ENGINEER'')
      in if lvl = ''ALL'' then s\<lparr>lg_all := True, lg_level := ENGINEER\<rparr>
         else if lvl = ''INTERVIEW_C'' then s\<lparr>lg_level := INTERVIEW_C\<rparr>
         else if lvl = ''INTERVIEW_T'' then s\<lparr>lg_level := INTERVIEW_T\<rparr> else s\<lparr>lg_level := ENGINEER\<rparr>)"

definition setLevelFromEnv_cbrs :: "string option \<Rightarrow> logger \<Rightarrow> logger" where
  "setLevelFromEnv_cbrs e s =
     (let lvl = (case e of Some v \<Rightarrow> v | None \<Rightarrow> ''ENGINEER'')
      in if lvl = ''ALL'' then s\<lparr>lg_all := True\<rparr>
         else if lvl = ''BEGINNER'' then s\<lparr>lg_level := BEGINNER\<rparr>
         else if lvl = ''INTERVIEW_C'' then s\<lparr>lg_level := INTERVIEW_C\<rparr>
         else if lvl = ''INTERVIEW_T'' then s\<lparr>lg_level := INTERVIEW_T\<rparr> else s\<lparr>lg_level := ENGINEER\<rparr>)"

text \<open>\<open>shutdown\<close> closes the file, which \<open>getLogFile\<close> has opened anew when it was closed; \<open>txt\<close> and \<open>dir\<close>
  make up the message.\<close>

definition log_shutdown :: "string \<Rightarrow> string \<Rightarrow> logger \<Rightarrow> logger option" where
  "log_shutdown txt dir s =
     (case getLogFile s of
        None \<Rightarrow> None
      | Some s1 \<Rightarrow>
          Some (case lg_file s1 of
                  Log_Open n \<Rightarrow> s1\<lparr>lg_file := Log_Closed,
                    lg_console := lg_console s1 @ CLR_SYS @ [LF] @ txt @ dir @ lg_name s1 @ CLR_RESET @ [LF]\<rparr>
                | _ \<Rightarrow> s1))"

subsection \<open>What the programs log\<close>

datatype log_call =
    Log_At Level log_node string | Log_Sys string | Log_Warn string string | Log_Field string | Log_Step string
  | Log_Level Level

definition print_node ::
  "(log_node \<Rightarrow> (string \<times> string) option) \<Rightarrow> (Level \<Rightarrow> string \<Rightarrow> string \<Rightarrow> string \<Rightarrow> logger \<Rightarrow> logger option)
     \<Rightarrow> Level \<Rightarrow> log_node \<Rightarrow> string \<Rightarrow> logger \<Rightarrow> logger option" where
  "print_node style pr level n msg s = (case style n of None \<Rightarrow> Some s | Some (color, tag) \<Rightarrow> pr level color tag msg s)"

fun log_4g :: "log_call \<Rightarrow> string \<Rightarrow> string \<Rightarrow> logger \<Rightarrow> logger option" where
  "log_4g (Log_At l n m) t1 t2 s = print_node node_style_4g (\<lambda>l c g m. print_4g l c g m t1 t2) l n m s"
| "log_4g (Log_Sys m) t1 t2 s = print_4g SYSTEM CLR_SYS '' SYS  '' m t1 t2 s"
| "log_4g (Log_Warn g m) t1 t2 s = print_4g SYSTEM CLR_WARN g (''ERROR: '' @ m) t1 t2 s"
| "log_4g (Log_Field m) t1 t2 s = ie_field m s"
| "log_4g (Log_Step m) t1 t2 s = Some (log_step m s)"
| "log_4g (Log_Level l) t1 t2 s = Some (setLevel l s)"

fun log_ims :: "log_call \<Rightarrow> string \<Rightarrow> string \<Rightarrow> logger \<Rightarrow> logger option" where
  "log_ims (Log_Field m) t1 t2 s = ie_field_ims m s"
| "log_ims c t1 t2 s = log_4g c t1 t2 s"

fun log_5g :: "log_call \<Rightarrow> string \<Rightarrow> string \<Rightarrow> logger \<Rightarrow> logger option" where
  "log_5g (Log_At l n m) t1 t2 s = print_node node_style_5g (\<lambda>l c g m. print_5g l c g m t1 t2) l n m s"
| "log_5g (Log_Sys m) t1 t2 s = print_5g SYSTEM CLR_SYS '' SYS  '' m t1 t2 s"
| "log_5g (Log_Warn g m) t1 t2 s = print_5g SYSTEM CLR_WARN g (''ERROR: '' @ m) t1 t2 s"
| "log_5g c t1 t2 s = log_4g c t1 t2 s"

text \<open>\<open>thread\<close> is the name of the calling thread; the second reading of the clock is not taken.\<close>

fun log_cbrs :: "string \<Rightarrow> log_call \<Rightarrow> string \<Rightarrow> string \<Rightarrow> logger \<Rightarrow> logger option" where
  "log_cbrs thread (Log_At l n m) t1 t2 s = print_node node_style_cbrs (\<lambda>l c g m. print_cbrs thread l c g m t1) l n m s"
| "log_cbrs thread (Log_Sys m) t1 t2 s = print_cbrs thread SYSTEM CLR_SYS '' SYS  '' m t1 s"
| "log_cbrs thread (Log_Warn g m) t1 t2 s = print_cbrs thread SYSTEM CLR_WARN ('' '' @ g @ '' '') (''ERROR: '' @ m) t1 s"
| "log_cbrs thread (Log_Field m) t1 t2 s = ie_field_cbrs m s"
| "log_cbrs thread c t1 t2 s = log_4g c t1 t2 s"

fun log_all :: "(log_call \<Rightarrow> string \<Rightarrow> string \<Rightarrow> logger \<Rightarrow> logger option) \<Rightarrow> (log_call \<times> string \<times> string) list \<Rightarrow> logger \<Rightarrow> logger option" where
  "log_all f [] s = Some s"
| "log_all f ((c, t1, t2) # cs) s = Option.bind (f c t1 t2 s) (log_all f cs)"

subsection \<open>The file against the console\<close>

text \<open>A text without its escape sequences.\<close>

function plain :: "string \<Rightarrow> string" where
  "plain [] = []"
| "plain (c # cs) = (if c = ESC then plain (drop 1 (dropWhile (\<lambda>c. c \<noteq> CHR ''m'') cs)) else c # plain cs)"
  by pat_completeness auto
termination
  by (relation "measure length") (auto simp: less_Suc_eq_le intro: order_trans [OF diff_le_self length_dropWhile_le])

lemma plain_sgr: "CHR ''m'' \<notin> set code \<Longrightarrow> plain (sgr code @ s) = plain s"
proof -
  assume "CHR ''m'' \<notin> set code"
  then have "dropWhile (\<lambda>c. c \<noteq> CHR ''m'') (code @ ''m'' @ s) = ''m'' @ s" by (induction code) auto
  then show ?thesis by (simp add: sgr_def)
qed

lemma plain_pre: "ESC \<notin> set a \<Longrightarrow> plain (a @ s) = a @ plain s"
  by (induction a) auto

lemma plain_id: "ESC \<notin> set a \<Longrightarrow> plain a = a"
  using plain_pre [of a "[]"] by simp

lemma plain_CLR [simp]:
  "plain (CLR_SYS @ s) = plain s" "plain (CLR_WARN @ s) = plain s" "plain (CLR_IE @ s) = plain s"
  "plain (CLR_STEP @ s) = plain s" "plain (CLR_RESET @ s) = plain s"
  by (simp_all add: CLR_SYS_def CLR_WARN_def CLR_IE_def CLR_STEP_def CLR_RESET_def plain_sgr)

definition whole :: "string \<Rightarrow> bool" where
  "whole a \<longleftrightarrow> (\<forall>s. plain (a @ s) = plain a @ plain s)"



text \<open>The open file holds what the console shows, without colours.\<close>

definition mirrors :: "logger \<Rightarrow> bool" where
  "mirrors s \<longleftrightarrow> whole (lg_console s) \<and> lg_writable s
     \<and> (case lg_file s of Log_Open n \<Rightarrow> lg_disk s n = Some (plain (lg_console s))
        | Log_Closed \<Rightarrow> lg_console s = [] | Log_Destroyed \<Rightarrow> False)"




definition mirroring :: "(logger \<Rightarrow> logger option) \<Rightarrow> bool" where
  "mirroring f \<longleftrightarrow> (\<forall>s. mirrors s \<longrightarrow> (\<exists>t. f s = Some t \<and> mirrors t))"

lemma mirroring_skip [intro]: "mirroring Some"
  by (simp add: mirroring_def)










lemma log_eqs:
  "log_4g (Log_At l n m) t1 t2 = print_node node_style_4g (\<lambda>l c g m. print_4g l c g m t1 t2) l n m"
  "log_4g (Log_Sys m) t1 t2 = print_4g SYSTEM CLR_SYS '' SYS  '' m t1 t2"
  "log_4g (Log_Warn g m) t1 t2 = print_4g SYSTEM CLR_WARN g (''ERROR: '' @ m) t1 t2"
  "log_4g (Log_Field m) t1 t2 = ie_field m" "log_4g (Log_Level l) t1 t2 = (\<lambda>s. Some (setLevel l s))"
  "log_ims (Log_At l n m) t1 t2 = log_4g (Log_At l n m) t1 t2" "log_ims (Log_Sys m) t1 t2 = log_4g (Log_Sys m) t1 t2"
  "log_ims (Log_Warn g m) t1 t2 = log_4g (Log_Warn g m) t1 t2" "log_ims (Log_Field m) t1 t2 = ie_field_ims m"
  "log_ims (Log_Level l) t1 t2 = log_4g (Log_Level l) t1 t2"
  "log_5g (Log_At l n m) t1 t2 = print_node node_style_5g (\<lambda>l c g m. print_5g l c g m t1 t2) l n m"
  "log_5g (Log_Sys m) t1 t2 = print_5g SYSTEM CLR_SYS '' SYS  '' m t1 t2"
  "log_5g (Log_Warn g m) t1 t2 = print_5g SYSTEM CLR_WARN g (''ERROR: '' @ m) t1 t2"
  "log_5g (Log_Field m) t1 t2 = log_4g (Log_Field m) t1 t2" "log_5g (Log_Level l) t1 t2 = log_4g (Log_Level l) t1 t2"
  "log_cbrs th (Log_At l n m) t1 t2 = print_node node_style_cbrs (\<lambda>l c g m. print_cbrs th l c g m t1) l n m"
  "log_cbrs th (Log_Sys m) t1 t2 = print_cbrs th SYSTEM CLR_SYS '' SYS  '' m t1"
  "log_cbrs th (Log_Warn g m) t1 t2 = print_cbrs th SYSTEM CLR_WARN ('' '' @ g @ '' '') (''ERROR: '' @ m) t1"
  "log_cbrs th (Log_Field m) t1 t2 = ie_field_cbrs m" "log_cbrs th (Log_Level l) t1 t2 = log_4g (Log_Level l) t1 t2"
  by (simp_all add: fun_eq_iff)





subsection \<open>The end of a program\<close>

text \<open>\<open>PcapWriter::open\<close> and \<open>close\<close> as far as they log; \<open>ok\<close> tells whether the capture can be opened.\<close>

definition capture_open ::
  "(log_call \<Rightarrow> string \<Rightarrow> string \<Rightarrow> logger \<Rightarrow> logger option) \<Rightarrow> bool \<Rightarrow> (log_call \<times> string \<times> string) list \<Rightarrow> logger \<Rightarrow> logger option" where
  "capture_open f ok lines s =
     (let s1 = uses_static St_Pcap s in if ok then log_all f lines (s1\<lparr>lg_pcap := True\<rparr>) else Some s1)"

definition capture_lines_4g :: "string \<Rightarrow> (nat \<Rightarrow> string) \<Rightarrow> (log_call \<times> string \<times> string) list" where
  "capture_lines_4g file now =
     map (\<lambda>(i, m). (Log_Sys m, now (2 * i), now (2 * i + 1)))
       [(0, ''PCAP: writing to '' @ file), (1, ''PCAP: Protocol Mapping Enabled:''), (2, ''  S1AP:   SCTP port 36412, PPID 18''),
        (3, ''  DIA:    TCP port 3868''), (4, ''  GTPv2:  UDP port 2123''), (5, ''  SIP:    UDP port 5060'')]"

definition capture_lines_5g :: "string \<Rightarrow> (nat \<Rightarrow> string) \<Rightarrow> (log_call \<times> string \<times> string) list" where
  "capture_lines_5g file now =
     map (\<lambda>(i, m). (Log_Sys m, now (2 * i), now (2 * i + 1)))
       [(0, ''PCAP: writing to '' @ file),
        (1, ''PCAP: N2 (gNB<->AMF) on TCP/38412, SBI (AMF<->UDM) on TCP/80 -> Wireshark '' @ [CHR 0x27] @ ''HTTP'' @ [CHR 0x27])]"

definition closes_capture ::
  "(log_call \<Rightarrow> string \<Rightarrow> string \<Rightarrow> logger \<Rightarrow> logger option) \<Rightarrow> string \<Rightarrow> string \<Rightarrow> string \<Rightarrow> logger \<Rightarrow> logger option" where
  "closes_capture f msg t1 t2 s = (if lg_pcap s then f (Log_Sys msg) t1 t2 (s\<lparr>lg_pcap := False\<rparr>) else Some s)"

definition capture_close ::
  "(log_call \<Rightarrow> string \<Rightarrow> string \<Rightarrow> logger \<Rightarrow> logger option) \<Rightarrow> string \<Rightarrow> string \<Rightarrow> string \<Rightarrow> logger \<Rightarrow> logger option" where
  "capture_close f msg t1 t2 s = closes_capture f msg t1 t2 (uses_static St_Pcap s)"

text \<open>At the end the static variables are destroyed, the last constructed first: the stream closes the file,
  the destructor of the packet writer closes the capture.\<close>

fun destroy_statics ::
  "(log_call \<Rightarrow> string \<Rightarrow> string \<Rightarrow> logger \<Rightarrow> logger option) \<Rightarrow> string \<Rightarrow> string \<Rightarrow> string \<Rightarrow> static_var list \<Rightarrow> logger \<Rightarrow> logger option" where
  "destroy_statics f msg t1 t2 [] s = Some s"
| "destroy_statics f msg t1 t2 (St_Log # vs) s = destroy_statics f msg t1 t2 vs (s\<lparr>lg_file := Log_Destroyed\<rparr>)"
| "destroy_statics f msg t1 t2 (St_Pcap # vs) s = Option.bind (closes_capture f msg t1 t2 s) (destroy_statics f msg t1 t2 vs)"

definition exits ::
  "(log_call \<Rightarrow> string \<Rightarrow> string \<Rightarrow> logger \<Rightarrow> logger option) \<Rightarrow> string \<Rightarrow> string \<Rightarrow> string \<Rightarrow> logger \<Rightarrow> logger option" where
  "exits f msg t1 t2 s = destroy_statics f msg t1 t2 (rev (lg_statics s)) s"

text \<open>The programs as far as their logs go; \<open>calls\<close> is what they log between the start and the end. A phone that
  cannot reach the server returns from \<open>main\<close> at once.\<close>

definition mme_session :: "bool \<Rightarrow> bool \<Rightarrow> (nat \<Rightarrow> string) \<Rightarrow> (log_call \<times> string \<times> string) list \<Rightarrow> string \<Rightarrow> logger option" where
  "mme_session ok w now calls dir =
     Option.bind (capture_open log_4g ok (capture_lines_4g ''mme_capture.pcap'' now) (logger_new ''mme_sim_session.log'' w))
       (\<lambda>s. Option.bind (log_all log_4g calls s) (log_shutdown ''[SYS] Session logs successfully archived at: '' dir))"

definition upf_session ::
  "string option \<Rightarrow> bool \<Rightarrow> bool \<Rightarrow> (nat \<Rightarrow> string) \<Rightarrow> (log_call \<times> string \<times> string) list \<Rightarrow> string \<Rightarrow> logger option" where
  "upf_session env ok w now calls dir =
     Option.bind (capture_open log_5g ok (capture_lines_5g ''5g_upf_capture.pcap'' now)
         (setLevelFromEnv_5g env (setSessionFile ''g5_upf_session.log'' (logger_new ''g5_session.log'' w))))
       (\<lambda>s. Option.bind (log_all log_5g calls s) (log_shutdown ''[SYS] Session log saved: '' dir))"

definition capture_end :: string where
  "capture_end = ''PCAP: Session packet capture finalized.''"

definition ims_done :: string where
  "ims_done = ''Done. Open ims_server_capture.pcap in Wireshark '' @ [CHR 0xE2, CHR 0x80, CHR 0x94] @ '' filter: sip || diameter''"

definition ims_session ::
  "string option \<Rightarrow> bool \<Rightarrow> bool \<Rightarrow> (nat \<Rightarrow> string) \<Rightarrow> (log_call \<times> string \<times> string) list \<Rightarrow> string \<Rightarrow> string \<Rightarrow> string \<Rightarrow> logger option" where
  "ims_session env ok w now calls t1 t2 dir =
     Option.bind (capture_open log_ims ok (capture_lines_4g ''ims_server_capture.pcap'' now)
         ((logger_new ''mme_sim_session.log'' w)\<lparr>lg_level := levelFromEnv_ims env\<rparr>))
       (\<lambda>s. Option.bind (log_all log_ims calls s) (\<lambda>s. Option.bind (capture_close log_ims capture_end t1 t2 s)
         (\<lambda>s. Option.bind (log_ims (Log_Sys ims_done) t1 t2 s)
           (log_shutdown ''[SYS] Session logs successfully archived at: '' dir))))"

definition ue_refused_session :: "string option \<Rightarrow> string \<Rightarrow> bool \<Rightarrow> bool \<Rightarrow> (nat \<Rightarrow> string) \<Rightarrow> logger option" where
  "ue_refused_session env file ok w now =
     capture_open log_ims ok (capture_lines_4g file now) ((logger_new ''mme_sim_session.log'' w)\<lparr>lg_level := levelFromEnv_ims env\<rparr>)"

text \<open>While a program runs, its log file is alive, and the packet writer is the older variable.\<close>

definition logging :: "bool \<Rightarrow> bool \<Rightarrow> logger \<Rightarrow> bool" where
  "logging p full s \<longleftrightarrow> lg_pcap s = p \<and> lg_file s \<noteq> Log_Destroyed
     \<and> (lg_statics s = [St_Pcap, St_Log] \<or> \<not> full \<and> lg_statics s = [St_Pcap] \<and> lg_file s = Log_Closed)"

definition keeps_logging :: "(logger \<Rightarrow> logger option) \<Rightarrow> bool" where
  "keeps_logging f \<longleftrightarrow> (\<forall>p full s. logging p full s \<longrightarrow> (\<exists>t. f s = Some t \<and> logging p full t))"

lemma logging_write: "logging p full s \<Longrightarrow> \<exists>t. write_log c f s = Some t \<and> logging p True t"
  by (cases "lg_file s") (auto simp: logging_def write_log_def getLogFile_def uses_static_def Let_def)

lemma logging_full: "logging p True s \<Longrightarrow> logging p full s"
  by (simp add: logging_def)

lemma keeps_write [intro]: "keeps_logging (write_log c f)"
  unfolding keeps_logging_def using logging_write logging_full by blast

lemma keeps_skip [intro]: "keeps_logging Some"
  by (simp add: keeps_logging_def)

lemma keeps_if: "keeps_logging f \<Longrightarrow> keeps_logging (\<lambda>s. if b s then Some s else f s)"
  by (simp add: keeps_logging_def)

lemma keeps_prints [intro]: "keeps_logging (print_4g l c g m t1 t2)" "keeps_logging (print_5g l c g m t1 t2)"
  unfolding print_4g_def print_5g_def Let_def by (intro keeps_if keeps_write)+

lemma keeps_node: "(\<And>l c g m. keeps_logging (pr l c g m)) \<Longrightarrow> keeps_logging (print_node style pr l n m)"
  unfolding print_node_def keeps_logging_def by (auto split: option.splits)

lemma keeps_fields [intro]: "keeps_logging (ie_field m)" "keeps_logging (ie_field_ims m)"
  unfolding ie_field_ims_def by (simp_all add: ie_field_def keeps_if keeps_write)

lemma keeps_calls: "keeps_logging (log_4g c t1 t2)" "keeps_logging (log_ims c t1 t2)" "keeps_logging (log_5g c t1 t2)"
proof -
  have step: "keeps_logging (\<lambda>s. Some (log_step m s))" "keeps_logging (\<lambda>s. Some (setLevel l s))" for m l
    by (auto simp: keeps_logging_def logging_def log_step_def setLevel_def)
  have s: "log_4g (Log_Step m) t1 t2 = (\<lambda>s. Some (log_step m s))" "log_ims (Log_Step m) t1 t2 = (\<lambda>s. Some (log_step m s))"
    "log_5g (Log_Step m) t1 t2 = (\<lambda>s. Some (log_step m s))" for m by (simp_all add: fun_eq_iff)
  show "keeps_logging (log_4g c t1 t2)" "keeps_logging (log_ims c t1 t2)" "keeps_logging (log_5g c t1 t2)"
    using step by (cases c; auto simp: log_eqs s intro!: keeps_node)+
qed

lemma keeps_all: "(\<And>c t1 t2. keeps_logging (f c t1 t2)) \<Longrightarrow> keeps_logging (log_all f cs)"
proof (induction cs)
  case (Cons x cs)
  then show ?case by (cases x) (fastforce simp: keeps_logging_def bind_eq_Some_conv)
qed (simp add: keeps_logging_def)

lemma logging_shutdown: "logging p full s \<Longrightarrow> \<exists>t. log_shutdown txt dir s = Some t \<and> logging p True t"
  by (cases "lg_file s") (auto simp: logging_def log_shutdown_def getLogFile_def uses_static_def Let_def)

lemma sys_logs:
  assumes "logging p full s"
  shows "\<exists>t. log_4g (Log_Sys m) t1 t2 s = Some t \<and> logging p True t"
    and "\<exists>t. log_ims (Log_Sys m) t1 t2 s = Some t \<and> logging p True t"
    and "\<exists>t. log_5g (Log_Sys m) t1 t2 s = Some t \<and> logging p True t"
  using logging_write [OF assms] by (simp_all add: print_4g_def print_5g_def)

lemma logging_end:
  assumes "logging p True s"
  shows "f \<in> {log_4g, log_ims, log_5g} \<Longrightarrow> exits f m t1 t2 s = (if p then None else Some (s\<lparr>lg_file := Log_Destroyed\<rparr>))"
  using assms
  by (auto simp: logging_def exits_def closes_capture_def print_4g_def print_5g_def write_log_def getLogFile_def)

lemma capture_opens:
  assumes "lg_statics s = []" and "lg_file s = Log_Closed" and "\<not> lg_pcap s" and "f \<in> {log_4g, log_ims, log_5g}"
    and "cs \<noteq> []" and "list_all (\<lambda>(c, t1, t2). \<exists>m. c = Log_Sys m) cs"
  shows "\<exists>t. capture_open f ok cs s = Some t \<and> logging ok ok t"
proof (cases ok)
  case True
  obtain m t1 t2 cs' where cs: "cs = (Log_Sys m, t1, t2) # cs'" using assms(5,6) by (cases cs) auto
  have "logging True False ((uses_static St_Pcap s)\<lparr>lg_pcap := True\<rparr>)"
    using assms(1,2) by (simp add: logging_def uses_static_def)
  then obtain u where u: "f (Log_Sys m) t1 t2 ((uses_static St_Pcap s)\<lparr>lg_pcap := True\<rparr>) = Some u" "logging True True u"
    using sys_logs assms(4) by (metis (no_types) insert_iff empty_iff)
  have "keeps_logging (log_all f cs')" using keeps_calls assms(4) by (intro keeps_all) auto
  with u True show ?thesis unfolding keeps_logging_def by (auto simp: capture_open_def cs Let_def)
next
  case False
  then show ?thesis using assms(1,2,3) by (simp add: capture_open_def uses_static_def logging_def)
qed

lemma session_logs:
  assumes "\<exists>t. capture_open f ok lines s = Some t \<and> logging ok ok t" and "f \<in> {log_4g, log_ims, log_5g}"
  shows "\<exists>t. Option.bind (capture_open f ok lines s) (log_all f calls) = Some t \<and> logging ok ok t"
  using assms keeps_calls keeps_all [of f] unfolding keeps_logging_def by fastforce

lemma bind_nest: "Option.bind (Option.bind a f) g = Option.bind a (\<lambda>x. Option.bind (f x) g)"
  by (cases a) simp_all

lemma logger_fresh:
  "lg_statics (logger_new file w) = []" "lg_file (logger_new file w) = Log_Closed" "\<not> lg_pcap (logger_new file w)"
  "lg_statics (logger_new file w\<lparr>lg_level := l\<rparr>) = []" "lg_file (logger_new file w\<lparr>lg_level := l\<rparr>) = Log_Closed"
  "\<not> lg_pcap (logger_new file w\<lparr>lg_level := l\<rparr>)"
  by (simp_all add: logger_new_def)

lemma capture_lines_sys:
  "capture_lines_4g file now \<noteq> []" "list_all (\<lambda>(c, t1, t2). \<exists>m. c = Log_Sys m) (capture_lines_4g file now)"
  "capture_lines_5g file now \<noteq> []" "list_all (\<lambda>(c, t1, t2). \<exists>m. c = Log_Sys m) (capture_lines_5g file now)"
  by (simp_all add: capture_lines_4g_def capture_lines_5g_def)

lemma mme_exit:
  "\<exists>s. mme_session ok w now calls dir = Some s
     \<and> exits log_4g capture_end t1 t2 s = (if ok then None else Some (s\<lparr>lg_file := Log_Destroyed\<rparr>))"
proof -
  obtain s where "Option.bind (capture_open log_4g ok (capture_lines_4g ''mme_capture.pcap'' now) (logger_new ''mme_sim_session.log'' w))
      (log_all log_4g calls) = Some s" "logging ok ok s"
    using session_logs [OF capture_opens [OF logger_fresh(1-3) _ capture_lines_sys(1,2)]] by (metis (no_types) insertI1)
  then show ?thesis
    using logging_shutdown [of ok ok s "''[SYS] Session logs successfully archived at: ''" dir] logging_end [of ok _ log_4g]
    by (auto simp: mme_session_def bind_nest [symmetric])
qed

lemma upf_exit:
  "\<exists>s. upf_session env ok w now calls dir = Some s
     \<and> exits log_5g ''PCAP: capture finalized.'' t1 t2 s = (if ok then None else Some (s\<lparr>lg_file := Log_Destroyed\<rparr>))"
proof -
  let ?s5 = "setLevelFromEnv_5g env (setSessionFile ''g5_upf_session.log'' (logger_new ''g5_session.log'' w))"
  have g: "lg_statics ?s5 = []" "lg_file ?s5 = Log_Closed" "\<not> lg_pcap ?s5"
    by (simp_all add: logger_new_def setLevelFromEnv_5g_def setSessionFile_def Let_def)
  obtain s where "Option.bind (capture_open log_5g ok (capture_lines_5g ''5g_upf_capture.pcap'' now) ?s5) (log_all log_5g calls) = Some s"
      "logging ok ok s"
    using session_logs [OF capture_opens [OF g _ capture_lines_sys(3,4)], of log_5g ok _ _ calls] by auto
  then show ?thesis
    using logging_shutdown [of ok ok s "''[SYS] Session log saved: ''" dir] logging_end [of ok _ log_5g]
    by (auto simp: upf_session_def bind_nest [symmetric])
qed

lemma ue_refused_exit:
  "\<exists>s. ue_refused_session env file True w now = Some s \<and> exits log_ims capture_end t1 t2 s = None"
proof -
  let ?si = "logger_new ''mme_sim_session.log'' w\<lparr>lg_level := levelFromEnv_ims env\<rparr>"
  obtain s where "capture_open log_ims True (capture_lines_4g file now) ?si = Some s" "logging True True s"
    using capture_opens [OF logger_fresh(4-6) _ capture_lines_sys(1,2), of log_ims True] by blast
  with logging_end [of True s log_ims] show ?thesis by (auto simp: ue_refused_session_def)
qed

lemma capture_closes:
  assumes "logging ok ok s"
  shows "\<exists>u. capture_close log_ims capture_end u1 u2 s = Some u \<and> logging False False u"
proof -
  have "uses_static St_Pcap s = s" using assms by (auto simp: logging_def uses_static_def)
  then show ?thesis
    using assms sys_logs(2) [of False ok "s\<lparr>lg_pcap := False\<rparr>" capture_end u1 u2] logging_full
    by (cases ok) (auto simp: capture_close_def closes_capture_def logging_def)
qed

lemma ims_exit:
  "\<exists>s. ims_session env ok w now calls u1 u2 dir = Some s
     \<and> exits log_ims capture_end t1 t2 s = Some (s\<lparr>lg_file := Log_Destroyed\<rparr>)"
proof -
  let ?si = "logger_new ''mme_sim_session.log'' w\<lparr>lg_level := levelFromEnv_ims env\<rparr>"
    and ?cs = "capture_lines_4g ''ims_server_capture.pcap'' now"
  have "\<exists>s. Option.bind (capture_open log_ims ok ?cs ?si) (log_all log_ims calls) = Some s \<and> logging ok ok s"
    by (intro session_logs capture_opens logger_fresh capture_lines_sys) simp_all
  then obtain s0 s where s: "capture_open log_ims ok ?cs ?si = Some s0" "log_all log_ims calls s0 = Some s" "logging ok ok s"
    by (auto simp: bind_eq_Some_conv)
  obtain u where u: "capture_close log_ims capture_end u1 u2 s = Some u" "logging False False u"
    using capture_closes [OF s(3)] by blast
  obtain v where v: "log_ims (Log_Sys ims_done) u1 u2 u = Some v" "logging False True v"
    using sys_logs(2) [OF u(2)] by blast
  obtain z where z: "log_shutdown ''[SYS] Session logs successfully archived at: '' dir v = Some z" "logging False True z"
    using logging_shutdown [OF v(2)] by blast
  have "ims_session env ok w now calls u1 u2 dir = Some z"
    using s u(1) v(1) z(1) by (simp only: ims_session_def Option.bind.simps)
  with logging_end [OF z(2), of log_ims capture_end t1 t2] show ?thesis by simp
qed

text \<open>C22. The session file is archived before the end of \<open>main\<close>, but in the 4G simulator, in the UPF and in a phone
without a server the packet writer, which is destroyed after the log stream, still has its capture open then:
its destructor logs into the destroyed stream, whatever was logged before. The IMS server closes its
capture first and ends well, with the file as it was.\<close>
theorem archive_at_exit:
  "(\<exists>s. mme_session ok w now calls dir = Some s
        \<and> exits log_4g capture_end t1 t2 s = (if ok then None else Some (s\<lparr>lg_file := Log_Destroyed\<rparr>)))
   \<and> (\<exists>s. upf_session env ok w now calls dir = Some s
        \<and> exits log_5g ''PCAP: capture finalized.'' t1 t2 s = (if ok then None else Some (s\<lparr>lg_file := Log_Destroyed\<rparr>)))
   \<and> (\<exists>s. ue_refused_session env file True w now = Some s \<and> exits log_ims capture_end t1 t2 s = None)
   \<and> (\<exists>s. ims_session env ok w now calls u1 u2 dir = Some s
        \<and> exits log_ims capture_end t1 t2 s = Some (s\<lparr>lg_file := Log_Destroyed\<rparr>))"
  by (intro conjI mme_exit upf_exit ue_refused_exit ims_exit)

end
