(* ===== verification/Log_Blocks.thy ===== *)
theory Log_Blocks
  imports Log_Files
begin

text \<open>
  The step blocks of the 4G and IMS simulators (\<open>common/visual_logger.h\<close>): a box with a header, an arrow
  and rows of fields, built in a buffer and written to the console at once. Frame characters are three bytes
  of UTF-8; the number of a thread (the hash of its id) is an argument.
\<close>

definition WIDTH :: nat where "WIDTH = 62"

definition DIM :: string where "DIM = sgr ''37''"
definition GREEN :: string where "GREEN = sgr ''1;32''"
definition RST :: string where "RST = sgr ''0''"

text \<open>The box characters U+2551 to U+2563, the arrow U+25BA and the hint U+25B6.\<close>

definition box :: "char \<Rightarrow> string" where
  "box c = [CHR 0xE2, CHR 0x95, c]"

definition arrow_head :: string where "arrow_head = [CHR 0xE2, CHR 0x96, CHR 0xBA]"
definition hint_mark :: string where "hint_mark = [CHR 0xE2, CHR 0x96, CHR 0xB6]"

definition vbar :: string where "vbar = box (CHR 0x91)"


definition vpad :: "string \<Rightarrow> nat \<Rightarrow> string" where
  "vpad s w = (if w \<le> length s then take w s else s @ replicate (w - length s) (CHR '' ''))"


record step_block =
  sb_buf :: string
  sb_flushed :: bool
  sb_next :: bool


definition block_row :: "string \<Rightarrow> string \<Rightarrow> string" where
  "block_row color line = color @ ''  '' @ vbar @ '' '' @ vpad line (WIDTH - 1) @ vbar @ [LF] @ RST"


definition block_ie :: "string \<Rightarrow> string \<Rightarrow> step_block \<Rightarrow> step_block" where
  "block_ie key val b = b\<lparr>sb_buf := sb_buf b @ block_row DIM (''  '' @ key @ '': '' @ val)\<rparr>"

definition block_state :: "string \<Rightarrow> string \<Rightarrow> step_block \<Rightarrow> step_block" where
  "block_state n change b = b\<lparr>sb_buf := sb_buf b @ block_row GREEN (''  ['' @ n @ '': '' @ change @ '']'')\<rparr>"




datatype block_field = Fld_Ie string string | Fld_State string string

fun put_field :: "block_field \<Rightarrow> step_block \<Rightarrow> step_block" where
  "put_field (Fld_Ie k v) = block_ie k v"
| "put_field (Fld_State n t) = block_state n t"


subsection \<open>Columns\<close>

text \<open>A terminal shows one column for each byte that does not continue a character.\<close>

definition columns :: "string \<Rightarrow> nat" where
  "columns s = length (filter (\<lambda>c. (of_char c :: nat) div 64 \<noteq> 2) s)"

definition printable :: "string \<Rightarrow> bool" where
  "printable s \<longleftrightarrow> list_all (\<lambda>c. 32 \<le> (of_char c :: nat) \<and> (of_char c :: nat) < 127) s"


lemma columns_append [simp]: "columns (a @ b) = columns a + columns b"
  by (simp add: columns_def)

lemma columns_chars [simp]: "columns [] = 0" "columns (c # s) = (if (of_char c :: nat) div 64 \<noteq> 2 then 1 else 0) + columns s"
  by (simp_all add: columns_def)


lemma printable_append [simp]: "printable (a @ b) \<longleftrightarrow> printable a \<and> printable b"
  by (simp add: printable_def)

lemma printable_replicate [simp]: "printable [c] \<Longrightarrow> printable (replicate n c)"
  by (simp add: printable_def list_all_iff)




lemma vpad_length [simp]: "length (vpad s w) = w"
  by (simp add: vpad_def)





subsection \<open>The rows of a block\<close>



definition field_line :: "block_field \<Rightarrow> string" where
  "field_line f = (case f of Fld_Ie k v \<Rightarrow> ''  '' @ k @ '': '' @ v | Fld_State n c \<Rightarrow> ''  ['' @ n @ '': '' @ c @ '']'')"


definition lines_text :: "string list \<Rightarrow> string" where
  "lines_text rows = concat (map (\<lambda>r. r @ [LF]) rows)"


lemma lines_text_simps [simp]: "lines_text [] = []" "lines_text (r # rs) = r @ LF # lines_text rs"
  "lines_text (rs @ qs) = lines_text rs @ lines_text qs"
  by (simp_all add: lines_text_def)

lemma box_columns [simp]: "columns (box (CHR 0x94)) = 1" "columns (box (CHR 0x97)) = 1" "columns (box (CHR 0xA0)) = 1"
  "columns (box (CHR 0xA3)) = 1" "columns (box (CHR 0x9A)) = 1" "columns (box (CHR 0x9D)) = 1" "columns vbar = 1"
  "columns arrow_head = 1" "columns hint_mark = 1"
  by (simp_all add: box_def vbar_def arrow_head_def hint_mark_def)

lemma box_plain [simp]: "ESC \<notin> set vbar" "LF \<notin> set vbar" "ESC \<notin> set arrow_head" "LF \<notin> set arrow_head"
  "ESC \<notin> set hint_mark" "LF \<notin> set hint_mark" "set (box c) = {CHR 0xE2, CHR 0x95, c}"
  by (simp_all add: vbar_def box_def arrow_head_def hint_mark_def)



lemma fills [simp]: "printable ''=''" "printable ''-''"
  by (simp_all add: printable_def)







lemma put_field_simps [simp]:
  "sb_flushed (put_field f b) = sb_flushed b" "sb_next (put_field f b) = sb_next b"
  "sb_buf (put_field f b) = sb_buf b @ block_row (case f of Fld_Ie k v \<Rightarrow> DIM | Fld_State n c \<Rightarrow> GREEN) (field_line f)"
  by (cases f; simp add: block_ie_def block_state_def field_line_def)+








end
