(* ===== verification/Spec2Isabelle.thy ===== *)
theory Spec2Isabelle
  imports Cbrs_System Upf_System Core5g_System Epc_System Ims_System Ims_Identity Pcap_System
    Pool_System Load_System Oran_E2 Cli_Main Ims_Demo Event_Log Tcp_System Wire_Structs Obs_Metrics
    Load_Counters Upf_Demo Load_Runner Epc_Boot Log_Blocks
begin

text \<open>
  A verification library for the 4G, 5G, IMS and CBRS simulators, all written in C++. The four projects are
  independent: \<open>4g-simulator\<close> (base station, MME, HSS, gateways and PCRF as threads of one process),
  \<open>5g-simulator\<close> (gNB, AMF, UDM, SMF, UPF and NRF as processes that talk HTTP, N2 and PFCP, and a UPF fast
  path of its own), \<open>ims-simulator\<close> (a server with P-CSCF, S-CSCF and subscriber server, and one process
  per phone) and \<open>cbrs-domain-proxy\<close> (radio devices, a Domain Proxy and a simulated SAS). They share, as
  copies, a socket wrapper, a packet capture and an event log.

  \<^bold>\<open>Shared theories.\<close> \<open>Prelude\<close> holds byte and word types and the interfaces as locales: machines with an
  invariant, simulations, keyed stores, codecs, bounded queues; each is interpreted in the theory of the
  component that provides it. \<open>Turns\<close> holds systems of nodes that take turns, and proves once that
  what one schedule reaches with all queues empty, every fair schedule reaches. \<open>Byte_Order\<close>, \<open>Json_Wire\<close>,
  \<open>Text_Frames\<close> and \<open>Tables\<close> model integers as bytes, the JSON texts of \<open>common/wire.h\<close>, decimal numbers,
  \<open>std::stoi\<close>, \<open>std::atoi\<close> and frames, and the library's maps as association lists.

  \<^bold>\<open>CBRS\<close> (\<open>cbrs-domain-proxy/src\<close>): \<open>Cbrs_Registry\<close> (\<open>cbsd_registry.h\<close>, \<open>spectrum_state.h\<close>), \<open>Cbrs_Sas\<close>
  (\<open>sas_stub.cpp\<close>), \<open>Cbrs_Proxy\<close> (\<open>domain_proxy.cpp\<close>; its threads interleave at the mutex and around the
  exchange with the SAS) and \<open>Cbrs_Agent\<close> (\<open>cbsd_agent.cpp\<close>). \<open>Cbrs_Proxy_Safety\<close> shows, for any service
  with fresh identifiers, that entries follow the documented life cycle and that identifiers are
  exclusive; \<open>Cbrs_Agreement\<close> that device and proxy agree on the state. \<open>Cbrs_System\<close> has the properties.

  \<^bold>\<open>UPF fast path\<close> (\<open>5g-simulator/src/upf_fastpath\<close>): \<open>Upf_Rules\<close>, \<open>Upf_Stats\<close>, \<open>Upf_Ring\<close> (the ring as a
  queue), \<open>Upf_Ring_Threads\<close> (the ring as atomic loads and stores of two threads), \<open>Upf_Paths\<close> (socket path,
  DPDK path with its mbuf pool, and the loop of \<open>dpdk_compat.h\<close>), \<open>Upf_Path_Laws\<close> (both refine one bounded
  forwarder), \<open>Upf_Drivers\<close> (starting, stopping and feeding a path from a second thread, as a locale over
  the operations of a path) and \<open>Upf_Demo\<close> (the demo and the benchmark). \<open>Upf_System\<close> and \<open>Upf_Demo\<close> have
  the properties.

  \<^bold>\<open>5G core\<close> (\<open>5g-simulator/src\<close>): \<open>Core5g_Base\<close> (authentication vectors, identities, HTTP), \<open>Core5g_Nrf\<close>,
  \<open>Core5g_Udm\<close>, \<open>Core5g_Smf\<close>, \<open>Core5g_Pfcp\<close> (N4 on both sides and the UPF server), \<open>Core5g_Amf\<close>,
  \<open>Core5g_Gnb\<close>. \<open>Core5g_Flow\<close> runs the procedures of the gNB against the model of the core, message by
  message; \<open>Core5g_System\<close> has the properties. What the services read from the network is an argument of
  their handlers, and the environment and the NRF give them their peers.

  \<^bold>\<open>4G core\<close> (\<open>4g-simulator/src\<close>): \<open>Epc_Tlv\<close> (\<open>tlv.h\<close>; a reader can run over the end of its buffer, where
  the bytes it finds are an argument, \<open>stray\<close>), \<open>Epc_Gateways\<close> (S-GW, P-GW, PCRF, HSS), \<open>Epc_Store\<close>
  (\<open>ue_context.h\<close>, \<open>ue_context_store.h\<close>; the pointer to the subscriber profile, which is only logged, is left
  out), \<open>Epc_Mme\<close>, \<open>Epc_Enb\<close>, \<open>Epc_S1ap\<close> (the genuine NAS and S1AP bytes of the capture). \<open>Epc_Flow\<close>,
  \<open>Epc_Schedule\<close> and \<open>Epc_Attach\<close> lead attach and handover through every fair schedule of the two ends of
  S1 (8 and 9 rounds, given in the statements); \<open>Epc_Safety\<close> bounds what any payload can change.
  \<open>Epc_Boot\<close> is the start and shutdown of the six node threads as steps on flags, connections and condition
  variables. \<open>Epc_System\<close> and \<open>Epc_Boot\<close> have the properties. \<open>Wire_Structs\<close> is the first, packed
  wire format (\<open>message.h\<close>); \<open>Obs_Metrics\<close> the batch metrics, the scrape endpoint and the
  fault injection; \<open>Oran_E2\<close> the E2 agent and its xApp; \<open>Cli_Scenario\<close> and \<open>Cli_Main\<close> the scenario files and
  the command line; \<open>Pool_Threads\<close>, \<open>Pool_Backlog\<close> and \<open>Pool_System\<close> the thread pool and a bounded queue
  under every interleaving (a run takes at most \<open>pool_work\<close>, respectively \<open>8 * n + 14\<close>, effective steps).

  \<^bold>\<open>IMS\<close> (\<open>ims-simulator/src\<close>): \<open>Ims_Sip\<close> (messages), \<open>Ims_Text\<close> (SIP texts of the capture), \<open>Ims_Scscf\<close>
  (registrar, calls, application server, Cx), \<open>Ims_Pcscf\<close>, \<open>Ims_Ue\<close>, \<open>Ims_Net\<close> (server and phones: a queue
  for each direction of each connection, a turn for each thread). \<open>Ims_Schedule\<close> shows which turns commute,
  \<open>Ims_Flow\<close>, \<open>Ims_Call\<close> and \<open>Ims_Endings\<close> follow registration, call, hold, video, BYE and
  barring through every fair schedule (4, 9, 8, 7 and 6 rounds), and \<open>Ims_Identity\<close> proves an invariant of
  all reachable states, with new connections and console commands at any time. \<open>Ims_Demo\<close> is the scripted
  demonstration \<open>ims_main.cpp\<close>.

  \<^bold>\<open>Across the projects\<close>: \<open>Tcp_Streams\<close> and \<open>Tcp_System\<close> model the socket wrapper on a byte stream that the
  kernel cuts anywhere, and show when a frame may be taken as one unit, as the theories of the nodes do: on
  every connection whose senders take turns; where the P-CSCF lets two threads send at once, it fails.
  \<open>Pcap_Headers\<close>, \<open>Pcap_Writer\<close>, \<open>Pcap_Streams\<close> and \<open>Pcap_System\<close> are the capture files, \<open>Event_Log\<close> the event
  log, \<open>Log_Files\<close> the four loggers with their session files and the way programs end, \<open>Log_Blocks\<close> the boxes that
  the nodes draw around their steps. \<open>Load_Tables\<close>, \<open>Load_Memory\<close>, \<open>Load_Threads\<close>, \<open>Load_Counters\<close>, \<open>Load_Runner\<close>
  and \<open>Load_System\<close> are the performance scenarios of the 4G and the IMS simulator.

  \<^bold>\<open>Conventions.\<close> A C++ integer is a word of its width, a byte string a list of words or of characters; an
  exception or a return code is a constructor of an error type, undefined behaviour is \<open>None\<close>, a loop that
  waits is a step that is not enabled. Arguments of the definitions stand for what the programs take from
  outside: the clock, random numbers, the contents of uninitialised or foreign memory, the order of hash
  tables, floating-point arithmetic, the answers of peers and the table of texts of the event log. Claims about
  threads quantify over every schedule; where a claim needs fairness, the turns are grouped in rounds, and
  the number of rounds is part of the statement.

  \<^bold>\<open>Not modelled.\<close> Drawings on the console and the texts of log lines; socket set-up calls apart from their order; elapsed times
  and percentages of the benchmarks (floating point); the functions of DPDK; the Go services, the Lua and
  Python tools, containers, the IPsec laboratory and the question catalogues, which are not part of the C++
  programs. Weak memory orders are taken as sequentially consistent.
\<close>

end
